(* ===== verification/Prelude.thy ===== *)
theory Prelude
  imports Complex_Main "HOL-Library.Word"
begin

text \<open>
  What every component of the development shares: the C integer types as words, the
  Vulkan result codes the layer tests, the collections of facts the component proofs use
  (\<open>afmf_ring\<close> for the index arithmetic of the ring buffers), and generic lemmas on words,
  indices and strings. A C \<open>double\<close> is a \<open>real\<close>: the arithmetic is exact and rounding is not
  modelled. A Vulkan handle is a \<open>nat\<close>, 0 being \<open>VK_NULL_HANDLE\<close>.
\<close>

section \<open>Machine integers and handles\<close>

type_synonym u8 = "8 word"
type_synonym u32 = "32 word"
type_synonym u64 = "64 word"
type_synonym handle = nat

abbreviation (input) VK_NULL_HANDLE :: handle where "VK_NULL_HANDLE \<equiv> 0"
abbreviation (input) UINT32_MAX :: u32 where "UINT32_MAX \<equiv> - 1"
abbreviation (input) UINT64_MAX :: u64 where "UINT64_MAX \<equiv> - 1"

named_theorems afmf_ring

section \<open>Vulkan result codes\<close>

text \<open>
  \<open>VkResult\<close> is a C enum of 32-bit integers; the layer compares results with these codes and
  tests \<open>res < 0\<close> for an error, so a result is an \<open>int\<close> with the values of the Vulkan
  specification.
\<close>

type_synonym vk_result = int

abbreviation (input) VK_SUCCESS :: vk_result where "VK_SUCCESS \<equiv> 0"
abbreviation (input) VK_NOT_READY :: vk_result where "VK_NOT_READY \<equiv> 1"
abbreviation (input) VK_TIMEOUT :: vk_result where "VK_TIMEOUT \<equiv> 2"
abbreviation (input) VK_INCOMPLETE :: vk_result where "VK_INCOMPLETE \<equiv> 5"
abbreviation (input) VK_SUBOPTIMAL_KHR :: vk_result where "VK_SUBOPTIMAL_KHR \<equiv> 1000001003"
abbreviation (input) VK_ERROR_OUT_OF_HOST_MEMORY :: vk_result where "VK_ERROR_OUT_OF_HOST_MEMORY \<equiv> - 1"
abbreviation (input) VK_ERROR_OUT_OF_DEVICE_MEMORY :: vk_result where "VK_ERROR_OUT_OF_DEVICE_MEMORY \<equiv> - 2"
abbreviation (input) VK_ERROR_INITIALIZATION_FAILED :: vk_result where "VK_ERROR_INITIALIZATION_FAILED \<equiv> - 3"
abbreviation (input) VK_ERROR_DEVICE_LOST :: vk_result where "VK_ERROR_DEVICE_LOST \<equiv> - 4"
abbreviation (input) VK_ERROR_EXTENSION_NOT_PRESENT :: vk_result where "VK_ERROR_EXTENSION_NOT_PRESENT \<equiv> - 7"
abbreviation (input) VK_ERROR_OUT_OF_DATE_KHR :: vk_result where "VK_ERROR_OUT_OF_DATE_KHR \<equiv> - 1000001004"

section \<open>Index arithmetic of a ring\<close>

lemma mod_succ_eq_if: "x < n \<Longrightarrow> (x + 1) mod n = (if x + 1 = n then 0 else x + 1)" for x n :: nat
  by auto

lemma mod_add_Suc_left [afmf_ring]: "((h + 1) mod n + i) mod n = (h + Suc i) mod n" for h i n :: nat
  by (simp add: mod_simps)

lemma mod_less_ring [afmf_ring]: "0 < n \<Longrightarrow> (h + c) mod n < n" for h c n :: nat
  by simp

lemma ring_index_inj:
  fixes h n :: nat
  assumes "(h + i) mod n = (h + j) mod n" and "i < n" and "j < n"
  shows "i = j"
proof -
  have *: "a = b" if "(h + a) mod n = (h + b) mod n" "a \<le> b" "b < n" for a b
  proof -
    from that(1,2) have "n dvd (h + b) - (h + a)"
      by (metis add_le_cancel_left mod_eq_dvd_iff_nat)
    then have "n dvd b - a" by simp
    moreover have "b - a < n" using that(3) by simp
    ultimately have "b - a = 0" by (metis dvd_imp_le gr0I leD)
    with that(2) show "a = b" by simp
  qed
  show ?thesis
  proof (cases "i \<le> j")
    case True
    with * assms show ?thesis by blast
  next
    case False
    then have "j \<le> i" by simp
    with * assms show ?thesis by metis
  qed
qed

section \<open>Words\<close>

lemma word_sub_less: "b \<noteq> 0 \<Longrightarrow> b \<le> a \<Longrightarrow> unat (a - b) < unat a" for a b :: "'a::len word"
  by (metis diff_less unat_gt_0 unat_sub word_gt_0 order.strict_trans2 word_le_nat_alt)

lemma unat_of_int_bounded:
  assumes "0 \<le> i" and "i < 2 ^ LENGTH('a)"
  shows "unat (of_int i :: 'a::len word) = nat i"
  using assms by (simp add: take_bit_int_eq_self unsigned_of_int)

lemma word_of_nat_le_bound: "n < 2 ^ LENGTH('a) \<Longrightarrow> unat (of_nat n :: 'a::len word) = n"
  by (simp add: take_bit_nat_eq_self unsigned_of_nat)

end
