(* ===== verification/Vulkan.thy ===== *)
theory Vulkan
  imports Prelude "HOL-Library.State_Monad"
begin

text \<open>
  The Vulkan vocabulary the layer uses and the effects its code has: the enumerations and
  structures it reads and writes, the driver calls, the commands it records, the locks it takes,
  and the state every operation runs in. The driver is not part of the program: it is the
  parameter \<open>eff_driver\<close> of the state, any function from a call and the state of the world to a
  result, an output and the next state of the world. Every call, lock operation and recorded
  command is appended to a trace, so a theorem can speak of what the layer did and in what order.
\<close>

section \<open>Enumerations and structures\<close>

type_synonym present_mode = int

abbreviation (input) PRESENT_MODE_MAILBOX :: present_mode where "PRESENT_MODE_MAILBOX \<equiv> 1"
abbreviation (input) PRESENT_MODE_FIFO :: present_mode where "PRESENT_MODE_FIFO \<equiv> 2"
abbreviation (input) PRESENT_MODE_FIFO_RELAXED :: present_mode where "PRESENT_MODE_FIFO_RELAXED \<equiv> 3"
abbreviation (input) PRESENT_MODE_SHARED_DEMAND_REFRESH :: present_mode
  where "PRESENT_MODE_SHARED_DEMAND_REFRESH \<equiv> 1000111000"
abbreviation (input) PRESENT_MODE_SHARED_CONTINUOUS_REFRESH :: present_mode
  where "PRESENT_MODE_SHARED_CONTINUOUS_REFRESH \<equiv> 1000111001"

datatype image_layout =
    LAYOUT_UNDEFINED | LAYOUT_GENERAL | LAYOUT_TRANSFER_SRC | LAYOUT_TRANSFER_DST | LAYOUT_PRESENT_SRC

datatype access = SHADER_READ | SHADER_WRITE | TRANSFER_READ | TRANSFER_WRITE

datatype stage = TOP_OF_PIPE | COMPUTE_SHADER | TRANSFER | BOTTOM_OF_PIPE

datatype vk_format =
    R8G8B8A8_UNORM | R8G8B8A8_SRGB | B8G8R8A8_UNORM | B8G8R8A8_SRGB | A2B10G10R10_UNORM_PACK32
  | R16G16B16A16_SFLOAT | R8_UINT | R16G16_SINT | R32_UINT | R32_SFLOAT | OTHER_FORMAT int

datatype image_usage =
    USAGE_TRANSFER_SRC | USAGE_TRANSFER_DST | USAGE_SAMPLED | USAGE_STORAGE | OTHER_USAGE nat

record timespec =
  tv_sec :: int
  tv_nsec :: int

record extent2d =
  width :: u32
  height :: u32

text \<open>What may hang off \<open>VkPresentInfoKHR\<close>; an array member is its first element, \<open>None\<close> for NULL.\<close>

datatype present_node =
    PresentId "u64 option"
  | PresentId2 "u64 option"
  | PresentModeInfo nat "present_mode option" \<comment> \<open>swapchain count, first mode\<close>
  | PresentFenceInfo "handle option"
  | PresentTimings nat "nat option" \<comment> \<open>swapchain count, first timing request (opaque)\<close>
  | PresentRegions
  | OtherPresentNode int \<comment> \<open>any other sType\<close>

record present_info =
  pi_waits :: "handle list"
  pi_swapchains :: "handle list"
  pi_images :: "nat list"
  pi_next :: "present_node list"

text \<open>
  What may hang off \<open>VkSwapchainCreateInfoKHR\<close>: the list of present modes, the other structures the
  layer knows, each with an opaque payload, and anything else.
\<close>

datatype create_node =
    PresentModesCreateInfo "present_mode list"
  | PresentScalingCreateInfo nat
  | ImageFormatListCreateInfo nat
  | ImageCompressionControl nat
  | DeviceGroupSwapchainCreateInfo nat
  | SwapchainCounterCreateInfo nat
  | SwapchainDisplayNativeHdrCreateInfo nat
  | SwapchainLatencyCreateInfo nat
  | SwapchainPresentBarrierCreateInfo nat
  | OtherCreateNode int

datatype sharing_mode = SHARING_EXCLUSIVE | SHARING_CONCURRENT

record swapchain_create_info =
  ci_next :: "create_node list"
  ci_surface :: handle
  ci_min_image_count :: u32
  ci_format :: vk_format
  ci_extent :: extent2d
  ci_array_layers :: u32
  ci_usage :: "image_usage set"
  ci_sharing :: sharing_mode
  ci_families :: "u32 list"
  ci_present_mode :: present_mode

record submit_info =
  si_waits :: "handle list"
  si_cmds :: "handle list"
  si_signals :: "handle list"

text \<open>
  What \<open>vkCreateDevice\<close> is asked for: the chain, the queues, the extensions and the features, of which
  the layer reads two.
\<close>

record device_features =
  feat_storage_write_without_format :: bool
  feat_shader_int16 :: bool
  feat_rest :: nat

datatype device_node =
    LoaderLinkInfo "nat option" \<comment> \<open>\<open>pLayerInfo\<close>, \<open>None\<close> for NULL\<close>
  | LoaderDataCallback bool \<comment> \<open>whether the callback is there\<close>
  | PhysicalDeviceFeatures2 device_features
  | OtherDeviceNode int

datatype queue_node = GlobalPriorityHigh | OtherQueueNode int

record queue_create_info =
  qc_next :: "queue_node list"
  qc_family :: u32
  qc_count :: u32
  qc_protected :: bool
  qc_priorities :: "real list"

record device_create_info =
  di_next :: "device_node list"
  di_queues :: "queue_create_info list"
  di_extensions :: "string list"
  di_features :: "device_features option"

section \<open>Recorded commands and driver calls\<close>

datatype vk_cmd =
    CmdImageBarrier handle image_layout image_layout "access set" "access set" "stage set" "stage set"
  | CmdMemoryBarrier "access set" "access set" "stage set" "stage set"
  | CmdCopyImage handle image_layout handle image_layout extent2d
  | CmdClearColorImage handle image_layout
  | CmdPushConstants handle "real list"
  | CmdBindPipeline handle
  | CmdBindDescriptorSet handle handle "u32 list"
  | CmdDispatch u32 u32 u32
  | CmdCopyImageToBuffer handle image_layout handle nat extent2d
  | CmdExecuteCommands handle
  | CmdResetQueryPool nat nat
  | CmdWriteTimestamp nat

datatype obj_kind =
    OSemaphore | OFence | OCommandPool | OImage | OMemory | OImageView | OBuffer | OSampler
  | ODescriptorPool | OQueryPool | OSwapchain | OShaderModule | OSetLayout | OPipelineLayout | OPipeline

datatype descriptor_type = SAMPLED | STORAGE | COMBINED | UBO

text \<open>
  One entry of \<open>vkUpdateDescriptorSets\<close>: the set, the binding, the type, the view (or the buffer) and
  the sampler.
\<close>

datatype descriptor_write = Write (write_set: handle) (write_binding: nat) (write_type: descriptor_type)
  (write_object: handle) (write_sampler: handle)

text \<open>The application's submissions the layer passes on.\<close>

datatype submit_kind = Submit | Submit2 | Submit2KHR | BindSparse

datatype vk_call =
    AcquireNextImage handle u64 handle handle \<comment> \<open>swapchain, timeout, semaphore, fence\<close>
  | AcquireNextImage2 handle u64 handle handle
  | GetSwapchainImages handle
  | WaitForFences handle u64
  | ResetFences handle
  | QueueSubmit handle submit_info handle
  | QueuePresent handle present_info
  | QueueWaitIdle handle
  | BeginCommandBuffer handle
  | EndCommandBuffer handle
  | CreateSwapchain swapchain_create_info
  | CreateObj obj_kind \<comment> \<open>a semaphore, a fence, a sampler, a query pool\<close>
  | CreateImage vk_format extent2d "image_usage set"
  | CreateImageView handle vk_format
  | CreateBuffer nat \<comment> \<open>size\<close>
  | GetMemoryTypeBits handle \<comment> \<open>memory requirements of an image or a buffer: the types allowed\<close>
  | AllocateMemory nat \<comment> \<open>memory type index\<close>
  | CreateCommandPool u32 \<comment> \<open>queue family\<close>
  | AllocateCommandBuffers handle nat bool \<comment> \<open>pool, count, secondary\<close>
  | CreateDescriptorPool "(descriptor_type \<times> nat) list" nat \<comment> \<open>descriptors per type, sets\<close>
  | AllocateDescriptorSets handle "handle list" \<comment> \<open>pool, layouts\<close>
  | UpdateDescriptorSets "descriptor_write list"
  | CreateShaderModule string \<comment> \<open>the name of the generated SPIR-V\<close>
  | CreateSetLayout "descriptor_type list"
  | CreatePipelineLayout handle nat \<comment> \<open>set layout, bytes of push constants\<close>
  | CreateComputePipeline handle handle "nat option" \<comment> \<open>module, layout, specialization constant\<close>
  | DestroyObj obj_kind handle
  | GetQueryPoolResults handle nat nat \<comment> \<open>pool, first query, count\<close>
  | MapMemory handle
  | UnmapMemory handle
  | BindMemory handle handle
  | SetLoaderData handle
  | PthreadCreate
  | PthreadJoin
  | MakeDumpDir \<comment> \<open>\<open>mkdir\<close>: 0, or \<open>errno\<close>\<close>
  | RemoveDumpTrigger \<comment> \<open>\<open>remove\<close> of the trigger file\<close>
  | CreateInstance nat \<comment> \<open>the loader's chain link it starts from\<close>
  | DestroyInstance
  | CreateSurface string \<comment> \<open>the command of the platform\<close>
  | CreateDevice device_create_info nat \<comment> \<open>the loader's chain link it starts from\<close>
  | DestroyDevice
  | GetDeviceQueue u32 u32
  | GetDeviceQueue2 u32 u32
  | DeviceWaitIdle
  | AppSubmit submit_kind handle nat \<comment> \<open>the application's own, its arguments opaque\<close>

datatype lock = RegistryLock | DevLock | WorkLock | WsiTurn | WsiLock | AsyncLock | JobLock

datatype event =
    Called vk_call vk_result nat
  | Locked lock
  | Unlocked lock
  | Recorded handle vk_cmd

section \<open>The state of the effects\<close>

record 'w eff =
  eff_driver :: "vk_call \<Rightarrow> 'w \<Rightarrow> (vk_result \<times> nat) \<times> 'w"
  eff_clock :: "'w \<Rightarrow> timespec option \<times> 'w"
  eff_world :: 'w
  eff_trace :: "event list"
  eff_array :: "nat \<Rightarrow> nat \<Rightarrow> handle" \<comment> \<open>the array a call wrote, from its answer\<close>

type_synonym ('w, 'e, 'a) act = "(('w, 'e) eff_scheme, 'a) state"

abbreviation (input) "return \<equiv> State_Monad.return"
abbreviation (input) "get_state \<equiv> State_Monad.get"
abbreviation (input) "put_state \<equiv> State_Monad.set"

definition gets :: "('s \<Rightarrow> 'a) \<Rightarrow> ('s, 'a) state" where
  "gets f = State (\<lambda>s. (f s, s))"

definition modify :: "('s \<Rightarrow> 's) \<Rightarrow> ('s, unit) state" where
  "modify f = State (\<lambda>s. ((), f s))"

definition emit :: "event \<Rightarrow> ('w, 'e, unit) act" where
  "emit e = modify (\<lambda>s. s\<lparr>eff_trace := eff_trace s @ [e]\<rparr>)"

definition vk_full :: "vk_call \<Rightarrow> ('w, 'e, vk_result \<times> nat) act" where
  "vk_full c = State (\<lambda>s. case eff_driver s c (eff_world s) of ((r, out), w) \<Rightarrow>
     ((r, out), s\<lparr>eff_world := w, eff_trace := eff_trace s @ [Called c r out]\<rparr>))"

definition vk :: "vk_call \<Rightarrow> ('w, 'e, vk_result) act" where
  "vk c = do { (r, out) \<leftarrow> vk_full c; return r }"

text \<open>The first \<open>n\<close> handles of the array a call wrote.\<close>

definition array_of :: "nat \<Rightarrow> nat \<Rightarrow> ('w, 'e, handle list) act" where
  "array_of answer n = gets (\<lambda>s. map (eff_array s answer) [0..<n])"

text \<open>
  \<open>clock_gettime\<close> of the monotonic clock, \<open>None\<close> when it fails; where the code ignores the result,
  a failure leaves the caller's variable as it was, here the zero time.
\<close>

definition clock_checked :: "('w, 'e, timespec option) act" where
  "clock_checked = State (\<lambda>s. case eff_clock s (eff_world s) of (t, w) \<Rightarrow> (t, s\<lparr>eff_world := w\<rparr>))"

definition clock_gettime :: "('w, 'e, timespec) act" where
  "clock_gettime = do { t \<leftarrow> clock_checked;
                        return (case t of None \<Rightarrow> \<lparr>tv_sec = 0, tv_nsec = 0\<rparr> | Some now \<Rightarrow> now) }"

abbreviation lock_mutex :: "lock \<Rightarrow> ('w, 'e, unit) act" where "lock_mutex l \<equiv> emit (Locked l)"
abbreviation unlock_mutex :: "lock \<Rightarrow> ('w, 'e, unit) act" where "unlock_mutex l \<equiv> emit (Unlocked l)"

primrec record_cmds :: "handle \<Rightarrow> vk_cmd list \<Rightarrow> ('w, 'e, unit) act" where
  "record_cmds cb [] = return ()"
| "record_cmds cb (c # cs) = do { emit (Recorded cb c); record_cmds cb cs }"

abbreviation whenb :: "bool \<Rightarrow> ('s, unit) state \<Rightarrow> ('s, unit) state" where
  "whenb b m \<equiv> (if b then m else return ())"

section \<open>Running an action\<close>

lemma run_bind [simp]: "run_state (State_Monad.bind m f) s = (case run_state m s of (a, s') \<Rightarrow> run_state (f a) s')"
  by (simp add: State_Monad.bind_def)

lemma run_gets [simp]: "run_state (gets f) s = (f s, s)"
  by (simp add: gets_def)

lemma run_modify [simp]: "run_state (modify f) s = ((), f s)"
  by (simp add: modify_def)

lemma run_emit [simp]: "run_state (emit e) s = ((), s\<lparr>eff_trace := eff_trace s @ [e]\<rparr>)"
  by (simp add: emit_def)

lemma run_vk_full:
  "run_state (vk_full c) s = (case eff_driver s c (eff_world s) of ((r, out), w) \<Rightarrow>
     ((r, out), s\<lparr>eff_world := w, eff_trace := eff_trace s @ [Called c r out]\<rparr>))"
  by (simp add: vk_full_def)

lemma run_vk:
  "run_state (vk c) s = (case eff_driver s c (eff_world s) of ((r, out), w) \<Rightarrow>
     (r, s\<lparr>eff_world := w, eff_trace := eff_trace s @ [Called c r out]\<rparr>))"
  by (simp add: vk_def run_vk_full split: prod.split)

lemma run_clock_checked:
  "run_state clock_checked s = (case eff_clock s (eff_world s) of (t, w) \<Rightarrow> (t, s\<lparr>eff_world := w\<rparr>))"
  by (simp add: clock_checked_def)

lemma run_clock:
  "run_state clock_gettime s = (case eff_clock s (eff_world s) of (t, w) \<Rightarrow>
     (case t of None \<Rightarrow> \<lparr>tv_sec = 0, tv_nsec = 0\<rparr> | Some now \<Rightarrow> now, s\<lparr>eff_world := w\<rparr>))"
  by (simp add: clock_gettime_def run_clock_checked split: prod.split)

lemma run_record_cmds [simp]:
  "run_state (record_cmds cb cs) s = ((), s\<lparr>eff_trace := eff_trace s @ map (Recorded cb) cs\<rparr>)"
  by (induction cs arbitrary: s) auto

lemmas run_effects = run_vk run_vk_full run_clock run_clock_checked

section \<open>What an action keeps\<close>

text \<open>
  \<open>keeps P m\<close>: running \<open>m\<close> from a state with \<open>P\<close> ends in a state with \<open>P\<close>. The rules below
  decompose an action along its structure, so that an invariant of a long operation is a proof
  about its primitive effects.
\<close>

definition keeps :: "('s \<Rightarrow> bool) \<Rightarrow> ('s, 'a) state \<Rightarrow> bool" where
  "keeps P m \<longleftrightarrow> (\<forall>s. P s \<longrightarrow> P (snd (run_state m s)))"

named_theorems keeps_intros

lemma keepsI: "(\<And>s. P s \<Longrightarrow> P (snd (run_state m s))) \<Longrightarrow> keeps P m"
  by (simp add: keeps_def)

lemma keepsD: "keeps P m \<Longrightarrow> P s \<Longrightarrow> P (snd (run_state m s))"
  by (simp add: keeps_def)

lemma keeps_run: "keeps P m \<Longrightarrow> P s \<Longrightarrow> run_state m s = (a, s') \<Longrightarrow> P s'"
  by (metis keepsD snd_conv)

lemma keeps_return [keeps_intros]: "keeps P (return a)"
  by (simp add: keeps_def)

lemma keeps_bind [keeps_intros]:
  "keeps P m \<Longrightarrow> (\<And>a. keeps P (f a)) \<Longrightarrow> keeps P (State_Monad.bind m f)"
  by (force simp: keeps_def split: prod.split)

lemma keeps_gets [keeps_intros]: "keeps P (gets f)"
  by (simp add: keeps_def)

lemma keeps_if [keeps_intros]: "(b \<Longrightarrow> keeps P m) \<Longrightarrow> (\<not> b \<Longrightarrow> keeps P n) \<Longrightarrow> keeps P (if b then m else n)"
  by simp

lemma keeps_modify: "(\<And>s. P s \<Longrightarrow> P (f s)) \<Longrightarrow> keeps P (modify f)"
  by (simp add: keeps_def)

lemma keeps_option [keeps_intros]:
  "(\<And>x. o' = Some x \<Longrightarrow> keeps P (f x)) \<Longrightarrow> (o' = None \<Longrightarrow> keeps P m) \<Longrightarrow>
     keeps P (case o' of None \<Rightarrow> m | Some x \<Rightarrow> f x)"
  by (cases o') auto

lemma keeps_prod [keeps_intros]: "(\<And>x y. p = (x, y) \<Longrightarrow> keeps P (f x y)) \<Longrightarrow> keeps P (case p of (x, y) \<Rightarrow> f x y)"
  by (cases p) auto

text \<open>A property that does not look at the effects is kept by every effect.\<close>

definition effect_free :: "(('w, 'e) eff_scheme \<Rightarrow> bool) \<Rightarrow> bool" where
  "effect_free P \<longleftrightarrow> (\<forall>s w tr. P (s\<lparr>eff_world := w, eff_trace := tr\<rparr>) = P s)"

lemma effect_free_trace: "effect_free P \<Longrightarrow> P (s\<lparr>eff_trace := tr\<rparr>) = P s"
  unfolding effect_free_def by (metis eff.surjective eff.update_convs(3))

lemma effect_free_world: "effect_free P \<Longrightarrow> P (s\<lparr>eff_world := w\<rparr>) = P s"
  unfolding effect_free_def by (metis eff.surjective eff.update_convs(4))

lemma keeps_emit [keeps_intros]: "effect_free P \<Longrightarrow> keeps P (emit e)"
  by (simp add: keeps_def effect_free_trace)

lemma keeps_vk_full [keeps_intros]: "effect_free P \<Longrightarrow> keeps P (vk_full c)"
  by (simp add: keeps_def run_vk_full effect_free_def split: prod.split)

lemma keeps_vk [keeps_intros]: "effect_free P \<Longrightarrow> keeps P (vk c)"
  unfolding vk_def by (intro keeps_intros)

lemma keeps_clock_checked [keeps_intros]: "effect_free P \<Longrightarrow> keeps P clock_checked"
  by (simp add: keeps_def run_clock_checked effect_free_world split: prod.split)

lemma keeps_clock [keeps_intros]: "effect_free P \<Longrightarrow> keeps P clock_gettime"
  unfolding clock_gettime_def by (intro keeps_intros)

lemma keeps_record_cmds [keeps_intros]: "effect_free P \<Longrightarrow> keeps P (record_cmds cb cs)"
  by (simp add: keeps_def effect_free_trace)

section \<open>What an action emits\<close>

text \<open>\<open>emits P m\<close>: whatever \<open>m\<close> runs from, it only appends events with \<open>P\<close> to the trace.\<close>

definition emits :: "(event \<Rightarrow> bool) \<Rightarrow> ('w, 'e, 'a) act \<Rightarrow> bool" where
  "emits P m \<longleftrightarrow> (\<forall>s. \<exists>tr. eff_trace (snd (run_state m s)) = eff_trace s @ tr \<and> list_all P tr)"

named_theorems emits_intros

lemma emitsD: "emits P m \<Longrightarrow> run_state m s = (a, s') \<Longrightarrow> \<exists>tr. eff_trace s' = eff_trace s @ tr \<and> list_all P tr"
  unfolding emits_def by (metis snd_conv)

lemma emits_bind [emits_intros]:
  assumes m: "emits P m" and f: "\<And>a. emits P (f a)"
  shows "emits P (State_Monad.bind m f)"
  unfolding emits_def
proof
  fix s
  obtain a s1 where r: "run_state m s = (a, s1)" by fastforce
  obtain tr where tr: "eff_trace s1 = eff_trace s @ tr" "list_all P tr" using emitsD [OF m r] by blast
  obtain tr' where "eff_trace (snd (run_state (f a) s1)) = eff_trace s1 @ tr'" "list_all P tr'"
    using f [of a] unfolding emits_def by blast
  then show "\<exists>tr. eff_trace (snd (run_state (State_Monad.bind m f) s)) = eff_trace s @ tr \<and> list_all P tr"
    using tr r by (intro exI [of _ "tr @ tr'"]) simp
qed

lemma emits_return [emits_intros]: "emits P (return a)"
  by (simp add: emits_def)

lemma emits_gets [emits_intros]: "emits P (gets f)"
  by (simp add: emits_def)

lemma emits_modify: "(\<And>s. eff_trace (f s) = eff_trace s) \<Longrightarrow> emits P (modify f)"
  by (simp add: emits_def)

lemma emits_emit [emits_intros]: "P e \<Longrightarrow> emits P (emit e)"
  by (simp add: emits_def)

lemma emits_vk_full [emits_intros]: "(\<And>r out. P (Called c r out)) \<Longrightarrow> emits P (vk_full c)"
  by (simp add: emits_def run_vk_full split: prod.split)

lemma emits_vk [emits_intros]: "(\<And>r out. P (Called c r out)) \<Longrightarrow> emits P (vk c)"
  by (simp add: emits_def run_vk split: prod.split)

lemma emits_clock [emits_intros]: "emits P clock_gettime" "emits P clock_checked"
  by (simp_all add: emits_def run_clock run_clock_checked split: prod.split)

lemma emits_record_cmds [emits_intros]: "(\<And>c. P (Recorded cb c)) \<Longrightarrow> emits P (record_cmds cb cs)"
  by (simp add: emits_def list_all_iff)

lemma emits_if [emits_intros]: "(b \<Longrightarrow> emits P m) \<Longrightarrow> (\<not> b \<Longrightarrow> emits P n) \<Longrightarrow> emits P (if b then m else n)"
  by simp

lemma emits_prod [emits_intros]: "(\<And>x y. p = (x, y) \<Longrightarrow> emits P (f x y)) \<Longrightarrow> emits P (case p of (x, y) \<Rightarrow> f x y)"
  by (cases p) auto

lemma emits_option [emits_intros]:
  "(p = None \<Longrightarrow> emits P m) \<Longrightarrow> (\<And>x. p = Some x \<Longrightarrow> emits P (f x)) \<Longrightarrow>
     emits P (case p of None \<Rightarrow> m | Some x \<Rightarrow> f x)"
  by (cases p) auto

text \<open>Neither a submission nor a present.\<close>

fun quiet :: "event \<Rightarrow> bool" where
  "quiet (Called (QueueSubmit q si f) r out) = False"
| "quiet (Called (QueuePresent q i) r out) = False"
| "quiet (Called (QueueWaitIdle q) r out) = False"
| "quiet (Called DeviceWaitIdle r out) = False"
| "quiet (Called (AppSubmit k q n) r out) = False"
| "quiet e = True"

lemma quiet_simps [simp]:
  "quiet (Locked l)" "quiet (Unlocked l)" "quiet (Recorded cb c)"
  by simp_all

text \<open>The successful submissions and all presents of a run.\<close>

fun submits :: "event list \<Rightarrow> (submit_info \<times> handle) list" where
  "submits [] = []"
| "submits (Called (QueueSubmit q si f) r out # es) = (if r = VK_SUCCESS then [(si, f)] else []) @ submits es"
| "submits (e # es) = submits es"

fun presents :: "event list \<Rightarrow> present_info list" where
  "presents [] = []"
| "presents (Called (QueuePresent q i) r out # es) = i # presents es"
| "presents (e # es) = presents es"

lemma submits_append [simp]: "submits (es @ fs) = submits es @ submits fs"
  by (induction es rule: submits.induct) auto

lemma presents_append [simp]: "presents (es @ fs) = presents es @ presents fs"
  by (induction es rule: presents.induct) auto

lemma submits_quiet: "list_all quiet es \<Longrightarrow> submits es = []"
  by (induction es rule: submits.induct) auto

lemma presents_quiet: "list_all quiet es \<Longrightarrow> presents es = []"
  by (induction es rule: presents.induct) auto

section \<open>Steps and results\<close>

lemma run_bindE:
  assumes "run_state (State_Monad.bind m f) s = (b, s')"
  obtains a s1 where "run_state m s = (a, s1)" and "run_state (f a) s1 = (b, s')"
  using assms by (auto split: prod.splits)

text \<open>\<open>gives Q m\<close>: whatever \<open>m\<close> runs from, its result has \<open>Q\<close>.\<close>

definition gives :: "('a \<Rightarrow> bool) \<Rightarrow> ('s, 'a) state \<Rightarrow> bool" where
  "gives Q m \<longleftrightarrow> (\<forall>s. Q (fst (run_state m s)))"

lemma givesD: "gives Q m \<Longrightarrow> run_state m s = (a, s') \<Longrightarrow> Q a"
  unfolding gives_def by (metis fst_conv)

lemma gives_bind_any: "(\<And>a. gives Q (f a)) \<Longrightarrow> gives Q (State_Monad.bind m f)"
  by (simp add: gives_def case_prod_beta)

lemma gives_bind: "gives P m \<Longrightarrow> (\<And>a. P a \<Longrightarrow> gives Q (f a)) \<Longrightarrow> gives Q (State_Monad.bind m f)"
  by (simp add: gives_def case_prod_beta)

lemma gives_return: "Q a \<Longrightarrow> gives Q (return a)"
  by (simp add: gives_def)

lemma gives_if: "(b \<Longrightarrow> gives Q m) \<Longrightarrow> (\<not> b \<Longrightarrow> gives Q n) \<Longrightarrow> gives Q (if b then m else n)"
  by simp

end
