(* ===== verification/Config.thy ===== *)
theory Config
  imports Prelude
begin

text \<open>
  The configuration (src/src/config.c, src/src/config.h): the enums and \<open>struct afmf_config\<close>,
  the two readers of an environment variable (\<open>read_bounded\<close> over \<open>strtol\<close>, \<open>read_choice\<close> over a
  table of words), and \<open>init\<close>, which reads every variable once. The environment is a partial map
  from names to values; \<open>strtol\<close>, \<open>strcmp\<close>, \<open>strrchr\<close> and \<open>readlink\<close> are the C library's, modelled
  as far as the code uses them. \<open>strdup\<close> is taken to succeed.
  The record's fields carry the prefix \<open>cfg_\<close>.
\<close>

section \<open>The enums and the record\<close>

datatype afmf_performance_mode =
  AFMF_PERFORMANCE_AUTO | AFMF_PERFORMANCE_QUALITY | AFMF_PERFORMANCE_FAST

datatype afmf_search_mode = AFMF_SEARCH_AUTO | AFMF_SEARCH_STANDARD | AFMF_SEARCH_HIGH

datatype afmf_fast_motion_response = AFMF_RESPONSE_REPEAT_FRAMES | AFMF_RESPONSE_BLENDED_FRAMES

datatype afmf_present_mode = AFMF_PRESENT_AUTO | AFMF_PRESENT_KEEP

text \<open>The enumerators' values and the casts from \<open>long\<close> back to the enums.\<close>

fun search_mode_val :: "afmf_search_mode \<Rightarrow> int" where
  "search_mode_val AFMF_SEARCH_AUTO = 0"
| "search_mode_val AFMF_SEARCH_STANDARD = 1"
| "search_mode_val AFMF_SEARCH_HIGH = 2"

definition search_mode_of :: "int \<Rightarrow> afmf_search_mode" where
  "search_mode_of v = (if v = 1 then AFMF_SEARCH_STANDARD else if v = 2 then AFMF_SEARCH_HIGH
                       else AFMF_SEARCH_AUTO)"

fun response_val :: "afmf_fast_motion_response \<Rightarrow> int" where
  "response_val AFMF_RESPONSE_REPEAT_FRAMES = 0"
| "response_val AFMF_RESPONSE_BLENDED_FRAMES = 1"

definition response_of :: "int \<Rightarrow> afmf_fast_motion_response" where
  "response_of v = (if v = 1 then AFMF_RESPONSE_BLENDED_FRAMES else AFMF_RESPONSE_REPEAT_FRAMES)"

fun performance_val :: "afmf_performance_mode \<Rightarrow> int" where
  "performance_val AFMF_PERFORMANCE_AUTO = 0"
| "performance_val AFMF_PERFORMANCE_QUALITY = 1"
| "performance_val AFMF_PERFORMANCE_FAST = 2"

definition performance_of :: "int \<Rightarrow> afmf_performance_mode" where
  "performance_of v = (if v = 1 then AFMF_PERFORMANCE_QUALITY
                       else if v = 2 then AFMF_PERFORMANCE_FAST else AFMF_PERFORMANCE_AUTO)"

fun present_mode_val :: "afmf_present_mode \<Rightarrow> int" where
  "present_mode_val AFMF_PRESENT_AUTO = 0"
| "present_mode_val AFMF_PRESENT_KEEP = 1"

definition present_mode_of :: "int \<Rightarrow> afmf_present_mode" where
  "present_mode_of v = (if v = 1 then AFMF_PRESENT_KEEP else AFMF_PRESENT_AUTO)"

abbreviation (input) AFMF_LOG_ERROR :: int where "AFMF_LOG_ERROR \<equiv> 0"
abbreviation (input) AFMF_LOG_DEBUG :: int where "AFMF_LOG_DEBUG \<equiv> 3"

record afmf_config =
  cfg_log_level :: int
  cfg_extra_images :: u32
  cfg_acquire_timeout_ns :: u64
  cfg_interpolate :: bool
  cfg_search_mode :: afmf_search_mode
  cfg_fast_motion :: afmf_fast_motion_response
  cfg_performance :: afmf_performance_mode
  cfg_dump_dir :: "string option"
  cfg_profile :: bool
  cfg_async :: bool
  cfg_pacing :: bool
  cfg_passive :: bool
  cfg_present_mode :: afmf_present_mode
  cfg_governor :: bool
  cfg_static_block_sad :: u32
  cfg_direct_output :: bool
  cfg_hud_detect :: bool
  cfg_direct_ingest :: bool
  cfg_sad_int16 :: bool
  cfg_min_fps :: u32
  cfg_invalid :: bool

section \<open>The log\<close>

text \<open>
  \<open>afmf_log\<close> (src/src/log.c): the line one call writes to \<open>stderr\<close>, \<open>message\<close> being what \<open>vfprintf\<close> makes of
  its arguments. The other theories leave the calls out.
\<close>

definition log_names :: "string list" where
  "log_names = [''error'', ''warn'', ''info'', ''debug'']"

definition afmf_log :: "afmf_config \<Rightarrow> nat \<Rightarrow> string \<Rightarrow> string option" where
  "afmf_log cfg level message =
     (if int level > cfg_log_level cfg then None
      else Some (''[AFMF '' @ log_names ! level @ ''] '' @ message @ [CHR 0x0A]))"

section \<open>The C library\<close>

abbreviation (input) LONG_MAX :: int where "LONG_MAX \<equiv> 9223372036854775807"
abbreviation (input) LONG_MIN :: int where "LONG_MIN \<equiv> - 9223372036854775808"

definition isspace :: "char \<Rightarrow> bool" where
  "isspace c \<longleftrightarrow> (of_char c :: nat) \<in> {9, 10, 11, 12, 13, 32}"

definition isdigit :: "char \<Rightarrow> bool" where
  "isdigit c \<longleftrightarrow> 48 \<le> (of_char c :: nat) \<and> (of_char c :: nat) \<le> 57"

definition digit_value :: "char \<Rightarrow> int" where
  "digit_value c = int (of_char c) - 48"

definition digits_value :: "string \<Rightarrow> int" where
  "digits_value ds = foldl (\<lambda>v c. 10 * v + digit_value c) 0 ds"

text \<open>
  \<open>strtol(str, &end, 10)\<close>: the value, the rest of the text \<open>end\<close> points at, and whether \<open>errno\<close>
  was set (\<open>ERANGE\<close>, the value then clamped). Without a digit nothing is converted and \<open>end\<close> is
  the whole text.
\<close>

definition strtol10 :: "string \<Rightarrow> int \<times> string \<times> bool" where
  "strtol10 str =
     (let s = dropWhile isspace str;
          neg = (s \<noteq> [] \<and> hd s = CHR ''-'');
          s' = (if s \<noteq> [] \<and> (hd s = CHR ''-'' \<or> hd s = CHR ''+'') then tl s else s);
          ds = takeWhile isdigit s';
          v = (if neg then - digits_value ds else digits_value ds)
      in if ds = [] then (0, str, False)
         else if v > LONG_MAX then (LONG_MAX, dropWhile isdigit s', True)
         else if v < LONG_MIN then (LONG_MIN, dropWhile isdigit s', True)
         else (v, dropWhile isdigit s', False))"

section \<open>Reading a variable\<close>

type_synonym environment = "string \<rightharpoonup> string"

text \<open>Both readers return whether the variable was unset or good, and the new value of \<open>*out\<close>.\<close>

definition read_bounded :: "environment \<Rightarrow> string \<Rightarrow> int \<Rightarrow> int \<Rightarrow> int \<Rightarrow> bool \<times> int" where
  "read_bounded env name mn mx out =
     (case env name of
        None \<Rightarrow> (True, out)
      | Some str \<Rightarrow>
          if str = [] then (False, out)
          else (case strtol10 str of (value, rest, erange) \<Rightarrow>
                  if erange \<or> rest \<noteq> [] \<or> value < mn \<or> value > mx then (False, out)
                  else (True, value)))"

text \<open>\<open>struct choice\<close> is a pair of a word and a value; the first matching entry wins.\<close>

type_synonym choice = "string \<times> int"

fun choice_lookup :: "string \<Rightarrow> choice list \<Rightarrow> int option" where
  "choice_lookup str [] = None"
| "choice_lookup str ((w, v) # cs) = (if str = w then Some v else choice_lookup str cs)"

definition read_choice :: "environment \<Rightarrow> string \<Rightarrow> choice list \<Rightarrow> int \<Rightarrow> bool \<times> int" where
  "read_choice env name choices out =
     (case env name of
        None \<Rightarrow> (True, out)
      | Some str \<Rightarrow> (case choice_lookup str choices of
                        Some v \<Rightarrow> (True, v)
                      | None \<Rightarrow> (False, out)))"

text \<open>
  \<open>process_is_gamescope\<close>: \<open>link\<close> is the target of /proc/self/exe, \<open>None\<close> when \<open>readlink\<close> fails;
  \<open>readlink\<close> gives at most the 4095 bytes of its buffer.
\<close>

definition process_is_gamescope :: "string option \<Rightarrow> bool" where
  "process_is_gamescope link =
     (case link of
        None \<Rightarrow> False
      | Some target \<Rightarrow>
          (let exe = take 4095 target
           in exe \<noteq> [] \<and> rev (takeWhile (\<lambda>c. c \<noteq> CHR ''/'') (rev exe)) = ''gamescope''))"

definition search_modes :: "choice list" where
  "search_modes = [(''auto'', search_mode_val AFMF_SEARCH_AUTO),
                   (''standard'', search_mode_val AFMF_SEARCH_STANDARD),
                   (''high'', search_mode_val AFMF_SEARCH_HIGH)]"

definition responses :: "choice list" where
  "responses = [(''repeat'', response_val AFMF_RESPONSE_REPEAT_FRAMES),
                (''blend'', response_val AFMF_RESPONSE_BLENDED_FRAMES)]"

definition performance_modes :: "choice list" where
  "performance_modes = [(''auto'', performance_val AFMF_PERFORMANCE_AUTO),
                        (''quality'', performance_val AFMF_PERFORMANCE_QUALITY),
                        (''performance'', performance_val AFMF_PERFORMANCE_FAST)]"

definition present_modes :: "choice list" where
  "present_modes = [(''auto'', present_mode_val AFMF_PRESENT_AUTO),
                    (''keep'', present_mode_val AFMF_PRESENT_KEEP)]"

section \<open>The initialisation\<close>

definition init :: "environment \<Rightarrow> string option \<Rightarrow> afmf_config" where
  "init env link =
     (let (ok0, gamescope) = read_bounded env ''AFMF_GAMESCOPE'' 0 1 0;
          (ok1, log_level) = read_bounded env ''AFMF_LOG'' AFMF_LOG_ERROR AFMF_LOG_DEBUG AFMF_LOG_ERROR;
          (ok2, extra_images) = read_bounded env ''AFMF_EXTRA_IMAGES'' 1 8 (if gamescope \<noteq> 0 then 5 else 2);
          (ok3, acquire_timeout_us) = read_bounded env ''AFMF_ACQUIRE_TIMEOUT_US'' 0 100000 0;
          (ok4, interpolate) = read_bounded env ''AFMF_INTERPOLATE'' 0 1 1;
          (ok5, search_mode) = read_choice env ''AFMF_SEARCH_MODE'' search_modes
                                 (search_mode_val AFMF_SEARCH_AUTO);
          (ok6, fast_motion) = read_choice env ''AFMF_FAST_MOTION_RESPONSE'' responses
                                 (response_val AFMF_RESPONSE_BLENDED_FRAMES);
          (ok7, profile) = read_bounded env ''AFMF_PROFILE'' 0 1 0;
          (ok8, async) = read_bounded env ''AFMF_ASYNC'' 0 1 1;
          (ok9, pacing) = read_bounded env ''AFMF_PACING'' 0 1 1;
          (ok10, performance) = read_choice env ''AFMF_PERFORMANCE_MODE'' performance_modes
                                 (performance_val AFMF_PERFORMANCE_AUTO);
          (ok11, present_mode) = read_choice env ''AFMF_PRESENT_MODE'' present_modes
                                 (present_mode_val AFMF_PRESENT_AUTO);
          (ok12, governor) = read_bounded env ''AFMF_GOVERNOR'' 0 1 1;
          (ok13, min_fps) = read_bounded env ''AFMF_MIN_FPS'' 0 240 30;
          (ok14, static_block_sad) = read_bounded env ''AFMF_STATIC_BLOCK_SAD'' 0 16320 128;
          (ok15, direct_output) = read_bounded env ''AFMF_DIRECT_OUTPUT'' 0 1 0;
          (ok16, hud_detect) = read_bounded env ''AFMF_HUD_DETECT'' 0 1 1;
          (ok17, direct_ingest) = read_bounded env ''AFMF_DIRECT_INGEST'' 0 1 1;
          (ok18, sad_int16) = read_bounded env ''AFMF_SAD_INT16'' 0 1 1;
          ok = (ok0 \<and> ok1 \<and> ok2 \<and> ok3 \<and> ok4 \<and> ok5 \<and> ok6 \<and> ok7 \<and> ok8 \<and> ok9 \<and> ok10 \<and> ok11 \<and> ok12
                \<and> ok13 \<and> ok14 \<and> ok15 \<and> ok16 \<and> ok17 \<and> ok18)
      in \<lparr> cfg_log_level = log_level,
           cfg_extra_images = of_int extra_images,
           cfg_acquire_timeout_ns = of_int acquire_timeout_us * 1000,
           cfg_interpolate = (interpolate \<noteq> 0),
           cfg_search_mode = search_mode_of search_mode,
           cfg_fast_motion = response_of fast_motion,
           cfg_performance = performance_of performance,
           cfg_dump_dir = (case env ''AFMF_DUMP_DIR'' of
                         None \<Rightarrow> None | Some dir \<Rightarrow> if dir = [] then None else Some dir),
           cfg_profile = (profile \<noteq> 0 \<or> log_level \<ge> AFMF_LOG_DEBUG),
           cfg_async = (async \<noteq> 0),
           cfg_pacing = (pacing \<noteq> 0),
           cfg_passive = (gamescope \<noteq> 0 \<and> process_is_gamescope link),
           cfg_present_mode = present_mode_of present_mode,
           cfg_governor = (governor \<noteq> 0),
           cfg_static_block_sad = of_int static_block_sad,
           cfg_direct_output = (direct_output \<noteq> 0),
           cfg_hud_detect = (hud_detect \<noteq> 0),
           cfg_direct_ingest = (direct_ingest \<noteq> 0),
           cfg_sad_int16 = (sad_int16 \<noteq> 0),
           cfg_min_fps = of_int min_fps,
           cfg_invalid = (\<not> ok) \<rparr>)"

section \<open>What the readers accept\<close>

text \<open>
  The decimal integers \<open>strtol\<close> understands, stated without the parser: blanks, an optional
  sign, at least one digit, nothing after it.
\<close>

definition int_literal :: "string \<Rightarrow> int \<Rightarrow> bool" where
  "int_literal str v \<longleftrightarrow>
     (\<exists>ws sgn ds. str = ws @ sgn @ ds \<and> list_all isspace ws \<and> sgn \<in> {[], ''+'', ''-''}
        \<and> ds \<noteq> [] \<and> list_all isdigit ds
        \<and> v = (if sgn = ''-'' then - digits_value ds else digits_value ds))"

lemma isdigit_not_space [simp]: "isdigit c \<Longrightarrow> \<not> isspace c"
  by (auto simp: isdigit_def isspace_def)

lemma isdigit_not_sign: "isdigit c \<Longrightarrow> c \<noteq> CHR ''-'' \<and> c \<noteq> CHR ''+''"
  by (auto simp: isdigit_def)

lemma sign_not_space [simp]: "\<not> isspace CHR ''-''" "\<not> isspace CHR ''+''"
  by (auto simp: isspace_def)

lemma dropWhile_list_all [simp]: "list_all P xs \<Longrightarrow> dropWhile P (xs @ ys) = dropWhile P ys"
  by (induction xs) auto

lemma dropWhile_all_Nil [simp]: "list_all P xs \<Longrightarrow> dropWhile P xs = []"
  by (induction xs) auto

lemma takeWhile_all_id [simp]: "list_all P xs \<Longrightarrow> takeWhile P xs = xs"
  by (induction xs) auto

lemma list_all_takeWhile [simp]: "list_all P (takeWhile P xs)"
  by (induction xs) auto

lemma strtol10_literal:
  assumes "int_literal str v"
  shows "strtol10 str = (if v > LONG_MAX then (LONG_MAX, [], True)
                          else if v < LONG_MIN then (LONG_MIN, [], True) else (v, [], False))"
proof -
  from assms obtain ws sgn ds where str_eq: "str = ws @ sgn @ ds" and ws: "list_all isspace ws"
    and sgn: "sgn \<in> {[], ''+'', ''-''}" and ds: "ds \<noteq> []" "list_all isdigit ds"
    and v: "v = (if sgn = ''-'' then - digits_value ds else digits_value ds)"
    by (auto simp: int_literal_def)
  obtain d ds' where ds_eq: "ds = d # ds'" and d: "isdigit d"
    using ds by (cases ds) auto
  have skip: "dropWhile isspace str = sgn @ ds"
    using ws sgn d by (auto simp: str_eq ds_eq)
  have all: "takeWhile isdigit ds = ds" "dropWhile isdigit ds = []"
    using ds(2) by simp_all
  from sgn consider "sgn = []" | "sgn = ''+''" | "sgn = ''-''" by blast
  then show ?thesis
  proof cases
    case 1
    then have "hd (dropWhile isspace str) \<noteq> CHR ''-''" "hd (dropWhile isspace str) \<noteq> CHR ''+''"
      using skip isdigit_not_sign [OF d] by (simp_all add: ds_eq)
    then show ?thesis
      using skip ds(1) 1 v by (simp add: strtol10_def Let_def all)
  next
    case 2
    then show ?thesis using skip ds(1) v by (simp add: strtol10_def Let_def all)
  next
    case 3
    then show ?thesis using skip ds(1) v by (simp add: strtol10_def Let_def all)
  qed
qed

lemma strtol10_complete:
  assumes "strtol10 str = (value, [], erange)" and "str \<noteq> []"
  shows "\<exists>v. int_literal str v"
proof -
  define ws where "ws = takeWhile isspace str"
  define s where "s = dropWhile isspace str"
  define sgn where "sgn = (if s \<noteq> [] \<and> (hd s = CHR ''-'' \<or> hd s = CHR ''+'') then [hd s] else [])"
  define s' where "s' = (if s \<noteq> [] \<and> (hd s = CHR ''-'' \<or> hd s = CHR ''+'') then tl s else s)"
  define ds where "ds = takeWhile isdigit s'"
  have strtol: "\<exists>v e. strtol10 str =
      (if ds = [] then (0, str, False) else (v, dropWhile isdigit s', e))"
    unfolding strtol10_def Let_def s_def [symmetric] s'_def [symmetric] ds_def [symmetric]
    by (simp only: split: if_split) blast
  then have "ds \<noteq> [] \<and> dropWhile isdigit s' = []"
    using assms by (metis Pair_inject)
  then have ds: "ds \<noteq> []" and rest: "dropWhile isdigit s' = []" by simp_all
  have "s' = ds"
    using rest by (metis ds_def append_Nil2 takeWhile_dropWhile_id)
  moreover have "s = sgn @ s'" by (auto simp: sgn_def s'_def)
  moreover have "str = ws @ s" by (simp add: ws_def s_def)
  ultimately have "str = ws @ sgn @ ds" by simp
  moreover have "sgn \<in> {[], ''+'', ''-''}" by (auto simp: sgn_def)
  ultimately show ?thesis
    using ds unfolding int_literal_def ws_def ds_def by (metis list_all_takeWhile)
qed

lemma int_literal_nonempty: "int_literal str v \<Longrightarrow> str \<noteq> []"
  by (auto simp: int_literal_def)

lemma int_literal_unique: "int_literal str v \<Longrightarrow> int_literal str w \<Longrightarrow>
    LONG_MIN \<le> v \<Longrightarrow> v \<le> LONG_MAX \<Longrightarrow> LONG_MIN \<le> w \<Longrightarrow> w \<le> LONG_MAX \<Longrightarrow> v = w"
  using strtol10_literal [of str v] strtol10_literal [of str w] by auto

text \<open>The two readers, every case.\<close>

lemma read_bounded_unset: "env name = None \<Longrightarrow> read_bounded env name mn mx out = (True, out)"
  by (simp add: read_bounded_def)

lemma read_bounded_good:
  assumes "env name = Some str" and "int_literal str v" and "mn \<le> v" and "v \<le> mx"
    and "LONG_MIN \<le> mn" and "mx \<le> LONG_MAX"
  shows "read_bounded env name mn mx out = (True, v)"
  using assms strtol10_literal [OF assms(2)] int_literal_nonempty [OF assms(2)]
  by (simp add: read_bounded_def)

lemma read_bounded_bad:
  assumes "env name = Some str" and "\<And>v. int_literal str v \<Longrightarrow> \<not> (mn \<le> v \<and> v \<le> mx)"
  shows "read_bounded env name mn mx out = (False, out)"
proof (cases "\<exists>v. int_literal str v")
  case True
  then obtain v where v: "int_literal str v" by blast
  with assms(2) have "v < mn \<or> v > mx" by (auto simp: not_le)
  then show ?thesis
    using assms(1) strtol10_literal [OF v] by (auto simp: read_bounded_def)
next
  case False
  then have "str = [] \<or> fst (snd (strtol10 str)) \<noteq> []"
    by (metis prod.collapse strtol10_complete)
  then show ?thesis
    using assms(1) by (auto simp: read_bounded_def split: prod.split)
qed

lemma read_bounded_ok_iff:
  assumes "LONG_MIN \<le> mn" and "mx \<le> LONG_MAX"
  shows "fst (read_bounded env name mn mx out) \<longleftrightarrow>
         (\<forall>str. env name = Some str \<longrightarrow> (\<exists>v. int_literal str v \<and> mn \<le> v \<and> v \<le> mx))"
proof (cases "env name")
  case None
  then show ?thesis by (simp add: read_bounded_unset)
next
  case (Some str)
  show ?thesis
  proof (cases "\<exists>v. int_literal str v \<and> mn \<le> v \<and> v \<le> mx")
    case True
    then show ?thesis using Some assms read_bounded_good by fastforce
  next
    case False
    then show ?thesis using Some by (auto simp: read_bounded_bad)
  qed
qed

lemma read_bounded_range:
  "mn \<le> out \<Longrightarrow> out \<le> mx \<Longrightarrow> read_bounded env name mn mx out = (ok, v) \<Longrightarrow> mn \<le> v \<and> v \<le> mx"
  by (auto simp: read_bounded_def split: option.splits if_splits prod.splits)

lemma choice_lookup_Some: "choice_lookup str cs = Some v \<Longrightarrow> (str, v) \<in> set cs"
  by (induction str cs rule: choice_lookup.induct) (auto split: if_splits)

lemma choice_lookup_None: "choice_lookup str cs = None \<longleftrightarrow> str \<notin> fst ` set cs"
  by (induction str cs rule: choice_lookup.induct) auto

lemma read_choice_ok_iff:
  "fst (read_choice env name cs out) \<longleftrightarrow> (\<forall>str. env name = Some str \<longrightarrow> str \<in> fst ` set cs)"
proof (cases "env name")
  case (Some str)
  then show ?thesis
    using choice_lookup_None [of str cs] by (cases "choice_lookup str cs") (auto simp: read_choice_def)
qed (simp add: read_choice_def)

section \<open>The configuration\<close>

lemmas init_unfold = init_def Let_def case_prod_beta

definition bounded_vars :: "(string \<times> int \<times> int) list" where
  "bounded_vars =
     [(''AFMF_GAMESCOPE'', 0, 1), (''AFMF_LOG'', 0, 3), (''AFMF_EXTRA_IMAGES'', 1, 8),
      (''AFMF_ACQUIRE_TIMEOUT_US'', 0, 100000), (''AFMF_INTERPOLATE'', 0, 1), (''AFMF_PROFILE'', 0, 1),
      (''AFMF_ASYNC'', 0, 1), (''AFMF_PACING'', 0, 1), (''AFMF_GOVERNOR'', 0, 1),
      (''AFMF_MIN_FPS'', 0, 240), (''AFMF_STATIC_BLOCK_SAD'', 0, 16320),
      (''AFMF_DIRECT_OUTPUT'', 0, 1), (''AFMF_HUD_DETECT'', 0, 1), (''AFMF_DIRECT_INGEST'', 0, 1),
      (''AFMF_SAD_INT16'', 0, 1)]"

definition choice_vars :: "(string \<times> string list) list" where
  "choice_vars =
     [(''AFMF_SEARCH_MODE'', [''auto'', ''standard'', ''high'']),
      (''AFMF_FAST_MOTION_RESPONSE'', [''repeat'', ''blend'']),
      (''AFMF_PERFORMANCE_MODE'', [''auto'', ''quality'', ''performance'']),
      (''AFMF_PRESENT_MODE'', [''auto'', ''keep''])]"

lemma init_extra_images:
  "cfg_extra_images (init env link) =
     of_int (snd (read_bounded env ''AFMF_EXTRA_IMAGES'' 1 8
                    (if snd (read_bounded env ''AFMF_GAMESCOPE'' 0 1 0) \<noteq> 0 then 5 else 2)))"
  and init_timeout:
  "cfg_acquire_timeout_ns (init env link) =
     of_int (snd (read_bounded env ''AFMF_ACQUIRE_TIMEOUT_US'' 0 100000 0)) * 1000"
  and init_min_fps:
  "cfg_min_fps (init env link) = of_int (snd (read_bounded env ''AFMF_MIN_FPS'' 0 240 30))"
  and init_static_sad:
  "cfg_static_block_sad (init env link) = of_int (snd (read_bounded env ''AFMF_STATIC_BLOCK_SAD'' 0 16320 128))"
  and init_log_level:
  "cfg_log_level (init env link) = snd (read_bounded env ''AFMF_LOG'' 0 3 0)"
  by (simp_all add: init_unfold)

lemma read_bounded_snd_range:
  "mn \<le> out \<Longrightarrow> out \<le> mx \<Longrightarrow> mn \<le> snd (read_bounded env name mn mx out) \<and> snd (read_bounded env name mn mx out) \<le> mx"
  by (metis prod.collapse read_bounded_range)

lemma unat_of_int_range:
  assumes "a \<le> i" and "i \<le> b" and "0 \<le> a" and "b < 2 ^ LENGTH('n)"
  shows "nat a \<le> unat (of_int i :: 'n::len word) \<and> unat (of_int i :: 'n word) \<le> nat b"
  using assms by (auto simp: unat_of_int_bounded intro: nat_mono)

text \<open>
  C40: Whatever the environment holds, the configuration the layer runs with is in range: one to
  eight extra images, an acquire timeout of at most 100 ms in whole microseconds, a rate floor of
  at most 240 fps, a static-block threshold of at most 64 pixels times 255 levels, a log level
  that indexes the four level names.
\<close>
theorem config_in_range:
  "1 \<le> unat (cfg_extra_images (init env link)) \<and> unat (cfg_extra_images (init env link)) \<le> 8
   \<and> unat (cfg_acquire_timeout_ns (init env link)) \<le> 100000000
   \<and> 1000 dvd unat (cfg_acquire_timeout_ns (init env link))
   \<and> unat (cfg_min_fps (init env link)) \<le> 240
   \<and> unat (cfg_static_block_sad (init env link)) \<le> 64 * 255
   \<and> 0 \<le> cfg_log_level (init env link) \<and> cfg_log_level (init env link) \<le> 3"
proof -
  let ?x = "snd (read_bounded env ''AFMF_EXTRA_IMAGES'' 1 8
                   (if snd (read_bounded env ''AFMF_GAMESCOPE'' 0 1 0) \<noteq> 0 then 5 else 2))"
  let ?t = "snd (read_bounded env ''AFMF_ACQUIRE_TIMEOUT_US'' 0 100000 0)"
  have "1 \<le> ?x \<and> ?x \<le> 8" by (rule read_bounded_snd_range) auto
  then have x: "nat 1 \<le> unat (of_int ?x :: u32) \<and> unat (of_int ?x :: u32) \<le> nat 8"
    by (intro unat_of_int_range) auto
  have t: "0 \<le> ?t \<and> ?t \<le> 100000" by (rule read_bounded_snd_range) auto
  then have "unat (of_int ?t :: u64) = nat ?t" by (intro unat_of_int_bounded) auto
  then have t': "unat (of_int ?t * 1000 :: u64) = nat ?t * 1000"
    using nat_mono [of ?t 100000] t by (simp add: unat_word_ariths)
  have f: "nat 0 \<le> unat (cfg_min_fps (init env link)) \<and> unat (cfg_min_fps (init env link)) \<le> nat 240"
    unfolding init_min_fps by (rule unat_of_int_range) (auto simp: read_bounded_snd_range)
  have b: "nat 0 \<le> unat (cfg_static_block_sad (init env link))
           \<and> unat (cfg_static_block_sad (init env link)) \<le> nat 16320"
    unfolding init_static_sad by (rule unat_of_int_range) (auto simp: read_bounded_snd_range)
  show ?thesis
    using x t t' f b read_bounded_snd_range [of 0 0 3 env "''AFMF_LOG''"]
    by (auto simp: init_extra_images init_timeout init_log_level)
qed

lemma choice_words:
  "fst ` set search_modes = set [''auto'', ''standard'', ''high'']"
  "fst ` set responses = set [''repeat'', ''blend'']"
  "fst ` set performance_modes = set [''auto'', ''quality'', ''performance'']"
  "fst ` set present_modes = set [''auto'', ''keep'']"
  by (simp_all add: search_modes_def responses_def performance_modes_def present_modes_def)

definition bounded_ok :: "environment \<Rightarrow> string \<Rightarrow> int \<Rightarrow> int \<Rightarrow> bool" where
  "bounded_ok env name mn mx = fst (read_bounded env name mn mx 0)"

definition choice_ok :: "environment \<Rightarrow> string \<Rightarrow> choice list \<Rightarrow> bool" where
  "choice_ok env name cs = fst (read_choice env name cs 0)"

lemma fst_read [simp]:
  "fst (read_bounded env name mn mx out) = bounded_ok env name mn mx"
  "fst (read_choice env name cs out) = choice_ok env name cs"
  by (simp_all add: bounded_ok_def choice_ok_def read_bounded_def read_choice_def
        split: option.split prod.split)

lemma init_invalid:
  "cfg_invalid (init env link) \<longleftrightarrow>
     (\<exists>(name, mn, mx) \<in> set bounded_vars. \<not> bounded_ok env name mn mx)
   \<or> \<not> choice_ok env ''AFMF_SEARCH_MODE'' search_modes
   \<or> \<not> choice_ok env ''AFMF_FAST_MOTION_RESPONSE'' responses
   \<or> \<not> choice_ok env ''AFMF_PERFORMANCE_MODE'' performance_modes
   \<or> \<not> choice_ok env ''AFMF_PRESENT_MODE'' present_modes"
proof -
  have "cfg_invalid (init env link) \<longleftrightarrow>
      \<not> (list_all (\<lambda>(name, mn, mx). bounded_ok env name mn mx) bounded_vars
        \<and> choice_ok env ''AFMF_SEARCH_MODE'' search_modes
        \<and> choice_ok env ''AFMF_FAST_MOTION_RESPONSE'' responses
        \<and> choice_ok env ''AFMF_PERFORMANCE_MODE'' performance_modes
        \<and> choice_ok env ''AFMF_PRESENT_MODE'' present_modes)"
    unfolding init_unfold bounded_vars_def
    by (simp only: afmf_config.simps fst_read list.pred_inject prod.case prod.sel simp_thms conj_ac)
  then show ?thesis by (auto simp: list_all_iff)
qed

text \<open>
  The layer reports an invalid configuration exactly when some variable is set to what it
  does not accept: a bounded variable that is not a decimal integer in its range, or a word
  variable that is not one of its words.
\<close>
theorem config_invalid_iff:
  "cfg_invalid (init env link) \<longleftrightarrow>
     (\<exists>(name, mn, mx) \<in> set bounded_vars. \<exists>str. env name = Some str
        \<and> (\<nexists>v. int_literal str v \<and> mn \<le> v \<and> v \<le> mx))
   \<or> (\<exists>(name, words) \<in> set choice_vars. \<exists>str. env name = Some str \<and> str \<notin> set words)"
proof -
  have "LONG_MIN \<le> mn \<and> mx \<le> LONG_MAX" if "(name, mn, mx) \<in> set bounded_vars" for name mn mx
    using that by (auto simp: bounded_vars_def)
  then have "(\<exists>(name, mn, mx) \<in> set bounded_vars. \<not> bounded_ok env name mn mx) \<longleftrightarrow>
    (\<exists>(name, mn, mx) \<in> set bounded_vars. \<exists>str. env name = Some str
        \<and> (\<nexists>v. int_literal str v \<and> mn \<le> v \<and> v \<le> mx))"
    by (intro bex_cong refl) (auto simp: bounded_ok_def read_bounded_ok_iff simp del: fst_read)
  moreover have "\<not> choice_ok env name cs \<longleftrightarrow> (\<exists>str. env name = Some str \<and> str \<notin> fst ` set cs)" for name cs
    by (auto simp: choice_ok_def read_choice_ok_iff simp del: fst_read)
  ultimately show ?thesis
    unfolding init_invalid choice_vars_def by (simp add: choice_words)
qed

end
