(* ===== verification/Device.thy ===== *)
theory Device
  imports Vulkan Config
begin

text \<open>
  \<open>struct afmf_device\<close> (src/src/layer.h): what the layer keeps per VkDevice. The instance-level
  queries the layer makes of the driver below it are fields holding functions (\<open>None\<close> where the
  entry point is NULL), so the driver stays a parameter. Fields carry the prefix \<open>dev_\<close>.
\<close>

datatype format_feature =
    FEATURE_SAMPLED | FEATURE_SAMPLED_FILTER_LINEAR | FEATURE_STORAGE | FEATURE_STORAGE_ATOMIC
  | OTHER_FEATURE nat

datatype queue_flag = QUEUE_GRAPHICS | QUEUE_COMPUTE | QUEUE_TRANSFER | OTHER_QUEUE_FLAG nat

record queue_family =
  qf_flags :: "queue_flag set"
  qf_count :: u32

record surface_caps =
  caps_max_images :: u32
  caps_usage :: "image_usage set"

text \<open>One memory type: the bits of its property flags.\<close>

datatype memory_property = DEVICE_LOCAL | HOST_VISIBLE | HOST_COHERENT | OTHER_MEMORY_PROPERTY nat

datatype subgroup_op = SUBGROUP_BASIC | SUBGROUP_ARITHMETIC | SUBGROUP_QUAD | OTHER_SUBGROUP nat

record afmf_queue =
  queue_handle :: handle
  queue_fam :: u32

text \<open>The passes and variants (src/src/framegen_internal.h) the pipelines are made for.\<close>

datatype fg_pass =
    PASS_PREPARE_LUMA | PASS_PYRAMID | PASS_SCD_HISTOGRAM | PASS_SCD_DIVERGENCE | PASS_SEARCH
  | PASS_FILTER | PASS_SCALE | PASS_INTERPOLATE | PASS_DOWNSAMPLE | PASS_INGEST

datatype variant =
    VARIANT_RGBA8 | VARIANT_RGBA8_BGRA | VARIANT_RGB10A2 | VARIANT_RGBA16F | VARIANT_NOFORMAT
  | VARIANT_COUNT

datatype half_variant = HALF_RGBA8 | HALF_RGBA16F

text \<open>The pipelines of a device, \<open>struct afmf_framegen_pipelines\<close>: a handle per pass and variant.\<close>

record fg_pipelines =
  pl_pipelines :: "fg_pass \<Rightarrow> handle"
  pl_layouts :: "fg_pass \<Rightarrow> handle"
  pl_set_layouts :: "fg_pass \<Rightarrow> handle"
  pl_interpolate :: "variant \<Rightarrow> handle"
  pl_downsample :: "half_variant \<Rightarrow> handle"
  pl_ingest :: "variant \<Rightarrow> handle"

definition pl_zero :: fg_pipelines where
  "pl_zero = \<lparr>pl_pipelines = (\<lambda>_. 0), pl_layouts = (\<lambda>_. 0), pl_set_layouts = (\<lambda>_. 0),
     pl_interpolate = (\<lambda>_. 0), pl_downsample = (\<lambda>_. 0), pl_ingest = (\<lambda>_. 0)\<rparr>"

record afmf_device =
  dev_handle :: handle
  dev_api_version :: u32
  dev_set_loader_data :: bool \<comment> \<open>the loader offered pfnSetDeviceLoaderData\<close>
  dev_surface_capabilities :: "(handle \<Rightarrow> vk_result \<times> surface_caps) option"
  dev_surface_support :: "(u32 \<Rightarrow> handle \<Rightarrow> vk_result \<times> bool) option"
  dev_surface_present_modes :: "(handle \<Rightarrow> vk_result \<times> present_mode list) option"
  dev_surface_capabilities2 :: "(handle \<Rightarrow> vk_result \<times> present_mode list) option"
  dev_format_properties :: "(vk_format \<Rightarrow> format_feature set) option"
  dev_memory_types :: "memory_property set list"
  dev_timestamps :: bool \<comment> \<open>timestampComputeAndGraphics\<close>
  dev_timestamp_period :: real
  dev_ubo_alignment :: u64 \<comment> \<open>minUniformBufferOffsetAlignment\<close>
  dev_subgroup_compute :: bool
  dev_subgroup_ops :: "subgroup_op set"
  dev_queue_families :: "queue_family list"
  dev_async_queue :: handle
  dev_async_family :: u32
  dev_async_high_priority :: bool
  dev_storage_write_without_format :: bool
  dev_shader_int16 :: bool
  dev_async_shared :: bool
  dev_app_families :: "u32 list"
  dev_queues :: "afmf_queue list"
  dev_queue_capacity :: nat
  dev_framegen_pipelines :: "fg_pipelines option"
  dev_pipelines_thread_running :: bool
  dev_pipelines_result :: vk_result

text \<open>\<open>calloc(1, sizeof *dev)\<close>: every field zero.\<close>

definition dev_zero :: afmf_device where
  "dev_zero =
     \<lparr> dev_handle = VK_NULL_HANDLE, dev_api_version = 0, dev_set_loader_data = False,
       dev_surface_capabilities = None, dev_surface_support = None, dev_surface_present_modes = None,
       dev_surface_capabilities2 = None, dev_format_properties = None, dev_memory_types = [],
       dev_timestamps = False, dev_timestamp_period = 0, dev_ubo_alignment = 0,
       dev_subgroup_compute = False, dev_subgroup_ops = {}, dev_queue_families = [],
       dev_async_queue = VK_NULL_HANDLE, dev_async_family = 0, dev_async_high_priority = False,
       dev_storage_write_without_format = False, dev_shader_int16 = False, dev_async_shared = False,
       dev_app_families = [], dev_queues = [], dev_queue_capacity = 0,
       dev_framegen_pipelines = None, dev_pipelines_thread_running = False,
       dev_pipelines_result = VK_SUCCESS \<rparr>"

text \<open>The pipelines as the code reads them once \<open>afmf_framegen_pipelines_get\<close> has given them out.\<close>

definition dev_pipelines :: "afmf_device \<Rightarrow> fg_pipelines" where
  "dev_pipelines dev = (case dev_framegen_pipelines dev of None \<Rightarrow> pl_zero | Some pl \<Rightarrow> pl)"

lemma dev_pipelines_zero [simp]: "dev_pipelines dev_zero = pl_zero"
  by (simp add: dev_pipelines_def dev_zero_def)

end
