(* ===== verification/Fg_State.thy ===== *)
theory Fg_State
  imports Device
begin

text \<open>
  \<open>struct afmf_framegen\<close> (src/src/framegen_internal.h): the state of one swapchain's frame
  generation. Images, views and descriptor sets are handles; the two-parity arrays are lists
  indexed by parity and level. The profiler's and the dump's fields are grouped in records of their own.
  Fields carry the prefix \<open>fg_\<close>.
\<close>

abbreviation (input) AFMF_FLOW_BLOCK :: u32 where "AFMF_FLOW_BLOCK \<equiv> 8"
abbreviation (input) AFMF_DUMP_FRAMES :: nat where "AFMF_DUMP_FRAMES \<equiv> 4"
abbreviation (input) AFMF_DUMP_FIRST :: u32 where "AFMF_DUMP_FIRST \<equiv> 8"
abbreviation (input) AFMF_PROFILE_QUERIES :: nat where "AFMF_PROFILE_QUERIES \<equiv> 48"
abbreviation (input) AFMF_PROFILE_INTERVAL :: nat where "AFMF_PROFILE_INTERVAL \<equiv> 300"
abbreviation (input) AFMF_LEVELS :: nat where "AFMF_LEVELS \<equiv> 7"
abbreviation (input) AFMF_HISTOGRAM_BINS :: u32 where "AFMF_HISTOGRAM_BINS \<equiv> 256"
abbreviation (input) AFMF_HISTOGRAMS_PER_DIM :: u32 where "AFMF_HISTOGRAMS_PER_DIM \<equiv> 3"
abbreviation (input) AFMF_HISTOGRAM_SHIFTS :: u32 where "AFMF_HISTOGRAM_SHIFTS \<equiv> 3"
abbreviation (input) AFMF_SCD_SLOTS :: nat where "AFMF_SCD_SLOTS \<equiv> 3"
abbreviation (input) AFMF_CB_SIZE :: nat where "AFMF_CB_SIZE \<equiv> 32"
abbreviation (input) AFMF_CB_PER_SLOT :: nat where "AFMF_CB_PER_SLOT \<equiv> 9"
abbreviation (input) AFMF_CB_SCD :: nat where "AFMF_CB_SCD \<equiv> 8"
abbreviation (input) AFMF_MIN_EXTENT :: u32 where "AFMF_MIN_EXTENT \<equiv> 128"
abbreviation (input) AFMF_MAX_IMAGES :: nat where "AFMF_MAX_IMAGES \<equiv> 16"

datatype fg_stage =
    STAGE_INGEST | STAGE_PREPARE | STAGE_PYRAMID | STAGE_SEARCH | STAGE_FILTER | STAGE_SCALE
  | STAGE_INTERPOLATE | STAGE_OUTPUT

text \<open>\<open>enum set_index\<close>: the sets of one parity, the level ones counted from their base.\<close>

abbreviation (input) SET_PREPARE :: nat where "SET_PREPARE \<equiv> 0"
abbreviation (input) SET_PYRAMID :: nat where "SET_PYRAMID \<equiv> 1"
abbreviation (input) SET_SCD_HISTOGRAM :: nat where "SET_SCD_HISTOGRAM \<equiv> 2"
abbreviation (input) SET_SCD_DIVERGENCE :: nat where "SET_SCD_DIVERGENCE \<equiv> 3"
abbreviation (input) SET_SEARCH :: nat where "SET_SEARCH \<equiv> 4"
abbreviation (input) SET_FILTER :: nat where "SET_FILTER \<equiv> 11"
abbreviation (input) SET_SCALE :: nat where "SET_SCALE \<equiv> 18"
abbreviation (input) SET_INTERPOLATE :: nat where "SET_INTERPOLATE \<equiv> 24"
abbreviation (input) SET_DOWNSAMPLE :: nat where "SET_DOWNSAMPLE \<equiv> 25"
abbreviation (input) SET_COUNT :: nat where "SET_COUNT \<equiv> 26"

record fg_image =
  img_image :: handle
  img_memory :: handle
  img_view :: handle

record secondary =
  sec_cmd :: handle
  sec_recorded :: bool
  sec_levels :: nat
  sec_stages :: "fg_stage list" \<comment> \<open>\<open>stages\<close> with \<open>stage_count\<close>\<close>

text \<open>The profiler's fields: \<open>query_stage\<close> with its \<open>query_count\<close> is a list per slot.\<close>

record fg_profiler =
  prof_queries :: handle
  prof_marks :: "fg_stage list list"
  prof_stage_ns :: "fg_stage \<Rightarrow> real"
  prof_frames :: nat

record fg_dump_state =
  dump_buffer :: handle
  dump_memory :: handle
  dump_mapped :: bool
  dump_size :: nat
  dumps_written :: nat
  dump_recorded :: bool
  dump_frame :: u32
  dump_from :: u32

text \<open>The two blocks of constants a frame writes, \<open>struct cb_of\<close> and \<open>struct cb_spd\<close>.\<close>

datatype cb_block =
    Cb_of extent2d u32 u32 u32 u32 real real
      \<comment> \<open>resolution, level, level count, frame index, transfer function, luminance range\<close>
  | Cb_spd u32 u32 "u32 \<times> u32" u32
      \<comment> \<open>mips, work groups, work group offset, work groups of the pyramid\<close>

record afmf_framegen =
  fg_extent :: extent2d
  fg_of_extent :: extent2d
  fg_flow_scale :: u32
  fg_levels :: nat
  fg_max_levels :: nat
  fg_color_half :: fg_image
  fg_half :: half_variant
  fg_color_format :: vk_format
  fg_out_format :: vk_format
  fg_swapchain_format :: vk_format
  fg_variant :: variant
  fg_direct :: bool
  fg_direct_variant :: variant
  fg_target_count :: nat
  fg_target_views :: "handle list"
  fg_direct_sets :: "handle list"
  fg_ingest_direct :: bool
  fg_ingest_variant :: variant
  fg_source_views :: "handle list"
  fg_ingest_sets :: "handle list"
  fg_transfer_function :: u32
  fg_min_luminance :: real
  fg_max_luminance :: real
  fg_slots :: nat
  fg_cb_stride :: u32
  fg_luma :: "fg_image list list"
  fg_luma_size :: "extent2d list"
  fg_flow :: "fg_image list list"
  fg_flow_size :: "extent2d list"
  fg_flow_out :: fg_image
  fg_scd :: "fg_image list" \<comment> \<open>histogram, previous histogram, temp, output\<close>
  fg_color :: "fg_image list"
  fg_output :: fg_image
  fg_sampler :: handle
  fg_cb :: handle
  fg_cb_memory :: handle
  fg_cb_have_map :: bool \<comment> \<open>\<open>cb_mapped\<close> is not NULL\<close>
  fg_cb_mapped :: "u32 \<rightharpoonup> cb_block" \<comment> \<open>what was written at each offset\<close>
  fg_pool :: handle
  fg_sets :: "handle list list"
  fg_secondary_pool :: handle
  fg_secondaries :: "secondary list option"
  fg_initialized :: bool
  fg_frame_index :: u32
  fg_prof :: fg_profiler
  fg_dump :: fg_dump_state

text \<open>\<open>calloc(1, sizeof *fg)\<close>: every field zero.\<close>

definition img_zero :: fg_image where
  "img_zero = \<lparr>img_image = VK_NULL_HANDLE, img_memory = VK_NULL_HANDLE, img_view = VK_NULL_HANDLE\<rparr>"

definition prof_zero :: fg_profiler where
  "prof_zero = \<lparr>prof_queries = VK_NULL_HANDLE, prof_marks = [], prof_stage_ns = (\<lambda>_. 0), prof_frames = 0\<rparr>"

definition dump_zero :: fg_dump_state where
  "dump_zero = \<lparr>dump_buffer = VK_NULL_HANDLE, dump_memory = VK_NULL_HANDLE, dump_mapped = False,
     dump_size = 0, dumps_written = 0, dump_recorded = False, dump_frame = 0, dump_from = 0\<rparr>"

definition extent_zero :: extent2d where
  "extent_zero = \<lparr>width = 0, height = 0\<rparr>"

definition fg_zero :: afmf_framegen where
  "fg_zero =
     \<lparr> fg_extent = extent_zero, fg_of_extent = extent_zero, fg_flow_scale = 0, fg_levels = 0,
       fg_max_levels = 0, fg_color_half = img_zero, fg_half = HALF_RGBA8,
       fg_color_format = OTHER_FORMAT 0, fg_out_format = OTHER_FORMAT 0,
       fg_swapchain_format = OTHER_FORMAT 0, fg_variant = VARIANT_RGBA8, fg_direct = False,
       fg_direct_variant = VARIANT_RGBA8, fg_target_count = 0, fg_target_views = [],
       fg_direct_sets = [], fg_ingest_direct = False, fg_ingest_variant = VARIANT_RGBA8,
       fg_source_views = [], fg_ingest_sets = [], fg_transfer_function = 0, fg_min_luminance = 0, fg_max_luminance = 0,
       fg_slots = 0, fg_cb_stride = 0,
       fg_luma = replicate 2 (replicate AFMF_LEVELS img_zero),
       fg_luma_size = replicate AFMF_LEVELS extent_zero,
       fg_flow = replicate 2 (replicate AFMF_LEVELS img_zero),
       fg_flow_size = replicate AFMF_LEVELS extent_zero, fg_flow_out = img_zero,
       fg_scd = replicate 4 img_zero, fg_color = replicate 2 img_zero, fg_output = img_zero,
       fg_sampler = VK_NULL_HANDLE, fg_cb = VK_NULL_HANDLE, fg_cb_memory = VK_NULL_HANDLE,
       fg_cb_have_map = False, fg_cb_mapped = Map.empty, fg_pool = VK_NULL_HANDLE,
       fg_sets = replicate 2 (replicate SET_COUNT VK_NULL_HANDLE),
       fg_secondary_pool = VK_NULL_HANDLE, fg_secondaries = None, fg_initialized = False,
       fg_frame_index = 0, fg_prof = prof_zero, fg_dump = dump_zero \<rparr>"

end
