(* ===== verification/Fg_Profiler.thy ===== *)
theory Fg_Profiler
  imports Fg_State
begin

text \<open>
  The state a frame generation operation runs in (the effects, the configuration, the device, its
  pipelines and the \<open>afmf_framegen\<close>), and the profiler (src/src/framegen_profiler.c): GPU
  timestamps per stage. \<open>query_count\<close> and \<open>query_stage\<close> of a slot are the list \<open>prof_marks\<close> of the
  stages its timestamps close. The ticks a query returns are a function of the driver's answer;
  the report's log lines are left out.
\<close>

record 'w fgs = "'w eff" +
  fgs_cfg :: afmf_config
  fgs_dev :: afmf_device
  fgs_ticks :: "nat \<Rightarrow> u64 list" \<comment> \<open>the timestamps behind an answer of the driver\<close>
  fgs_fg :: afmf_framegen

definition fgs_pl :: "'w fgs \<Rightarrow> fg_pipelines" where
  "fgs_pl s = dev_pipelines (fgs_dev s)"

lemma fgs_pl_updates [simp]:
  "fgs_pl (s\<lparr>eff_trace := tr\<rparr>) = fgs_pl s" "fgs_pl (s\<lparr>eff_world := w\<rparr>) = fgs_pl s"
  "fgs_pl (s\<lparr>fgs_fg := fg\<rparr>) = fgs_pl s"
  by (simp_all add: fgs_pl_def)

definition fg_gets :: "(afmf_framegen \<Rightarrow> 'a) \<Rightarrow> ('w fgs, 'a) state" where
  "fg_gets f = gets (\<lambda>s. f (fgs_fg s))"

definition fg_modify :: "(afmf_framegen \<Rightarrow> afmf_framegen) \<Rightarrow> ('w fgs, unit) state" where
  "fg_modify f = modify (\<lambda>s. s\<lparr>fgs_fg := f (fgs_fg s)\<rparr>)"

lemma run_fgs [simp]:
  "run_state (fg_gets g) s = (g (fgs_fg s), s)"
  "run_state (fg_modify f) s = ((), s\<lparr>fgs_fg := f (fgs_fg s)\<rparr>)"
  by (simp_all add: fg_gets_def fg_modify_def)

definition on_fg :: "(afmf_framegen \<Rightarrow> bool) \<Rightarrow> 'w fgs \<Rightarrow> bool" where
  "on_fg Q s \<longleftrightarrow> Q (fgs_fg s)"

lemma effect_free_on_fg [simp, intro]: "effect_free (on_fg Q)"
  by (simp add: effect_free_def on_fg_def)

lemma keeps_fg_gets [keeps_intros]: "keeps P (fg_gets f)"
  by (simp add: fg_gets_def keeps_intros)

lemma keeps_fg_modify [keeps_intros]: "(\<And>fg. Q fg \<Longrightarrow> Q (f fg)) \<Longrightarrow> keeps (on_fg Q) (fg_modify f)"
  by (simp add: keeps_def on_fg_def)

section \<open>The profiler\<close>

definition upd_prof :: "(fg_profiler \<Rightarrow> fg_profiler) \<Rightarrow> afmf_framegen \<Rightarrow> afmf_framegen" where
  "upd_prof f fg = fg\<lparr>fg_prof := f (fg_prof fg)\<rparr>"

definition afmf_framegen_profiler_create :: "('w fgs, unit) state" where
  "afmf_framegen_profiler_create = do {
     cfg \<leftarrow> gets fgs_cfg;
     dev \<leftarrow> gets fgs_dev;
     if \<not> cfg_profile cfg \<or> \<not> dev_timestamps dev \<or> dev_timestamp_period dev \<le> 0 then return ()
     else do {
       fg_modify (\<lambda>fg. upd_prof (\<lambda>p. p\<lparr>prof_marks := replicate (fg_slots fg) []\<rparr>) fg);
       (res, pool) \<leftarrow> vk_full (CreateObj OQueryPool);
       fg_modify (upd_prof (\<lambda>p. p\<lparr>prof_queries := (if res = VK_SUCCESS then pool else VK_NULL_HANDLE)\<rparr>))
     }
   }"

text \<open>The totals after one slot's ticks: consecutive differences go to the stage they close.\<close>

fun fold_ticks :: "real \<Rightarrow> u64 list \<Rightarrow> fg_stage list \<Rightarrow> (fg_stage \<Rightarrow> real) \<Rightarrow> fg_stage \<Rightarrow> real" where
  "fold_ticks period (t0 # t1 # ts) (s0 # s1 # ss) ns =
     fold_ticks period (t1 # ts) (s1 # ss) (ns(s1 := ns s1 + real (unat (t1 - t0)) * period))"
| "fold_ticks period ts ss ns = ns"

definition afmf_framegen_profiler_collect :: "nat \<Rightarrow> ('w fgs, unit) state" where
  "afmf_framegen_profiler_collect slot = do {
     prof \<leftarrow> fg_gets fg_prof;
     dev \<leftarrow> gets fgs_dev;
     let stages = prof_marks prof ! slot;
     fg_modify (upd_prof (\<lambda>p. p\<lparr>prof_marks := (prof_marks p)[slot := []]\<rparr>));
     if length stages < 2 then return ()
     else do {
       (res, answer) \<leftarrow> vk_full (GetQueryPoolResults (prof_queries prof) (slot * AFMF_PROFILE_QUERIES)
                                  (length stages));
       ticks \<leftarrow> gets fgs_ticks;
       if res \<noteq> VK_SUCCESS then return ()
       else fg_modify (upd_prof (\<lambda>p. p\<lparr>
              prof_stage_ns := fold_ticks (dev_timestamp_period dev) (ticks answer) stages (prof_stage_ns p),
              prof_frames := prof_frames p + 1\<rparr>))
     }
   }"

definition afmf_framegen_profiler_report :: "afmf_framegen \<Rightarrow> afmf_framegen" where
  "afmf_framegen_profiler_report fg =
     (if prof_frames (fg_prof fg) = 0 then fg
      else upd_prof (\<lambda>p. p\<lparr>prof_stage_ns := (\<lambda>_. 0), prof_frames := 0\<rparr>) fg)"

definition afmf_framegen_profiler_mark :: "handle \<Rightarrow> nat \<Rightarrow> fg_stage \<Rightarrow> ('w fgs, unit) state" where
  "afmf_framegen_profiler_mark cmd slot stage = do {
     prof \<leftarrow> fg_gets fg_prof;
     let n = length (prof_marks prof ! slot);
     if prof_queries prof = VK_NULL_HANDLE \<or> n \<ge> AFMF_PROFILE_QUERIES then return ()
     else do {
       fg_modify (upd_prof (\<lambda>p. p\<lparr>prof_marks := (prof_marks p)[slot := prof_marks p ! slot @ [stage]]\<rparr>));
       emit (Recorded cmd (CmdWriteTimestamp (slot * AFMF_PROFILE_QUERIES + n)))
     }
   }"

definition afmf_framegen_profiler_begin :: "handle \<Rightarrow> nat \<Rightarrow> ('w fgs, unit) state" where
  "afmf_framegen_profiler_begin cmd slot = do {
     prof \<leftarrow> fg_gets fg_prof;
     if prof_queries prof = VK_NULL_HANDLE then return ()
     else do {
       afmf_framegen_profiler_collect slot;
       frames' \<leftarrow> fg_gets (\<lambda>fg. prof_frames (fg_prof fg));
       whenb (frames' \<ge> AFMF_PROFILE_INTERVAL) (fg_modify afmf_framegen_profiler_report);
       emit (Recorded cmd (CmdResetQueryPool (slot * AFMF_PROFILE_QUERIES) AFMF_PROFILE_QUERIES));
       fg_modify (upd_prof (\<lambda>p. p\<lparr>prof_marks := (prof_marks p)[slot := []]\<rparr>));
       afmf_framegen_profiler_mark cmd slot STAGE_INGEST
     }
   }"

section \<open>A slot's queries\<close>

definition marks_ok :: "afmf_framegen \<Rightarrow> bool" where
  "marks_ok fg = list_all (\<lambda>ms. length ms \<le> AFMF_PROFILE_QUERIES) (prof_marks (fg_prof fg))"

lemma list_all_update: "list_all P xs \<Longrightarrow> P y \<Longrightarrow> list_all P (xs[i := y])"
  by (metis list_all_length length_list_update nth_list_update_eq nth_list_update_neq)

text \<open>The queries a run of commands writes or resets.\<close>

fun queries_of :: "event list \<Rightarrow> nat list" where
  "queries_of [] = []"
| "queries_of (Recorded cb (CmdWriteTimestamp q) # es) = q # queries_of es"
| "queries_of (Recorded cb (CmdResetQueryPool q n) # es) = [q..<q + n] @ queries_of es"
| "queries_of (e # es) = queries_of es"

lemma queries_of_append [simp]: "queries_of (es @ fs) = queries_of es @ queries_of fs"
  by (induction es rule: queries_of.induct) auto

lemma upd_prof_simps [simp]:
  "fg_prof (upd_prof f fg) = f (fg_prof fg)" "fg_slots (upd_prof f fg) = fg_slots fg"
  by (simp_all add: upd_prof_def)

lemma marks_ok_updated:
  "marks_ok fg \<Longrightarrow> length ms \<le> 48 \<Longrightarrow> marks_ok (upd_prof (\<lambda>p. p\<lparr>prof_marks := (prof_marks p)[slot := ms]\<rparr>) fg)"
  by (simp add: marks_ok_def list_all_update)

lemma marks_ok_upd_prof [simp]: "(\<And>p. prof_marks (f p) = prof_marks p) \<Longrightarrow> marks_ok (upd_prof f fg) = marks_ok fg"
  by (simp add: marks_ok_def)

text \<open>A run that keeps to a slot: the marks stay within bounds, the queries within the slot's range.\<close>

definition in_slot :: "nat \<Rightarrow> 'w fgs \<Rightarrow> 'w fgs \<Rightarrow> bool" where
  "in_slot slot s s' \<longleftrightarrow>
     (marks_ok (fgs_fg s) \<longrightarrow> marks_ok (fgs_fg s'))
     \<and> (\<exists>tr. eff_trace s' = eff_trace s @ tr \<and> (\<forall>q \<in> set (queries_of tr). slot * 48 \<le> q \<and> q < (slot + 1) * 48))"

lemma in_slot_refl [simp]: "in_slot slot s s"
  by (simp add: in_slot_def)

lemma in_slot_trans: "in_slot slot s s1 \<Longrightarrow> in_slot slot s1 s2 \<Longrightarrow> in_slot slot s s2"
  unfolding in_slot_def by (fastforce intro: exI [of _ "_ @ _"])

lemma in_slot_modify:
  "(marks_ok (fgs_fg s) \<Longrightarrow> marks_ok (f (fgs_fg s))) \<Longrightarrow> in_slot slot s (s\<lparr>fgs_fg := f (fgs_fg s)\<rparr>)"
  by (simp add: in_slot_def)

lemma in_slot_emit:
  "\<forall>q \<in> set (queries_of [e]). slot * 48 \<le> q \<and> q < (slot + 1) * 48 \<Longrightarrow>
     in_slot slot s (s\<lparr>eff_trace := eff_trace s @ [e]\<rparr>)"
  by (auto simp: in_slot_def)

lemma collect_in_slot: "in_slot slot s (snd (run_state (afmf_framegen_profiler_collect slot) s))"
proof -
  let ?s1 = "s\<lparr>fgs_fg := upd_prof (\<lambda>p. p\<lparr>prof_marks := (prof_marks p)[slot := []]\<rparr>) (fgs_fg s)\<rparr>"
  have "in_slot slot s ?s1" by (rule in_slot_modify) (simp add: marks_ok_updated)
  moreover have "in_slot slot ?s1 (snd (run_state (afmf_framegen_profiler_collect slot) s))"
    by (auto simp: afmf_framegen_profiler_collect_def Let_def run_effects in_slot_def split: prod.split)
  ultimately show ?thesis by (rule in_slot_trans)
qed

lemma mark_in_slot: "in_slot slot s (snd (run_state (afmf_framegen_profiler_mark cmd slot stage) s))"
proof -
  let ?ms = "prof_marks (fg_prof (fgs_fg s)) ! slot"
  let ?mark = "upd_prof (\<lambda>p. p\<lparr>prof_marks := (prof_marks p)[slot := ?ms @ [stage]]\<rparr>)"
  let ?stamp = "Recorded cmd (CmdWriteTimestamp (slot * 48 + length ?ms))"
  show ?thesis
  proof (cases "prof_queries (fg_prof (fgs_fg s)) = VK_NULL_HANDLE \<or> length ?ms \<ge> 48")
    case False
    let ?s1 = "s\<lparr>fgs_fg := ?mark (fgs_fg s)\<rparr>"
    have "in_slot slot s ?s1" using False by (intro in_slot_modify) (simp add: marks_ok_updated)
    moreover have "in_slot slot ?s1 (?s1\<lparr>eff_trace := eff_trace ?s1 @ [?stamp]\<rparr>)"
      using False by (intro in_slot_emit) simp
    ultimately have "in_slot slot s (?s1\<lparr>eff_trace := eff_trace ?s1 @ [?stamp]\<rparr>)"
      by (rule in_slot_trans)
    moreover have "snd (run_state (afmf_framegen_profiler_mark cmd slot stage) s)
        = ?s1\<lparr>eff_trace := eff_trace ?s1 @ [?stamp]\<rparr>"
      using False by (simp add: afmf_framegen_profiler_mark_def Let_def upd_prof_def)
    ultimately show ?thesis by simp
  qed (auto simp: afmf_framegen_profiler_mark_def Let_def)
qed

lemma begin_in_slot: "in_slot slot s (snd (run_state (afmf_framegen_profiler_begin cmd slot) s))"
proof (cases "prof_queries (fg_prof (fgs_fg s)) = VK_NULL_HANDLE")
  case False
  let ?clear = "upd_prof (\<lambda>p. p\<lparr>prof_marks := (prof_marks p)[slot := []]\<rparr>)"
  define s1 where "s1 = snd (run_state (afmf_framegen_profiler_collect slot) s)"
  define s2 where "s2 = (if prof_frames (fg_prof (fgs_fg s1)) \<ge> AFMF_PROFILE_INTERVAL
                         then s1\<lparr>fgs_fg := afmf_framegen_profiler_report (fgs_fg s1)\<rparr> else s1)"
  define s3 where "s3 = s2\<lparr>eff_trace := eff_trace s2 @
                         [Recorded cmd (CmdResetQueryPool (slot * AFMF_PROFILE_QUERIES) AFMF_PROFILE_QUERIES)]\<rparr>"
  define s4 where "s4 = s3\<lparr>fgs_fg := ?clear (fgs_fg s3)\<rparr>"
  have "snd (run_state (afmf_framegen_profiler_begin cmd slot) s) =
        snd (run_state (afmf_framegen_profiler_mark cmd slot STAGE_INGEST) s4)"
    using False
    by (simp add: afmf_framegen_profiler_begin_def s1_def s2_def s3_def s4_def split: prod.split)
  moreover have "in_slot slot s s1" unfolding s1_def by (rule collect_in_slot)
  moreover have "in_slot slot s1 s2"
    unfolding s2_def by (auto intro!: in_slot_modify simp: afmf_framegen_profiler_report_def)
  moreover have "in_slot slot s2 s3" unfolding s3_def by (rule in_slot_emit) auto
  moreover have "in_slot slot s3 s4" unfolding s4_def by (rule in_slot_modify) (simp add: marks_ok_updated)
  moreover have "in_slot slot s4 (snd (run_state (afmf_framegen_profiler_mark cmd slot STAGE_INGEST) s4))"
    by (rule mark_in_slot)
  ultimately show ?thesis by (metis in_slot_trans)
qed (simp add: afmf_framegen_profiler_begin_def)

text \<open>
  Timestamps stay inside the slot. Beginning a slot and marking a stage write and reset only
  queries of that slot's range of 48, a slot never holds more marks than it has queries, and a
  mark that does not fit is dropped without a command.
\<close>
theorem profiler_queries_in_slot:
  assumes "marks_ok (fgs_fg s)"
    and "run_state (do { afmf_framegen_profiler_begin cmd slot;
                         afmf_framegen_profiler_mark cmd slot stage }) s = (u, s')"
  shows "marks_ok (fgs_fg s')
    \<and> (\<exists>tr. eff_trace s' = eff_trace s @ tr
         \<and> (\<forall>q \<in> set (queries_of tr). slot * 48 \<le> q \<and> q < (slot + 1) * 48))"
proof -
  let ?s1 = "snd (run_state (afmf_framegen_profiler_begin cmd slot) s)"
  have "s' = snd (run_state (afmf_framegen_profiler_mark cmd slot stage) ?s1)"
    using assms(2) by (simp split: prod.splits)
  then have "in_slot slot s s'"
    using in_slot_trans [OF begin_in_slot mark_in_slot] by blast
  then show ?thesis using assms(1) by (simp add: in_slot_def)
qed

lemma fold_ticks_total:
  assumes "length ts = length ss" and "sorted ts" and "finite S" and "set (tl ss) \<subseteq> S" and "ts \<noteq> []"
  shows "(\<Sum>s \<in> S. fold_ticks period ts ss ns s) = (\<Sum>s \<in> S. ns s) + real (unat (last ts) - unat (hd ts)) * period"
  using assms
proof (induction period ts ss ns rule: fold_ticks.induct)
  case (1 period t0 t1 ts s0 s1 ss ns)
  define ns' where "ns' = ns(s1 := ns s1 + real (unat (t1 - t0)) * period)"
  have IH: "(\<Sum>s \<in> S. fold_ticks period (t1 # ts) (s1 # ss) ns' s)
      = (\<Sum>s \<in> S. ns' s) + real (unat (last (t1 # ts)) - unat t1) * period"
    unfolding ns'_def using 1 by (intro "1.IH" [THEN trans]) auto
  have "(\<Sum>s \<in> S. ns' s) = (\<Sum>s \<in> S. ns s) + real (unat (t1 - t0)) * period"
    using 1(4,5) by (simp add: ns'_def sum.remove [of S s1])
  moreover have "unat (t1 - t0) = unat t1 - unat t0" "unat t0 \<le> unat t1" "unat t1 \<le> unat (last (t1 # ts))"
    using 1(3) by (auto simp: unat_sub word_le_nat_alt)
  ultimately show ?case
    using IH unfolding ns'_def by (simp add: algebra_simps of_nat_diff)
qed (auto simp: length_Suc_conv)

text \<open>
  No GPU time is lost or counted twice: with timestamps in order, what one frame adds to the
  stages' totals is the time from its first timestamp to its last.
\<close>
theorem profiler_time_conserved:
  fixes ts :: "u64 list"
  assumes "length ts = length ss" and "sorted ts" and "ts \<noteq> []"
  shows "(\<Sum>s \<in> set ss. fold_ticks period ts ss ns s)
       = (\<Sum>s \<in> set ss. ns s) + real (unat (last ts) - unat (hd ts)) * period"
proof (rule fold_ticks_total)
  show "set (tl ss) \<subseteq> set ss" by (cases ss) auto
qed (use assms in auto)

theorem profiler_time_witness:
  "(\<Sum>s \<in> {STAGE_INGEST, STAGE_PREPARE, STAGE_SEARCH}.
      fold_ticks 2 [100, 130, 200 :: u64] [STAGE_INGEST, STAGE_PREPARE, STAGE_SEARCH] (\<lambda>_. 0) s) = 200"
  using profiler_time_conserved [of "[100, 130, 200]" "[STAGE_INGEST, STAGE_PREPARE, STAGE_SEARCH]" 2 "\<lambda>_. 0"]
  by simp

definition sample_fgs :: "afmf_framegen \<Rightarrow> nat fgs" where
  "sample_fgs fg =
     \<lparr> eff_driver = (\<lambda>c w. ((VK_SUCCESS, 0), w)), eff_clock = (\<lambda>w. (None, w)), eff_world = 0, eff_trace = [],
       eff_array = (\<lambda>_ _. 0),
       fgs_cfg = init (\<lambda>_. None) None, fgs_dev = dev_zero, fgs_ticks = (\<lambda>_. []),
       fgs_fg = fg \<rparr>"

theorem profiler_queries_witness:
  "let fg = fg_zero\<lparr>fg_slots := 2, fg_prof := prof_zero\<lparr>prof_queries := 3, prof_marks := [[], []]\<rparr>\<rparr>
   in marks_ok (fgs_fg (snd (run_state (do { afmf_framegen_profiler_begin 9 1;
                              afmf_framegen_profiler_mark 9 1 STAGE_SEARCH }) (sample_fgs fg))))"
proof -
  let ?fg = "fg_zero\<lparr>fg_slots := 2, fg_prof := prof_zero\<lparr>prof_queries := 3, prof_marks := [[], []]\<rparr>\<rparr>"
  have "marks_ok (fgs_fg (sample_fgs ?fg))"
    by (simp add: marks_ok_def sample_fgs_def)
  from profiler_queries_in_slot [OF this surjective_pairing] show ?thesis by (simp add: Let_def)
qed

end
