(* ===== verification/Swapchain_State.thy ===== *)
theory Swapchain_State
  imports Fg_State
begin

text \<open>
  \<open>struct afmf_swapchain\<close> and the structures around it (src/src/swapchain_internal.h), the state
  the swapchain operations run in, and the inline helpers \<open>wsi_take\<close>, \<open>wsi_give\<close>, \<open>elapsed_ms\<close>
  and \<open>find_locked\<close>. Image and slot indices and the counters are \<open>nat\<close> (they stay far below
  their widths), durations in nanoseconds likewise where the code computes them from a clamped
  double; timeouts, which wrap and have \<open>UINT64_MAX\<close> as a value, are 64-bit words.
  Fields carry the prefixes \<open>job_\<close>, \<open>frame_\<close>, \<open>slot_\<close> and \<open>sc_\<close>.
\<close>

section \<open>Constants\<close>

abbreviation (input) AFMF_STATS_INTERVAL :: nat where "AFMF_STATS_INTERVAL \<equiv> 300"
abbreviation (input) AFMF_MAX_FAMILIES :: nat where "AFMF_MAX_FAMILIES \<equiv> 8"
abbreviation (input) AFMF_MAX_APP_WAITS :: nat where "AFMF_MAX_APP_WAITS \<equiv> 8"
abbreviation (input) AFMF_MAX_JOBS :: nat where "AFMF_MAX_JOBS \<equiv> 16"
abbreviation (input) AFMF_ACQUIRE_SLICE_NS :: u64 where "AFMF_ACQUIRE_SLICE_NS \<equiv> 1000000"
abbreviation (input) AFMF_PACING_MIN_NS :: nat where "AFMF_PACING_MIN_NS \<equiv> 500000"
abbreviation (input) AFMF_PACING_MAX_NS :: nat where "AFMF_PACING_MAX_NS \<equiv> 40000000"
abbreviation (input) AFMF_GOVERNOR_LATE :: real where "AFMF_GOVERNOR_LATE \<equiv> 3 / 2"
abbreviation (input) AFMF_GOVERNOR_EARLY :: real where "AFMF_GOVERNOR_EARLY \<equiv> 3 / 4"
abbreviation (input) AFMF_GOVERNOR_LATE_FRAMES :: nat where "AFMF_GOVERNOR_LATE_FRAMES \<equiv> 30"
abbreviation (input) AFMF_GOVERNOR_EARLY_FRAMES :: nat where "AFMF_GOVERNOR_EARLY_FRAMES \<equiv> 15"
abbreviation (input) AFMF_GOVERNOR_STEPS :: nat where "AFMF_GOVERNOR_STEPS \<equiv> 3"
abbreviation (input) AFMF_CHAIN_BYTES :: nat where "AFMF_CHAIN_BYTES \<equiv> 1024"
abbreviation (input) AFMF_MAX_PRESENT_MODES :: nat where "AFMF_MAX_PRESENT_MODES \<equiv> 8"

section \<open>The structures\<close>

record afmf_present_job =
  job_real_image :: nat
  job_companion_image :: nat
  job_generate :: bool
  job_ordinal :: nat
  job_arrival :: timespec
  job_hold_ns :: nat
  job_done :: handle
  job_have_present_id :: bool
  job_present_id :: u64
  job_present_id_v2 :: bool
  job_have_present_mode :: bool
  job_present_mode :: present_mode
  job_present_fence :: handle
  job_real_unwaited :: bool
  job_have_timing :: bool
  job_timing :: nat

text \<open>A job as C initialises it: \<open>{.real_image = i, .ordinal = ordinal}\<close>, everything else zero.\<close>

definition job_init :: "nat \<Rightarrow> nat \<Rightarrow> afmf_present_job" where
  "job_init i ordinal =
     \<lparr> job_real_image = i, job_companion_image = 0, job_generate = False, job_ordinal = ordinal,
       job_arrival = \<lparr>tv_sec = 0, tv_nsec = 0\<rparr>, job_hold_ns = 0, job_done = VK_NULL_HANDLE,
       job_have_present_id = False, job_present_id = 0, job_present_id_v2 = False,
       job_have_present_mode = False, job_present_mode = 0, job_present_fence = VK_NULL_HANDLE,
       job_real_unwaited = False, job_have_timing = False, job_timing = 0 \<rparr>"

record afmf_frame_job =
  frame_slot :: nat
  frame_present :: afmf_present_job

record afmf_slot =
  slot_cmd :: handle
  slot_fence :: handle
  slot_pending :: bool

record afmf_swapchain =
  sc_handle :: handle
  sc_format :: vk_format
  sc_extent :: extent2d
  sc_present_mode :: present_mode
  sc_fifo_to_mailbox :: bool
  sc_allowed_modes :: "present_mode list" \<comment> \<open>with \<open>allowed_mode_count\<close>\<close>
  sc_storage_usage :: bool
  sc_sampled_usage :: bool
  sc_min_image_count :: u32
  sc_gen_enabled :: bool
  sc_async :: bool
  sc_image_count :: nat
  sc_images :: "handle list"
  sc_sem_generated :: "handle list"
  sc_sem_real :: "handle list"
  sc_sem_app :: "handle list"
  sc_slots :: "afmf_slot list"
  sc_slot_index :: nat
  sc_pool :: handle
  sc_pool_family :: u32
  sc_fg :: "afmf_framegen option"
  sc_history :: handle
  sc_history_memory :: handle
  sc_history_layout :: image_layout
  sc_have_history :: bool
  sc_spare_valid :: bool
  sc_spare_image :: nat
  sc_spare_fence :: handle
  sc_present_count :: nat
  sc_generated :: nat
  sc_skipped_no_image :: nat
  sc_skipped_no_history :: nat
  sc_last_present :: timespec
  sc_frame_time_ms_accum :: real
  sc_frame_time_samples :: nat
  sc_hook_ms :: real
  sc_fence_ms :: real
  sc_acquire_ms :: real
  sc_record_ms :: real
  sc_submit_ms :: real
  sc_present_ms :: real
  sc_present_real_ms :: real
  sc_refill_ms :: real
  sc_hold_ms :: real
  sc_gpu_delay_ms :: real
  sc_last_delay_ms :: real
  sc_governor_step :: nat
  sc_late_streak :: nat
  sc_early_streak :: nat
  sc_under_floor :: bool
  sc_reduced_frames :: nat
  sc_frame_ms_ema :: real
  sc_presenter_running :: bool
  sc_presenter_stop :: bool
  sc_jobs :: "afmf_present_job list"
  sc_job_head :: nat
  sc_job_count :: nat
  sc_deferred_result :: vk_result
  sc_in_flight :: nat
  sc_worker_running :: bool
  sc_worker_stop :: bool
  sc_worker_busy :: bool
  sc_worker_failed :: bool
  sc_work :: "afmf_frame_job list"
  sc_work_head :: nat
  sc_work_count :: nat

text \<open>\<open>calloc(1, sizeof *sc)\<close>: every field zero.\<close>

definition sc_zero :: afmf_swapchain where
  "sc_zero =
     \<lparr> sc_handle = VK_NULL_HANDLE, sc_format = OTHER_FORMAT 0, sc_extent = extent_zero,
       sc_present_mode = 0, sc_fifo_to_mailbox = False, sc_allowed_modes = [],
       sc_storage_usage = False, sc_sampled_usage = False, sc_min_image_count = 0,
       sc_gen_enabled = False, sc_async = False, sc_image_count = 0, sc_images = [],
       sc_sem_generated = [], sc_sem_real = [], sc_sem_app = [], sc_slots = [], sc_slot_index = 0,
       sc_pool = VK_NULL_HANDLE, sc_pool_family = 0, sc_fg = None, sc_history = VK_NULL_HANDLE,
       sc_history_memory = VK_NULL_HANDLE, sc_history_layout = LAYOUT_UNDEFINED,
       sc_have_history = False, sc_spare_valid = False, sc_spare_image = 0,
       sc_spare_fence = VK_NULL_HANDLE, sc_present_count = 0, sc_generated = 0,
       sc_skipped_no_image = 0, sc_skipped_no_history = 0,
       sc_last_present = \<lparr>tv_sec = 0, tv_nsec = 0\<rparr>, sc_frame_time_ms_accum = 0,
       sc_frame_time_samples = 0, sc_hook_ms = 0, sc_fence_ms = 0, sc_acquire_ms = 0,
       sc_record_ms = 0, sc_submit_ms = 0, sc_present_ms = 0, sc_present_real_ms = 0,
       sc_refill_ms = 0, sc_hold_ms = 0, sc_gpu_delay_ms = 0, sc_last_delay_ms = 0,
       sc_governor_step = 0, sc_late_streak = 0, sc_early_streak = 0, sc_under_floor = False,
       sc_reduced_frames = 0, sc_frame_ms_ema = 0, sc_presenter_running = False,
       sc_presenter_stop = False, sc_jobs = replicate AFMF_MAX_JOBS (job_init 0 0),
       sc_job_head = 0, sc_job_count = 0, sc_deferred_result = VK_SUCCESS, sc_in_flight = 0,
       sc_worker_running = False, sc_worker_stop = False, sc_worker_busy = False,
       sc_worker_failed = False,
       sc_work = replicate AFMF_MAX_JOBS \<lparr>frame_slot = 0, frame_present = job_init 0 0\<rparr>,
       sc_work_head = 0, sc_work_count = 0 \<rparr>"

text \<open>Two queues of sixteen, and the image and slot arrays of one length.\<close>

definition sc_arrays_ok :: "afmf_swapchain \<Rightarrow> bool" where
  "sc_arrays_ok sc \<longleftrightarrow>
     length (sc_jobs sc) = AFMF_MAX_JOBS \<and> length (sc_work sc) = AFMF_MAX_JOBS
   \<and> length (sc_images sc) = sc_image_count sc \<and> length (sc_sem_generated sc) = sc_image_count sc
   \<and> length (sc_sem_real sc) = sc_image_count sc \<and> length (sc_sem_app sc) = sc_image_count sc
   \<and> length (sc_slots sc) = sc_image_count sc"

end
