(* ===== verification/System.thy ===== *)
theory System
  imports Swapchain_State
begin

text \<open>
  The state a swapchain operation runs in: the effects of \<open>Vulkan\<close>, the configuration
  (\<open>afmf_config_get\<close>), the device, the swapchain an operation works on (\<open>sc\<close>) and the device's list of
  swapchains (\<open>dev->swapchains\<close>). Then the inline helpers of
  src/src/swapchain_internal.h, and the lock discipline: \<open>locks H m F\<close> says that \<open>m\<close>, started with the
  locks \<open>H\<close> held, takes every lock in the rank order below, releases only what it holds, and
  ends with \<open>F a\<close> held, \<open>a\<close> being its result. A program whose threads all keep one rank order
  cannot deadlock on its mutexes.
\<close>

record 'w sys = "'w eff" +
  sys_cfg :: afmf_config
  sys_dev :: afmf_device
  sys_ticks :: "nat \<Rightarrow> u64 list"
  sys_sc :: afmf_swapchain
  sys_swapchains :: "afmf_swapchain list"

definition sc_gets :: "(afmf_swapchain \<Rightarrow> 'a) \<Rightarrow> ('w sys, 'a) state" where
  "sc_gets f = gets (\<lambda>s. f (sys_sc s))"

definition sc_modify :: "(afmf_swapchain \<Rightarrow> afmf_swapchain) \<Rightarrow> ('w sys, unit) state" where
  "sc_modify f = modify (\<lambda>s. s\<lparr>sys_sc := f (sys_sc s)\<rparr>)"

definition cfg_gets :: "(afmf_config \<Rightarrow> 'a) \<Rightarrow> ('w sys, 'a) state" where
  "cfg_gets f = gets (\<lambda>s. f (sys_cfg s))"

definition dev_gets :: "(afmf_device \<Rightarrow> 'a) \<Rightarrow> ('w sys, 'a) state" where
  "dev_gets f = gets (\<lambda>s. f (sys_dev s))"

lemma run_sys [simp]:
  "run_state (sc_gets g) s = (g (sys_sc s), s)"
  "run_state (sc_modify f) s = ((), s\<lparr>sys_sc := f (sys_sc s)\<rparr>)"
  "run_state (cfg_gets c) s = (c (sys_cfg s), s)"
  "run_state (dev_gets d) s = (d (sys_dev s), s)"
  by (simp_all add: sc_gets_def sc_modify_def cfg_gets_def dev_gets_def)

section \<open>Properties of the swapchain that an action keeps\<close>

definition on_sc :: "(afmf_swapchain \<Rightarrow> bool) \<Rightarrow> 'w sys \<Rightarrow> bool" where
  "on_sc Q s \<longleftrightarrow> Q (sys_sc s)"

lemma effect_free_on_sc [simp, intro]: "effect_free (on_sc Q)"
  by (simp add: effect_free_def on_sc_def)

lemma keeps_sc_gets [keeps_intros]: "keeps P (sc_gets f)"
  by (simp add: sc_gets_def keeps_intros)

lemma keeps_cfg_gets [keeps_intros]: "keeps P (cfg_gets f)"
  by (simp add: cfg_gets_def keeps_intros)

lemma keeps_dev_gets [keeps_intros]: "keeps P (dev_gets f)"
  by (simp add: dev_gets_def keeps_intros)

lemma keeps_sc_modify [keeps_intros]: "(\<And>sc. Q sc \<Longrightarrow> Q (f sc)) \<Longrightarrow> keeps (on_sc Q) (sc_modify f)"
  by (simp add: keeps_def on_sc_def)

text \<open>A projection of the swapchain that an action leaves as it is.\<close>

definition frames :: "(afmf_swapchain \<Rightarrow> 'b) \<Rightarrow> ('w sys, 'a) state \<Rightarrow> bool" where
  "frames g m \<longleftrightarrow> (\<forall>s. g (sys_sc (snd (run_state m s))) = g (sys_sc s))"

lemma frames_keeps: "frames g m \<longleftrightarrow> (\<forall>x. keeps (on_sc (\<lambda>sc. g sc = x)) m)"
  by (auto simp: frames_def keeps_def on_sc_def)

lemma framesI: "(\<And>x. keeps (on_sc (\<lambda>sc. g sc = x)) m) \<Longrightarrow> frames g m"
  by (simp add: frames_keeps)

lemma frames_run: "frames g m \<Longrightarrow> run_state m s = (a, s') \<Longrightarrow> g (sys_sc s') = g (sys_sc s)"
  by (metis frames_def snd_conv)

section \<open>Inline helpers\<close>

definition wsi_take :: "('w, 'e, unit) act" where
  "wsi_take = do { lock_mutex WsiTurn; lock_mutex WsiLock; unlock_mutex WsiTurn }"

definition wsi_give :: "('w, 'e, unit) act" where
  "wsi_give = unlock_mutex WsiLock"

definition elapsed_ms :: "timespec \<Rightarrow> timespec \<Rightarrow> real" where
  "elapsed_ms from to =
     real_of_int (tv_sec to - tv_sec from) * 1000 + real_of_int (tv_nsec to - tv_nsec from) / 1000000"

fun find_locked :: "afmf_swapchain list \<Rightarrow> handle \<Rightarrow> afmf_swapchain option" where
  "find_locked [] handle = None"
| "find_locked (sc # rest) handle = (if sc_handle sc = handle then Some sc else find_locked rest handle)"

lemma keeps_wsi [keeps_intros]:
  "effect_free P \<Longrightarrow> keeps P wsi_take" "effect_free P \<Longrightarrow> keeps P wsi_give"
  by (simp_all add: wsi_take_def wsi_give_def keeps_intros)

lemma run_wsi [simp]:
  "run_state wsi_take s = ((), s\<lparr>eff_trace := eff_trace s @ [Locked WsiTurn, Locked WsiLock, Unlocked WsiTurn]\<rparr>)"
  "run_state wsi_give s = ((), s\<lparr>eff_trace := eff_trace s @ [Unlocked WsiLock]\<rparr>)"
  by (simp_all add: wsi_take_def wsi_give_def)

lemma emits_sys [emits_intros]:
  "emits P (sc_gets g)" "emits P (sc_modify f)" "emits P (cfg_gets c)" "emits P (dev_gets d)"
  by (simp_all add: emits_def)

lemma emits_wsi [emits_intros]:
  "(\<And>l. P (Locked l)) \<Longrightarrow> (\<And>l. P (Unlocked l)) \<Longrightarrow> emits P wsi_take"
  "(\<And>l. P (Unlocked l)) \<Longrightarrow> emits P wsi_give"
  by (simp_all add: emits_def)

text \<open>
  What a frame's work leaves as it is: the two rings and the counts around them, the images, the
  semaphores, the slots' fences and command buffers, the flags of the threads, what the present modes
  are rewritten by.
\<close>

definition sc_fixed where
  "sc_fixed (sc :: afmf_swapchain) =
     ((sc_handle sc, sc_async sc, sc_image_count sc, sc_images sc, sc_sem_generated sc, sc_sem_real sc, sc_sem_app sc),
      (map slot_fence (sc_slots sc), map slot_cmd (sc_slots sc), sc_slot_index sc, sc_in_flight sc),
      (sc_work sc, sc_work_head sc, sc_work_count sc, sc_worker_running sc, sc_worker_stop sc, sc_worker_busy sc),
      (sc_jobs sc, sc_job_head sc, sc_job_count sc, sc_presenter_running sc, sc_presenter_stop sc),
      sc_gen_enabled sc, sc_fifo_to_mailbox sc, sc_allowed_modes sc)"

lemma frames_bind: "frames g m \<Longrightarrow> (\<And>a. frames g (f a)) \<Longrightarrow> frames g (State_Monad.bind m f)"
  by (simp add: frames_def case_prod_beta)

named_theorems frames_intros

lemma frames_basic [frames_intros]:
  "frames g (return a)" "frames g (gets h)" "frames g (sc_gets k)" "frames g (cfg_gets c)" "frames g (dev_gets d)"
  "frames g (emit e)" "frames g (vk_full call)" "frames g (vk call)" "frames g clock_gettime"
  "frames g clock_checked" "frames g (record_cmds cb cs)" "frames g wsi_take" "frames g wsi_give"
  by (simp_all add: frames_def run_effects split: prod.split)

lemma frames_sc_modify [frames_intros]: "(\<And>sc. g (f sc) = g sc) \<Longrightarrow> frames g (sc_modify f)"
  by (simp add: frames_def)

lemma frames_if [frames_intros]:
  "(b \<Longrightarrow> frames g m) \<Longrightarrow> (\<not> b \<Longrightarrow> frames g n) \<Longrightarrow> frames g (if b then m else n)"
  by simp

lemma frames_prod [frames_intros]: "(\<And>x y. p = (x, y) \<Longrightarrow> frames g (f x y)) \<Longrightarrow> frames g (case p of (x, y) \<Rightarrow> f x y)"
  by (cases p) auto

lemma frames_option [frames_intros]:
  "(p = None \<Longrightarrow> frames g m) \<Longrightarrow> (\<And>x. p = Some x \<Longrightarrow> frames g (f x)) \<Longrightarrow>
     frames g (case p of None \<Rightarrow> m | Some x \<Rightarrow> f x)"
  by (cases p) auto

lemmas frames_rules = frames_bind frames_intros

section \<open>The lock discipline\<close>

fun rank :: "lock \<Rightarrow> nat" where
  "rank DevLock = 0"
| "rank WorkLock = 1"
| "rank WsiTurn = 2"
| "rank WsiLock = 3"
| "rank AsyncLock = 4"
| "rank JobLock = 5"
| "rank RegistryLock = 6"

fun lock_run :: "lock list \<Rightarrow> event list \<Rightarrow> lock list option" where
  "lock_run H [] = Some H"
| "lock_run H (Locked l # es) =
     (if list_all (\<lambda>h. rank h < rank l) H then lock_run (l # H) es else None)"
| "lock_run H (Unlocked l # es) = (if l \<in> set H then lock_run (remove1 l H) es else None)"
| "lock_run H (Called c r out # es) = lock_run H es"
| "lock_run H (Recorded cb c # es) = lock_run H es"

lemma lock_run_append: "lock_run H (es @ fs) = Option.bind (lock_run H es) (\<lambda>H'. lock_run H' fs)"
  by (induction H es rule: lock_run.induct) auto

lemma lock_run_Recorded [simp]: "lock_run H (map (Recorded cb) cs) = Some H"
  by (induction cs) auto

definition locks :: "lock list \<Rightarrow> ('w, 'e, 'a) act \<Rightarrow> ('a \<Rightarrow> lock list) \<Rightarrow> bool" where
  "locks H m F \<longleftrightarrow> (\<forall>s. \<exists>tr. eff_trace (snd (run_state m s)) = eff_trace s @ tr
                        \<and> lock_run H tr = Some (F (fst (run_state m s))))"

named_theorems locks_intros

lemma locksI:
  "(\<And>s. \<exists>tr. eff_trace (snd (run_state m s)) = eff_trace s @ tr
        \<and> lock_run H tr = Some (F (fst (run_state m s)))) \<Longrightarrow> locks H m F"
  by (simp add: locks_def)

lemma locks_bind:
  assumes m: "locks H m F" and f: "\<And>a. locks (F a) (f a) G"
  shows "locks H (State_Monad.bind m f) G"
proof (rule locksI)
  fix s
  obtain a s' where r: "run_state m s = (a, s')" by fastforce
  from m obtain tr where tr: "eff_trace s' = eff_trace s @ tr" "lock_run H tr = Some (F a)"
    unfolding locks_def by (metis r fst_conv snd_conv)
  from f [of a] obtain tr' where tr': "eff_trace (snd (run_state (f a) s')) = eff_trace s' @ tr'"
      "lock_run (F a) tr' = Some (G (fst (run_state (f a) s')))"
    unfolding locks_def by metis
  show "\<exists>tr. eff_trace (snd (run_state (State_Monad.bind m f) s)) = eff_trace s @ tr
            \<and> lock_run H tr = Some (G (fst (run_state (State_Monad.bind m f) s)))"
    using tr tr' r by (intro exI [of _ "tr @ tr'"]) (simp add: lock_run_append)
qed

lemma locks_return [locks_intros]: "H = F a \<Longrightarrow> locks H (return a) F"
  by (auto simp: locks_def)

lemma locks_gets [locks_intros]: "locks H (gets f) (\<lambda>_. H)"
  by (auto simp: locks_def)

lemma locks_modify: "(\<And>s. eff_trace (f s) = eff_trace s) \<Longrightarrow> locks H (modify f) (\<lambda>_. H)"
  by (auto simp: locks_def)

lemma locks_sys [locks_intros]:
  "locks H (sc_gets g) (\<lambda>_. H)" "locks H (sc_modify f) (\<lambda>_. H)" "locks H (cfg_gets c) (\<lambda>_. H)"
  "locks H (dev_gets d) (\<lambda>_. H)"
  by (auto simp: locks_def)

lemma locks_lock [locks_intros]:
  "list_all (\<lambda>h. rank h < rank l) H \<Longrightarrow> locks H (lock_mutex l) (\<lambda>_. l # H)"
  by (auto simp: locks_def)

lemma locks_unlock [locks_intros]: "l \<in> set H \<Longrightarrow> locks H (unlock_mutex l) (\<lambda>_. remove1 l H)"
  by (auto simp: locks_def)

lemma locks_vk_full [locks_intros]: "locks H (vk_full c) (\<lambda>_. H)"
  by (auto simp: locks_def run_vk_full split: prod.split)

lemma locks_vk [locks_intros]: "locks H (vk c) (\<lambda>_. H)"
  by (auto simp: locks_def run_vk split: prod.split)

lemma locks_clock [locks_intros]: "locks H clock_gettime (\<lambda>_. H)" "locks H clock_checked (\<lambda>_. H)"
  by (auto simp: locks_def run_clock run_clock_checked split: prod.split)

lemma locks_record_cmds [locks_intros]: "locks H (record_cmds cb cs) (\<lambda>_. H)"
  by (auto simp: locks_def)

lemma locks_if [locks_intros]:
  "(b \<Longrightarrow> locks H m F) \<Longrightarrow> (\<not> b \<Longrightarrow> locks H n F) \<Longrightarrow> locks H (if b then m else n) F"
  by simp

lemma locks_prod [locks_intros]:
  "(\<And>x y. p = (x, y) \<Longrightarrow> locks H (f x y) F) \<Longrightarrow> locks H (case p of (x, y) \<Rightarrow> f x y) F"
  by (cases p) auto

lemma locks_option [locks_intros]:
  "(\<And>x. p = Some x \<Longrightarrow> locks H (f x) F) \<Longrightarrow> (p = None \<Longrightarrow> locks H m F) \<Longrightarrow>
     locks H (case p of None \<Rightarrow> m | Some x \<Rightarrow> f x) F"
  by (cases p) auto

lemma locks_weaken: "locks H m F \<Longrightarrow> (\<And>a. F a = G a) \<Longrightarrow> locks H m G"
  by (simp add: locks_def)

lemma locks_wsi_take [locks_intros]:
  "list_all (\<lambda>h. rank h < 2) H \<Longrightarrow> locks H wsi_take (\<lambda>_. WsiLock # H)"
  unfolding wsi_take_def locks_def by (auto simp: list_all_iff)

lemma locks_wsi_give [locks_intros]: "WsiLock \<in> set H \<Longrightarrow> locks H wsi_give (\<lambda>_. remove1 WsiLock H)"
  unfolding wsi_give_def by (rule locks_unlock)

text \<open>
  The rules as an operation's code is read: the first effect of a sequence, then the rest.
  \<open>intro locks_wp\<close> takes an operation apart down to the orders and the final set of locks.
\<close>

named_theorems locks_wp

lemma locks_wp_neutral:
  "(\<And>H. locks H m (\<lambda>_. H)) \<Longrightarrow> (\<And>a. locks H (f a) G) \<Longrightarrow> locks H (State_Monad.bind m f) G"
  by (rule locks_bind)

lemma locks_wp_at:
  "locks H0 m (\<lambda>_. H1) \<Longrightarrow> H = H0 \<Longrightarrow> (\<And>a. locks H1 (f a) G) \<Longrightarrow> locks H (State_Monad.bind m f) G"
  by (simp add: locks_bind)

lemma locks_wp_at_last: "locks H0 m F \<Longrightarrow> H = H0 \<Longrightarrow> (\<And>a. F a = G a) \<Longrightarrow> locks H m G"
  by (simp add: locks_def)

lemmas locks_wp_effects [locks_wp] =
  locks_wp_neutral [OF locks_sys(1)] locks_wp_neutral [OF locks_sys(2)] locks_wp_neutral [OF locks_sys(3)]
  locks_wp_neutral [OF locks_sys(4)] locks_wp_neutral [OF locks_gets] locks_wp_neutral [OF locks_vk]
  locks_wp_neutral [OF locks_vk_full] locks_wp_neutral [OF locks_clock(1)]
  locks_wp_neutral [OF locks_clock(2)] locks_wp_neutral [OF locks_record_cmds]

lemmas locks_wp_last [locks_wp] =
  locks_sys locks_gets locks_vk locks_vk_full locks_clock locks_record_cmds

lemma locks_wp_return [locks_wp]: "H = G a \<Longrightarrow> locks H (return a) G"
  by (rule locks_return)

lemma locks_wp_bind_return [locks_wp]: "locks H (f a) G \<Longrightarrow> locks H (State_Monad.bind (return a) f) G"
  by (simp add: locks_def)

lemma locks_wp_assoc [locks_wp]:
  "locks H (State_Monad.bind m (\<lambda>a. State_Monad.bind (f a) g)) G \<Longrightarrow>
     locks H (State_Monad.bind (State_Monad.bind m f) g) G"
  by (simp add: locks_def case_prod_beta)

lemma locks_wp_if [locks_wp]:
  "(b \<Longrightarrow> locks H (State_Monad.bind m f) G) \<Longrightarrow> (\<not> b \<Longrightarrow> locks H (State_Monad.bind n f) G) \<Longrightarrow>
     locks H (State_Monad.bind (if b then m else n) f) G"
  by simp

lemma locks_wp_prod [locks_wp]:
  "(\<And>x y. p = (x, y) \<Longrightarrow> locks H (State_Monad.bind (g x y) f) G) \<Longrightarrow>
     locks H (State_Monad.bind (case p of (x, y) \<Rightarrow> g x y) f) G"
  by (cases p) simp

lemma locks_wp_option [locks_wp]:
  "(p = None \<Longrightarrow> locks H (State_Monad.bind m f) G) \<Longrightarrow>
     (\<And>x. p = Some x \<Longrightarrow> locks H (State_Monad.bind (g x) f) G) \<Longrightarrow>
     locks H (State_Monad.bind (case p of None \<Rightarrow> m | Some x \<Rightarrow> g x) f) G"
  by (cases p) simp_all

lemmas locks_wp_cases [locks_wp] = locks_if locks_prod locks_option

lemma locks_wp_lock [locks_wp]:
  "list_all (\<lambda>h. rank h < rank l) H \<Longrightarrow> (\<And>a. locks (l # H) (f a) G) \<Longrightarrow>
     locks H (State_Monad.bind (lock_mutex l) f) G"
  by (rule locks_bind [OF locks_lock])

lemma locks_wp_unlock [locks_wp]:
  "l \<in> set H \<Longrightarrow> (\<And>a. locks (remove1 l H) (f a) G) \<Longrightarrow> locks H (State_Monad.bind (unlock_mutex l) f) G"
  by (rule locks_bind [OF locks_unlock])

lemma locks_wp_take [locks_wp]:
  "list_all (\<lambda>h. rank h < 2) H \<Longrightarrow> (\<And>a. locks (WsiLock # H) (f a) G) \<Longrightarrow>
     locks H (State_Monad.bind wsi_take f) G"
  by (rule locks_bind [OF locks_wsi_take])

lemma locks_wp_give [locks_wp]:
  "WsiLock \<in> set H \<Longrightarrow> (\<And>a. locks (remove1 WsiLock H) (f a) G) \<Longrightarrow> locks H (State_Monad.bind wsi_give f) G"
  by (rule locks_bind [OF locks_wsi_give])

lemma locks_wp_last_lock [locks_wp]:
  "list_all (\<lambda>h. rank h < rank l) H \<Longrightarrow> (\<And>a. l # H = G a) \<Longrightarrow> locks H (lock_mutex l) G"
  "l \<in> set H \<Longrightarrow> (\<And>a. remove1 l H = G a) \<Longrightarrow> locks H (unlock_mutex l) G"
  "WsiLock \<in> set H \<Longrightarrow> (\<And>a. remove1 WsiLock H = G a) \<Longrightarrow> locks H wsi_give G"
  by (blast intro: locks_weaken locks_lock locks_unlock locks_wsi_give)+

text \<open>
  Two threads cannot wait for each other: from a state where each holds a lock the other asks
  for, one of them would have broken the rank order.
\<close>

lemma lock_run_ordered:
  assumes "lock_run H (es @ [Locked l]) \<noteq> None" and "lock_run H es = Some H'"
  shows "\<forall>h \<in> set H'. rank h < rank l"
  using assms by (auto simp: lock_run_append list_all_iff split: if_splits)

section \<open>A state to run in\<close>

text \<open>
  A configuration from an empty environment, a driver that succeeds at everything and hands out
  one value for every output, a clock that counts whole milliseconds: what the concrete runs of
  the theorems use.
\<close>

definition cfg_default :: afmf_config where
  "cfg_default = init (\<lambda>_. None) None"

lemma cfg_default_simps [simp]:
  "cfg_min_fps cfg_default = 30" "cfg_governor cfg_default" "cfg_pacing cfg_default"
  "cfg_acquire_timeout_ns cfg_default = 0" "cfg_async cfg_default" "\<not> cfg_passive cfg_default"
  "cfg_extra_images cfg_default = 2" "cfg_interpolate cfg_default" "\<not> cfg_direct_output cfg_default"
  "cfg_direct_ingest cfg_default" "\<not> cfg_profile cfg_default" "cfg_dump_dir cfg_default = None"
  "cfg_present_mode cfg_default = AFMF_PRESENT_AUTO"
  by (simp_all add: cfg_default_def init_unfold read_bounded_unset read_choice_def present_mode_of_def)

definition calm_driver :: "nat \<Rightarrow> vk_call \<Rightarrow> nat \<Rightarrow> (vk_result \<times> nat) \<times> nat" where
  "calm_driver out c w = ((VK_SUCCESS, out), w)"

definition ms_clock :: "nat \<Rightarrow> timespec option \<times> nat" where
  "ms_clock w = (Some \<lparr>tv_sec = int w div 1000, tv_nsec = 1000000 * (int w mod 1000)\<rparr>, w + 1)"

definition sample_sys :: "afmf_swapchain \<Rightarrow> nat sys" where
  "sample_sys sc =
     \<lparr> eff_driver = calm_driver 0, eff_clock = ms_clock, eff_world = 0, eff_trace = [],
       eff_array = (\<lambda>_ _. 0),
       sys_cfg = cfg_default, sys_dev = dev_zero,
       sys_ticks = (\<lambda>_. []), sys_sc = sc, sys_swapchains = [] \<rparr>"

lemma sample_sys_simps [simp]:
  "eff_driver (sample_sys sc) = calm_driver 0" "eff_clock (sample_sys sc) = ms_clock"
  "eff_world (sample_sys sc) = 0" "eff_trace (sample_sys sc) = []" "sys_cfg (sample_sys sc) = cfg_default"
  "sys_dev (sample_sys sc) = dev_zero" "sys_sc (sample_sys sc) = sc" "sys_swapchains (sample_sys sc) = []"
  "calm_driver out c w = ((VK_SUCCESS, out), w)"
  by (simp_all add: sample_sys_def calm_driver_def)

end
