(* ===== verification/Cadence.thy ===== *)
theory Cadence
  imports System
begin

text \<open>
  The cadence of the application's presents, the governor that reads it, and the spare image the
  next companion goes into (src/src/swapchain_cadence.c), with the levels the governor sets
  (\<open>afmf_framegen_set_levels\<close>, src/src/framegen_record.c). Logging is left out.
\<close>

section \<open>The cadence\<close>

definition update_ema :: "real \<Rightarrow> real \<Rightarrow> real" where
  "update_ema ema dt0 =
     (let dt = (if ema > 0 \<and> dt0 > 2 * ema then 2 * ema else dt0)
      in if ema = 0 then dt else 9 / 10 * ema + 1 / 10 * dt)"

definition reset_stats :: "afmf_swapchain \<Rightarrow> afmf_swapchain" where
  "reset_stats sc = sc\<lparr>sc_present_ms := 0, sc_present_real_ms := 0, sc_refill_ms := 0,
     sc_gpu_delay_ms := 0, sc_hold_ms := 0, sc_fence_ms := 0, sc_acquire_ms := 0,
     sc_record_ms := 0, sc_submit_ms := 0\<rparr>"

definition afmf_sc_update_cadence :: "('w sys, nat) state" where
  "afmf_sc_update_cadence = do {
     now' \<leftarrow> clock_checked;
     lock_mutex DevLock;
     (case now' of
        None \<Rightarrow> return ()
      | Some now \<Rightarrow> do {
          count \<leftarrow> sc_gets sc_present_count;
          whenb (count > 0) (do {
            last \<leftarrow> sc_gets sc_last_present;
            (let dt = elapsed_ms last now in do {
               sc_modify (\<lambda>sc. sc\<lparr>sc_frame_time_ms_accum := sc_frame_time_ms_accum sc + dt,
                                  sc_frame_time_samples := sc_frame_time_samples sc + 1\<rparr>);
               whenb (dt < 250) (do {
                 lock_mutex JobLock;
                 sc_modify (\<lambda>sc. sc\<lparr>sc_frame_ms_ema := update_ema (sc_frame_ms_ema sc) dt\<rparr>);
                 unlock_mutex JobLock
               })
             })
          });
          sc_modify (\<lambda>sc. sc\<lparr>sc_last_present := now\<rparr>)
        });
     sc_modify (\<lambda>sc. sc\<lparr>sc_present_count := sc_present_count sc + 1\<rparr>);
     samples \<leftarrow> sc_gets sc_frame_time_samples;
     whenb (samples = AFMF_STATS_INTERVAL) (do {
       lock_mutex JobLock;
       sc_modify reset_stats;
       unlock_mutex JobLock;
       sc_modify (\<lambda>sc. sc\<lparr>sc_frame_time_ms_accum := 0, sc_frame_time_samples := 0, sc_hook_ms := 0\<rparr>)
     });
     ordinal \<leftarrow> sc_gets sc_present_count;
     unlock_mutex DevLock;
     return ordinal
   }"

section \<open>The governor\<close>

definition afmf_framegen_set_levels :: "afmf_framegen \<Rightarrow> nat \<Rightarrow> afmf_framegen" where
  "afmf_framegen_set_levels fg levels =
     fg\<lparr>fg_levels := (if levels < 5 then 5 else if levels > fg_max_levels fg then fg_max_levels fg
                      else levels)\<rparr>"

definition afmf_framegen_max_levels :: "afmf_framegen \<Rightarrow> nat" where
  "afmf_framegen_max_levels fg = fg_max_levels fg"

text \<open>
  \<open>afmf_sc_governor_allows\<close> in the order of the code: the rate floor with its two thresholds, the
  two streaks and the step they move, the search levels of the new step, the thinning.
\<close>

definition governor_floor :: "afmf_config \<Rightarrow> afmf_swapchain \<Rightarrow> afmf_swapchain" where
  "governor_floor cfg sc =
     (let frame_ms = sc_frame_ms_ema sc; floor_ms = 1000 / real (unat (cfg_min_fps cfg))
      in if \<not> sc_under_floor sc \<and> frame_ms > floor_ms then sc\<lparr>sc_under_floor := True\<rparr>
         else if sc_under_floor sc \<and> frame_ms < 9 / 10 * floor_ms
         then sc\<lparr>sc_under_floor := False, sc_late_streak := 0, sc_early_streak := 0\<rparr>
         else sc)"

definition governor_streaks :: "real \<Rightarrow> afmf_swapchain \<Rightarrow> afmf_swapchain" where
  "governor_streaks ratio sc =
     (if ratio > AFMF_GOVERNOR_LATE then
        (let sc = sc\<lparr>sc_early_streak := 0, sc_late_streak := sc_late_streak sc + 1\<rparr>
         in if sc_late_streak sc \<ge> AFMF_GOVERNOR_LATE_FRAMES \<and> sc_governor_step sc < AFMF_GOVERNOR_STEPS
            then sc\<lparr>sc_governor_step := sc_governor_step sc + 1, sc_late_streak := 0\<rparr>
            else sc)
      else if ratio < AFMF_GOVERNOR_EARLY then
        (let sc = sc\<lparr>sc_late_streak := 0, sc_early_streak := sc_early_streak sc + 1\<rparr>
         in if sc_early_streak sc \<ge> AFMF_GOVERNOR_EARLY_FRAMES \<and> sc_governor_step sc > 0
            then sc\<lparr>sc_governor_step := sc_governor_step sc - 1, sc_early_streak := 0\<rparr>
            else sc)
      else sc)"

definition governor_levels :: "nat \<Rightarrow> afmf_swapchain \<Rightarrow> afmf_swapchain" where
  "governor_levels before sc =
     (if sc_governor_step sc \<noteq> before then
        sc\<lparr>sc_fg := map_option (\<lambda>fg. afmf_framegen_set_levels fg
             (if sc_governor_step sc \<ge> 1 then 5 else afmf_framegen_max_levels fg)) (sc_fg sc)\<rparr>
      else sc)"

definition governor_every :: "afmf_swapchain \<Rightarrow> nat" where
  "governor_every sc = (if sc_governor_step sc \<ge> 2 then sc_governor_step sc else 1)"

definition afmf_sc_governor_allows ::
  "afmf_config \<Rightarrow> real \<Rightarrow> nat \<Rightarrow> afmf_swapchain \<Rightarrow> bool \<times> afmf_swapchain" where
  "afmf_sc_governor_allows cfg last_delay_ms ordinal sc0 =
     (let frame_ms = sc_frame_ms_ema sc0;
          floored = (cfg_min_fps cfg > 0 \<and> frame_ms > 0);
          sc = (if floored then governor_floor cfg sc0 else sc0)
      in if floored \<and> sc_under_floor sc
         then (False, sc\<lparr>sc_reduced_frames := sc_reduced_frames sc + 1\<rparr>)
         else if \<not> cfg_governor cfg \<or> frame_ms \<le> 0 then (True, sc)
         else
           (let ratio = last_delay_ms / frame_ms;
                sc = governor_levels (sc_governor_step sc) (governor_streaks ratio sc)
            in if ordinal mod governor_every sc \<noteq> 0
               then (False, sc\<lparr>sc_reduced_frames := sc_reduced_frames sc + 1\<rparr>)
               else (True, sc)))"

definition governor_allows :: "real \<Rightarrow> nat \<Rightarrow> ('w sys, bool) state" where
  "governor_allows last_delay_ms ordinal = do {
     cfg \<leftarrow> cfg_gets id;
     sc \<leftarrow> sc_gets id;
     (case afmf_sc_governor_allows cfg last_delay_ms ordinal sc of (allowed, sc') \<Rightarrow> do {
        sc_modify (\<lambda>_. sc');
        return allowed
      })
   }"

section \<open>The spare image\<close>

definition afmf_sc_spare_refill :: "u64 \<Rightarrow> ('w sys, unit) state" where
  "afmf_sc_spare_refill timeout = do {
     valid \<leftarrow> sc_gets sc_spare_valid;
     if valid then return ()
     else do {
       sc \<leftarrow> sc_gets id;
       (res, image) \<leftarrow> vk_full (AcquireNextImage (sc_handle sc) timeout VK_NULL_HANDLE (sc_spare_fence sc));
       sc_modify (\<lambda>sc. sc\<lparr>sc_spare_image := (if res = VK_SUCCESS \<or> res = VK_SUBOPTIMAL_KHR then image
                                              else sc_spare_image sc),
                          sc_spare_valid := (res = VK_SUCCESS \<or> res = VK_SUBOPTIMAL_KHR)\<rparr>)
     }
   }"

definition spare_slice :: "u64 \<Rightarrow> u64" where
  "spare_slice left = (if left > AFMF_ACQUIRE_SLICE_NS then AFMF_ACQUIRE_SLICE_NS else left)"

lemma spare_slice_le: "spare_slice left \<le> left"
  by (auto simp: spare_slice_def dest: less_imp_le)

text \<open>
  One turn of the \<open>for (;;)\<close> of \<open>afmf_sc_spare_take\<close>, and the loop: validity, spare and what is
  left of the budget.
\<close>

definition spare_try :: "u64 \<Rightarrow> ('w sys, bool \<times> nat) state" where
  "spare_try wait = do {
     wsi_take;
     afmf_sc_spare_refill wait;
     valid \<leftarrow> sc_gets sc_spare_valid;
     spare \<leftarrow> sc_gets sc_spare_image;
     wsi_give;
     return (valid, spare)
   }"

function spare_acquire_loop :: "u64 \<Rightarrow> ('w sys, bool \<times> nat \<times> u64) state" where
  "spare_acquire_loop left = do {
     (valid, spare) \<leftarrow> spare_try (spare_slice left);
     if valid \<or> left - spare_slice left = 0 then return (valid, spare, left - spare_slice left)
     else spare_acquire_loop (left - spare_slice left)
   }"
  by pat_completeness auto
termination
proof (relation "measure unat", simp, simp only: in_measure)
  fix left :: u64 and v
  assume "\<not> (v \<or> left - spare_slice left = 0)"
  then have "left \<noteq> spare_slice left" by simp
  then have "spare_slice left \<noteq> 0"
    by (auto simp: spare_slice_def split: if_splits)
  then show "unat (left - spare_slice left) < unat left"
    by (rule word_sub_less) (rule spare_slice_le)
qed

declare spare_acquire_loop.simps [simp del]

definition afmf_sc_spare_take :: "('w sys, nat option) state" where
  "afmf_sc_spare_take = do {
     timeout \<leftarrow> cfg_gets cfg_acquire_timeout_ns;
     (valid, spare, left) \<leftarrow> spare_acquire_loop timeout;
     if \<not> valid then return None
     else do {
       fence \<leftarrow> sc_gets sc_spare_fence;
       res \<leftarrow> vk (WaitForFences fence (if left > AFMF_ACQUIRE_SLICE_NS then left else AFMF_ACQUIRE_SLICE_NS));
       if res \<noteq> VK_SUCCESS then return None
       else do {
         _ \<leftarrow> vk (ResetFences fence);
         wsi_take;
         sc_modify (\<lambda>sc. sc\<lparr>sc_spare_valid := False\<rparr>);
         wsi_give;
         return (Some spare)
       }
     }
   }"

section \<open>The smoothed frame time\<close>

lemma update_ema_first: "update_ema 0 dt = dt"
  by (simp add: update_ema_def)

lemma update_ema_step:
  assumes "0 < ema" and "0 \<le> dt"
  shows "9 / 10 * ema \<le> update_ema ema dt \<and> update_ema ema dt \<le> 11 / 10 * ema"
  using assms by (auto simp: update_ema_def Let_def)

lemma update_ema_range:
  assumes "0 \<le> ema" and "ema < 250" and "0 \<le> dt" and "dt < 250"
  shows "0 \<le> update_ema ema dt \<and> update_ema ema dt < 250"
  using assms by (auto simp: update_ema_def Let_def)

definition ema_ok :: "afmf_swapchain \<Rightarrow> bool" where
  "ema_ok sc \<longleftrightarrow> 0 \<le> sc_frame_ms_ema sc \<and> sc_frame_ms_ema sc < 250"

definition sample_ms :: "'w sys \<Rightarrow> real option" where
  "sample_ms s = (case fst (eff_clock s (eff_world s)) of
                    Some now \<Rightarrow> if sc_present_count (sys_sc s) > 0
                                then Some (elapsed_ms (sc_last_present (sys_sc s)) now) else None
                  | None \<Rightarrow> None)"

lemma update_cadence_run:
  assumes "run_state afmf_sc_update_cadence s = (n, s')"
  shows "n = sc_present_count (sys_sc s) + 1"
    and "sc_present_count (sys_sc s') = n"
    and "sc_frame_ms_ema (sys_sc s') =
           (case sample_ms s of
              Some dt \<Rightarrow> if dt < 250 then update_ema (sc_frame_ms_ema (sys_sc s)) dt
                        else sc_frame_ms_ema (sys_sc s)
            | None \<Rightarrow> sc_frame_ms_ema (sys_sc s))"
  using assms
  by (auto simp: afmf_sc_update_cadence_def run_effects sample_ms_def reset_stats_def Let_def
           split: prod.splits option.splits if_splits)

text \<open>
  The smoothed frame time. Every present is numbered one after the last. With a clock that
  does not run backwards the estimate stays in [0, 250) ms, a present 250 ms or more after the
  last one leaves it alone, and once there is an estimate one frame, however late, moves it by a
  tenth at most.
\<close>
theorem update_cadence_smooth:
  assumes run: "run_state afmf_sc_update_cadence s = (n, s')"
    and ok: "ema_ok (sys_sc s)"
    and mono: "\<And>dt. sample_ms s = Some dt \<Longrightarrow> 0 \<le> dt"
  shows "n = sc_present_count (sys_sc s) + 1 \<and> sc_present_count (sys_sc s') = n
    \<and> ema_ok (sys_sc s')
    \<and> ((\<exists>dt. sample_ms s = Some dt \<and> 250 \<le> dt) \<longrightarrow>
          sc_frame_ms_ema (sys_sc s') = sc_frame_ms_ema (sys_sc s))
    \<and> (0 < sc_frame_ms_ema (sys_sc s) \<longrightarrow>
          \<bar>sc_frame_ms_ema (sys_sc s') - sc_frame_ms_ema (sys_sc s)\<bar> \<le> sc_frame_ms_ema (sys_sc s) / 10)"
proof -
  note r = update_cadence_run [OF run]
  show ?thesis
  proof (cases "sample_ms s")
    case None
    then show ?thesis using r ok by (auto simp: ema_ok_def)
  next
    case (Some dt)
    with mono have dt: "0 \<le> dt" by simp
    show ?thesis
    proof (cases "dt < 250")
      case True
      let ?e = "sc_frame_ms_ema (sys_sc s)"
      have "0 < ?e \<longrightarrow> \<bar>update_ema ?e dt - ?e\<bar> \<le> ?e / 10"
        using update_ema_step [of ?e dt] dt unfolding abs_le_iff by auto
      then show ?thesis
        using True r Some ok dt update_ema_range [of ?e dt] by (simp add: ema_ok_def)
    next
      case False
      then show ?thesis using r Some ok by (auto simp: ema_ok_def)
    qed
  qed
qed

section \<open>The governor's invariant\<close>

definition levels_ok :: "nat \<Rightarrow> afmf_framegen option \<Rightarrow> bool" where
  "levels_ok step fg' \<longleftrightarrow>
     (\<forall>fg. fg' = Some fg \<longrightarrow> 5 \<le> fg_max_levels fg
        \<and> fg_levels fg = (if step \<ge> 1 then 5 else fg_max_levels fg))"

definition governor_ok :: "afmf_swapchain \<Rightarrow> bool" where
  "governor_ok sc \<longleftrightarrow>
     sc_governor_step sc \<le> AFMF_GOVERNOR_STEPS
     \<and> (sc_governor_step sc < AFMF_GOVERNOR_STEPS \<longrightarrow> sc_late_streak sc < AFMF_GOVERNOR_LATE_FRAMES)
     \<and> (0 < sc_governor_step sc \<longrightarrow> sc_early_streak sc < AFMF_GOVERNOR_EARLY_FRAMES)
     \<and> levels_ok (sc_governor_step sc) (sc_fg sc)"

definition streaks_ok :: "afmf_swapchain \<Rightarrow> bool" where
  "streaks_ok sc \<longleftrightarrow>
     sc_governor_step sc \<le> AFMF_GOVERNOR_STEPS
     \<and> (sc_governor_step sc < AFMF_GOVERNOR_STEPS \<longrightarrow> sc_late_streak sc < AFMF_GOVERNOR_LATE_FRAMES)
     \<and> (0 < sc_governor_step sc \<longrightarrow> sc_early_streak sc < AFMF_GOVERNOR_EARLY_FRAMES)"

lemma governor_ok_iff: "governor_ok sc \<longleftrightarrow> streaks_ok sc \<and> levels_ok (sc_governor_step sc) (sc_fg sc)"
  by (auto simp: governor_ok_def streaks_ok_def)

lemma governor_floor_fields [simp]:
  "sc_governor_step (governor_floor cfg sc) = sc_governor_step sc"
  "sc_fg (governor_floor cfg sc) = sc_fg sc"
  "sc_frame_ms_ema (governor_floor cfg sc) = sc_frame_ms_ema sc"
  "sc_reduced_frames (governor_floor cfg sc) = sc_reduced_frames sc"
  by (simp_all add: governor_floor_def Let_def)

lemma governor_floor_ok: "governor_ok sc \<Longrightarrow> governor_ok (governor_floor cfg sc)"
  by (auto simp: governor_ok_def governor_floor_def Let_def)

lemma governor_streaks_fields [simp]:
  "sc_fg (governor_streaks r sc) = sc_fg sc"
  "sc_frame_ms_ema (governor_streaks r sc) = sc_frame_ms_ema sc"
  "sc_reduced_frames (governor_streaks r sc) = sc_reduced_frames sc"
  "sc_under_floor (governor_streaks r sc) = sc_under_floor sc"
  by (simp_all add: governor_streaks_def Let_def)

lemma governor_streaks_ok: "streaks_ok sc \<Longrightarrow> streaks_ok (governor_streaks r sc)"
  by (auto simp: streaks_ok_def governor_streaks_def Let_def)

lemma governor_levels_fields [simp]:
  "sc_governor_step (governor_levels b sc) = sc_governor_step sc"
  "sc_late_streak (governor_levels b sc) = sc_late_streak sc"
  "sc_early_streak (governor_levels b sc) = sc_early_streak sc"
  "sc_reduced_frames (governor_levels b sc) = sc_reduced_frames sc"
  "sc_under_floor (governor_levels b sc) = sc_under_floor sc"
  "sc_frame_ms_ema (governor_levels b sc) = sc_frame_ms_ema sc"
  by (simp_all add: governor_levels_def)

lemma governor_levels_ok:
  "levels_ok b (sc_fg sc) \<Longrightarrow> levels_ok (sc_governor_step sc) (sc_fg (governor_levels b sc))"
  unfolding governor_levels_def levels_ok_def afmf_framegen_set_levels_def afmf_framegen_max_levels_def
  by (cases "sc_fg sc") simp_all

text \<open>The step and the streaks after one verdict, whatever the verdict.\<close>

definition governed :: "afmf_config \<Rightarrow> real \<Rightarrow> afmf_swapchain \<Rightarrow> afmf_swapchain" where
  "governed cfg delay sc0 =
     (let floored = (cfg_min_fps cfg > 0 \<and> sc_frame_ms_ema sc0 > 0);
          sc = (if floored then governor_floor cfg sc0 else sc0)
      in if floored \<and> sc_under_floor sc \<or> \<not> cfg_governor cfg \<or> sc_frame_ms_ema sc0 \<le> 0 then sc
         else governor_levels (sc_governor_step sc) (governor_streaks (delay / sc_frame_ms_ema sc0) sc))"

definition held_back :: "afmf_config \<Rightarrow> nat \<Rightarrow> afmf_swapchain \<Rightarrow> bool" where
  "held_back cfg ordinal sc \<longleftrightarrow>
     sc_frame_ms_ema sc > 0
     \<and> (cfg_min_fps cfg > 0 \<and> sc_under_floor sc
        \<or> cfg_governor cfg \<and> \<not> governor_every sc dvd ordinal)"

lemma governor_allows_eq:
  "afmf_sc_governor_allows cfg delay ordinal sc =
     (let sc' = governed cfg delay sc
      in if held_back cfg ordinal sc'
         then (False, sc'\<lparr>sc_reduced_frames := sc_reduced_frames sc + 1\<rparr>) else (True, sc'))"
proof -
  let ?floored = "cfg_min_fps cfg > 0 \<and> sc_frame_ms_ema sc > 0"
  define sc1 where "sc1 = (if ?floored then governor_floor cfg sc else sc)"
  have sc1: "sc_frame_ms_ema sc1 = sc_frame_ms_ema sc" "sc_reduced_frames sc1 = sc_reduced_frames sc"
    by (simp_all add: sc1_def)
  have allows: "afmf_sc_governor_allows cfg delay ordinal sc =
     (if ?floored \<and> sc_under_floor sc1 then (False, sc1\<lparr>sc_reduced_frames := sc_reduced_frames sc1 + 1\<rparr>)
      else if \<not> cfg_governor cfg \<or> sc_frame_ms_ema sc \<le> 0 then (True, sc1)
      else let sc2 = governor_levels (sc_governor_step sc1) (governor_streaks (delay / sc_frame_ms_ema sc) sc1)
           in if ordinal mod governor_every sc2 \<noteq> 0
              then (False, sc2\<lparr>sc_reduced_frames := sc_reduced_frames sc2 + 1\<rparr>) else (True, sc2))"
    unfolding afmf_sc_governor_allows_def Let_def sc1_def [symmetric] by (rule refl)
  have gov: "governed cfg delay sc =
     (if ?floored \<and> sc_under_floor sc1 \<or> \<not> cfg_governor cfg \<or> sc_frame_ms_ema sc \<le> 0 then sc1
      else governor_levels (sc_governor_step sc1) (governor_streaks (delay / sc_frame_ms_ema sc) sc1))"
    unfolding governed_def Let_def sc1_def [symmetric] by (simp only: sc1)
  consider (floor) "?floored" "sc_under_floor sc1"
    | (off) "\<not> (?floored \<and> sc_under_floor sc1)" "\<not> cfg_governor cfg \<or> sc_frame_ms_ema sc \<le> 0"
    | (on) "\<not> (?floored \<and> sc_under_floor sc1)" "cfg_governor cfg" "sc_frame_ms_ema sc > 0"
    by linarith
  then show ?thesis
  proof cases
    case floor
    then show ?thesis by (simp add: allows gov held_back_def sc1)
  next
    case off
    then show ?thesis by (auto simp: allows gov held_back_def sc1)
  next
    case on
    then show ?thesis by (simp add: allows gov held_back_def sc1 Let_def dvd_eq_mod_eq_0 cong: conj_cong)
  qed
qed

lemma governor_moved_ok:
  assumes "governor_ok sc"
  shows "governor_ok (governor_levels (sc_governor_step sc) (governor_streaks r sc))"
proof -
  let ?sc = "governor_streaks r sc"
  have "streaks_ok ?sc" using assms by (simp add: governor_ok_iff governor_streaks_ok)
  then have "streaks_ok (governor_levels (sc_governor_step sc) ?sc)" by (simp add: streaks_ok_def)
  moreover have "levels_ok (sc_governor_step ?sc) (sc_fg (governor_levels (sc_governor_step sc) ?sc))"
    using assms by (intro governor_levels_ok) (simp add: governor_ok_iff)
  ultimately show ?thesis by (simp add: governor_ok_iff)
qed

lemma governed_ok:
  assumes "governor_ok sc"
  shows "governor_ok (governed cfg delay sc)"
proof -
  define sc1 where "sc1 = (if cfg_min_fps cfg > 0 \<and> sc_frame_ms_ema sc > 0 then governor_floor cfg sc else sc)"
  have "governor_ok sc1" using assms by (simp add: sc1_def governor_floor_ok)
  then show ?thesis
    unfolding governed_def Let_def sc1_def [symmetric]
    using governor_moved_ok [of sc1] by (simp only: if_split) blast
qed

lemma governor_ok_reduced [simp]: "governor_ok (sc\<lparr>sc_reduced_frames := n\<rparr>) = governor_ok sc"
  by (simp add: governor_ok_def)

lemma governor_allows_ok:
  "governor_ok sc \<Longrightarrow> governor_ok (snd (afmf_sc_governor_allows cfg delay ordinal sc))"
  using governed_ok [of sc cfg delay] by (simp add: governor_allows_eq Let_def)

text \<open>
  C16: The governor, over any run of frames, whatever the delays: the step stays in 0..3, a streak
  never outlives its threshold while there is a step to take, and the search walks five levels
  exactly when the governor stepped down, all of them otherwise.
\<close>
theorem governor_invariant:
  assumes "governor_ok sc"
  shows "governor_ok (foldl (\<lambda>sc (delay, ordinal).
            snd (afmf_sc_governor_allows cfg delay ordinal sc)) sc fs)"
  using assms
  by (induction fs arbitrary: sc) (auto simp: governor_allows_ok split: prod.split)


section \<open>The governor over time\<close>

text \<open>
  Above the floor and with a frame time, the governor is its streaks and levels; \<open>ungoverned\<close> names
  the situations where it does not look at the delay.
\<close>

definition watching :: "afmf_config \<Rightarrow> afmf_swapchain \<Rightarrow> bool" where
  "watching cfg sc \<longleftrightarrow> cfg_governor cfg \<and> sc_frame_ms_ema sc > 0 \<and> \<not> sc_under_floor sc
     \<and> (cfg_min_fps cfg = 0 \<or> sc_frame_ms_ema sc \<le> 1000 / real (unat (cfg_min_fps cfg)))"

lemma watching_governed:
  "watching cfg sc \<Longrightarrow>
     governed cfg delay sc
       = governor_levels (sc_governor_step sc) (governor_streaks (delay / sc_frame_ms_ema sc) sc)"
  by (auto simp: watching_def governed_def governor_floor_def Let_def not_less word_gt_0)

fun governed_run :: "afmf_config \<Rightarrow> real list \<Rightarrow> afmf_swapchain \<Rightarrow> afmf_swapchain" where
  "governed_run cfg [] sc = sc"
| "governed_run cfg (d # ds) sc = governed_run cfg ds (governed cfg d sc)"

lemma watching_kept [simp]:
  "watching cfg (governor_levels b (governor_streaks r sc)) = watching cfg sc"
  by (simp add: watching_def)

lemma governed_ema [simp]: "sc_frame_ms_ema (governed cfg d sc) = sc_frame_ms_ema sc"
  by (simp add: governed_def Let_def)

lemma late_prefix:
  assumes "watching cfg sc" and "\<forall>d \<in> set ds. d > 3 / 2 * sc_frame_ms_ema sc"
    and "sc_governor_step sc < 3" and "sc_late_streak sc + length ds < 30"
  shows "watching cfg (governed_run cfg ds sc)
     \<and> sc_governor_step (governed_run cfg ds sc) = sc_governor_step sc
     \<and> sc_late_streak (governed_run cfg ds sc) = sc_late_streak sc + length ds
     \<and> sc_frame_ms_ema (governed_run cfg ds sc) = sc_frame_ms_ema sc"
  using assms
proof (induction ds arbitrary: sc)
  case (Cons d ds)
  then have pos: "0 < sc_frame_ms_ema sc" by (simp add: watching_def)
  with Cons.prems have late: "d / sc_frame_ms_ema sc > 3 / 2" by (simp add: field_simps)
  let ?sc = "governed cfg d sc"
  have sc: "?sc = governor_levels (sc_governor_step sc) (governor_streaks (d / sc_frame_ms_ema sc) sc)"
    by (rule watching_governed) (rule Cons.prems)
  then have "watching cfg ?sc" using Cons.prems by simp
  moreover have "sc_governor_step ?sc = sc_governor_step sc" "sc_late_streak ?sc = sc_late_streak sc + 1"
    "sc_frame_ms_ema ?sc = sc_frame_ms_ema sc"
    using late Cons.prems by (simp_all add: sc governor_streaks_def Let_def)
  ultimately show ?case
    using Cons.IH [of ?sc] Cons.prems by simp
qed simp

lemma early_prefix:
  assumes "watching cfg sc" and "\<forall>d \<in> set ds. d < 3 / 4 * sc_frame_ms_ema sc"
    and "0 < sc_governor_step sc" and "sc_early_streak sc + length ds < 15"
  shows "watching cfg (governed_run cfg ds sc)
     \<and> sc_governor_step (governed_run cfg ds sc) = sc_governor_step sc
     \<and> sc_early_streak (governed_run cfg ds sc) = sc_early_streak sc + length ds
     \<and> sc_frame_ms_ema (governed_run cfg ds sc) = sc_frame_ms_ema sc"
  using assms
proof (induction ds arbitrary: sc)
  case (Cons d ds)
  then have pos: "0 < sc_frame_ms_ema sc" by (simp add: watching_def)
  with Cons.prems have early: "d / sc_frame_ms_ema sc < 3 / 4" by (simp add: field_simps)
  then have not_late: "\<not> d / sc_frame_ms_ema sc > 3 / 2" by linarith
  let ?sc = "governed cfg d sc"
  have sc: "?sc = governor_levels (sc_governor_step sc) (governor_streaks (d / sc_frame_ms_ema sc) sc)"
    by (rule watching_governed) (rule Cons.prems)
  then have "watching cfg ?sc" using Cons.prems by simp
  moreover have "sc_governor_step ?sc = sc_governor_step sc" "sc_early_streak ?sc = sc_early_streak sc + 1"
    "sc_frame_ms_ema ?sc = sc_frame_ms_ema sc"
    using early not_late Cons.prems by (simp_all add: sc governor_streaks_def Let_def)
  ultimately show ?case
    using Cons.IH [of ?sc] Cons.prems by simp
qed simp

lemma governed_run_append: "governed_run cfg (ds @ es) sc = governed_run cfg es (governed_run cfg ds sc)"
  by (induction ds arbitrary: sc) auto

text \<open>The two reactions: after thirty late frames a step up, after fifteen early ones a step down, and not before.\<close>

lemma late_reaction:
  assumes w: "watching cfg sc" and late: "\<forall>d \<in> set ds. d > 3 / 2 * sc_frame_ms_ema sc"
    and st: "sc_governor_step sc < 3" "sc_late_streak sc = 0" and len: "length ds \<le> 30"
  shows "sc_governor_step (governed_run cfg ds sc) = sc_governor_step sc + (if length ds = 30 then 1 else 0)"
proof (cases "length ds = 30")
  case True
  then obtain es d where ds: "ds = es @ [d]" by (cases ds rule: rev_cases) auto
  with True late_prefix [OF w, of es] late st
  have p: "watching cfg (governed_run cfg es sc)"
    "sc_governor_step (governed_run cfg es sc) = sc_governor_step sc"
    "sc_late_streak (governed_run cfg es sc) = 29"
    "sc_frame_ms_ema (governed_run cfg es sc) = sc_frame_ms_ema sc" by auto
  have "d / sc_frame_ms_ema sc > 3 / 2"
    using late w by (simp add: ds watching_def field_simps)
  then show ?thesis
    using True p st by (simp add: ds governed_run_append watching_governed governor_streaks_def Let_def)
next
  case False
  then show ?thesis using late_prefix [OF w late] st len by simp
qed

lemma early_reaction:
  assumes w: "watching cfg sc" and early: "\<forall>d \<in> set ds. d < 3 / 4 * sc_frame_ms_ema sc"
    and st: "0 < sc_governor_step sc" "sc_early_streak sc = 0" and len: "length ds \<le> 15"
  shows "sc_governor_step (governed_run cfg ds sc) = sc_governor_step sc - (if length ds = 15 then 1 else 0)"
proof (cases "length ds = 15")
  case True
  then obtain es d where ds: "ds = es @ [d]" by (cases ds rule: rev_cases) auto
  with True early_prefix [OF w, of es] early st
  have p: "watching cfg (governed_run cfg es sc)"
    "sc_governor_step (governed_run cfg es sc) = sc_governor_step sc"
    "sc_early_streak (governed_run cfg es sc) = 14"
    "sc_frame_ms_ema (governed_run cfg es sc) = sc_frame_ms_ema sc" by auto
  have "d / sc_frame_ms_ema sc < 3 / 4"
    using early w by (simp add: ds watching_def field_simps)
  moreover from this have "\<not> d / sc_frame_ms_ema sc > 3 / 2" by linarith
  ultimately show ?thesis
    using True p st by (simp add: ds governed_run_append watching_governed governor_streaks_def Let_def)
next
  case False
  then show ?thesis using early_prefix [OF w early] st len by simp
qed

text \<open>
  C18: The governor reacts after the streaks the constants name, neither sooner nor later: thirty
  frames in a row ready later than a frame and a half step generation down by one, fifteen in a
  row ready within three quarters of a frame step it back up by one, and one frame fewer moves
  nothing.
\<close>
theorem governor_reacts:
  assumes w: "watching cfg sc"
  shows "(\<forall>ds. (\<forall>d \<in> set ds. d > 3 / 2 * sc_frame_ms_ema sc) \<and> sc_governor_step sc < 3
              \<and> sc_late_streak sc = 0 \<and> length ds \<le> 30 \<longrightarrow>
            sc_governor_step (governed_run cfg ds sc)
              = sc_governor_step sc + (if length ds = 30 then 1 else 0))
       \<and> (\<forall>ds. (\<forall>d \<in> set ds. d < 3 / 4 * sc_frame_ms_ema sc) \<and> 0 < sc_governor_step sc
              \<and> sc_early_streak sc = 0 \<and> length ds \<le> 15 \<longrightarrow>
            sc_governor_step (governed_run cfg ds sc)
              = sc_governor_step sc - (if length ds = 15 then 1 else 0))"
  using late_reaction [OF w] early_reaction [OF w] by blast

text \<open>
  The floor has two thresholds: between them the verdict on the rate stays what it was.
\<close>

lemma floor_hysteresis:
  assumes "9 / 10 * (1000 / real (unat (cfg_min_fps cfg))) \<le> sc_frame_ms_ema sc"
    and "sc_frame_ms_ema sc \<le> 1000 / real (unat (cfg_min_fps cfg))"
  shows "governor_floor cfg sc = sc"
  using assms by (simp add: governor_floor_def Let_def)

text \<open>
  While the delays stay between the two thresholds the step stays, and the verdicts follow the
  ordinals.
\<close>

fun verdicts :: "afmf_config \<Rightarrow> real list \<Rightarrow> nat \<Rightarrow> afmf_swapchain \<Rightarrow> bool list" where
  "verdicts cfg [] ordinal sc = []"
| "verdicts cfg (d # ds) ordinal sc =
     (case afmf_sc_governor_allows cfg d ordinal sc of
        (allowed, sc') \<Rightarrow> allowed # verdicts cfg ds (ordinal + 1) sc')"

lemma steady_governed:
  assumes "watching cfg sc" and "3 / 4 * sc_frame_ms_ema sc \<le> d" and "d \<le> 3 / 2 * sc_frame_ms_ema sc"
  shows "governed cfg d sc = sc"
proof -
  from assms have "\<not> d / sc_frame_ms_ema sc > 3 / 2" "\<not> d / sc_frame_ms_ema sc < 3 / 4"
    by (simp_all add: watching_def field_simps)
  then show ?thesis
    using assms by (simp add: watching_governed governor_streaks_def governor_levels_def)
qed

lemma steady_verdicts:
  assumes "watching cfg sc"
    and "\<forall>d \<in> set ds. 3 / 4 * sc_frame_ms_ema sc \<le> d \<and> d \<le> 3 / 2 * sc_frame_ms_ema sc"
  shows "verdicts cfg ds m sc = map (\<lambda>i. governor_every sc dvd i) [m..<m + length ds]"
  using assms
proof (induction ds arbitrary: m sc)
  case (Cons d ds)
  let ?sc = "snd (afmf_sc_governor_allows cfg d m sc)"
  have g: "governed cfg d sc = sc" using Cons.prems by (intro steady_governed) auto
  then have "fst (afmf_sc_governor_allows cfg d m sc) = (governor_every sc dvd m)"
    using Cons.prems by (simp add: governor_allows_eq held_back_def watching_def Let_def)
  moreover have "watching cfg ?sc \<and> sc_frame_ms_ema ?sc = sc_frame_ms_ema sc
      \<and> governor_every ?sc = governor_every sc"
    using Cons.prems g by (simp add: governor_allows_eq Let_def watching_def governor_every_def)
  ultimately show ?case
    using Cons.IH [of ?sc "m + 1"] Cons.prems by (simp add: case_prod_beta upt_conv_Cons del: upt_Suc)
qed simp

lemma one_multiple:
  fixes n m :: nat
  assumes "0 < n"
  shows "length (filter (\<lambda>i. n dvd i) [m..<m + n]) = 1"
proof -
  let ?k = "(m + n - 1) div n * n"
  have k: "m \<le> ?k" "?k < m + n"
  proof -
    have "?k = m + n - 1 - (m + n - 1) mod n" by (simp add: minus_mod_eq_div_mult)
    moreover have "(m + n - 1) mod n < n" using assms by simp
    ultimately show "m \<le> ?k" "?k < m + n" using assms by linarith+
  qed
  have "{i. i \<in> {m..<m + n} \<and> n dvd i} = {?k}"
  proof (intro equalityI subsetI)
    fix i assume "i \<in> {i. i \<in> {m..<m + n} \<and> n dvd i}"
    then obtain q where q: "i = q * n" "m \<le> i" "i < m + n" by (auto elim!: dvdE simp: mult.commute)
    from q k have "?k < i + n" "i < ?k + n" by linarith+
    then have "(m + n - 1) div n < q + 1" "q < (m + n - 1) div n + 1"
      by (simp_all add: q(1)) (metis add.commute mult_Suc mult_less_cancel2)+
    then show "i \<in> {?k}" by (simp add: q(1))
  qed (use k in auto)
  then have "card {i. i \<in> {m..<m + n} \<and> n dvd i} = 1" by simp
  moreover have "set (filter (\<lambda>i. n dvd i) [m..<m + n]) = {i. i \<in> {m..<m + n} \<and> n dvd i}" by auto
  moreover have "distinct (filter (\<lambda>i. n dvd i) [m..<m + n])" by simp
  ultimately show ?thesis by (metis distinct_card)
qed

text \<open>
  Thinning. With the delays steady between the thresholds, every run of as many consecutive
  presents as the governor's step keeps exactly one companion: one in two at step two, one in
  three at step three, every one below.
\<close>
theorem governor_thins:
  assumes "watching cfg sc"
    and "\<forall>d \<in> set ds. 3 / 4 * sc_frame_ms_ema sc \<le> d \<and> d \<le> 3 / 2 * sc_frame_ms_ema sc"
    and "length ds = (if sc_governor_step sc \<ge> 2 then sc_governor_step sc else 1)"
  shows "length (filter id (verdicts cfg ds m sc)) = 1"
proof -
  have len: "length ds = governor_every sc" using assms(3) by (simp add: governor_every_def)
  have "filter id (map P xs) = map P (filter P xs)" for P :: "nat \<Rightarrow> bool" and xs
    by (induction xs) auto
  then have "length (filter id (verdicts cfg ds m sc))
      = length (filter (\<lambda>i. governor_every sc dvd i) [m..<m + governor_every sc])"
    by (simp add: steady_verdicts [OF assms(1,2)] len)
  also have "\<dots> = 1" by (rule one_multiple) (simp add: governor_every_def)
  finally show ?thesis .
qed

section \<open>The spare image's waits\<close>

fun acquire_waits :: "event list \<Rightarrow> nat list" where
  "acquire_waits [] = []"
| "acquire_waits (Called (AcquireNextImage h t sem fence) r out # es) = unat t # acquire_waits es"
| "acquire_waits (Called (AcquireNextImage2 h t sem fence) r out # es) = unat t # acquire_waits es"
| "acquire_waits (e # es) = acquire_waits es"

fun fence_waits :: "event list \<Rightarrow> nat list" where
  "fence_waits [] = []"
| "fence_waits (Called (WaitForFences fence t) r out # es) = unat t # fence_waits es"
| "fence_waits (e # es) = fence_waits es"

lemma acquire_waits_append [simp]: "acquire_waits (es @ fs) = acquire_waits es @ acquire_waits fs"
  by (induction es rule: acquire_waits.induct) auto

lemma fence_waits_append [simp]: "fence_waits (es @ fs) = fence_waits es @ fence_waits fs"
  by (induction es rule: fence_waits.induct) auto

lemma spare_try_run:
  assumes "run_state (spare_try wait) s = ((valid, spare), s')"
  shows "\<exists>tr. eff_trace s' = eff_trace s @ tr \<and> fence_waits tr = []
       \<and> acquire_waits tr = (if sc_spare_valid (sys_sc s) then [] else [unat wait])"
    and "valid = sc_spare_valid (sys_sc s') \<and> spare = sc_spare_image (sys_sc s')"
    and "sc_spare_valid (sys_sc s) \<Longrightarrow> sys_sc s' = sys_sc s"
    and "sc_spare_fence (sys_sc s') = sc_spare_fence (sys_sc s)" and "sys_cfg s' = sys_cfg s"
  using assms
  by (auto simp: spare_try_def afmf_sc_spare_refill_def run_effects split: if_splits prod.splits)

lemma spare_loop_run:
  assumes "run_state (spare_acquire_loop left) s = ((valid, spare, left'), s')"
  shows "\<exists>tr. eff_trace s' = eff_trace s @ tr \<and> fence_waits tr = []
       \<and> sum_list (acquire_waits tr) + unat left' \<le> unat left
       \<and> (\<forall>t \<in> set (acquire_waits tr). t \<le> 1000000)
       \<and> valid = sc_spare_valid (sys_sc s') \<and> spare = sc_spare_image (sys_sc s')
       \<and> (sc_spare_valid (sys_sc s) \<longrightarrow> sys_sc s' = sys_sc s)
       \<and> (valid \<or> left' = 0)"
  using assms
proof (induction left arbitrary: s rule: spare_acquire_loop.induct)
  case (1 left)
  obtain v i s1 where t: "run_state (spare_try (spare_slice left)) s = ((v, i), s1)"
    by (metis prod.exhaust)
  note tried = spare_try_run [OF t]
  obtain tr where tr: "eff_trace s1 = eff_trace s @ tr" "fence_waits tr = []"
      "acquire_waits tr = (if sc_spare_valid (sys_sc s) then [] else [unat (spare_slice left)])"
    using tried(1) by blast
  have slice: "unat (spare_slice left) \<le> 1000000"
    by (auto simp: spare_slice_def word_le_nat_alt not_less)
  have sub: "unat (left - spare_slice left) = unat left - unat (spare_slice left)"
    and le: "unat (spare_slice left) \<le> unat left"
    using spare_slice_le [of left] by (simp_all add: unat_sub word_le_nat_alt)
  show ?case
  proof (cases "v \<or> left - spare_slice left = 0")
    case True
    then have "valid = v" "spare = i" "left' = left - spare_slice left" "s' = s1"
      using "1.prems" by (simp_all add: spare_acquire_loop.simps [of left] t)
    then show ?thesis
      using True tr tried(2,3) slice sub le by (intro exI [of _ tr]) auto
  next
    case False
    then have run: "run_state (spare_acquire_loop (left - spare_slice left)) s1 = ((valid, spare, left'), s')"
      using "1.prems" by (simp add: spare_acquire_loop.simps [of left] t)
    from False tried(2,3) have "\<not> sc_spare_valid (sys_sc s)" by auto
    moreover obtain tr' where "eff_trace s' = eff_trace s1 @ tr'" "fence_waits tr' = []"
      "sum_list (acquire_waits tr') + unat left' \<le> unat (left - spare_slice left)"
      "\<forall>t \<in> set (acquire_waits tr'). t \<le> 1000000"
      "valid = sc_spare_valid (sys_sc s') \<and> spare = sc_spare_image (sys_sc s')" "valid \<or> left' = 0"
      using "1.IH" [OF False run] by blast
    ultimately show ?thesis
      using tr slice sub le by (intro exI [of _ "tr @ tr'"]) auto
  qed
qed

text \<open>
  Waiting for a released image is bounded by the configuration. However the driver answers,
  the acquires of one \<open>afmf_sc_spare_take\<close> wait at most the configured timeout together and at
  most a millisecond each, so that the presentation thread gets its turn between them; the one
  fence wait after them is for what is left of the budget, or for a millisecond where less is
  left.
\<close>
theorem spare_take_waits:
  assumes "run_state afmf_sc_spare_take s = (r, s')"
  shows "\<exists>tr. eff_trace s' = eff_trace s @ tr
    \<and> sum_list (acquire_waits tr) \<le> unat (cfg_acquire_timeout_ns (sys_cfg s))
    \<and> (\<forall>t \<in> set (acquire_waits tr). t \<le> 1000000)
    \<and> length (fence_waits tr) \<le> 1
    \<and> (\<forall>t \<in> set (fence_waits tr). 1000000 \<le> t
         \<and> t \<le> max 1000000 (unat (cfg_acquire_timeout_ns (sys_cfg s)) - sum_list (acquire_waits tr)))"
proof -
  let ?timeout = "cfg_acquire_timeout_ns (sys_cfg s)"
  obtain v i left s1 where l: "run_state (spare_acquire_loop ?timeout) s = ((v, i, left), s1)"
    by (metis prod.exhaust)
  obtain tr where tr: "eff_trace s1 = eff_trace s @ tr" "fence_waits tr = []"
     "sum_list (acquire_waits tr) + unat left \<le> unat ?timeout"
     "\<forall>t \<in> set (acquire_waits tr). t \<le> 1000000"
    using spare_loop_run [OF l] by blast
  let ?wait = "if left > AFMF_ACQUIRE_SLICE_NS then left else AFMF_ACQUIRE_SLICE_NS"
  have w: "1000000 \<le> unat ?wait" "unat ?wait \<le> max 1000000 (unat ?timeout - sum_list (acquire_waits tr))"
    using tr(3) by (auto simp: word_less_nat_alt)
  obtain tr' where "eff_trace s' = eff_trace s1 @ tr'" "acquire_waits tr' = []"
     "fence_waits tr' = [] \<or> fence_waits tr' = [unat ?wait]"
    using assms l by (auto simp: afmf_sc_spare_take_def run_effects split: if_splits prod.splits)
  then show ?thesis
    using tr w by (intro exI [of _ "tr @ tr'"]) auto
qed

text \<open>
  The spare is handed out once. Taking it gives the image the spare was, and no spare is left;
  without one handed out, an image that was there stays the spare for the next frame.
\<close>
theorem spare_take_result:
  assumes run: "run_state afmf_sc_spare_take s = (r, s')"
  shows "(\<forall>i. r = Some i \<longrightarrow> \<not> sc_spare_valid (sys_sc s') \<and> sc_spare_image (sys_sc s') = i)
    \<and> (sc_spare_valid (sys_sc s) \<longrightarrow> sc_spare_image (sys_sc s') = sc_spare_image (sys_sc s))
    \<and> (sc_spare_valid (sys_sc s) \<and> r = None \<longrightarrow> sys_sc s' = sys_sc s)"
proof -
  obtain v i left s1 where
    l: "run_state (spare_acquire_loop (cfg_acquire_timeout_ns (sys_cfg s))) s = ((v, i, left), s1)"
    by (metis prod.exhaust)
  have "v = sc_spare_valid (sys_sc s1)" "i = sc_spare_image (sys_sc s1)"
    "sc_spare_valid (sys_sc s) \<longrightarrow> sys_sc s1 = sys_sc s"
    using spare_loop_run [OF l] by auto
  then show ?thesis
    using run l by (auto simp: afmf_sc_spare_take_def run_effects split: if_splits prod.splits)
qed

section \<open>Locks\<close>

lemma locks_spare_refill [locks_intros]: "locks H (afmf_sc_spare_refill t) (\<lambda>_. H)"
  unfolding afmf_sc_spare_refill_def by (intro locks_wp) simp_all

lemmas locks_wp_refill [locks_wp] = locks_wp_neutral [OF locks_spare_refill]

lemma locks_spare_try: "locks [] (spare_try t) (\<lambda>_. [])"
  unfolding spare_try_def by (intro locks_wp) simp_all

lemma locks_spare_loop: "locks [] (spare_acquire_loop left) (\<lambda>_. [])"
proof (induction left rule: spare_acquire_loop.induct)
  case (1 left)
  show ?case
    unfolding spare_acquire_loop.simps [of left]
    by (rule locks_bind [OF locks_spare_try], intro locks_wp) (auto intro: 1)
qed

text \<open>
  Taking the spare and noting the cadence never wait for a lock out of order: whatever the
  driver and the clock do, each acquires its locks in the one rank order, releases only what it
  holds and ends holding none.
\<close>
theorem cadence_locks:
  "locks [] afmf_sc_spare_take (\<lambda>_. []) \<and> locks [] afmf_sc_update_cadence (\<lambda>_. [])"
proof
  show "locks [] afmf_sc_spare_take (\<lambda>_. [])"
    unfolding afmf_sc_spare_take_def
    by (intro locks_wp locks_bind [OF locks_spare_loop]) simp_all
  show "locks [] afmf_sc_update_cadence (\<lambda>_. [])"
    unfolding afmf_sc_update_cadence_def Let_def by (intro locks_wp) simp_all
qed

section \<open>Concrete runs\<close>

theorem update_cadence_smooth_witness:
  "let s = sample_sys (sc_zero\<lparr>sc_present_count := 1, sc_frame_ms_ema := 10\<rparr>)
   in fst (run_state afmf_sc_update_cadence s) = 2 \<and> sample_ms s = Some 0
      \<and> ema_ok (sys_sc (snd (run_state afmf_sc_update_cadence s)))"
proof -
  let ?s = "sample_sys (sc_zero\<lparr>sc_present_count := 1, sc_frame_ms_ema := 10\<rparr>)"
  have dt: "sample_ms ?s = Some 0"
    by (simp add: sample_ms_def sample_sys_def sc_zero_def ms_clock_def elapsed_ms_def)
  have ok: "ema_ok (sys_sc ?s)" by (simp add: ema_ok_def sample_sys_def)
  have "sc_present_count (sys_sc ?s) = 1" by (simp add: sample_sys_def)
  then show ?thesis
    using update_cadence_smooth [OF surjective_pairing ok] dt
    by (simp add: Let_def)
qed

lemma governor_ok_zero [simp]: "governor_ok sc_zero"
  by (simp add: governor_ok_def levels_ok_def sc_zero_def)

theorem governor_invariant_witness:
  "governor_ok (foldl (\<lambda>sc (delay, ordinal). snd (afmf_sc_governor_allows cfg_default delay ordinal sc))
      sc_zero [(5, 1), (60, 2)])"
  using governor_invariant [of sc_zero cfg_default "[(5, 1), (60, 2)]"] governor_ok_zero by blast

lemma watching_example:
  "n \<le> 3 \<Longrightarrow> watching cfg_default (sc_zero\<lparr>sc_frame_ms_ema := 10, sc_governor_step := n\<rparr>)"
  by (simp add: watching_def sc_zero_def)

theorem governor_reacts_witness:
  "sc_governor_step (governed_run cfg_default (replicate 30 16)
     (sc_zero\<lparr>sc_frame_ms_ema := 10, sc_governor_step := 0\<rparr>)) = 1"
  using governor_reacts [OF watching_example [of 0]]
  by (force simp: sc_zero_def dest: spec [of _ "replicate 30 16"])

theorem governor_thins_witness:
  "length (filter id (verdicts cfg_default [10, 11, 12] 7
     (sc_zero\<lparr>sc_frame_ms_ema := 10, sc_governor_step := 3\<rparr>))) = 1"
  by (rule governor_thins [OF watching_example]) simp_all

theorem spare_take_waits_witness:
  "let s = sample_sys (sc_zero\<lparr>sc_spare_valid := True, sc_spare_image := 2\<rparr>)
   in fst (run_state afmf_sc_spare_take s) = Some 2
      \<and> (\<exists>tr. eff_trace (snd (run_state afmf_sc_spare_take s)) = tr
           \<and> sum_list (acquire_waits tr) = 0 \<and> fence_waits tr = [1000000])"
proof -
  let ?s = "sample_sys (sc_zero\<lparr>sc_spare_valid := True, sc_spare_image := 2\<rparr>)"
  obtain r s' where run: "run_state afmf_sc_spare_take ?s = (r, s')" by fastforce
  have "eff_trace s' = [Locked WsiTurn, Locked WsiLock, Unlocked WsiTurn, Unlocked WsiLock,
      Called (WaitForFences 0 1000000) 0 0, Called (ResetFences 0) 0 0,
      Locked WsiTurn, Locked WsiLock, Unlocked WsiTurn, Unlocked WsiLock] \<and> r = Some 2"
    using run by (auto simp: afmf_sc_spare_take_def spare_acquire_loop.simps spare_try_def spare_slice_def
       afmf_sc_spare_refill_def run_effects sample_sys_def calm_driver_def sc_zero_def)
  then show ?thesis using spare_take_waits [OF run] run by (simp add: sample_sys_def)
qed

theorem spare_take_result_witness:
  "let s = sample_sys (sc_zero\<lparr>sc_spare_valid := True, sc_spare_image := 2\<rparr>)
   in fst (run_state afmf_sc_spare_take s) = Some 2
      \<and> \<not> sc_spare_valid (sys_sc (snd (run_state afmf_sc_spare_take s)))"
proof -
  let ?s = "sample_sys (sc_zero\<lparr>sc_spare_valid := True, sc_spare_image := 2\<rparr>)"
  obtain r s' where run: "run_state afmf_sc_spare_take ?s = (r, s')" by fastforce
  have "r = Some 2"
    using run by (auto simp: afmf_sc_spare_take_def spare_acquire_loop.simps spare_try_def spare_slice_def
       afmf_sc_spare_refill_def run_effects sample_sys_def calm_driver_def sc_zero_def)
  then show ?thesis using spare_take_result [OF run] run by simp
qed

section \<open>What the governor and the spare leave alone\<close>

lemma governor_fixed: "sc_fixed (snd (afmf_sc_governor_allows cfg delay ordinal sc)) = sc_fixed sc"
proof -
  have "sc_fixed (governor_floor cfg sc) = sc_fixed sc" "sc_fixed (governor_streaks r sc) = sc_fixed sc"
    "sc_fixed (governor_levels b sc) = sc_fixed sc" for r b sc
    by (simp_all add: sc_fixed_def governor_floor_def governor_streaks_def governor_levels_def Let_def)
  then have "sc_fixed (governed cfg delay sc) = sc_fixed sc"
    by (simp add: governed_def Let_def)
  moreover have "sc_fixed (sc'\<lparr>sc_reduced_frames := n\<rparr>) = sc_fixed sc'" for sc' n
    by (simp add: sc_fixed_def)
  ultimately show ?thesis by (simp add: governor_allows_eq Let_def)
qed

lemma frames_governor: "frames sc_fixed (governor_allows d n)"
  by (simp add: frames_def governor_allows_def governor_fixed split: prod.split) (metis governor_fixed snd_conv)

lemma frames_spare_refill: "frames sc_fixed (afmf_sc_spare_refill t)"
  unfolding afmf_sc_spare_refill_def by (intro frames_rules) (simp add: sc_fixed_def)

lemma frames_spare_try: "frames sc_fixed (spare_try t)"
  unfolding spare_try_def by (intro frames_rules frames_spare_refill)

lemma frames_spare_loop: "frames sc_fixed (spare_acquire_loop left)"
proof (induction left rule: spare_acquire_loop.induct)
  case (1 left)
  then show ?case
    unfolding spare_acquire_loop.simps [of left] by (intro frames_rules frames_spare_try)
qed

lemma frames_spare_take: "frames sc_fixed afmf_sc_spare_take"
  unfolding afmf_sc_spare_take_def by (intro frames_rules frames_spare_loop) (simp add: sc_fixed_def)

lemma emits_governor: "emits quiet (governor_allows d n)"
  unfolding governor_allows_def by (intro emits_intros)

lemma emits_spare_refill: "emits quiet (afmf_sc_spare_refill t)"
  unfolding afmf_sc_spare_refill_def by (intro emits_intros) simp_all

lemma emits_spare_loop: "emits quiet (spare_acquire_loop left)"
proof (induction left rule: spare_acquire_loop.induct)
  case (1 left)
  have "emits quiet (spare_try t)" for t
    unfolding spare_try_def by (intro emits_intros emits_spare_refill) simp_all
  with 1 show ?case
    unfolding spare_acquire_loop.simps [of left] by (intro emits_intros)
qed

lemma emits_spare_take: "emits quiet afmf_sc_spare_take"
  unfolding afmf_sc_spare_take_def by (intro emits_intros emits_spare_loop) simp_all

end
