(* ===== verification/Fg_Record.thy ===== *)
theory Fg_Record
  imports Fg_Profiler Cadence
begin

text \<open>
  The fixed part of a frame as it is recorded (src/src/framegen_record.c and the inline helpers of
  src/src/framegen_record.h): barriers, dispatches, the constants, the flow and the interpolation.
  Recording appends commands to the trace under the command buffer's handle.
\<close>

unbundle bit_operations_syntax

section \<open>The helpers\<close>

definition afmf_flow_parity_a :: "nat \<Rightarrow> nat \<Rightarrow> nat" where
  "afmf_flow_parity_a p level = (if p \<noteq> level mod 2 then 1 else 0)"

definition afmf_cb_offset :: "afmf_framegen \<Rightarrow> nat \<Rightarrow> nat \<Rightarrow> u32" where
  "afmf_cb_offset fg slot index = (of_nat slot * of_nat AFMF_CB_PER_SLOT + of_nat index) * fg_cb_stride fg"

definition sync_cmd :: vk_cmd where
  "sync_cmd = CmdMemoryBarrier {SHADER_WRITE, TRANSFER_WRITE}
     {SHADER_READ, SHADER_WRITE, TRANSFER_READ, TRANSFER_WRITE} {COMPUTE_SHADER, TRANSFER} {COMPUTE_SHADER, TRANSFER}"

definition afmf_sync :: "handle \<Rightarrow> ('w, 'e, unit) act" where
  "afmf_sync cmd = emit (Recorded cmd sync_cmd)"

definition sync_compute_cmd :: vk_cmd where
  "sync_compute_cmd = CmdMemoryBarrier {SHADER_WRITE} {SHADER_READ, SHADER_WRITE} {COMPUTE_SHADER} {COMPUTE_SHADER}"

definition afmf_sync_compute :: "handle \<Rightarrow> ('w, 'e, unit) act" where
  "afmf_sync_compute cmd = emit (Recorded cmd sync_compute_cmd)"

definition afmf_dispatch_pass ::
  "handle \<Rightarrow> handle \<Rightarrow> handle \<Rightarrow> handle \<Rightarrow> u32 list \<Rightarrow> u32 \<Rightarrow> u32 \<Rightarrow> u32 \<Rightarrow> bool \<Rightarrow> ('w, 'e, unit) act" where
  "afmf_dispatch_pass cmd pipeline layout ds offsets x y z barrier = do {
     record_cmds cmd [CmdBindPipeline pipeline, CmdBindDescriptorSet layout ds offsets, CmdDispatch x y z];
     whenb barrier (afmf_sync_compute cmd)
   }"

definition afmf_dispatch ::
  "handle \<Rightarrow> handle \<Rightarrow> handle \<Rightarrow> handle \<Rightarrow> u32 list \<Rightarrow> u32 \<Rightarrow> u32 \<Rightarrow> u32 \<Rightarrow> ('w, 'e, unit) act" where
  "afmf_dispatch cmd pipeline layout ds offsets x y z =
     afmf_dispatch_pass cmd pipeline layout ds offsets x y z True"

section \<open>The first use\<close>

definition to_general_cmd :: "handle \<Rightarrow> vk_cmd" where
  "to_general_cmd img = CmdImageBarrier img LAYOUT_UNDEFINED LAYOUT_GENERAL {}
     {SHADER_READ, SHADER_WRITE, TRANSFER_READ, TRANSFER_WRITE} {TOP_OF_PIPE} {COMPUTE_SHADER, TRANSFER}"

definition clear_zero_cmd :: "handle \<Rightarrow> vk_cmd" where
  "clear_zero_cmd img = CmdClearColorImage img LAYOUT_GENERAL"

definition initialize_cmds :: "afmf_framegen \<Rightarrow> vk_cmd list" where
  "initialize_cmds fg =
     (if img_image (fg_color_half fg) \<noteq> VK_NULL_HANDLE
      then [to_general_cmd (img_image (fg_color_half fg))] else [])
     @ concat (map (\<lambda>p. to_general_cmd (img_image (fg_color fg ! p)) #
         concat (map (\<lambda>k. [to_general_cmd (img_image (fg_luma fg ! p ! k)),
                            to_general_cmd (img_image (fg_flow fg ! p ! k)),
                            clear_zero_cmd (img_image (fg_luma fg ! p ! k))]) [0..<AFMF_LEVELS])) [0..<2])
     @ [to_general_cmd (img_image (fg_flow_out fg))]
     @ (if img_image (fg_output fg) \<noteq> VK_NULL_HANDLE then [to_general_cmd (img_image (fg_output fg))] else [])
     @ map (to_general_cmd \<circ> img_image) (fg_scd fg)
     @ map (clear_zero_cmd \<circ> img_image) (fg_scd fg)"

definition afmf_framegen_initialize :: "handle \<Rightarrow> ('w fgs, unit) state" where
  "afmf_framegen_initialize cmd = do {
     fg \<leftarrow> fg_gets id;
     record_cmds cmd (initialize_cmds fg);
     afmf_sync cmd;
     fg_modify (\<lambda>fg. fg\<lparr>fg_initialized := True\<rparr>)
   }"

section \<open>The constants\<close>

definition cb_write :: "nat \<Rightarrow> nat \<Rightarrow> cb_block \<Rightarrow> afmf_framegen \<Rightarrow> afmf_framegen" where
  "cb_write slot index b fg = fg\<lparr>fg_cb_mapped := (fg_cb_mapped fg)(afmf_cb_offset fg slot index \<mapsto> b)\<rparr>"

definition level_block :: "afmf_framegen \<Rightarrow> extent2d \<Rightarrow> nat \<Rightarrow> nat \<Rightarrow> cb_block" where
  "level_block fg resolution k level_count =
     Cb_of resolution (of_nat k) (of_nat level_count) (fg_frame_index fg) (fg_transfer_function fg)
       (fg_min_luminance fg) (fg_max_luminance fg)"

definition tiles :: "u32 \<Rightarrow> u32" where
  "tiles n = (n - 1) div 64 + 1"

definition spd_block :: "afmf_framegen \<Rightarrow> cb_block" where
  "spd_block fg =
     Cb_spd 6 (tiles (width (fg_of_extent fg)) * tiles (height (fg_of_extent fg))) (0, 0)
       (tiles (width (fg_of_extent fg)) * tiles (height (fg_of_extent fg)))"

definition afmf_framegen_write_constants :: "nat \<Rightarrow> nat \<Rightarrow> afmf_framegen \<Rightarrow> afmf_framegen" where
  "afmf_framegen_write_constants slot level_count fg =
     (let fg1 = foldl (\<lambda>fg k. cb_write slot k (level_block fg (fg_of_extent fg) k level_count) fg) fg
                  [0..<fg_max_levels fg];
          fg2 = cb_write slot AFMF_CB_SCD (level_block fg1 (fg_luma_size fg1 ! 0) 0 level_count) fg1
      in cb_write slot AFMF_LEVELS (spd_block fg2) fg2)"

definition afmf_framegen_copy_whole ::
  "handle \<Rightarrow> handle \<Rightarrow> image_layout \<Rightarrow> handle \<Rightarrow> image_layout \<Rightarrow> extent2d \<Rightarrow> ('w, 'e, unit) act" where
  "afmf_framegen_copy_whole cmd src src_layout dst dst_layout ext =
     emit (Recorded cmd (CmdCopyImage src src_layout dst dst_layout ext))"

section \<open>The passes\<close>

abbreviation (input) AFMF_MAX_TRUSTED_MOTION :: real where "AFMF_MAX_TRUSTED_MOTION \<equiv> 128"

definition afmf_framegen_record_interpolate ::
  "handle \<Rightarrow> nat \<Rightarrow> handle \<Rightarrow> variant \<Rightarrow> ('w fgs, unit) state" where
  "afmf_framegen_record_interpolate cmd slot ds variant = do {
     fg \<leftarrow> fg_gets id;
     cfg \<leftarrow> gets fgs_cfg;
     pl \<leftarrow> gets fgs_pl;
     let out_w = width (fg_extent fg);
     let out_h = height (fg_extent fg);
     emit (Recorded cmd (CmdPushConstants (pl_layouts pl PASS_INTERPOLATE)
       [real (unat out_w), real (unat out_h), real (unat AFMF_FLOW_BLOCK),
        if cfg_fast_motion cfg = AFMF_RESPONSE_BLENDED_FRAMES then 1 else 0, AFMF_MAX_TRUSTED_MOTION,
        real (unat (fg_flow_scale fg)), if cfg_hud_detect cfg then 1 / 255 else 0]));
     afmf_dispatch cmd (pl_interpolate pl variant) (pl_layouts pl PASS_INTERPOLATE) ds []
       ((out_w + 7) div 8) ((out_h + 7) div 8) 1;
     afmf_framegen_profiler_mark cmd slot STAGE_INTERPOLATE
   }"

text \<open>One level of the coarse-to-fine search, and the loop down from the coarsest.\<close>

definition record_level :: "handle \<Rightarrow> nat \<Rightarrow> nat \<Rightarrow> nat \<Rightarrow> ('w fgs, unit) state" where
  "record_level cmd slot p k = do {
     fg \<leftarrow> fg_gets id;
     pl \<leftarrow> gets fgs_pl;
     let ofk = afmf_cb_offset fg slot k;
     let luma = fg_luma_size fg ! k;
     let flow = fg_flow_size fg ! k;
     afmf_dispatch cmd (pl_pipelines pl PASS_SEARCH) (pl_layouts pl PASS_SEARCH) (fg_sets fg ! p ! (SET_SEARCH + k))
       [ofk] (((width luma + 3) div 4 * 16 + 63) div 64) ((height luma + 15) div 16) 1;
     afmf_framegen_profiler_mark cmd slot STAGE_SEARCH;
     afmf_dispatch cmd (pl_pipelines pl PASS_FILTER) (pl_layouts pl PASS_FILTER) (fg_sets fg ! p ! (SET_FILTER + k))
       [ofk] ((width flow + 15) div 16) ((height flow + 3) div 4) 1;
     afmf_framegen_profiler_mark cmd slot STAGE_FILTER;
     whenb (k > 0) (do {
       let finer = fg_flow_size fg ! (k - 1);
       afmf_dispatch cmd (pl_pipelines pl PASS_SCALE) (pl_layouts pl PASS_SCALE)
         (fg_sets fg ! p ! (SET_SCALE + k - 1)) [ofk] ((width finer + 3) div 4) ((height finer + 3) div 4) 1;
       afmf_framegen_profiler_mark cmd slot STAGE_SCALE
     })
   }"

primrec record_levels :: "handle \<Rightarrow> nat \<Rightarrow> nat \<Rightarrow> nat \<Rightarrow> ('w fgs, unit) state" where
  "record_levels cmd slot p 0 = return ()"
| "record_levels cmd slot p (Suc k) = do { record_level cmd slot p k; record_levels cmd slot p k }"

definition afmf_framegen_record_flow :: "handle \<Rightarrow> nat \<Rightarrow> nat \<Rightarrow> nat \<Rightarrow> bool \<Rightarrow> ('w fgs, unit) state" where
  "afmf_framegen_record_flow cmd slot p levels companion = do {
     fg \<leftarrow> fg_gets id;
     pl \<leftarrow> gets fgs_pl;
     let w = width (fg_of_extent fg);
     let h = height (fg_of_extent fg);
     let of0 = afmf_cb_offset fg slot 0;
     whenb (\<not> fg_ingest_direct fg)
       (afmf_dispatch cmd (pl_pipelines pl PASS_PREPARE_LUMA) (pl_layouts pl PASS_PREPARE_LUMA)
          (fg_sets fg ! p ! SET_PREPARE) [of0] (((w + 1) div 2 + 15) div 16) (((h + 1) div 2 + 15) div 16) 1);
     afmf_framegen_profiler_mark cmd slot STAGE_PREPARE;
     afmf_dispatch_pass cmd (pl_pipelines pl PASS_PYRAMID) (pl_layouts pl PASS_PYRAMID)
       (fg_sets fg ! p ! SET_PYRAMID) [of0, afmf_cb_offset fg slot AFMF_LEVELS]
       ((w - 1) div 64 + 1) ((h - 1) div 64 + 1) 1 False;
     let strata_width = width (fg_luma_size fg ! 0) div 4 div AFMF_HISTOGRAMS_PER_DIM;
     afmf_dispatch cmd (pl_pipelines pl PASS_SCD_HISTOGRAM) (pl_layouts pl PASS_SCD_HISTOGRAM)
       (fg_sets fg ! p ! SET_SCD_HISTOGRAM) [afmf_cb_offset fg slot AFMF_CB_SCD]
       ((strata_width + 31) div 32) 16 (AFMF_HISTOGRAMS_PER_DIM * AFMF_HISTOGRAMS_PER_DIM);
     afmf_framegen_profiler_mark cmd slot STAGE_PYRAMID;
     afmf_dispatch cmd (pl_pipelines pl PASS_SCD_DIVERGENCE) (pl_layouts pl PASS_SCD_DIVERGENCE)
       (fg_sets fg ! p ! SET_SCD_DIVERGENCE) [of0]
       (AFMF_HISTOGRAMS_PER_DIM * AFMF_HISTOGRAMS_PER_DIM) AFMF_HISTOGRAM_SHIFTS 1;
     record_levels cmd slot p (if companion then levels else 0);
     whenb (companion \<and> \<not> fg_direct fg)
       (afmf_framegen_record_interpolate cmd slot (fg_sets fg ! p ! SET_INTERPOLATE) (fg_variant fg))
   }"

section \<open>The ring of constants\<close>

text \<open>A stride that holds a block, and a buffer that holds every slot's blocks and fits 32 bits.\<close>

definition cb_fits :: "afmf_framegen \<Rightarrow> bool" where
  "cb_fits fg \<longleftrightarrow> AFMF_CB_SIZE \<le> unat (fg_cb_stride fg)
                \<and> fg_slots fg * AFMF_CB_PER_SLOT * unat (fg_cb_stride fg) < 2 ^ 32"

lemma cb_offset_value:
  assumes "cb_fits fg" and "slot < fg_slots fg" and "i < AFMF_CB_PER_SLOT"
  shows "unat (afmf_cb_offset fg slot i) = (slot * AFMF_CB_PER_SLOT + i) * unat (fg_cb_stride fg)"
    and "(slot * AFMF_CB_PER_SLOT + i + 1) * unat (fg_cb_stride fg)
           \<le> fg_slots fg * AFMF_CB_PER_SLOT * unat (fg_cb_stride fg)"
proof -
  let ?stride = "unat (fg_cb_stride fg)" and ?n = "slot * AFMF_CB_PER_SLOT + i"
  have "?n + 1 \<le> fg_slots fg * AFMF_CB_PER_SLOT" using assms(2,3) by linarith
  then show le: "(?n + 1) * ?stride \<le> fg_slots fg * AFMF_CB_PER_SLOT * ?stride" by (rule mult_le_mono1)
  then have "?n * ?stride < 2 ^ 32" using assms(1) unfolding cb_fits_def by (simp add: add_mult_distrib)
  moreover have "afmf_cb_offset fg slot i = of_nat (?n * ?stride)"
    by (simp add: afmf_cb_offset_def)
  ultimately show "unat (afmf_cb_offset fg slot i) = ?n * ?stride"
    using word_of_nat_le_bound [of "?n * ?stride", where 'a = 32] by simp
qed

lemma slot_index_inj:
  fixes slot slot' i j :: nat
  assumes "i < 9" and "j < 9" and "slot * 9 + i = slot' * 9 + j"
  shows "slot = slot' \<and> i = j"
  using assms by presburger

lemma cb_offset_inj:
  assumes "cb_fits fg" and "slot < fg_slots fg" and "slot' < fg_slots fg" and "i < 9" and "j < 9"
    and "afmf_cb_offset fg slot i = afmf_cb_offset fg slot' j"
  shows "slot = slot' \<and> i = j"
proof -
  have "0 < unat (fg_cb_stride fg)" using assms(1) by (simp add: cb_fits_def)
  moreover have "(slot * 9 + i) * unat (fg_cb_stride fg) = (slot' * 9 + j) * unat (fg_cb_stride fg)"
    using cb_offset_value(1) [of fg slot i] cb_offset_value(1) [of fg slot' j] assms by metis
  ultimately have "slot * 9 + i = slot' * 9 + j" by (metis mult_right_cancel not_gr_zero)
  then show ?thesis using slot_index_inj [OF assms(4,5)] by simp
qed

text \<open>
  The constants of different frames in flight never overlap: the 32-byte regions of any two
  different (slot, index) pairs are disjoint, and every region lies inside the buffer.
\<close>
theorem cb_regions_disjoint:
  assumes "cb_fits fg" and "slot < fg_slots fg" and "slot' < fg_slots fg" and "i < 9" and "j < 9"
    and "(slot, i) \<noteq> (slot', j)"
  shows "(unat (afmf_cb_offset fg slot i) + AFMF_CB_SIZE \<le> unat (afmf_cb_offset fg slot' j)
           \<or> unat (afmf_cb_offset fg slot' j) + AFMF_CB_SIZE \<le> unat (afmf_cb_offset fg slot i))
       \<and> unat (afmf_cb_offset fg slot i) + AFMF_CB_SIZE \<le> fg_slots fg * AFMF_CB_PER_SLOT * unat (fg_cb_stride fg)"
proof -
  let ?stride = "unat (fg_cb_stride fg)"
  have apart: "a * ?stride + 32 \<le> b * ?stride" if "a < b" for a b
  proof -
    have "(a + 1) * ?stride \<le> b * ?stride" using that by (intro mult_le_mono1) simp
    then show ?thesis using assms(1) by (simp add: cb_fits_def)
  qed
  have "slot * 9 + i \<noteq> slot' * 9 + j" using slot_index_inj [of i j slot slot'] assms by auto
  then have "slot * 9 + i < slot' * 9 + j \<or> slot' * 9 + j < slot * 9 + i" by linarith
  then show ?thesis
    using apart cb_offset_value [of fg slot i] cb_offset_value(1) [of fg slot' j] assms
    by (auto simp: cb_fits_def)
qed

theorem cb_regions_disjoint_witness:
  "let fg = fg_zero\<lparr>fg_slots := 3, fg_cb_stride := 256\<rparr>
   in unat (afmf_cb_offset fg 1 8) + 32 \<le> unat (afmf_cb_offset fg 2 0)
      \<or> unat (afmf_cb_offset fg 2 0) + 32 \<le> unat (afmf_cb_offset fg 1 8)"
  using cb_regions_disjoint [of "fg_zero\<lparr>fg_slots := 3, fg_cb_stride := 256\<rparr>" 1 2 8 0]
  by (simp add: cb_fits_def Let_def)

lemma cb_write_fields [simp]:
  "fg_slots (cb_write slot i b fg) = fg_slots fg" "fg_cb_stride (cb_write slot i b fg) = fg_cb_stride fg"
  "fg_max_levels (cb_write slot i b fg) = fg_max_levels fg"
  "fg_of_extent (cb_write slot i b fg) = fg_of_extent fg"
  "fg_luma_size (cb_write slot i b fg) = fg_luma_size fg"
  "level_block (cb_write slot i b fg) = level_block fg" "spd_block (cb_write slot i b fg) = spd_block fg"
  "afmf_cb_offset (cb_write slot i b fg) = afmf_cb_offset fg"
  by (simp_all add: cb_write_def level_block_def spd_block_def afmf_cb_offset_def fun_eq_iff)

lemma mapped_fields:
  "level_block (fg\<lparr>fg_cb_mapped := m\<rparr>) = level_block fg" "spd_block (fg\<lparr>fg_cb_mapped := m\<rparr>) = spd_block fg"
  "afmf_cb_offset (fg\<lparr>fg_cb_mapped := m\<rparr>) = afmf_cb_offset fg"
  "fg_luma_size (fg\<lparr>fg_cb_mapped := m\<rparr>) = fg_luma_size fg" "fg_cb_mapped (fg\<lparr>fg_cb_mapped := m\<rparr>) = m"
  "(cb_write slot i b fg)\<lparr>fg_cb_mapped := m\<rparr> = fg\<lparr>fg_cb_mapped := m\<rparr>"
  "fg_cb_mapped (cb_write slot i b fg) = (fg_cb_mapped fg)(afmf_cb_offset fg slot i \<mapsto> b)"
  by (simp_all add: cb_write_def level_block_def spd_block_def afmf_cb_offset_def fun_eq_iff)

lemma cb_write_levels:
  "foldl (\<lambda>fg k. cb_write slot k (level_block fg (fg_of_extent fg) k n) fg) fg ks
     = fg\<lparr>fg_cb_mapped := foldl (\<lambda>m k. m(afmf_cb_offset fg slot k \<mapsto> level_block fg (fg_of_extent fg) k n))
            (fg_cb_mapped fg) ks\<rparr>"
proof (induction ks arbitrary: fg)
  case (Cons k ks)
  show ?case by (simp only: foldl.simps Cons.IH cb_write_fields mapped_fields)
qed simp

lemma foldl_upd_other:
  "a \<notin> f ` set ks \<Longrightarrow> foldl (\<lambda>m k. m(f k \<mapsto> g k)) m ks a = m a"
  by (induction ks arbitrary: m) auto

lemma foldl_upd_at:
  "inj_on f (set ks) \<Longrightarrow> distinct ks \<Longrightarrow> k \<in> set ks \<Longrightarrow> foldl (\<lambda>m k. m(f k \<mapsto> g k)) m ks (f k) = Some (g k)"
  by (induction ks arbitrary: m) (auto simp: foldl_upd_other)

lemma write_constants_mapped:
  "fg_cb_mapped (afmf_framegen_write_constants slot n fg) =
     (foldl (\<lambda>m k. m(afmf_cb_offset fg slot k \<mapsto> level_block fg (fg_of_extent fg) k n)) (fg_cb_mapped fg)
        [0..<fg_max_levels fg])
     (afmf_cb_offset fg slot 8 \<mapsto> level_block fg (fg_luma_size fg ! 0) 0 n,
      afmf_cb_offset fg slot 7 \<mapsto> spd_block fg)"
  by (simp only: afmf_framegen_write_constants_def cb_write_levels Let_def mapped_fields cb_write_fields)

text \<open>
  A frame's constants. Writing the constants of a slot gives every level its block, the
  detector its own and the pyramid its work groups, at the offsets the recording binds, and
  touches no other slot's.
\<close>
theorem constants_written:
  assumes fits: "cb_fits fg" and slot: "slot < fg_slots fg" and levels: "fg_max_levels fg \<le> AFMF_LEVELS"
  shows "(\<forall>k < fg_max_levels fg. fg_cb_mapped (afmf_framegen_write_constants slot n fg) (afmf_cb_offset fg slot k)
            = Some (level_block fg (fg_of_extent fg) k n))
    \<and> fg_cb_mapped (afmf_framegen_write_constants slot n fg) (afmf_cb_offset fg slot AFMF_CB_SCD)
        = Some (level_block fg (fg_luma_size fg ! 0) 0 n)
    \<and> fg_cb_mapped (afmf_framegen_write_constants slot n fg) (afmf_cb_offset fg slot AFMF_LEVELS) = Some (spd_block fg)
    \<and> (\<forall>slot' i. slot' < fg_slots fg \<and> slot' \<noteq> slot \<and> i < AFMF_CB_PER_SLOT \<longrightarrow>
          fg_cb_mapped (afmf_framegen_write_constants slot n fg) (afmf_cb_offset fg slot' i)
          = fg_cb_mapped fg (afmf_cb_offset fg slot' i))"
proof -
  note inj = cb_offset_inj [OF fits slot]
  have ne: "afmf_cb_offset fg slot i \<noteq> afmf_cb_offset fg slot j" if "i \<noteq> j" "i < 9" "j < 9" for i j
    using inj [OF slot, of i j] that by blast
  have ne': "afmf_cb_offset fg slot' i \<noteq> afmf_cb_offset fg slot j"
    if "slot' < fg_slots fg" "slot' \<noteq> slot" "i < 9" "j < 9" for slot' i j
    using inj [OF that(1), of j i] that by metis
  have hit: "foldl (\<lambda>m k. m(afmf_cb_offset fg slot k \<mapsto> level_block fg (fg_of_extent fg) k n)) m [0..<fg_max_levels fg]
        (afmf_cb_offset fg slot k) = Some (level_block fg (fg_of_extent fg) k n)" if "k < fg_max_levels fg" for m k
  proof (rule foldl_upd_at)
    show "inj_on (afmf_cb_offset fg slot) (set [0..<fg_max_levels fg])"
    proof (rule inj_onI)
      fix x y
      assume "x \<in> set [0..<fg_max_levels fg]" "y \<in> set [0..<fg_max_levels fg]"
        "afmf_cb_offset fg slot x = afmf_cb_offset fg slot y"
      then show "x = y" using ne [of x y] levels by (cases "x = y") auto
    qed
  qed (use that in auto)
  have other: "foldl (\<lambda>m k. m(afmf_cb_offset fg slot k \<mapsto> level_block fg (fg_of_extent fg) k n)) m [0..<fg_max_levels fg]
        (afmf_cb_offset fg slot' i) = m (afmf_cb_offset fg slot' i)"
    if "slot' < fg_slots fg" "slot' \<noteq> slot" "i < 9" for m slot' i
  proof (rule foldl_upd_other)
    have "\<forall>k \<in> set [0..<fg_max_levels fg]. afmf_cb_offset fg slot' i \<noteq> afmf_cb_offset fg slot k"
      using ne' [OF that] levels by auto
    then show "afmf_cb_offset fg slot' i \<notin> afmf_cb_offset fg slot ` set [0..<fg_max_levels fg]" by blast
  qed
  show ?thesis
    unfolding write_constants_mapped using other hit ne ne' levels
    by auto
qed

lemma cb_fits_example: "cb_fits (fg_zero\<lparr>fg_slots := 3, fg_cb_stride := 256, fg_max_levels := 5\<rparr>)"
  by (simp add: cb_fits_def)

theorem constants_written_witness:
  "let fg = fg_zero\<lparr>fg_slots := 3, fg_cb_stride := 256, fg_max_levels := 5\<rparr>
   in fg_cb_mapped (afmf_framegen_write_constants 1 5 fg) (afmf_cb_offset fg 1 7) = Some (spd_block fg)
      \<and> fg_cb_mapped (afmf_framegen_write_constants 1 5 fg) (afmf_cb_offset fg 2 0) = None"
  using constants_written [OF cb_fits_example, of 1 5]
  by (simp add: Let_def) (simp add: fg_zero_def)

section \<open>Levels\<close>

text \<open>
  The two flow textures alternate: over the levels of a frame the search at one level writes
  the texture the next finer level does not, and over the frames each level's texture swaps; both
  indices are in range.
\<close>
theorem flow_parity_alternates:
  assumes "p \<le> 1"
  shows "afmf_flow_parity_a p (Suc k) = 1 - afmf_flow_parity_a p k
       \<and> afmf_flow_parity_a (1 - p) k = 1 - afmf_flow_parity_a p k \<and> afmf_flow_parity_a p k < 2"
proof -
  have p: "p = 0 \<or> p = 1" using assms by linarith
  have k: "k mod 2 = 0 \<or> k mod 2 = 1" and suc: "Suc k mod 2 = 1 - k mod 2" by presburger+
  from p k show ?thesis
    unfolding afmf_flow_parity_a_def suc by (elim disjE) simp_all
qed

theorem flow_parity_witness: "afmf_flow_parity_a 1 3 = 0 \<and> afmf_flow_parity_a 1 2 = 1"
  using flow_parity_alternates [of 1 2] by (simp add: afmf_flow_parity_a_def)

section \<open>The commands of a frame\<close>

text \<open>The recording as a list of commands, without the profiler.\<close>

definition pass_cmds :: "fg_pipelines \<Rightarrow> fg_pass \<Rightarrow> handle \<Rightarrow> u32 list \<Rightarrow> u32 \<times> u32 \<times> u32 \<Rightarrow> vk_cmd list" where
  "pass_cmds pl ps ds offsets groups =
     (case groups of (x, y, z) \<Rightarrow>
        [CmdBindPipeline (pl_pipelines pl ps), CmdBindDescriptorSet (pl_layouts pl ps) ds offsets, CmdDispatch x y z])"

definition level_cmds :: "fg_pipelines \<Rightarrow> afmf_framegen \<Rightarrow> nat \<Rightarrow> nat \<Rightarrow> nat \<Rightarrow> vk_cmd list" where
  "level_cmds pl fg slot p k =
     (let o' = [afmf_cb_offset fg slot k]; luma = fg_luma_size fg ! k; flow = fg_flow_size fg ! k;
          finer = fg_flow_size fg ! (k - 1)
      in pass_cmds pl PASS_SEARCH (fg_sets fg ! p ! (SET_SEARCH + k)) o'
           (((width luma + 3) div 4 * 16 + 63) div 64, (height luma + 15) div 16, 1) @ [sync_compute_cmd]
         @ pass_cmds pl PASS_FILTER (fg_sets fg ! p ! (SET_FILTER + k)) o'
           ((width flow + 15) div 16, (height flow + 3) div 4, 1) @ [sync_compute_cmd]
         @ (if k > 0
            then pass_cmds pl PASS_SCALE (fg_sets fg ! p ! (SET_SCALE + k - 1)) o'
                   ((width finer + 3) div 4, (height finer + 3) div 4, 1) @ [sync_compute_cmd]
            else []))"

definition interpolate_cmds :: "afmf_config \<Rightarrow> fg_pipelines \<Rightarrow> afmf_framegen \<Rightarrow> handle \<Rightarrow> variant \<Rightarrow> vk_cmd list" where
  "interpolate_cmds cfg pl fg ds v =
     [CmdPushConstants (pl_layouts pl PASS_INTERPOLATE)
        [real (unat (width (fg_extent fg))), real (unat (height (fg_extent fg))), 8,
         if cfg_fast_motion cfg = AFMF_RESPONSE_BLENDED_FRAMES then 1 else 0, 128,
         real (unat (fg_flow_scale fg)), if cfg_hud_detect cfg then 1 / 255 else 0],
      CmdBindPipeline (pl_interpolate pl v), CmdBindDescriptorSet (pl_layouts pl PASS_INTERPOLATE) ds [],
      CmdDispatch ((width (fg_extent fg) + 7) div 8) ((height (fg_extent fg) + 7) div 8) 1, sync_compute_cmd]"

definition flow_cmds ::
  "afmf_config \<Rightarrow> fg_pipelines \<Rightarrow> afmf_framegen \<Rightarrow> nat \<Rightarrow> nat \<Rightarrow> nat \<Rightarrow> bool \<Rightarrow> vk_cmd list" where
  "flow_cmds cfg pl fg slot p levels companion =
     (let w = width (fg_of_extent fg); h = height (fg_of_extent fg); of0 = afmf_cb_offset fg slot 0
      in (if fg_ingest_direct fg then []
          else pass_cmds pl PASS_PREPARE_LUMA (fg_sets fg ! p ! SET_PREPARE) [of0]
                 (((w + 1) div 2 + 15) div 16, ((h + 1) div 2 + 15) div 16, 1) @ [sync_compute_cmd])
         @ pass_cmds pl PASS_PYRAMID (fg_sets fg ! p ! SET_PYRAMID) [of0, afmf_cb_offset fg slot AFMF_LEVELS]
             (tiles w, tiles h, 1)
         @ pass_cmds pl PASS_SCD_HISTOGRAM (fg_sets fg ! p ! SET_SCD_HISTOGRAM) [afmf_cb_offset fg slot AFMF_CB_SCD]
             ((width (fg_luma_size fg ! 0) div 4 div 3 + 31) div 32, 16, 9) @ [sync_compute_cmd]
         @ pass_cmds pl PASS_SCD_DIVERGENCE (fg_sets fg ! p ! SET_SCD_DIVERGENCE) [of0] (9, 3, 1) @ [sync_compute_cmd]
         @ concat (map (level_cmds pl fg slot p) (rev [0..<if companion then levels else 0]))
         @ (if companion \<and> \<not> fg_direct fg
            then interpolate_cmds cfg pl fg (fg_sets fg ! p ! SET_INTERPOLATE) (fg_variant fg) else []))"

definition not_profiling :: "afmf_framegen \<Rightarrow> bool" where
  "not_profiling fg \<longleftrightarrow> prof_queries (fg_prof fg) = VK_NULL_HANDLE"

definition recorded :: "handle \<Rightarrow> vk_cmd list \<Rightarrow> ('w, 'e) eff_scheme \<Rightarrow> ('w, 'e) eff_scheme" where
  "recorded cmd cs s = s\<lparr>eff_trace := eff_trace s @ map (Recorded cmd) cs\<rparr>"

lemma recorded_recorded [simp]: "recorded cmd ds (recorded cmd cs s) = recorded cmd (cs @ ds) s"
  by (simp add: recorded_def)

lemma recorded_Nil [simp]: "recorded cmd [] s = s"
  by (simp add: recorded_def)

lemma recorded_fgs [simp]:
  "fgs_fg (recorded cmd cs s) = fgs_fg s" "fgs_pl (recorded cmd cs s) = fgs_pl s"
  "fgs_cfg (recorded cmd cs s) = fgs_cfg s" "fgs_dev (recorded cmd cs s) = fgs_dev s"
  by (simp_all add: recorded_def)

declare run_emit [simp del] run_record_cmds [simp del]

lemma run_recording [simp]:
  "run_state (emit (Recorded cmd c)) s = ((), recorded cmd [c] s)"
  "run_state (record_cmds cmd cs) s = ((), recorded cmd cs s)"
  "run_state (afmf_sync cmd) s = ((), recorded cmd [sync_cmd] s)"
  "run_state (afmf_sync_compute cmd) s = ((), recorded cmd [sync_compute_cmd] s)"
  by (simp_all add: recorded_def afmf_sync_def afmf_sync_compute_def run_emit run_record_cmds)

lemma run_dispatch [simp]:
  "run_state (afmf_dispatch_pass cmd pipe layout ds os x y z b) s =
     ((), recorded cmd ([CmdBindPipeline pipe, CmdBindDescriptorSet layout ds os, CmdDispatch x y z]
                         @ (if b then [sync_compute_cmd] else [])) s)"
  "run_state (afmf_dispatch cmd pipe layout ds os x y z) s =
     ((), recorded cmd [CmdBindPipeline pipe, CmdBindDescriptorSet layout ds os, CmdDispatch x y z, sync_compute_cmd] s)"
  by (simp_all add: afmf_dispatch_pass_def afmf_dispatch_def)

lemma run_mark_off [simp]:
  "not_profiling (fgs_fg s) \<Longrightarrow> run_state (afmf_framegen_profiler_mark cmd slot stage) s = ((), s)"
  by (simp add: afmf_framegen_profiler_mark_def not_profiling_def)

lemma run_interpolate:
  "not_profiling (fgs_fg s) \<Longrightarrow>
     run_state (afmf_framegen_record_interpolate cmd slot ds v) s
       = ((), recorded cmd (interpolate_cmds (fgs_cfg s) (fgs_pl s) (fgs_fg s) ds v) s)"
  by (simp add: afmf_framegen_record_interpolate_def interpolate_cmds_def Let_def)

lemma run_level:
  "not_profiling (fgs_fg s) \<Longrightarrow>
     run_state (record_level cmd slot p k) s = ((), recorded cmd (level_cmds (fgs_pl s) (fgs_fg s) slot p k) s)"
  by (simp add: record_level_def level_cmds_def pass_cmds_def Let_def)

lemma run_levels:
  "not_profiling (fgs_fg s) \<Longrightarrow>
     run_state (record_levels cmd slot p n) s
       = ((), recorded cmd (concat (map (level_cmds (fgs_pl s) (fgs_fg s) slot p) (rev [0..<n]))) s)"
  by (induction n arbitrary: s) (simp_all add: run_level)

text \<open>
  What the flow records: the luma, then the pyramid and the detector's histogram with no
  barrier between them, the divergence before any search, then, with a companion, search, filter
  and scale from the coarsest level down to level 0, every pass but the pyramid followed by a
  barrier, and last the interpolation unless it writes the target itself.
\<close>
theorem record_flow_commands:
  assumes "not_profiling (fgs_fg s)"
  shows "run_state (afmf_framegen_record_flow cmd slot p levels companion) s
       = ((), recorded cmd (flow_cmds (fgs_cfg s) (fgs_pl s) (fgs_fg s) slot p levels companion) s)"
  using assms
  by (simp add: afmf_framegen_record_flow_def flow_cmds_def pass_cmds_def tiles_def Let_def run_levels run_interpolate)

theorem record_flow_witness:
  "run_state (afmf_framegen_record_flow 9 0 1 5 True) (sample_fgs fg_zero)
     = ((), recorded 9 (flow_cmds (init (\<lambda>_. None) None) pl_zero fg_zero 0 1 5 True) (sample_fgs fg_zero))"
  using record_flow_commands [of "sample_fgs fg_zero" 9 0 1 5 True]
  by (simp add: not_profiling_def sample_fgs_def fgs_pl_def) (simp add: fg_zero_def prof_zero_def)

declare run_emit [simp] run_record_cmds [simp] run_recording [simp del]

end
