(* ===== verification/Fg_Dump.thy ===== *)
theory Fg_Dump
  imports Fg_Record
begin

text \<open>
  The readback of generated frames (src/src/framegen_dump.c): which formats can be dumped, where
  each part lies in the buffer, when a dump is pending, and what \<open>dump_write\<close> reads back, as
  functions from the bytes of the buffer. \<open>mkdir\<close> and \<open>remove\<close> are calls whose results the driver
  parameter gives; the files are in \<open>Dump_Files\<close>.
\<close>

definition dump_writable :: "variant \<Rightarrow> bool" where
  "dump_writable v \<longleftrightarrow> v = VARIANT_RGBA8 \<or> v = VARIANT_RGBA8_BGRA \<or> v = VARIANT_RGB10A2"

section \<open>The layout of the buffer\<close>

definition pixels :: "extent2d \<Rightarrow> nat" where
  "pixels e = unat (width e) * unat (height e)"

text \<open>Offset and length of the parts \<open>record_dump\<close> copies, in its order.\<close>

definition dump_regions :: "afmf_framegen \<Rightarrow> (nat \<times> nat) list" where
  "dump_regions fg =
     (let out = pixels (fg_extent fg) * 4; flow = pixels (fg_flow_size fg ! 0) * 4;
          luma = pixels (fg_luma_size fg ! 0)
      in [(0, out), (out, flow), (out + flow, flow), (out + 2 * flow, AFMF_SCD_SLOTS * 4),
          (out + 2 * flow + AFMF_SCD_SLOTS * 4, luma), (out + 2 * flow + AFMF_SCD_SLOTS * 4 + luma, luma)])"

definition dump_bytes :: "afmf_framegen \<Rightarrow> nat" where
  "dump_bytes fg = pixels (fg_extent fg) * 4 + 2 * pixels (fg_flow_size fg ! 0) * 4 + AFMF_SCD_SLOTS * 4
                   + 2 * pixels (fg_luma_size fg ! 0)"

definition afmf_framegen_find_memory_type :: "afmf_device \<Rightarrow> nat \<Rightarrow> memory_property set \<Rightarrow> nat option" where
  "afmf_framegen_find_memory_type dev type_bits wanted =
     (case filter (\<lambda>i. bit type_bits i \<and> wanted \<subseteq> dev_memory_types dev ! i) [0..<length (dev_memory_types dev)] of
        [] \<Rightarrow> None | i # _ \<Rightarrow> Some i)"

definition upd_dump :: "(fg_dump_state \<Rightarrow> fg_dump_state) \<Rightarrow> afmf_framegen \<Rightarrow> afmf_framegen" where
  "upd_dump f fg = fg\<lparr>fg_dump := f (fg_dump fg)\<rparr>"

abbreviation (input) EEXIST :: int where "EEXIST \<equiv> 17"

definition afmf_framegen_dump_buffer_create :: "('w fgs, unit) state" where
  "afmf_framegen_dump_buffer_create = do {
     cfg \<leftarrow> gets fgs_cfg;
     dev \<leftarrow> gets fgs_dev;
     fg \<leftarrow> fg_gets id;
     if cfg_dump_dir cfg = None \<or> \<not> dump_writable (fg_variant fg) then return ()
     else do {
     made \<leftarrow> vk MakeDumpDir;
     if made \<noteq> 0 \<and> made \<noteq> EEXIST then return ()
     else do {
       fg_modify (upd_dump (\<lambda>d. d\<lparr>dump_size := dump_bytes fg\<rparr>));
       (res, buffer) \<leftarrow> vk_full (CreateBuffer (dump_bytes fg));
       if res \<noteq> VK_SUCCESS then return ()
       else do {
         fg_modify (upd_dump (\<lambda>d. d\<lparr>dump_buffer := buffer\<rparr>));
         (_, bits) \<leftarrow> vk_full (GetMemoryTypeBits buffer);
         (case afmf_framegen_find_memory_type dev bits {HOST_VISIBLE, HOST_COHERENT} of
            None \<Rightarrow> return ()
          | Some type \<Rightarrow> do {
              (res, memory) \<leftarrow> vk_full (AllocateMemory type);
              if res \<noteq> VK_SUCCESS then return ()
              else do {
                fg_modify (upd_dump (\<lambda>d. d\<lparr>dump_memory := memory\<rparr>));
                bound \<leftarrow> vk (BindMemory buffer memory);
                if bound \<noteq> VK_SUCCESS then return ()
                else do {
                  mapped \<leftarrow> vk (MapMemory memory);
                  whenb (mapped = VK_SUCCESS) (fg_modify (upd_dump (\<lambda>d. d\<lparr>dump_mapped := True\<rparr>)))
                }
              }
            })
       }
     }
     }
   }"

section \<open>When a dump is due\<close>

definition afmf_framegen_dump_arm :: "('w fgs, unit) state" where
  "afmf_framegen_dump_arm = do {
     fg \<leftarrow> fg_gets id;
     if \<not> dump_mapped (fg_dump fg) \<or> dumps_written (fg_dump fg) < AFMF_DUMP_FRAMES
        \<or> fg_frame_index fg mod 60 \<noteq> 0 then return ()
     else do {
       removed \<leftarrow> vk RemoveDumpTrigger;
       whenb (removed = 0)
         (fg_modify (\<lambda>fg. upd_dump (\<lambda>d. d\<lparr>dumps_written := 0, dump_from := fg_frame_index fg + 1\<rparr>) fg))
     }
   }"

definition afmf_framegen_dump_pending :: "afmf_framegen \<Rightarrow> bool" where
  "afmf_framegen_dump_pending fg \<longleftrightarrow>
     dump_mapped (fg_dump fg) \<and> fg_frame_index fg \<ge> dump_from (fg_dump fg)
     \<and> dumps_written (fg_dump fg) < AFMF_DUMP_FRAMES"

definition afmf_framegen_dump_recorded :: "afmf_framegen \<Rightarrow> bool" where
  "afmf_framegen_dump_recorded fg = dump_recorded (fg_dump fg)"

definition afmf_framegen_dump_write :: "afmf_framegen \<Rightarrow> afmf_framegen" where
  "afmf_framegen_dump_write fg =
     (if \<not> dump_recorded (fg_dump fg) then fg
      else upd_dump (\<lambda>d. d\<lparr>dump_recorded := False, dumps_written := dumps_written d + 1\<rparr>) fg)"

section \<open>The picture\<close>

text \<open>One pixel of the file from the four bytes of the readback.\<close>

definition dump_pixel :: "variant \<Rightarrow> u8 \<Rightarrow> u8 \<Rightarrow> u8 \<Rightarrow> u8 \<Rightarrow> u8 list" where
  "dump_pixel v p0 p1 p2 p3 =
     (if v = VARIANT_RGB10A2 then
        (let w = (ucast p0 :: u32) OR push_bit 8 (ucast p1) OR push_bit 16 (ucast p2) OR push_bit 24 (ucast p3)
         in [ucast (drop_bit 2 w AND 0xff), ucast (drop_bit 12 w AND 0xff), ucast (drop_bit 22 w AND 0xff)])
      else if v = VARIANT_RGBA8_BGRA then [p2, p1, p0] else [p0, p1, p2])"

fun dump_row :: "variant \<Rightarrow> u8 list \<Rightarrow> u8 list" where
  "dump_row v (p0 # p1 # p2 # p3 # ps) = dump_pixel v p0 p1 p2 p3 @ dump_row v ps"
| "dump_row v ps = []"

text \<open>The rows of the picture, as the loop over \<open>y\<close> writes them.\<close>

definition dump_picture :: "variant \<Rightarrow> nat \<Rightarrow> nat \<Rightarrow> u8 list \<Rightarrow> u8 list" where
  "dump_picture v w h bytes = concat (map (\<lambda>y. dump_row v (take (w * 4) (drop (y * w * 4) bytes))) [0..<h])"

section \<open>The parts do not overlap\<close>

fun consecutive :: "nat \<Rightarrow> (nat \<times> nat) list \<Rightarrow> nat \<Rightarrow> bool" where
  "consecutive from [] end' = (from = end')"
| "consecutive from ((off, len) # rest) end' = (off = from \<and> consecutive (from + len) rest end')"

lemma length_dump_pixel [simp]: "length (dump_pixel v p0 p1 p2 p3) = 3"
  by (simp add: dump_pixel_def Let_def)

lemma length_dump_row: "length ps = 4 * n \<Longrightarrow> length (dump_row v ps) = 3 * n"
proof (induction n arbitrary: ps)
  case (Suc n)
  then have "length ps = Suc (Suc (Suc (Suc (4 * n))))" by simp
  then obtain p0 p1 p2 p3 qs where "ps = p0 # p1 # p2 # p3 # qs" "length qs = 4 * n"
    by (auto simp: length_Suc_conv)
  then show ?case using Suc.IH by simp
qed simp

lemma dump_picture_length:
  assumes len: "w * h * 4 \<le> length bytes"
  shows "length (dump_picture v w h bytes) = w * h * 3"
proof -
  have row: "length (dump_row v (take (w * 4) (drop (y * w * 4) bytes))) = 3 * w" if "y < h" for y
  proof (rule length_dump_row)
    have "(y + 1) * (w * 4) \<le> h * (w * 4)" using that by (intro mult_le_mono1) simp
    then have "w * 4 \<le> length bytes - y * w * 4" using len by (simp add: algebra_simps)
    then show "length (take (w * 4) (drop (y * w * 4) bytes)) = 4 * w" by simp
  qed
  have "length (dump_picture v w h bytes) = (\<Sum>y \<leftarrow> [0..<h]. 3 * w)"
    unfolding dump_picture_def length_concat map_map o_def
    by (intro arg_cong [where f = sum_list] map_cong refl row) simp
  then show ?thesis by (simp add: sum_list_triv)
qed

text \<open>
  The six parts a dump copies (the frame, the filtered and the raw flow, the detector's words, both
  lumas) lie one behind the other without a gap, from the start of the buffer to its last byte.
\<close>
lemma dump_layout: "consecutive 0 (dump_regions fg) (dump_bytes fg)"
  by (simp add: dump_regions_def dump_bytes_def Let_def)

end
