(* ===== verification/Fg_Frame.thy ===== *)
theory Fg_Frame
  imports Fg_Dump
begin

text \<open>
  One frame into the primary command buffer (src/src/framegen_record_frame.c): the pre-recorded
  flow executed or recorded again, the dump, and \<open>afmf_framegen_record\<close>.
\<close>

section \<open>The pre-recorded part\<close>

definition sec_index :: "nat \<Rightarrow> nat \<Rightarrow> bool \<Rightarrow> nat" where
  "sec_index slot p companion = (slot * 2 + p) * 2 + (if companion then 1 else 0)"

definition upd_sec :: "nat \<Rightarrow> (secondary \<Rightarrow> secondary) \<Rightarrow> afmf_framegen \<Rightarrow> afmf_framegen" where
  "upd_sec i f fg = fg\<lparr>fg_secondaries := map_option (\<lambda>secs. secs[i := f (secs ! i)]) (fg_secondaries fg)\<rparr>"

definition slot_marks :: "afmf_framegen \<Rightarrow> nat \<Rightarrow> fg_stage list" where
  "slot_marks fg slot = (if prof_queries (fg_prof fg) \<noteq> VK_NULL_HANDLE then prof_marks (fg_prof fg) ! slot else [])"

definition set_marks :: "nat \<Rightarrow> fg_stage list \<Rightarrow> afmf_framegen \<Rightarrow> afmf_framegen" where
  "set_marks slot ms fg =
     (if prof_queries (fg_prof fg) \<noteq> VK_NULL_HANDLE
      then upd_prof (\<lambda>p. p\<lparr>prof_marks := (prof_marks p)[slot := ms]\<rparr>) fg else fg)"

text \<open>
  Recording a secondary again, and whether that worked: \<open>sec->recorded\<close> afterwards.
\<close>

definition record_secondary :: "nat \<Rightarrow> handle \<Rightarrow> nat \<Rightarrow> nat \<Rightarrow> nat \<Rightarrow> bool \<Rightarrow> ('w fgs, bool) state" where
  "record_secondary i seccmd slot p levels companion = do {
     fg_modify (upd_sec i (\<lambda>sec. sec\<lparr>sec_recorded := False\<rparr>));
     begun \<leftarrow> vk (BeginCommandBuffer seccmd);
     if begun = VK_SUCCESS then do {
       afmf_framegen_record_flow seccmd slot p levels companion;
       ended \<leftarrow> vk (EndCommandBuffer seccmd);
       fg_modify (upd_sec i (\<lambda>sec. sec\<lparr>sec_recorded := (ended = VK_SUCCESS)\<rparr>));
       return (ended = VK_SUCCESS)
     } else return False
   }"

definition execute_flow :: "handle \<Rightarrow> nat \<Rightarrow> nat \<Rightarrow> nat \<Rightarrow> bool \<Rightarrow> ('w fgs, unit) state" where
  "execute_flow cmd slot p levels companion = do {
     fg \<leftarrow> fg_gets id;
     (case fg_secondaries fg of
        None \<Rightarrow> afmf_framegen_record_flow cmd slot p levels companion
      | Some secs \<Rightarrow>
          (let i = sec_index slot p companion; sec = secs ! i; before = slot_marks fg slot in
             if \<not> sec_recorded sec \<or> sec_levels sec \<noteq> levels then do {
               ok \<leftarrow> record_secondary i (sec_cmd sec) slot p levels companion;
               if \<not> ok then do {
                 fg_modify (set_marks slot before);
                 afmf_framegen_record_flow cmd slot p levels companion
               } else do {
                 fg_modify (\<lambda>fg. upd_sec i (\<lambda>sec. sec\<lparr>sec_levels := levels,
                   sec_stages := drop (length before) (slot_marks fg slot)\<rparr>) fg);
                 emit (Recorded cmd (CmdExecuteCommands (sec_cmd sec)))
               }
             } else do {
               fg_modify (if length before + length (sec_stages sec) \<le> AFMF_PROFILE_QUERIES
                          then set_marks slot (before @ sec_stages sec) else id);
               emit (Recorded cmd (CmdExecuteCommands (sec_cmd sec)))
             }))
   }"

section \<open>The dump\<close>

definition record_dump :: "handle \<Rightarrow> nat \<Rightarrow> handle \<Rightarrow> ('w fgs, unit) state" where
  "record_dump cmd p target = do {
     fg \<leftarrow> fg_gets id;
     let buffer = dump_buffer (fg_dump fg);
     let offset = (\<lambda>i. fst (dump_regions fg ! i));
     whenb (fg_direct fg) (afmf_sync cmd);
     record_cmds cmd
       [CmdCopyImageToBuffer (if fg_direct fg then target else img_image (fg_output fg)) LAYOUT_GENERAL buffer
          (offset 0) (fg_extent fg),
        CmdCopyImageToBuffer (img_image (fg_flow_out fg)) LAYOUT_GENERAL buffer (offset 1) (fg_flow_size fg ! 0),
        CmdCopyImageToBuffer (img_image (fg_flow fg ! afmf_flow_parity_a p 0 ! 0)) LAYOUT_GENERAL buffer
          (offset 2) (fg_flow_size fg ! 0),
        CmdCopyImageToBuffer (img_image (fg_scd fg ! 3)) LAYOUT_GENERAL buffer (offset 3) \<lparr>width = 3, height = 1\<rparr>,
        CmdCopyImageToBuffer (img_image (fg_luma fg ! p ! 0)) LAYOUT_GENERAL buffer (offset 4) (fg_luma_size fg ! 0),
        CmdCopyImageToBuffer (img_image (fg_luma fg ! (1 - p) ! 0)) LAYOUT_GENERAL buffer (offset 5)
          (fg_luma_size fg ! 0)];
     fg_modify (\<lambda>fg. upd_dump (\<lambda>d. d\<lparr>dump_recorded := True, dump_frame := fg_frame_index fg\<rparr>) fg)
   }"

section \<open>The frame\<close>

definition frame_parity :: "afmf_framegen \<Rightarrow> nat" where
  "frame_parity fg = unat (fg_frame_index fg AND 1)"

text \<open>Step 1: the new frame into the colour ring, by the ingest pass or by a copy and a downscale.\<close>

definition record_ingest :: "handle \<Rightarrow> nat \<Rightarrow> handle \<Rightarrow> nat \<Rightarrow> ('w fgs, unit) state" where
  "record_ingest cmd p current current_index = do {
     fg \<leftarrow> fg_gets id;
     pl \<leftarrow> gets fgs_pl;
     let w = width (fg_of_extent fg);
     let h = height (fg_of_extent fg);
     let ew = width (fg_extent fg);
     let eh = height (fg_extent fg);
     (if fg_ingest_direct fg then do {
        let ingest_w = (if fg_flow_scale fg > 1 then w else ew);
        let ingest_h = (if fg_flow_scale fg > 1 then h else eh);
        emit (Recorded cmd (CmdPushConstants (pl_layouts pl PASS_INGEST)
          [real (unat ew), real (unat eh), real (unat (fg_transfer_function fg)), fg_min_luminance fg,
           fg_max_luminance fg, if fg_flow_scale fg > 1 then 1 else 0]));
        afmf_dispatch cmd (pl_ingest pl (fg_ingest_variant fg)) (pl_layouts pl PASS_INGEST)
          (fg_ingest_sets fg ! (p * fg_target_count fg + current_index)) []
          ((ingest_w + 7) div 8) ((ingest_h + 7) div 8) 1
      } else do {
        afmf_framegen_copy_whole cmd current LAYOUT_TRANSFER_SRC (img_image (fg_color fg ! p)) LAYOUT_GENERAL
          (fg_extent fg);
        afmf_sync cmd
      });
     whenb (fg_flow_scale fg > 1 \<and> \<not> fg_ingest_direct fg) (do {
       emit (Recorded cmd (CmdPushConstants (pl_layouts pl PASS_DOWNSAMPLE)
         [real (unat w), real (unat h), real (unat ew), real (unat eh)]));
       afmf_dispatch cmd (pl_downsample pl (fg_half fg)) (pl_layouts pl PASS_DOWNSAMPLE)
         (fg_sets fg ! p ! SET_DOWNSAMPLE) [] ((w + 7) div 8) ((h + 7) div 8) 1
     })
   }"

text \<open>Step 3: the frame in between into the target.\<close>

definition record_output :: "handle \<Rightarrow> nat \<Rightarrow> nat \<Rightarrow> handle \<Rightarrow> nat \<Rightarrow> ('w fgs, unit) state" where
  "record_output cmd slot p target target_index = do {
     fg \<leftarrow> fg_gets id;
     (if fg_direct fg then
        afmf_framegen_record_interpolate cmd slot (fg_direct_sets fg ! (p * fg_target_count fg + target_index))
          (fg_direct_variant fg)
      else do {
        afmf_sync cmd;
        afmf_framegen_copy_whole cmd (img_image (fg_output fg)) LAYOUT_GENERAL target LAYOUT_TRANSFER_DST
          (fg_extent fg);
        afmf_framegen_profiler_mark cmd slot STAGE_OUTPUT
      });
     pending \<leftarrow> fg_gets afmf_framegen_dump_pending;
     whenb pending (record_dump cmd p target)
   }"

definition out_of_targets :: "afmf_framegen \<Rightarrow> nat \<Rightarrow> bool \<Rightarrow> nat \<Rightarrow> bool" where
  "out_of_targets fg current_index companion target_index \<longleftrightarrow>
     fg_ingest_direct fg \<and> current_index \<ge> fg_target_count fg
     \<or> fg_direct fg \<and> companion \<and> target_index \<ge> fg_target_count fg"

definition afmf_framegen_record :: "handle \<Rightarrow> nat \<Rightarrow> handle \<Rightarrow> nat \<Rightarrow> handle \<Rightarrow> nat \<Rightarrow> ('w fgs, unit) state" where
  "afmf_framegen_record cmd slot current current_index target target_index = do {
     fg \<leftarrow> fg_gets id;
     let levels = fg_levels fg;
     let p = frame_parity fg;
     let companion = (target \<noteq> VK_NULL_HANDLE);
     if out_of_targets fg current_index companion target_index then return ()
     else do {
       whenb (\<not> fg_initialized fg) (afmf_framegen_initialize cmd);
       fg_modify (afmf_framegen_write_constants slot levels);
       afmf_sync cmd;
       afmf_framegen_profiler_begin cmd slot;
       record_ingest cmd p current current_index;
       afmf_framegen_profiler_mark cmd slot STAGE_INGEST;
       execute_flow cmd slot p levels companion;
       whenb companion (record_output cmd slot p target target_index);
       fg_modify (\<lambda>fg. fg\<lparr>fg_frame_index := fg_frame_index fg + 1\<rparr>)
     }
   }"

section \<open>A replayed secondary is the recording\<close>

text \<open>What a command buffer holds after a run: the commands recorded since it was last begun.\<close>

definition body_step :: "handle \<Rightarrow> vk_cmd list \<Rightarrow> event \<Rightarrow> vk_cmd list" where
  "body_step cb cs e =
     (case e of
        Called c r out \<Rightarrow> if c = BeginCommandBuffer cb \<and> r = VK_SUCCESS then [] else cs
      | Recorded cb' c \<Rightarrow> if cb' = cb then cs @ [c] else cs
      | _ \<Rightarrow> cs)"

definition body :: "handle \<Rightarrow> event list \<Rightarrow> vk_cmd list" where
  "body cb es = foldl (body_step cb) [] es"

lemma body_append: "body cb (es @ fs) = foldl (body_step cb) (body cb es) fs"
  by (simp add: body_def)

lemma body_recorded [simp]:
  "foldl (body_step cb) cs (map (Recorded cb') ds) = (if cb' = cb then cs @ ds else cs)"
  by (induction ds arbitrary: cs) (auto simp: body_step_def)

lemma body_of_recorded [simp]:
  "body cb (eff_trace (recorded cb' ds s)) = (if cb' = cb then body cb (eff_trace s) @ ds else body cb (eff_trace s))"
  by (simp add: recorded_def body_append)

text \<open>
  The invariant: every secondary marked as recorded holds the flow of its slot, parity, companion
  and levels; the secondaries are different command buffers.
\<close>

definition sec_holds :: "'w fgs \<Rightarrow> nat \<Rightarrow> secondary \<Rightarrow> bool" where
  "sec_holds s i sec \<longleftrightarrow>
     (sec_recorded sec \<longrightarrow>
        body (sec_cmd sec) (eff_trace s)
          = flow_cmds (fgs_cfg s) (fgs_pl s) (fgs_fg s) (i div 4) (i div 2 mod 2) (sec_levels sec) (i mod 2 = 1))"

definition secondaries_ok :: "'w fgs \<Rightarrow> bool" where
  "secondaries_ok s \<longleftrightarrow>
     (\<forall>secs. fg_secondaries (fgs_fg s) = Some secs \<longrightarrow>
        distinct (map sec_cmd secs) \<and> (\<forall>i < length secs. sec_holds s i (secs ! i)))"

text \<open>What the driver executes for a command buffer, the secondaries it calls expanded.\<close>

definition expand :: "event list \<Rightarrow> vk_cmd list \<Rightarrow> vk_cmd list" where
  "expand es cs = concat (map (\<lambda>c. case c of CmdExecuteCommands sec \<Rightarrow> body sec es | _ \<Rightarrow> [c]) cs)"

definition plain :: "vk_cmd list \<Rightarrow> bool" where
  "plain cs \<longleftrightarrow> (\<forall>c \<in> set cs. \<forall>sec. c \<noteq> CmdExecuteCommands sec)"

lemma expand_plain: "plain cs \<Longrightarrow> expand es cs = cs"
proof (induction cs)
  case (Cons c cs)
  then show ?case by (cases c) (auto simp: expand_def plain_def)
qed (simp add: expand_def)

lemma plain_flow: "plain (flow_cmds cfg pl fg slot p levels companion)"
  by (auto simp: plain_def flow_cmds_def level_cmds_def pass_cmds_def interpolate_cmds_def sync_compute_cmd_def
      Let_def split: if_splits)

lemma flow_cmds_secondaries [simp]:
  "flow_cmds cfg pl (fg\<lparr>fg_secondaries := secs\<rparr>) slot p levels companion = flow_cmds cfg pl fg slot p levels companion"
proof -
  have "level_cmds pl (fg\<lparr>fg_secondaries := secs\<rparr>) = level_cmds pl fg"
    by (simp add: level_cmds_def afmf_cb_offset_def fun_eq_iff Let_def)
  then show ?thesis
    by (simp add: flow_cmds_def afmf_cb_offset_def interpolate_cmds_def Let_def)
qed

lemma upd_sec_fields [simp]:
  "fg_secondaries (upd_sec i f fg) = map_option (\<lambda>secs. secs[i := f (secs ! i)]) (fg_secondaries fg)"
  "flow_cmds cfg pl (upd_sec i f fg) = flow_cmds cfg pl fg"
  "not_profiling (upd_sec i f fg) = not_profiling fg"
  by (simp_all add: upd_sec_def fun_eq_iff not_profiling_def)

lemma sec_index_parts:
  "p < 2 \<Longrightarrow> sec_index slot p c div 4 = slot \<and> sec_index slot p c div 2 mod 2 = p
     \<and> (sec_index slot p c mod 2 = 1) = c"
  unfolding sec_index_def by (cases c) (simp_all, presburger+)

lemma flow_expanded: "expand es (flow_cmds cfg pl fg slot p n c) = flow_cmds cfg pl fg slot p n c"
  by (rule expand_plain) (rule plain_flow)

lemma expand_execute [simp]: "expand es [CmdExecuteCommands sec] = body sec es"
  by (simp add: expand_def)

lemma upd_sec_twice: "upd_sec i f (upd_sec i g fg) = upd_sec i (\<lambda>sec. f (g sec)) fg"
  if "\<And>secs. fg_secondaries fg = Some secs \<Longrightarrow> i < length secs"
  using that by (cases "fg_secondaries fg") (simp_all add: upd_sec_def)

lemma body_called [simp]:
  "body cb (es @ [Called c r out]) = (if c = BeginCommandBuffer cb \<and> r = VK_SUCCESS then [] else body cb es)"
  by (simp add: body_append body_step_def)

declare run_emit [simp del] run_record_cmds [simp del] run_recording [simp]

lemma record_secondary_run:
  assumes run: "run_state (record_secondary i seccmd slot p levels companion) s = (ok, s')"
    and off: "not_profiling (fgs_fg s)"
    and range: "\<And>secs. fg_secondaries (fgs_fg s) = Some secs \<Longrightarrow> i < length secs"
  shows "fgs_fg s' = upd_sec i (\<lambda>sec. sec\<lparr>sec_recorded := ok\<rparr>) (fgs_fg s)"
    and "fgs_cfg s' = fgs_cfg s" and "fgs_pl s' = fgs_pl s"
    and "ok \<Longrightarrow> body seccmd (eff_trace s')
           = flow_cmds (fgs_cfg s) (fgs_pl s) (fgs_fg s) slot p levels companion"
    and "cb \<noteq> seccmd \<Longrightarrow> body cb (eff_trace s') = body cb (eff_trace s)"
  using run off range
  by (auto simp: record_secondary_def run_effects record_flow_commands upd_sec_twice split: prod.splits if_splits)

lemma sec_holds_moved:
  assumes "sec_holds s i sec" and "body (sec_cmd sec) (eff_trace s') = body (sec_cmd sec) (eff_trace s)"
    and "fgs_cfg s' = fgs_cfg s" "fgs_pl s' = fgs_pl s" "flow_cmds (fgs_cfg s) (fgs_pl s) (fgs_fg s') = flow_cmds (fgs_cfg s) (fgs_pl s) (fgs_fg s)"
  shows "sec_holds s' i sec"
  using assms by (simp add: sec_holds_def)

lemma sec_holds_kept [simp]:
  "sec_cmd sec \<noteq> cmd \<Longrightarrow> sec_holds (recorded cmd cs s) i sec = sec_holds s i sec"
  "sec_holds (s\<lparr>fgs_fg := upd_sec j f (fgs_fg s)\<rparr>) i sec = sec_holds s i sec"
  by (auto simp: sec_holds_def)

lemma set_marks_off: "not_profiling fg \<Longrightarrow> set_marks slot ms fg = fg" "not_profiling fg \<Longrightarrow> slot_marks fg slot = []"
  by (simp_all add: set_marks_def slot_marks_def not_profiling_def)

lemma map_update_same: "(map f xs)[i := f (xs ! i)] = map f xs"
  by (metis list_update_id map_update)

lemma secondaries_stored:
  assumes secs: "fg_secondaries (fgs_fg s') = Some (secs[i := sec])" and dist: "distinct (map sec_cmd secs)"
    and same: "sec_cmd sec = sec_cmd (secs ! i)" and own: "i < length secs \<Longrightarrow> sec_holds s' i sec"
    and others: "\<And>j. j < length secs \<Longrightarrow> j \<noteq> i \<Longrightarrow> sec_holds s' j (secs ! j)"
  shows "secondaries_ok s'"
proof -
  have "map sec_cmd (secs[i := sec]) = map sec_cmd secs" using same by (simp add: map_update map_update_same)
  moreover have "sec_holds s' j (secs[i := sec] ! j)" if "j < length secs" for j
    using own others that by (cases "j = i") simp_all
  ultimately show ?thesis using secs dist by (simp add: secondaries_ok_def)
qed

text \<open>What a recording of one secondary leaves of the others and of the primary.\<close>

lemma record_secondary_others:
  assumes ok: "secondaries_ok s" and off: "not_profiling (fgs_fg s)" and secs: "fg_secondaries (fgs_fg s) = Some secs"
    and range: "i < length secs" and prim: "cmd \<notin> set (map sec_cmd secs)"
    and r: "run_state (record_secondary i (sec_cmd (secs ! i)) slot p levels companion) s = (fine, s1)"
  shows "j < length secs \<Longrightarrow> j \<noteq> i \<Longrightarrow> sec_holds s1 j (secs ! j)" and "body cmd (eff_trace s1) = body cmd (eff_trace s)"
proof -
  note rec = record_secondary_run [OF r off]
  have bodies: "body cb (eff_trace s1) = body cb (eff_trace s)" if "cb \<noteq> sec_cmd (secs ! i)" for cb
    using rec(5) [OF _ that] secs range by simp
  then show "body cmd (eff_trace s1) = body cmd (eff_trace s)" using prim nth_mem [OF range] by auto
  show "sec_holds s1 j (secs ! j)" if "j < length secs" "j \<noteq> i"
  proof (rule sec_holds_moved [of s])
    show "sec_holds s j (secs ! j)" using ok secs that by (simp add: secondaries_ok_def)
    have "sec_cmd (secs ! j) \<noteq> sec_cmd (secs ! i)"
      using ok secs that range by (auto simp: secondaries_ok_def distinct_conv_nth)
    then show "body (sec_cmd (secs ! j)) (eff_trace s1) = body (sec_cmd (secs ! j)) (eff_trace s)" by (rule bodies)
  qed (use rec(1-3) secs range in simp_all)
qed

lemma flow_recorded:
  assumes ok: "secondaries_ok s" and off: "not_profiling (fgs_fg s)" and p: "p < 2"
    and secs: "fg_secondaries (fgs_fg s) = Some secs" and range: "sec_index slot p companion < length secs"
    and prim: "cmd \<notin> set (map sec_cmd secs)"
    and stale: "\<not> sec_recorded (secs ! sec_index slot p companion) \<or> sec_levels (secs ! sec_index slot p companion) \<noteq> levels"
    and run: "run_state (execute_flow cmd slot p levels companion) s = (u, s')"
  shows "secondaries_ok s'
    \<and> (\<exists>cs. body cmd (eff_trace s') = body cmd (eff_trace s) @ cs
         \<and> expand (eff_trace s') cs = flow_cmds (fgs_cfg s) (fgs_pl s) (fgs_fg s) slot p levels companion)"
proof -
  let ?i = "sec_index slot p companion" and ?flow = "flow_cmds (fgs_cfg s) (fgs_pl s) (fgs_fg s) slot p levels companion"
  define sec where "sec = secs ! ?i"
  have dist: "distinct (map sec_cmd secs)" using ok secs by (simp add: secondaries_ok_def)
  have ne: "sec_cmd (secs ! j) \<noteq> cmd" if "j < length secs" for j using prim that by auto
  have sec_ne: "sec_cmd sec \<noteq> cmd" using ne range by (simp add: sec_def)
  obtain fine s1 where r: "run_state (record_secondary ?i (sec_cmd sec) slot p levels companion) s = (fine, s1)" by fastforce
  note rec = record_secondary_run [OF r off] and others = record_secondary_others [OF ok off secs range prim r [unfolded sec_def]]
  have fg1: "fgs_fg s1 = upd_sec ?i (\<lambda>sec. sec\<lparr>sec_recorded := fine\<rparr>) (fgs_fg s)"
    and same: "fgs_cfg s1 = fgs_cfg s" "fgs_pl s1 = fgs_pl s" using rec(1-3) secs range by simp_all
  have off1: "not_profiling (fgs_fg s1)" using fg1 off by simp
  show ?thesis
  proof (cases fine)
    case False
    have "s1\<lparr>fgs_fg := fgs_fg s1\<rparr> = s1" by simp
    then have same1: "s1\<lparr>fgs_fg := upd_sec ?i (\<lambda>sec. sec\<lparr>sec_recorded := False\<rparr>) (fgs_fg s)\<rparr> = s1"
      unfolding fg1 using False by simp
    have s': "s' = recorded cmd ?flow s1"
      using run stale secs off1 False same fg1
      by (simp add: same1 execute_flow_def sec_def [symmetric] Let_def r set_marks_off record_flow_commands)
    have "secondaries_ok s'"
      by (rule secondaries_stored [of _ _ ?i "sec\<lparr>sec_recorded := False\<rparr>", OF _ dist])
         (use others ne secs False in \<open>simp_all add: s' fg1 sec_def sec_holds_def [of _ ?i]\<close>)
    then show ?thesis using others(2) sec_ne flow_expanded by (auto simp: s')
  next
    case True
    let ?s2 = "s1\<lparr>fgs_fg := upd_sec ?i (\<lambda>sec. sec\<lparr>sec_levels := levels, sec_stages := []\<rparr>) (fgs_fg s1)\<rparr>"
    have s': "s' = recorded cmd [CmdExecuteCommands (sec_cmd sec)] ?s2"
      using run stale secs off1 True by (simp add: execute_flow_def sec_def [symmetric] Let_def r set_marks_off)
    have body1: "body (sec_cmd sec) (eff_trace s') = ?flow"
      using rec(4) secs range True sec_ne by (simp add: s')
    have own: "sec_holds s' ?i (sec\<lparr>sec_recorded := True, sec_levels := levels, sec_stages := []\<rparr>)"
      using body1 sec_index_parts [OF p, of slot companion] by (simp add: sec_holds_def s' fg1 same)
    have "sec_holds s' j (secs ! j)" if "j < length secs" "j \<noteq> ?i" for j
      using others(1) [OF that] ne [OF that(1)] by (simp add: s')
    then have "secondaries_ok s'"
      by (intro secondaries_stored [OF _ dist _ own]) (use secs True range in \<open>simp_all add: s' fg1 sec_def\<close>)
    then show ?thesis using others(2) sec_ne body1 by (auto simp: s')
  qed
qed

text \<open>
  C19: Replaying a secondary is recording it. Whether the flow of a frame is replayed, recorded
  again because the search levels changed, or recorded inline because a secondary could not be
  begun or ended, the driver executes the same commands for the frame, those of its slot, parity,
  companion and levels; and every secondary still holds what it is taken to hold afterwards.
\<close>
theorem flow_replay:
  assumes ok: "secondaries_ok s" and off: "not_profiling (fgs_fg s)" and p: "p < 2"
    and secs: "fg_secondaries (fgs_fg s) = Some secs" and range: "sec_index slot p companion < length secs"
    and prim: "cmd \<notin> set (map sec_cmd secs)"
    and run: "run_state (execute_flow cmd slot p levels companion) s = (u, s')"
  shows "secondaries_ok s'
    \<and> (\<exists>cs. body cmd (eff_trace s') = body cmd (eff_trace s) @ cs
         \<and> expand (eff_trace s') cs = flow_cmds (fgs_cfg s) (fgs_pl s) (fgs_fg s) slot p levels companion)"
proof (cases "\<not> sec_recorded (secs ! sec_index slot p companion) \<or> sec_levels (secs ! sec_index slot p companion) \<noteq> levels")
  case True
  show ?thesis by (rule flow_recorded [OF ok off p secs range prim True run])
next
  case False
  let ?sec = "secs ! sec_index slot p companion"
  have holds: "sec_holds s j (secs ! j)" if "j < length secs" for j using ok secs that by (simp add: secondaries_ok_def)
  have ne: "sec_cmd (secs ! j) \<noteq> cmd" if "j < length secs" for j using prim that by auto
  have s': "s' = recorded cmd [CmdExecuteCommands (sec_cmd ?sec)] s"
    using run secs off False by (auto simp: execute_flow_def Let_def set_marks_off split: if_splits)
  have "secondaries_ok s'"
    using ok secs holds ne by (simp add: secondaries_ok_def s')
  moreover have "body (sec_cmd ?sec) (eff_trace s') = flow_cmds (fgs_cfg s) (fgs_pl s) (fgs_fg s) slot p levels companion"
    using holds [OF range] False ne [OF range] sec_index_parts [OF p, of slot companion] by (simp add: s' sec_holds_def)
  ultimately show ?thesis by (simp add: s')
qed

definition two_secondaries :: afmf_framegen where
  "two_secondaries = fg_zero\<lparr>fg_secondaries :=
     Some (map (\<lambda>c. \<lparr>sec_cmd = 10 + c, sec_recorded = False, sec_levels = 0, sec_stages = []\<rparr>) [0, 1, 2, 3])\<rparr>"

theorem flow_replay_witness:
  "\<exists>cs. body 9 (eff_trace (snd (run_state (execute_flow 9 0 1 5 True) (sample_fgs two_secondaries)))) = cs
     \<and> expand (eff_trace (snd (run_state (execute_flow 9 0 1 5 True) (sample_fgs two_secondaries)))) cs
         = flow_cmds (init (\<lambda>_. None) None) pl_zero two_secondaries 0 1 5 True"
proof -
  let ?secs = "map (\<lambda>c. \<lparr>sec_cmd = 10 + c, sec_recorded = False, sec_levels = 0, sec_stages = []\<rparr>) [0, 1, 2, 3]"
  have ok: "secondaries_ok (sample_fgs two_secondaries)"
    by (auto simp: secondaries_ok_def sec_holds_def sample_fgs_def two_secondaries_def less_Suc_eq)
  have off: "not_profiling (fgs_fg (sample_fgs two_secondaries))"
    by (simp add: not_profiling_def sample_fgs_def two_secondaries_def) (simp add: fg_zero_def prof_zero_def)
  have secs: "fg_secondaries (fgs_fg (sample_fgs two_secondaries)) = Some ?secs"
    by (simp add: sample_fgs_def two_secondaries_def)
  show ?thesis
    using flow_replay [OF ok off _ secs _ _ surjective_pairing, of 1 0 True 9 5]
    by (simp add: sec_index_def sample_fgs_def body_def fgs_pl_def)
qed

declare run_emit [simp] run_record_cmds [simp] run_recording [simp del]

end
