(* ===== verification/Ring.thy ===== *)
theory Ring
  imports System
begin

text \<open>
  The two ring buffers of a swapchain: \<open>work\<close>, which the hook fills and the work thread empties,
  and \<open>jobs\<close>, which the work thread fills and the presentation thread empties. Both are arrays of
  \<open>AFMF_MAX_JOBS\<close> with a head and a count, written at \<open>(head + count) % AFMF_MAX_JOBS\<close>. The locale
  \<open>bounded_fifo\<close> is the contract their users rely on; both rings are interpretations of it.
\<close>

section \<open>The contract\<close>

datatype 'a fifo_op = Push 'a | Pop

locale bounded_fifo =
  fixes cap :: nat
    and push :: "'a \<Rightarrow> 's \<Rightarrow> 's"
    and pop :: "'s \<Rightarrow> 's"
    and front :: "'s \<Rightarrow> 'a"
    and contents :: "'s \<Rightarrow> 'a list"
    and inv :: "'s \<Rightarrow> bool"
  assumes bounded: "inv s \<Longrightarrow> length (contents s) \<le> cap"
    and push_inv: "inv s \<Longrightarrow> length (contents s) < cap \<Longrightarrow> inv (push x s)"
    and push_contents: "inv s \<Longrightarrow> length (contents s) < cap \<Longrightarrow> contents (push x s) = contents s @ [x]"
    and pop_inv: "inv s \<Longrightarrow> contents s \<noteq> [] \<Longrightarrow> inv (pop s)"
    and pop_contents: "inv s \<Longrightarrow> contents s \<noteq> [] \<Longrightarrow> contents (pop s) = tl (contents s)"
    and front_contents: "inv s \<Longrightarrow> contents s \<noteq> [] \<Longrightarrow> front s = hd (contents s)"
begin

text \<open>
  A client that never pushes into a full queue nor pops an empty one: the state it ends in and
  what it took out, in order.
\<close>

fun serve :: "'a fifo_op list \<Rightarrow> 's \<Rightarrow> 's \<times> 'a list" where
  "serve [] s = (s, [])"
| "serve (Push x # ops) s = (if length (contents s) < cap then serve ops (push x s) else serve ops s)"
| "serve (Pop # ops) s =
     (if contents s = [] then serve ops s
      else case serve ops (pop s) of (s', xs) \<Rightarrow> (s', front s # xs))"

fun accepted :: "'a fifo_op list \<Rightarrow> 's \<Rightarrow> 'a list" where
  "accepted [] s = []"
| "accepted (Push x # ops) s =
     (if length (contents s) < cap then x # accepted ops (push x s) else accepted ops s)"
| "accepted (Pop # ops) s = (if contents s = [] then accepted ops s else accepted ops (pop s))"

lemma serve_inv: "inv s \<Longrightarrow> inv (fst (serve ops s))"
  by (induction ops s rule: serve.induct) (auto simp: push_inv pop_inv split: prod.split)

lemma serve_fifo:
  "inv s \<Longrightarrow> snd (serve ops s) @ contents (fst (serve ops s)) = contents s @ accepted ops s"
proof (induction ops s rule: serve.induct)
  case (2 x ops s)
  then show ?case by (auto simp: push_inv push_contents)
next
  case (3 ops s)
  then show ?case
    by (cases "contents s") (auto simp: pop_inv pop_contents front_contents split: prod.split)
qed simp

lemma pop_push:
  assumes "inv s" and "contents s = []" and "0 < cap"
  shows "contents (pop (push x s)) = [] \<and> front (push x s) = x"
  using assms by (simp add: push_inv push_contents pop_contents front_contents)

end

section \<open>A ring\<close>

definition ring_contents :: "'a list \<Rightarrow> nat \<Rightarrow> nat \<Rightarrow> 'a list" where
  "ring_contents xs head count = map (\<lambda>i. xs ! ((head + i) mod length xs)) [0..<count]"

lemma length_ring_contents [simp]: "length (ring_contents xs head count) = count"
  by (simp add: ring_contents_def)

lemma ring_contents_Nil [simp]: "ring_contents xs head count = [] \<longleftrightarrow> count = 0"
  by (metis length_0_conv length_ring_contents)

lemma ring_push:
  assumes "count < length xs"
  shows "ring_contents (xs[(head + count) mod length xs := x]) head (Suc count)
       = ring_contents xs head count @ [x]"
proof -
  have "(head + count) mod length xs \<noteq> (head + i) mod length xs" if "i < count" for i
    using ring_index_inj [of head i "length xs" count] that assms by (metis less_irrefl order.strict_trans)
  moreover have "(head + count) mod length xs < length xs" using assms by (intro mod_less_divisor) linarith
  ultimately show ?thesis by (simp add: ring_contents_def)
qed

lemma ring_pop:
  assumes "0 < count"
  shows "ring_contents xs ((head + 1) mod length xs) (count - 1) = tl (ring_contents xs head count)"
proof -
  have "[0..<count] = 0 # map Suc [0..<count - 1]"
    using assms by (metis Suc_diff_1 map_Suc_upt upt_conv_Cons)
  then have "tl (ring_contents xs head count)
      = map (\<lambda>i. xs ! ((head + Suc i) mod length xs)) [0..<count - 1]"
    by (simp add: ring_contents_def)
  then show ?thesis
    by (simp only: ring_contents_def mod_add_Suc_left)
qed

lemma ring_front: "0 < count \<Longrightarrow> hd (ring_contents xs head count) = xs ! (head mod length xs)"
  by (simp add: ring_contents_def hd_map)

section \<open>The queue of frames for the work thread\<close>

definition work_push :: "afmf_frame_job \<Rightarrow> afmf_swapchain \<Rightarrow> afmf_swapchain" where
  "work_push work sc =
     sc\<lparr>sc_work := (sc_work sc)[(sc_work_head sc + sc_work_count sc) mod AFMF_MAX_JOBS := work],
        sc_work_count := sc_work_count sc + 1\<rparr>"

definition work_pop :: "afmf_swapchain \<Rightarrow> afmf_swapchain" where
  "work_pop sc = sc\<lparr>sc_work_head := (sc_work_head sc + 1) mod AFMF_MAX_JOBS,
                    sc_work_count := sc_work_count sc - 1\<rparr>"

definition work_front :: "afmf_swapchain \<Rightarrow> afmf_frame_job" where
  "work_front sc = sc_work sc ! sc_work_head sc"

definition work_contents :: "afmf_swapchain \<Rightarrow> afmf_frame_job list" where
  "work_contents sc = ring_contents (sc_work sc) (sc_work_head sc) (sc_work_count sc)"

definition work_ok :: "afmf_swapchain \<Rightarrow> bool" where
  "work_ok sc \<longleftrightarrow> length (sc_work sc) = AFMF_MAX_JOBS \<and> sc_work_head sc < AFMF_MAX_JOBS
                \<and> sc_work_count sc \<le> AFMF_MAX_JOBS"

interpretation work: bounded_fifo AFMF_MAX_JOBS work_push work_pop work_front work_contents work_ok
proof unfold_locales
  fix s x
  assume ok: "work_ok s"
  show "length (work_contents s) \<le> AFMF_MAX_JOBS" using ok by (simp add: work_contents_def work_ok_def)
  show "work_ok (work_push x s)" if "length (work_contents s) < AFMF_MAX_JOBS"
    using ok that by (simp add: work_ok_def work_push_def work_contents_def)
  show "work_contents (work_push x s) = work_contents s @ [x]" if "length (work_contents s) < AFMF_MAX_JOBS"
    using ok that ring_push [of "sc_work_count s" "sc_work s" "sc_work_head s" x]
    by (simp add: work_ok_def work_push_def work_contents_def)
  show "work_ok (work_pop s)" if "work_contents s \<noteq> []"
    using ok that by (auto simp: work_ok_def work_pop_def work_contents_def)
  show "work_contents (work_pop s) = tl (work_contents s)" if "work_contents s \<noteq> []"
    using ok that ring_pop [of "sc_work_count s" "sc_work s" "sc_work_head s"]
    by (simp add: work_ok_def work_pop_def work_contents_def)
  show "work_front s = hd (work_contents s)" if "work_contents s \<noteq> []"
    using ok that by (simp add: work_ok_def work_front_def work_contents_def ring_front)
qed

section \<open>The queue of presents for the presentation thread\<close>

definition jobs_push :: "afmf_present_job \<Rightarrow> afmf_swapchain \<Rightarrow> afmf_swapchain" where
  "jobs_push job sc =
     sc\<lparr>sc_jobs := (sc_jobs sc)[(sc_job_head sc + sc_job_count sc) mod AFMF_MAX_JOBS := job],
        sc_job_count := sc_job_count sc + 1\<rparr>"

definition jobs_pop :: "afmf_swapchain \<Rightarrow> afmf_swapchain" where
  "jobs_pop sc = sc\<lparr>sc_job_head := (sc_job_head sc + 1) mod AFMF_MAX_JOBS,
                    sc_job_count := sc_job_count sc - 1\<rparr>"

definition jobs_front :: "afmf_swapchain \<Rightarrow> afmf_present_job" where
  "jobs_front sc = sc_jobs sc ! sc_job_head sc"

definition jobs_contents :: "afmf_swapchain \<Rightarrow> afmf_present_job list" where
  "jobs_contents sc = ring_contents (sc_jobs sc) (sc_job_head sc) (sc_job_count sc)"

definition jobs_ok :: "afmf_swapchain \<Rightarrow> bool" where
  "jobs_ok sc \<longleftrightarrow> length (sc_jobs sc) = AFMF_MAX_JOBS \<and> sc_job_head sc < AFMF_MAX_JOBS
                \<and> sc_job_count sc \<le> AFMF_MAX_JOBS"

interpretation jobs: bounded_fifo AFMF_MAX_JOBS jobs_push jobs_pop jobs_front jobs_contents jobs_ok
proof unfold_locales
  fix s x
  assume ok: "jobs_ok s"
  show "length (jobs_contents s) \<le> AFMF_MAX_JOBS" using ok by (simp add: jobs_contents_def jobs_ok_def)
  show "jobs_ok (jobs_push x s)" if "length (jobs_contents s) < AFMF_MAX_JOBS"
    using ok that by (simp add: jobs_ok_def jobs_push_def jobs_contents_def)
  show "jobs_contents (jobs_push x s) = jobs_contents s @ [x]" if "length (jobs_contents s) < AFMF_MAX_JOBS"
    using ok that ring_push [of "sc_job_count s" "sc_jobs s" "sc_job_head s" x]
    by (simp add: jobs_ok_def jobs_push_def jobs_contents_def)
  show "jobs_ok (jobs_pop s)" if "jobs_contents s \<noteq> []"
    using ok that by (auto simp: jobs_ok_def jobs_pop_def jobs_contents_def)
  show "jobs_contents (jobs_pop s) = tl (jobs_contents s)" if "jobs_contents s \<noteq> []"
    using ok that ring_pop [of "sc_job_count s" "sc_jobs s" "sc_job_head s"]
    by (simp add: jobs_ok_def jobs_pop_def jobs_contents_def)
  show "jobs_front s = hd (jobs_contents s)" if "jobs_contents s \<noteq> []"
    using ok that by (simp add: jobs_ok_def jobs_front_def jobs_contents_def ring_front)
qed

lemma contents_Nil [simp]:
  "work_contents sc = [] \<longleftrightarrow> sc_work_count sc = 0" "jobs_contents sc = [] \<longleftrightarrow> sc_job_count sc = 0"
  by (simp_all add: work_contents_def jobs_contents_def)

lemma length_contents [simp]:
  "length (work_contents sc) = sc_work_count sc" "length (jobs_contents sc) = sc_job_count sc"
  by (simp_all add: work_contents_def jobs_contents_def)

lemma ring_counts [simp]:
  "sc_work_count (work_push f sc) = sc_work_count sc + 1" "sc_work_count (work_pop sc) = sc_work_count sc - 1"
  "sc_job_count (jobs_push j sc) = sc_job_count sc + 1" "sc_job_count (jobs_pop sc) = sc_job_count sc - 1"
  by (simp_all add: work_push_def work_pop_def jobs_push_def jobs_pop_def)

text \<open>
  C14: The rings are queues. However the two sides of a ring interleave, what comes out is what
  went in, in order: what was taken followed by what is left is what was there followed by what
  was accepted. This holds for the frames queued for the work thread and for the presents queued
  for the presentation thread.
\<close>
theorem rings_fifo:
  assumes "work_ok sc" and "jobs_ok sc"
  shows "snd (work.serve wops sc) @ work_contents (fst (work.serve wops sc))
           = work_contents sc @ work.accepted wops sc
       \<and> snd (jobs.serve jops sc) @ jobs_contents (fst (jobs.serve jops sc))
           = jobs_contents sc @ jobs.accepted jops sc"
  using assms by (simp add: work.serve_fifo jobs.serve_fifo)

lemma rings_ok_zero [simp]: "work_ok sc_zero" "jobs_ok sc_zero"
  by (simp_all add: work_ok_def jobs_ok_def sc_zero_def)

lemma rings_contents_zero [simp]: "work_contents sc_zero = []" "jobs_contents sc_zero = []"
  by (simp_all add: sc_zero_def)

theorem rings_fifo_witness:
  "let f = \<lparr>frame_slot = 1, frame_present = job_init 2 3\<rparr>
   in work.accepted [Push f, Pop] sc_zero = [f] \<and> snd (work.serve [Push f, Pop] sc_zero) = [f]"
proof -
  let ?f = "\<lparr>frame_slot = 1, frame_present = job_init 2 3\<rparr>"
  have zero: "sc_work_count sc_zero = 0" by (simp add: sc_zero_def)
  then have "work.accepted [Push ?f, Pop] sc_zero = [?f]"
    and "work_contents (fst (work.serve [Push ?f, Pop] sc_zero)) = []"
    by simp_all
  then show ?thesis
    using rings_fifo [of sc_zero "[Push ?f, Pop]" "[]"] by (simp only: Let_def rings_ok_zero
      rings_contents_zero append_Nil append_Nil2 simp_thms)
qed

end
