(* ===== verification/Record_Frame.thy ===== *)
theory Record_Frame
  imports Fg_Frame Ring
begin

text \<open>
  One frame's command buffer (src/src/swapchain_record.c): the swapchain images through the layouts
  the work needs, around the frame generation or the plain copy of the history image. A frame
  generation operation runs on the swapchain's \<open>fg\<close> through \<open>with_fg\<close>.
\<close>

section \<open>Frame generation on a swapchain\<close>

definition fgs_of :: "'w sys \<Rightarrow> afmf_framegen \<Rightarrow> 'w fgs" where
  "fgs_of s fg =
     \<lparr> eff_driver = eff_driver s, eff_clock = eff_clock s, eff_world = eff_world s, eff_trace = eff_trace s,
       eff_array = eff_array s,
       fgs_cfg = sys_cfg s, fgs_dev = sys_dev s, fgs_ticks = sys_ticks s, fgs_fg = fg \<rparr>"

definition with_fg :: "('w fgs, unit) state \<Rightarrow> ('w sys, unit) state" where
  "with_fg m = State (\<lambda>s.
     case sc_fg (sys_sc s) of
       None \<Rightarrow> ((), s)
     | Some fg \<Rightarrow>
         (let s' = snd (run_state m (fgs_of s fg))
          in ((), s\<lparr>eff_world := eff_world s', eff_trace := eff_trace s',
                    sys_sc := (sys_sc s)\<lparr>sc_fg := Some (fgs_fg s')\<rparr>\<rparr>)))"

lemma locks_fgs [locks_wp]:
  "locks H (fg_gets g) (\<lambda>_. H)" "locks H (fg_modify f) (\<lambda>_. H)"
  by (auto simp: locks_def)

lemmas locks_wp_fgs [locks_wp] = locks_wp_neutral [OF locks_fgs(1)] locks_wp_neutral [OF locks_fgs(2)]

lemma locks_emit_recorded: "locks H (emit (Recorded cb c)) (\<lambda>_. H)"
  by (auto simp: locks_def)

lemmas locks_wp_emit [locks_wp] = locks_emit_recorded locks_wp_neutral [OF locks_emit_recorded]

lemma locks_with_fg:
  assumes "\<And>H. locks H m (\<lambda>_. H)"
  shows "locks H (with_fg m) (\<lambda>_. H)"
proof (rule locksI)
  fix s :: "'a sys"
  show "\<exists>tr. eff_trace (snd (run_state (with_fg m) s)) = eff_trace s @ tr \<and> lock_run H tr = Some H"
  proof (cases "sc_fg (sys_sc s)")
    case (Some fg)
    from assms [of H] obtain tr where
      "eff_trace (snd (run_state m (fgs_of s fg))) = eff_trace (fgs_of s fg) @ tr" "lock_run H tr = Some H"
      unfolding locks_def by blast
    then show ?thesis using Some by (simp add: with_fg_def fgs_of_def Let_def)
  qed (simp add: with_fg_def)
qed

section \<open>The recording\<close>

definition image_barrier ::
  "handle \<Rightarrow> handle \<Rightarrow> image_layout \<Rightarrow> image_layout \<Rightarrow> access set \<Rightarrow> access set \<Rightarrow> stage \<Rightarrow> stage \<Rightarrow> ('w, 'e, unit) act"
where
  "image_barrier cmd img from to src_access dst_access src_stage dst_stage =
     emit (Recorded cmd (CmdImageBarrier img from to src_access dst_access {src_stage} {dst_stage}))"

definition copy_whole :: "handle \<Rightarrow> handle \<Rightarrow> handle \<Rightarrow> extent2d \<Rightarrow> ('w, 'e, unit) act" where
  "copy_whole cmd src dst ext = emit (Recorded cmd (CmdCopyImage src LAYOUT_TRANSFER_SRC dst LAYOUT_TRANSFER_DST ext))"

definition record_framegen :: "afmf_framegen \<Rightarrow> handle \<Rightarrow> nat \<Rightarrow> nat \<Rightarrow> bool \<Rightarrow> nat \<Rightarrow> ('w sys, unit) state" where
  "record_framegen fg cmd slot i generate j = do {
     sc \<leftarrow> sc_gets id;
     let direct = fg_direct fg;
     let ingest = fg_ingest_direct fg;
     let written = (if direct then LAYOUT_GENERAL else LAYOUT_TRANSFER_DST);
     let write = (if direct then SHADER_WRITE else TRANSFER_WRITE);
     let writer = (if direct then COMPUTE_SHADER else TRANSFER);
     let read = (if ingest then LAYOUT_GENERAL else LAYOUT_TRANSFER_SRC);
     let read_access = (if ingest then SHADER_READ else TRANSFER_READ);
     let reader = (if ingest then COMPUTE_SHADER else TRANSFER);
     image_barrier cmd (sc_images sc ! i) LAYOUT_PRESENT_SRC read {} {read_access} TOP_OF_PIPE reader;
     whenb generate (image_barrier cmd (sc_images sc ! j) LAYOUT_UNDEFINED written {} {write} TOP_OF_PIPE writer);
     with_fg (afmf_framegen_record cmd slot (sc_images sc ! i) i (if generate then sc_images sc ! j else VK_NULL_HANDLE) j);
     whenb generate
       (image_barrier cmd (sc_images sc ! j) written LAYOUT_PRESENT_SRC {write} {} writer BOTTOM_OF_PIPE);
     image_barrier cmd (sc_images sc ! i) read LAYOUT_PRESENT_SRC {read_access} {} reader BOTTOM_OF_PIPE
   }"

definition record_companion_copy :: "handle \<Rightarrow> nat \<Rightarrow> ('w sys, unit) state" where
  "record_companion_copy cmd j = do {
     sc \<leftarrow> sc_gets id;
     image_barrier cmd (sc_images sc ! j) LAYOUT_UNDEFINED LAYOUT_TRANSFER_DST {} {TRANSFER_WRITE} TOP_OF_PIPE TRANSFER;
     image_barrier cmd (sc_history sc) (sc_history_layout sc) LAYOUT_TRANSFER_SRC {TRANSFER_WRITE} {TRANSFER_READ}
       TRANSFER TRANSFER;
     sc_modify (\<lambda>sc. sc\<lparr>sc_history_layout := LAYOUT_TRANSFER_SRC\<rparr>);
     copy_whole cmd (sc_history sc) (sc_images sc ! j) (sc_extent sc);
     image_barrier cmd (sc_images sc ! j) LAYOUT_TRANSFER_DST LAYOUT_PRESENT_SRC {TRANSFER_WRITE} {} TRANSFER BOTTOM_OF_PIPE
   }"

definition record_history_copy :: "handle \<Rightarrow> nat \<Rightarrow> ('w sys, unit) state" where
  "record_history_copy cmd i = do {
     sc \<leftarrow> sc_gets id;
     image_barrier cmd (sc_images sc ! i) LAYOUT_PRESENT_SRC LAYOUT_TRANSFER_SRC {} {TRANSFER_READ} TOP_OF_PIPE TRANSFER;
     image_barrier cmd (sc_history sc) (sc_history_layout sc) LAYOUT_TRANSFER_DST
       (if sc_history_layout sc = LAYOUT_UNDEFINED then {} else {TRANSFER_READ}) {TRANSFER_WRITE} TRANSFER TRANSFER;
     sc_modify (\<lambda>sc. sc\<lparr>sc_history_layout := LAYOUT_TRANSFER_DST\<rparr>);
     copy_whole cmd (sc_images sc ! i) (sc_history sc) (sc_extent sc);
     image_barrier cmd (sc_images sc ! i) LAYOUT_TRANSFER_SRC LAYOUT_PRESENT_SRC {TRANSFER_READ} {} TRANSFER BOTTOM_OF_PIPE
   }"

definition afmf_sc_record_frame :: "handle \<Rightarrow> nat \<Rightarrow> nat \<Rightarrow> bool \<Rightarrow> nat \<Rightarrow> ('w sys, vk_result) state" where
  "afmf_sc_record_frame cmd slot i generate j = do {
     res \<leftarrow> vk (BeginCommandBuffer cmd);
     if res \<noteq> VK_SUCCESS then return res
     else do {
       fg' \<leftarrow> sc_gets sc_fg;
       (case fg' of
          Some fg \<Rightarrow> record_framegen fg cmd slot i generate j
        | None \<Rightarrow> do {
            whenb generate (record_companion_copy cmd j);
            record_history_copy cmd i
          });
       vk (EndCommandBuffer cmd)
     }
   }"

section \<open>Layouts\<close>

text \<open>
  The layouts the images have, through a run of commands: a barrier names the layout its image is
  in, or \<open>UNDEFINED\<close> to discard it; a copy finds its images in the layouts it names.
\<close>

fun layout_step :: "vk_cmd \<Rightarrow> (handle \<Rightarrow> image_layout) \<Rightarrow> (handle \<Rightarrow> image_layout) option" where
  "layout_step (CmdImageBarrier img from to sa da ss ds) L =
     (if from = LAYOUT_UNDEFINED \<or> L img = from then Some (L(img := to)) else None)"
| "layout_step (CmdCopyImage src sl dst dl e) L = (if L src = sl \<and> L dst = dl then Some L else None)"
| "layout_step c L = Some L"

fun layout_run :: "vk_cmd list \<Rightarrow> (handle \<Rightarrow> image_layout) \<Rightarrow> (handle \<Rightarrow> image_layout) option" where
  "layout_run [] L = Some L"
| "layout_run (c # cs) L = (case layout_step c L of None \<Rightarrow> None | Some L' \<Rightarrow> layout_run cs L')"

text \<open>
  C21: The history path keeps its layouts. Starting with the current image ready to present and the
  history image in the layout the swapchain notes for it, every barrier and copy of a frame finds
  its images in the layouts it names, and both swapchain images end ready to present, the history
  image in the layout noted.
\<close>
theorem history_layouts:
  assumes fg: "sc_fg (sys_sc s) = None"
    and images: "img_i = sc_images (sys_sc s) ! i" "img_j = sc_images (sys_sc s) ! j"
    and distinct: "img_i \<noteq> img_j" "sc_history (sys_sc s) \<noteq> img_i" "sc_history (sys_sc s) \<noteq> img_j"
    and start: "L img_i = LAYOUT_PRESENT_SRC" "L (sc_history (sys_sc s)) = sc_history_layout (sys_sc s)"
    and run: "run_state (afmf_sc_record_frame cmd slot i generate j) s = (res, s')" and res: "res = VK_SUCCESS"
  shows "\<exists>L'. layout_run (body cmd (eff_trace s')) L = Some L'
           \<and> L' img_i = LAYOUT_PRESENT_SRC \<and> (generate \<longrightarrow> L' img_j = LAYOUT_PRESENT_SRC)
           \<and> L' (sc_history (sys_sc s')) = sc_history_layout (sys_sc s')"
  using assms
  by (cases generate)
     (auto simp: afmf_sc_record_frame_def record_companion_copy_def record_history_copy_def image_barrier_def
        copy_whole_def run_effects body_append body_step_def split: prod.splits if_splits)

definition history_sc :: afmf_swapchain where
  "history_sc = sc_zero\<lparr>sc_images := [10, 11], sc_history := 12\<rparr>"

theorem history_layouts_witness:
  "\<exists>L'. layout_run (body 9 (eff_trace (snd (run_state (afmf_sc_record_frame 9 0 0 True 1) (sample_sys history_sc)))))
          (\<lambda>img. if img = 12 then LAYOUT_UNDEFINED else LAYOUT_PRESENT_SRC) = Some L'
        \<and> L' 10 = LAYOUT_PRESENT_SRC \<and> L' 11 = LAYOUT_PRESENT_SRC"
proof -
  let ?s = "sample_sys history_sc" and ?L = "\<lambda>img :: nat. if img = 12 then LAYOUT_UNDEFINED else LAYOUT_PRESENT_SRC"
  obtain res s' where run: "run_state (afmf_sc_record_frame 9 0 0 True 1) ?s = (res, s')" by fastforce
  have sc: "sc_fg (sys_sc ?s) = None" "sc_images (sys_sc ?s) = [10, 11]" "sc_history (sys_sc ?s) = 12"
      "sc_history_layout (sys_sc ?s) = LAYOUT_UNDEFINED"
    by (simp_all add: sample_sys_def history_sc_def) (simp_all add: sc_zero_def)
  have ok: "res = VK_SUCCESS"
    using run sc by (auto simp: afmf_sc_record_frame_def record_companion_copy_def record_history_copy_def
        image_barrier_def copy_whole_def run_effects)
  have "\<exists>L'. layout_run (body 9 (eff_trace s')) ?L = Some L' \<and> L' 10 = LAYOUT_PRESENT_SRC
      \<and> (True \<longrightarrow> L' 11 = LAYOUT_PRESENT_SRC) \<and> L' (sc_history (sys_sc s')) = sc_history_layout (sys_sc s')"
    by (rule history_layouts [OF sc(1) _ _ _ _ _ _ _ run ok]) (use sc in simp_all)
  then show ?thesis using run by auto
qed

section \<open>Recording takes no lock\<close>

lemma locks_recording:
  "locks H (afmf_sync cmd) (\<lambda>_. H)" "locks H (afmf_sync_compute cmd) (\<lambda>_. H)"
  "locks H (afmf_framegen_copy_whole cmd src sl dst dl e) (\<lambda>_. H)"
  "locks H (image_barrier cmd img from to sa da ss ds) (\<lambda>_. H)" "locks H (copy_whole cmd src dst e) (\<lambda>_. H)"
  by (simp_all add: afmf_sync_def afmf_sync_compute_def afmf_framegen_copy_whole_def image_barrier_def
      copy_whole_def locks_emit_recorded)

lemma locks_wp_recording [locks_wp]:
  "(\<And>a. locks H (f a) G) \<Longrightarrow> locks H (State_Monad.bind (afmf_sync cmd) f) G"
  "(\<And>a. locks H (f a) G) \<Longrightarrow> locks H (State_Monad.bind (afmf_sync_compute cmd) f) G"
  "(\<And>a. locks H (f a) G) \<Longrightarrow> locks H (State_Monad.bind (afmf_framegen_copy_whole cmd src sl dst dl e) f) G"
  "(\<And>a. locks H (f a) G) \<Longrightarrow> locks H (State_Monad.bind (image_barrier cmd img from to sa da ss ds) f) G"
  "(\<And>a. locks H (f a) G) \<Longrightarrow> locks H (State_Monad.bind (copy_whole cmd src dst e) f) G"
  by (rule locks_bind [OF locks_recording(1)] locks_bind [OF locks_recording(2)]
      locks_bind [OF locks_recording(3)] locks_bind [OF locks_recording(4)] locks_bind [OF locks_recording(5)],
      assumption)+

lemmas locks_wp_recording_last [locks_wp] = locks_recording

lemma locks_dispatch:
  "locks H (afmf_dispatch_pass cmd pipe layout ds os x y z b) (\<lambda>_. H)"
  "locks H (afmf_dispatch cmd pipe layout ds os x y z) (\<lambda>_. H)"
  unfolding afmf_dispatch_def afmf_dispatch_pass_def by (intro locks_wp; simp)+

lemmas locks_wp_dispatch [locks_wp] =
  locks_dispatch locks_wp_neutral [OF locks_dispatch(1)] locks_wp_neutral [OF locks_dispatch(2)]

lemma locks_mark: "locks H (afmf_framegen_profiler_mark cmd slot stage) (\<lambda>_. H)"
  unfolding afmf_framegen_profiler_mark_def Let_def by (intro locks_wp; simp)

lemmas locks_wp_mark [locks_wp] = locks_mark locks_wp_neutral [OF locks_mark]

lemma locks_begin: "locks H (afmf_framegen_profiler_begin cmd slot) (\<lambda>_. H)"
  unfolding afmf_framegen_profiler_begin_def afmf_framegen_profiler_collect_def Let_def by (intro locks_wp; simp)

lemma locks_interpolate: "locks H (afmf_framegen_record_interpolate cmd slot ds v) (\<lambda>_. H)"
  unfolding afmf_framegen_record_interpolate_def Let_def by (intro locks_wp; simp)

lemmas locks_wp_interpolate [locks_wp] = locks_interpolate locks_wp_neutral [OF locks_interpolate]

lemma locks_level: "locks H (record_level cmd slot p k) (\<lambda>_. H)"
  unfolding record_level_def Let_def by (intro locks_wp; simp)

lemma locks_levels: "locks H (record_levels cmd slot p n) (\<lambda>_. H)"
  by (induction n) (simp_all add: locks_return locks_wp_neutral [OF locks_level])

lemmas locks_wp_levels [locks_wp] = locks_wp_neutral [OF locks_levels]

lemma locks_flow: "locks H (afmf_framegen_record_flow cmd slot p levels companion) (\<lambda>_. H)"
  unfolding afmf_framegen_record_flow_def Let_def by (intro locks_wp; simp)

lemmas locks_wp_flow [locks_wp] = locks_flow locks_wp_neutral [OF locks_flow]

lemma locks_execute_flow: "locks H (execute_flow cmd slot p levels companion) (\<lambda>_. H)"
  unfolding execute_flow_def record_secondary_def Let_def by (intro locks_wp; simp)

lemma locks_record_dump: "locks H (record_dump cmd p target) (\<lambda>_. H)"
  unfolding record_dump_def Let_def by (intro locks_wp; simp)

lemmas locks_wp_record_dump [locks_wp] = locks_record_dump

lemma locks_framegen_record: "locks H (afmf_framegen_record cmd slot cur ci target ti) (\<lambda>_. H)"
proof -
  have initialize: "locks H (afmf_framegen_initialize cmd) (\<lambda>_. H)" for H
    unfolding afmf_framegen_initialize_def by (intro locks_wp; simp)
  have ingest: "locks H (record_ingest cmd p cur ci) (\<lambda>_. H)" for H p
    unfolding record_ingest_def Let_def by (intro locks_wp; simp)
  have outp: "locks H (record_output cmd slot p target ti) (\<lambda>_. H)" for H p
    unfolding record_output_def Let_def by (intro locks_wp; simp)
  show ?thesis
    unfolding afmf_framegen_record_def Let_def
    by (intro locks_wp locks_wp_neutral [OF initialize] locks_wp_neutral [OF locks_begin]
        locks_wp_neutral [OF ingest] locks_wp_neutral [OF locks_execute_flow] locks_wp_neutral [OF outp]; simp)
qed

lemma locks_wp_record [locks_wp]:
  "(\<And>a. locks H (f a) G) \<Longrightarrow>
     locks H (State_Monad.bind (with_fg (afmf_framegen_record cmd slot cur ci target ti)) f) G"
  by (rule locks_bind [OF locks_with_fg [OF locks_framegen_record]])

lemma locks_record_framegen: "locks H (record_framegen fg cmd slot i generate j) (\<lambda>_. H)"
  unfolding record_framegen_def Let_def by (intro locks_wp; simp)

lemma locks_record_copies:
  "locks H (record_companion_copy cmd j) (\<lambda>_. H)" "locks H (record_history_copy cmd i) (\<lambda>_. H)"
  unfolding record_companion_copy_def record_history_copy_def by (intro locks_wp; simp)+

lemmas locks_wp_parts [locks_wp] = locks_wp_neutral [OF locks_record_framegen]
  locks_wp_neutral [OF locks_record_copies(1)] locks_wp_neutral [OF locks_record_copies(2)]

lemma locks_record_frame: "locks H (afmf_sc_record_frame cmd slot i generate j) (\<lambda>_. H)"
  unfolding afmf_sc_record_frame_def by (intro locks_wp; simp)

lemmas locks_wp_record_frame [locks_wp] = locks_wp_neutral [OF locks_record_frame]

end
