(* ===== verification/Present_Chain.thy ===== *)
theory Present_Chain
  imports Ring Cadence
begin

text \<open>
  What the application's present chain carries, its acquires and its image queries
  (src/src/swapchain_present_chain.c), with the present mode rewrite the inline path shares
  (src/src/swapchain.c). The headers are taken to have \<open>VK_KHR_present_id2\<close> and
  \<open>VK_EXT_present_timing\<close>.
\<close>

section \<open>The chain into the job\<close>

definition first_nonzero :: "u64 option \<Rightarrow> u64 option" where
  "first_nonzero ids = (case ids of Some v \<Rightarrow> if v \<noteq> 0 then Some v else None | None \<Rightarrow> None)"

definition needs_mailbox :: "afmf_swapchain \<Rightarrow> present_mode \<Rightarrow> bool" where
  "needs_mailbox sc m \<longleftrightarrow> \<not> m \<in> set (sc_allowed_modes sc) \<or> m = PRESENT_MODE_FIFO \<or> m = PRESENT_MODE_FIFO_RELAXED"

fun afmf_sc_job_from_chain ::
  "afmf_swapchain \<Rightarrow> present_node list \<Rightarrow> afmf_present_job \<Rightarrow> bool \<times> afmf_present_job" where
  "afmf_sc_job_from_chain sc [] job = (True, job)"
| "afmf_sc_job_from_chain sc (PresentId ids # rest) job =
     afmf_sc_job_from_chain sc rest
       (case first_nonzero ids of
          Some v \<Rightarrow> job\<lparr>job_have_present_id := True, job_present_id := v\<rparr>
        | None \<Rightarrow> job)"
| "afmf_sc_job_from_chain sc (PresentId2 ids # rest) job =
     afmf_sc_job_from_chain sc rest
       (case first_nonzero ids of
          Some v \<Rightarrow> job\<lparr>job_have_present_id := True, job_present_id_v2 := True, job_present_id := v\<rparr>
        | None \<Rightarrow> job)"
| "afmf_sc_job_from_chain sc (PresentModeInfo n modes # rest) job =
     afmf_sc_job_from_chain sc rest
       (case modes of
          Some m \<Rightarrow>
            if n < 1 then job
            else job\<lparr>job_have_present_mode := True,
                     job_present_mode := (if sc_fifo_to_mailbox sc \<and> needs_mailbox sc m
                                          then PRESENT_MODE_MAILBOX else m)\<rparr>
        | None \<Rightarrow> job)"
| "afmf_sc_job_from_chain sc (PresentFenceInfo fences # rest) job =
     afmf_sc_job_from_chain sc rest
       (case fences of Some f \<Rightarrow> job\<lparr>job_present_fence := f\<rparr> | None \<Rightarrow> job)"
| "afmf_sc_job_from_chain sc (PresentTimings n infos # rest) job =
     afmf_sc_job_from_chain sc rest
       (case infos of
          Some t \<Rightarrow> if n \<ge> 1 then job\<lparr>job_timing := t, job_have_timing := True\<rparr> else job
        | None \<Rightarrow> job)"
| "afmf_sc_job_from_chain sc (PresentRegions # rest) job = afmf_sc_job_from_chain sc rest job"
| "afmf_sc_job_from_chain sc (OtherPresentNode t # rest) job = (False, job)"

text \<open>The inline path's rewrite of the mode when it heads the chain.\<close>

definition inline_chain :: "afmf_swapchain \<Rightarrow> present_node list \<Rightarrow> present_node list" where
  "inline_chain sc chain =
     (case chain of
        PresentModeInfo n (Some m) # rest \<Rightarrow>
          if sc_fifo_to_mailbox sc \<and> n \<ge> 1 \<and> needs_mailbox sc m
          then PresentModeInfo 1 (Some PRESENT_MODE_MAILBOX) # rest else chain
      | _ \<Rightarrow> chain)"

section \<open>The application's acquire\<close>

definition acquire_try :: "bool \<Rightarrow> bool \<Rightarrow> handle \<Rightarrow> u64 \<Rightarrow> handle \<Rightarrow> handle \<Rightarrow> ('w sys, vk_result \<times> nat) state" where
  "acquire_try ours v2 swapchain timeout semaphore fence = do {
     whenb ours wsi_take;
     out \<leftarrow> vk_full ((if v2 then AcquireNextImage2 else AcquireNextImage) swapchain timeout semaphore fence);
     whenb ours wsi_give;
     return out
   }"

definition acquire_slice :: "bool \<Rightarrow> u64 \<Rightarrow> u64" where
  "acquire_slice ours left = (if ours \<and> left > AFMF_ACQUIRE_SLICE_NS then AFMF_ACQUIRE_SLICE_NS else left)"

text \<open>
  The \<open>for (;;)\<close>: with an infinite timeout it ends only when the driver answers, so its value is an
  option, \<open>None\<close> for a loop that never returns.
\<close>

partial_function (option) acquire_loop ::
  "bool \<Rightarrow> bool \<Rightarrow> handle \<Rightarrow> handle \<Rightarrow> handle \<Rightarrow> u64 \<Rightarrow> 'w sys \<Rightarrow> ((vk_result \<times> nat) \<times> 'w sys) option"
where
  "acquire_loop ours v2 swapchain semaphore fence left s =
     (let slice_ns = acquire_slice ours left;
          done = run_state (acquire_try ours v2 swapchain slice_ns semaphore fence) s;
          res = fst (fst done);
          left' = (if left \<noteq> UINT64_MAX then left - slice_ns else left)
      in if \<not> ours \<or> (res \<noteq> VK_TIMEOUT \<and> res \<noteq> VK_NOT_READY) then Some done
         else if left' = 0 then Some done
         else acquire_loop ours v2 swapchain semaphore fence left' (snd done))"

definition find_swapchain :: "handle \<Rightarrow> ('w sys, afmf_swapchain option) state" where
  "find_swapchain handle = do {
     lock_mutex DevLock;
     scs \<leftarrow> gets sys_swapchains;
     unlock_mutex DevLock;
     return (find_locked scs handle)
   }"

definition is_ours :: "afmf_swapchain option \<Rightarrow> bool" where
  "is_ours sc \<longleftrightarrow> (case sc of Some sc \<Rightarrow> sc_gen_enabled sc | None \<Rightarrow> False)"

definition afmf_swapchain_acquire ::
  "bool \<Rightarrow> handle \<Rightarrow> u64 \<Rightarrow> handle \<Rightarrow> handle \<Rightarrow> 'w sys \<Rightarrow> ((vk_result \<times> nat) \<times> 'w sys) option" where
  "afmf_swapchain_acquire v2 swapchain timeout semaphore fence s =
     (case run_state (find_swapchain swapchain) s of
        (sc, s') \<Rightarrow> acquire_loop (is_ours sc) v2 swapchain semaphore fence timeout s')"

definition afmf_swapchain_get_images :: "handle \<Rightarrow> ('w sys, vk_result \<times> nat) state" where
  "afmf_swapchain_get_images swapchain = do {
     sc \<leftarrow> find_swapchain swapchain;
     whenb (is_ours sc) wsi_take;
     out \<leftarrow> vk_full (GetSwapchainImages swapchain);
     whenb (is_ours sc) wsi_give;
     return out
   }"

section \<open>What the job carries\<close>

fun carried :: "present_node \<Rightarrow> bool" where
  "carried (OtherPresentNode t) = False"
| "carried n = True"

lemma job_from_chain_ok: "fst (afmf_sc_job_from_chain sc chain job) \<longleftrightarrow> list_all carried chain"
  by (induction sc chain job rule: afmf_sc_job_from_chain.induct) auto

lemma job_from_chain_keeps:
  "job_real_image (snd (afmf_sc_job_from_chain sc chain job)) = job_real_image job
   \<and> job_ordinal (snd (afmf_sc_job_from_chain sc chain job)) = job_ordinal job
   \<and> job_generate (snd (afmf_sc_job_from_chain sc chain job)) = job_generate job"
  by (induction sc chain job rule: afmf_sc_job_from_chain.induct) (auto split: option.split)

lemma job_from_chain_mode:
  assumes "sc_fifo_to_mailbox sc"
    and "job_have_present_mode job \<longrightarrow>
           job_present_mode job = PRESENT_MODE_MAILBOX \<or> \<not> needs_mailbox sc (job_present_mode job)"
  shows "job_have_present_mode (snd (afmf_sc_job_from_chain sc chain job)) \<longrightarrow>
           job_present_mode (snd (afmf_sc_job_from_chain sc chain job)) = PRESENT_MODE_MAILBOX
           \<or> \<not> needs_mailbox sc (job_present_mode (snd (afmf_sc_job_from_chain sc chain job)))"
  using assms
proof (induction sc chain job rule: afmf_sc_job_from_chain.induct)
  case (4 sc n modes rest job)
  then show ?case by (cases modes) auto
qed (auto split: option.splits)

lemma inline_chain_mode:
  "sc_fifo_to_mailbox sc \<Longrightarrow> inline_chain sc chain = PresentModeInfo n (Some m) # rest \<Longrightarrow> 1 \<le> n \<Longrightarrow>
     m = PRESENT_MODE_MAILBOX \<or> \<not> needs_mailbox sc m"
  by (auto simp: inline_chain_def split: list.splits present_node.splits option.splits if_splits)

text \<open>
  C33: A swapchain moved to MAILBOX never goes back. For a chain the presentation thread takes over,
  the present mode the job carries is MAILBOX or one the swapchain allows, and neither FIFO nor
  relaxed FIFO; the same holds for the mode at the head of a chain presented inline. A chain is
  taken over exactly when it holds no structure the layer does not know, and the image and the
  number of the frame stay.
\<close>
theorem job_from_chain_correct:
  assumes run: "afmf_sc_job_from_chain sc chain (job_init i ordinal) = (ok, job)"
  shows "ok = list_all carried chain \<and> job_real_image job = i \<and> job_ordinal job = ordinal
    \<and> \<not> job_generate job
    \<and> (sc_fifo_to_mailbox sc \<and> job_have_present_mode job \<longrightarrow>
         job_present_mode job = PRESENT_MODE_MAILBOX \<or> \<not> needs_mailbox sc (job_present_mode job))
    \<and> (\<forall>n m rest. sc_fifo_to_mailbox sc \<and> 1 \<le> n \<and> inline_chain sc chain = PresentModeInfo n (Some m) # rest
         \<longrightarrow> m = PRESENT_MODE_MAILBOX \<or> \<not> needs_mailbox sc m)"
  using job_from_chain_mode [of sc "job_init i ordinal" chain] inline_chain_mode [of sc chain]
    job_from_chain_ok [of sc chain "job_init i ordinal"]
    job_from_chain_keeps [of sc chain "job_init i ordinal"] run
  by (simp add: job_init_def)

theorem job_from_chain_witness:
  "let sc = sc_zero\<lparr>sc_fifo_to_mailbox := True, sc_allowed_modes := [1, 0]\<rparr>;
       job = snd (afmf_sc_job_from_chain sc [PresentId (Some 7), PresentModeInfo 1 (Some 2)] (job_init 3 4))
   in job_present_mode job = PRESENT_MODE_MAILBOX \<and> job_present_id job = 7 \<and> job_real_image job = 3"
proof -
  let ?sc = "sc_zero\<lparr>sc_fifo_to_mailbox := True, sc_allowed_modes := [1, 0]\<rparr>"
  obtain ok job where
    run: "afmf_sc_job_from_chain ?sc [PresentId (Some 7), PresentModeInfo 1 (Some 2)] (job_init 3 4) = (ok, job)"
    by fastforce
  then have "job_present_mode job = PRESENT_MODE_MAILBOX \<and> job_present_id job = 7"
    by (auto simp: first_nonzero_def needs_mailbox_def job_init_def)
  moreover have "snd (afmf_sc_job_from_chain ?sc [PresentId (Some 7), PresentModeInfo 1 (Some 2)] (job_init 3 4)) = job"
    unfolding run by simp
  moreover have "job_real_image job = 3"
    using job_from_chain_correct [OF run] by simp
  ultimately show ?thesis unfolding Let_def by metis
qed

section \<open>The waits of an acquire\<close>

lemma acquire_try_run:
  assumes "run_state (acquire_try ours v2 h t sem fence) s = (r, s')"
  shows "\<exists>tr. eff_trace s' = eff_trace s @ tr \<and> acquire_waits tr = [unat t] \<and> lock_run [] tr = Some []"
  using assms by (auto simp: acquire_try_def run_effects split: if_splits prod.splits)

lemma acquire_slice_le: "acquire_slice ours left \<le> left"
  by (auto simp: acquire_slice_def dest: less_imp_le)

lemma acquire_loop_bounded:
  assumes "left \<noteq> UINT64_MAX"
  shows "\<exists>r s'. acquire_loop ours v2 h sem fence left s = Some (r, s')
    \<and> (\<exists>tr. eff_trace s' = eff_trace s @ tr \<and> lock_run [] tr = Some []
         \<and> sum_list (acquire_waits tr) \<le> unat left
         \<and> (fst r = VK_TIMEOUT \<or> fst r = VK_NOT_READY \<longrightarrow> sum_list (acquire_waits tr) = unat left)
         \<and> (ours \<longrightarrow> (\<forall>t \<in> set (acquire_waits tr). t \<le> 1000000))
         \<and> (\<not> ours \<longrightarrow> acquire_waits tr = [unat left]))"
  using assms
proof (induction "unat left" arbitrary: left s rule: less_induct)
  case less
  let ?slice = "acquire_slice ours left"
  obtain r s1 where t: "run_state (acquire_try ours v2 h ?slice sem fence) s = (r, s1)" by fastforce
  obtain tr where tr: "eff_trace s1 = eff_trace s @ tr" "acquire_waits tr = [unat ?slice]" "lock_run [] tr = Some []"
    using acquire_try_run [OF t] by blast
  have le: "unat ?slice \<le> unat left" and small: "ours \<longrightarrow> unat ?slice \<le> 1000000" and whole: "\<not> ours \<longrightarrow> ?slice = left"
    using acquire_slice_le [of ours left] by (auto simp: acquire_slice_def word_le_nat_alt not_less)
  have sub: "unat (left - ?slice) = unat left - unat ?slice"
    using acquire_slice_le [of ours left] by (simp add: unat_sub)
  note loop = acquire_loop.simps [of ours v2 h sem fence left s]
  show ?case
  proof (cases "(\<not> ours \<or> (fst r \<noteq> VK_TIMEOUT \<and> fst r \<noteq> VK_NOT_READY)) \<or> left - ?slice = 0")
    case True
    then have "acquire_loop ours v2 h sem fence left s = Some (r, s1)"
      unfolding loop Let_def t fst_conv snd_conv using less.prems by auto
    moreover have "fst r = VK_TIMEOUT \<or> fst r = VK_NOT_READY \<longrightarrow> unat ?slice = unat left"
      using True whole by (cases ours) auto
    ultimately show ?thesis using tr le small whole by auto
  next
    case False
    then have step: "acquire_loop ours v2 h sem fence left s = acquire_loop ours v2 h sem fence (left - ?slice) s1"
      unfolding loop Let_def t fst_conv snd_conv using less.prems by auto
    from False have "?slice \<noteq> 0" "ours" by (auto simp: acquire_slice_def split: if_splits)
    then have smaller: "unat (left - ?slice) < unat left"
      by (intro word_sub_less acquire_slice_le)
    then have "left - ?slice \<noteq> UINT64_MAX"
      by (metis less.prems linorder_not_less word_le_nat_alt word_order.extremum)
    from less.hyps [OF smaller this, of s1] obtain r' s' tr' where
      IH: "acquire_loop ours v2 h sem fence (left - ?slice) s1 = Some (r', s')"
        "eff_trace s' = eff_trace s1 @ tr'" "lock_run [] tr' = Some []"
        "sum_list (acquire_waits tr') \<le> unat (left - ?slice)"
        "fst r' = VK_TIMEOUT \<or> fst r' = VK_NOT_READY \<longrightarrow> sum_list (acquire_waits tr') = unat (left - ?slice)"
        "\<forall>t \<in> set (acquire_waits tr'). t \<le> 1000000"
      using \<open>ours\<close> by blast
    then show ?thesis
      using step tr small le sub \<open>ours\<close> by (intro exI [of _ r'] exI [of _ s'] conjI exI [of _ "tr @ tr'"]) (auto simp: lock_run_append)
  qed
qed

text \<open>
  C15: The application's acquire returns, for every finite timeout and however the driver answers.
  The driver waits at most the application's timeout in total; on a swapchain of the layer no
  single wait under the swapchain lock is longer than a millisecond, and a timeout comes back only
  when the whole of the application's was spent; on any other swapchain there is one call, with
  the application's timeout. No lock stays held.
\<close>
theorem acquire_bounded:
  assumes "timeout \<noteq> UINT64_MAX"
  shows "\<exists>r s'. afmf_swapchain_acquire v2 h timeout sem fence s = Some (r, s')
    \<and> (\<exists>tr. eff_trace s' = eff_trace s @ tr \<and> lock_run [] tr = Some []
         \<and> sum_list (acquire_waits tr) \<le> unat timeout
         \<and> (fst r = VK_TIMEOUT \<or> fst r = VK_NOT_READY \<longrightarrow> sum_list (acquire_waits tr) = unat timeout)
         \<and> (if is_ours (find_locked (sys_swapchains s) h)
            then \<forall>t \<in> set (acquire_waits tr). t \<le> 1000000
            else acquire_waits tr = [unat timeout]))"
proof -
  let ?ours = "is_ours (find_locked (sys_swapchains s) h)"
  let ?s = "s\<lparr>eff_trace := eff_trace s @ [Locked DevLock, Unlocked DevLock]\<rparr>"
  obtain r s' tr where *: "acquire_loop ?ours v2 h sem fence timeout ?s = Some (r, s')"
      "eff_trace s' = eff_trace ?s @ tr" "lock_run [] tr = Some []"
      "sum_list (acquire_waits tr) \<le> unat timeout"
      "fst r = VK_TIMEOUT \<or> fst r = VK_NOT_READY \<longrightarrow> sum_list (acquire_waits tr) = unat timeout"
      "?ours \<longrightarrow> (\<forall>t \<in> set (acquire_waits tr). t \<le> 1000000)" "\<not> ?ours \<longrightarrow> acquire_waits tr = [unat timeout]"
    using acquire_loop_bounded [OF assms, of ?ours v2 h sem fence ?s] by blast
  then have "afmf_swapchain_acquire v2 h timeout sem fence s = Some (r, s')"
    by (simp add: afmf_swapchain_acquire_def find_swapchain_def)
  then show ?thesis
    using * by (intro exI [of _ r] exI [of _ s'] conjI exI [of _ "[Locked DevLock, Unlocked DevLock] @ tr"]) auto
qed

theorem acquire_bounded_witness:
  "\<exists>r s'. afmf_swapchain_acquire False 9 3000000 5 6
     (sample_sys sc_zero\<lparr>eff_driver := (\<lambda>c w. ((VK_NOT_READY, 0), w)),
                         sys_swapchains := [sc_zero\<lparr>sc_handle := 9, sc_gen_enabled := True\<rparr>]\<rparr>) = Some (r, s')"
  using acquire_bounded [of 3000000 False 9 5 6] by (simp add: unsigned_minus_1_eq_mask) blast

end
