(* ===== verification/Worker.thy ===== *)
theory Worker
  imports Record_Frame Present_Chain
begin

text \<open>
  The work thread (src/src/swapchain_worker.c): \<open>afmf_sc_frame_generate\<close>, which the inline path calls
  too, cut into its segments, and one turn of \<open>afmf_sc_worker_main\<close> between its waits: taking a
  frame off the ring, the frame's work with the pass-on submission when it fails, handing both
  presents to the presentation thread, and dropping the frame from the ring.
\<close>

section \<open>The frame's work\<close>

definition upd_slot :: "nat \<Rightarrow> (afmf_slot \<Rightarrow> afmf_slot) \<Rightarrow> afmf_swapchain \<Rightarrow> afmf_swapchain" where
  "upd_slot i f sc = sc\<lparr>sc_slots := (sc_slots sc)[i := f (sc_slots sc ! i)]\<rparr>"

definition frame_wait_slot :: "nat \<Rightarrow> ('w sys, unit) state" where
  "frame_wait_slot slot_index = do {
     slot \<leftarrow> sc_gets (\<lambda>sc. sc_slots sc ! slot_index);
     whenb (slot_pending slot) (do {
       _ \<leftarrow> vk (WaitForFences (slot_fence slot) UINT64_MAX);
       _ \<leftarrow> vk (ResetFences (slot_fence slot));
       sc_modify (upd_slot slot_index (\<lambda>slot. slot\<lparr>slot_pending := False\<rparr>))
     })
   }"

text \<open>The governor, the history and the spare: whether there is a companion, and its image.\<close>

definition frame_companion :: "nat \<Rightarrow> ('w sys, bool \<times> nat) state" where
  "frame_companion ordinal = do {
     lock_mutex JobLock;
     delay \<leftarrow> sc_gets sc_last_delay_ms;
     allowed \<leftarrow> governor_allows delay ordinal;
     have_history \<leftarrow> sc_gets sc_have_history;
     whenb (\<not> have_history) (sc_modify (\<lambda>sc. sc\<lparr>sc_skipped_no_history := sc_skipped_no_history sc + 1\<rparr>));
     unlock_mutex JobLock;
     if have_history \<and> allowed then do {
       taken \<leftarrow> afmf_sc_spare_take;
       (case taken of
          Some j \<Rightarrow> return (True, j)
        | None \<Rightarrow> do {
            lock_mutex JobLock;
            sc_modify (\<lambda>sc. sc\<lparr>sc_skipped_no_image := sc_skipped_no_image sc + 1\<rparr>);
            unlock_mutex JobLock;
            return (False, 0)
          })
     } else return (False, 0)
   }"

definition frame_submit ::
  "handle \<Rightarrow> nat \<Rightarrow> handle list \<Rightarrow> bool \<Rightarrow> nat \<Rightarrow> bool \<Rightarrow> nat \<Rightarrow> ('w sys, vk_result) state" where
  "frame_submit queue slot_index waits threaded i generate j = do {
     sc \<leftarrow> sc_gets id;
     let slot = sc_slots sc ! slot_index;
     let submit = \<lparr>si_waits = waits, si_cmds = [slot_cmd slot],
                   si_signals = sc_sem_real sc ! i # (if generate then [sc_sem_generated sc ! j] else [])\<rparr>;
     whenb (\<not> threaded) wsi_take;
     whenb (sc_async sc) (lock_mutex AsyncLock);
     res \<leftarrow> vk (QueueSubmit queue submit (slot_fence slot));
     whenb (sc_async sc \<and> (res \<noteq> VK_SUCCESS \<or> threaded)) (unlock_mutex AsyncLock);
     whenb (\<not> threaded \<and> res \<noteq> VK_SUCCESS) wsi_give;
     return res
   }"

definition frame_account :: "timespec \<Rightarrow> timespec \<Rightarrow> timespec \<Rightarrow> timespec \<Rightarrow> timespec \<Rightarrow> vk_result \<Rightarrow> bool
    \<Rightarrow> afmf_swapchain \<Rightarrow> afmf_swapchain" where
  "frame_account t_start t_fence t_acquire t_record t_submit res generate sc =
     (let sc = sc\<lparr>sc_fence_ms := sc_fence_ms sc + elapsed_ms t_start t_fence,
                  sc_acquire_ms := sc_acquire_ms sc + elapsed_ms t_fence t_acquire,
                  sc_record_ms := sc_record_ms sc + elapsed_ms t_acquire t_record,
                  sc_submit_ms := sc_submit_ms sc + elapsed_ms t_record t_submit\<rparr>
      in if res = VK_SUCCESS
         then sc\<lparr>sc_have_history := True, sc_generated := sc_generated sc + (if generate then 1 else 0)\<rparr>
         else sc)"

text \<open>Half a frame, clamped; \<open>half_ms\<close> is never negative, and the cast truncates.\<close>

definition pacing_hold :: "real \<Rightarrow> nat" where
  "pacing_hold half_ms =
     (let hold = nat \<lfloor>half_ms * 1000000\<rfloor>
      in if hold < AFMF_PACING_MIN_NS then AFMF_PACING_MIN_NS
         else if hold > AFMF_PACING_MAX_NS then AFMF_PACING_MAX_NS else hold)"

text \<open>The debug dump of a generated frame and the pacing, once the frame is submitted.\<close>

definition frame_dump :: "nat \<Rightarrow> bool \<Rightarrow> afmf_present_job \<Rightarrow> ('w sys, afmf_present_job) state" where
  "frame_dump slot_index generate job = do {
     with_fg afmf_framegen_dump_arm;
     sc \<leftarrow> sc_gets id;
     if generate \<and> (case sc_fg sc of Some fg \<Rightarrow> afmf_framegen_dump_recorded fg | None \<Rightarrow> False) then do {
       _ \<leftarrow> vk (WaitForFences (slot_fence (sc_slots sc ! slot_index)) UINT64_MAX);
       sc_modify (\<lambda>sc. sc\<lparr>sc_fg := map_option afmf_framegen_dump_write (sc_fg sc)\<rparr>);
       now \<leftarrow> clock_checked;
       return (case now of Some t \<Rightarrow> job\<lparr>job_arrival := t\<rparr> | None \<Rightarrow> job)
     } else return job
   }"

definition frame_pacing :: "bool \<Rightarrow> bool \<Rightarrow> afmf_present_job \<Rightarrow> ('w sys, afmf_present_job) state" where
  "frame_pacing generate threaded job = do {
     pacing \<leftarrow> cfg_gets cfg_pacing;
     if generate \<and> threaded \<and> pacing then do {
       lock_mutex JobLock;
       half_ms \<leftarrow> sc_gets (\<lambda>sc. sc_frame_ms_ema sc / 2);
       unlock_mutex JobLock;
       return (job\<lparr>job_hold_ns := pacing_hold half_ms\<rparr>)
     } else return job
   }"

definition frame_finish :: "nat \<Rightarrow> bool \<Rightarrow> bool \<Rightarrow> nat \<Rightarrow> afmf_present_job \<Rightarrow> ('w sys, afmf_present_job) state" where
  "frame_finish slot_index threaded generate j job = do {
     sc_modify (upd_slot slot_index (\<lambda>slot. slot\<lparr>slot_pending := True\<rparr>));
     fence \<leftarrow> sc_gets (\<lambda>sc. slot_fence (sc_slots sc ! slot_index));
     job \<leftarrow> frame_dump slot_index generate
              (job\<lparr>job_generate := generate, job_companion_image := j, job_done := fence\<rparr>);
     frame_pacing generate threaded job
   }"

definition afmf_sc_frame_generate ::
  "handle \<Rightarrow> nat \<Rightarrow> handle list \<Rightarrow> bool \<Rightarrow> afmf_present_job \<Rightarrow> ('w sys, vk_result \<times> afmf_present_job) state" where
  "afmf_sc_frame_generate queue slot_index waits threaded job = do {
     t_start \<leftarrow> clock_gettime;
     frame_wait_slot slot_index;
     t_fence \<leftarrow> clock_gettime;
     (generate, j) \<leftarrow> frame_companion (job_ordinal job);
     t_acquire \<leftarrow> clock_gettime;
     cmd \<leftarrow> sc_gets (\<lambda>sc. slot_cmd (sc_slots sc ! slot_index));
     res0 \<leftarrow> afmf_sc_record_frame cmd slot_index (job_real_image job) generate j;
     t_record \<leftarrow> clock_gettime;
     res \<leftarrow> (if res0 = VK_SUCCESS
             then frame_submit queue slot_index waits threaded (job_real_image job) generate j
             else return res0);
     t_submit \<leftarrow> clock_gettime;
     lock_mutex JobLock;
     sc_modify (frame_account t_start t_fence t_acquire t_record t_submit res generate);
     unlock_mutex JobLock;
     if res \<noteq> VK_SUCCESS then return (res, job)
     else do {
       job \<leftarrow> frame_finish slot_index threaded generate j job;
       return (VK_SUCCESS, job)
     }
   }"

section \<open>The thread\<close>

text \<open>The frame at the head, its work, and the job to hand on: \<open>work.present\<close> afterwards.\<close>

definition worker_take :: "('w sys, afmf_frame_job) state" where
  "worker_take = do {
     work \<leftarrow> sc_gets work_front;
     sc_modify (\<lambda>sc. sc\<lparr>sc_worker_busy := True\<rparr>);
     return work
   }"

definition worker_frame :: "afmf_frame_job \<Rightarrow> ('w sys, afmf_present_job) state" where
  "worker_frame work = do {
     queue \<leftarrow> dev_gets dev_async_queue;
     app \<leftarrow> sc_gets (\<lambda>sc. sc_sem_app sc ! frame_slot work);
     (res, job) \<leftarrow> afmf_sc_frame_generate queue (frame_slot work) [app] True (frame_present work);
     if res \<noteq> VK_SUCCESS then do {
       real' \<leftarrow> sc_gets (\<lambda>sc. sc_sem_real sc ! job_real_image job);
       lock_mutex AsyncLock;
       passed \<leftarrow> vk (QueueSubmit queue \<lparr>si_waits = [app], si_cmds = [], si_signals = [real']\<rparr> VK_NULL_HANDLE);
       unlock_mutex AsyncLock;
       lock_mutex JobLock;
       sc_modify (\<lambda>sc. sc\<lparr>sc_deferred_result := (if sc_deferred_result sc \<ge> 0 then res else sc_deferred_result sc),
                          sc_worker_failed := True\<rparr>);
       unlock_mutex JobLock;
       return (job\<lparr>job_generate := False, job_real_unwaited := (passed \<noteq> VK_SUCCESS)\<rparr>)
     } else return job
   }"

definition worker_hand :: "afmf_present_job \<Rightarrow> ('w sys, unit) state" where
  "worker_hand job = sc_modify (jobs_push job)"

definition worker_drop :: "('w sys, unit) state" where
  "worker_drop = sc_modify (\<lambda>sc. (work_pop sc)\<lparr>sc_worker_busy := False\<rparr>)"

section \<open>The pacing hold\<close>

lemma pacing_hold_bounds: "500000 \<le> pacing_hold h \<and> pacing_hold h \<le> 40000000"
  by (simp add: pacing_hold_def Let_def)

section \<open>Locks\<close>

lemma locks_governor: "locks H (governor_allows d n) (\<lambda>_. H)"
  unfolding governor_allows_def by (intro locks_wp; simp)

lemmas locks_wp_governor [locks_wp] = locks_wp_neutral [OF locks_governor]

lemma locks_wait_slot: "locks H (frame_wait_slot i) (\<lambda>_. H)"
  unfolding frame_wait_slot_def by (intro locks_wp; simp)

lemmas locks_wp_wait_slot [locks_wp] = locks_wp_neutral [OF locks_wait_slot]

lemma locks_spare_take: "locks [] afmf_sc_spare_take (\<lambda>_. [])"
  unfolding afmf_sc_spare_take_def by (intro locks_wp locks_bind [OF locks_spare_loop]; simp)

lemma locks_companion: "locks [] (frame_companion n) (\<lambda>_. [])"
  unfolding frame_companion_def by (intro locks_wp locks_wp_at [OF locks_spare_take]; simp)

lemma locks_submit_threaded: "locks [] (frame_submit queue k waits True i generate j) (\<lambda>_. [])"
  unfolding frame_submit_def Let_def by (intro locks_wp; simp)

lemma locks_dump_arm: "locks H afmf_framegen_dump_arm (\<lambda>_. H)"
  unfolding afmf_framegen_dump_arm_def by (intro locks_wp; simp)

lemma locks_wp_dump_arm [locks_wp]:
  "(\<And>a. locks H (f a) G) \<Longrightarrow> locks H (State_Monad.bind (with_fg afmf_framegen_dump_arm) f) G"
  by (rule locks_bind [OF locks_with_fg [OF locks_dump_arm]])

lemma locks_frame_dump: "locks H (frame_dump i g job) (\<lambda>_. H)"
  unfolding frame_dump_def by (intro locks_wp; simp)

lemma locks_frame_pacing: "locks [] (frame_pacing g t job) (\<lambda>_. [])"
  unfolding frame_pacing_def by (intro locks_wp; simp)

lemma locks_frame_finish: "locks [] (frame_finish i t g j job) (\<lambda>_. [])"
  unfolding frame_finish_def by (intro locks_wp locks_wp_at [OF locks_frame_dump] locks_wp_at_last [OF locks_frame_pacing]; simp)

lemma locks_generate_threaded: "locks [] (afmf_sc_frame_generate queue k waits True job) (\<lambda>_. [])"
  unfolding afmf_sc_frame_generate_def
  by (intro locks_wp locks_wp_at [OF locks_companion] locks_wp_at [OF locks_submit_threaded]
      locks_wp_at [OF locks_frame_finish]; simp)

section \<open>What a frame's work leaves alone and what it submits\<close>

lemma frames_with_fg: "frames sc_fixed (with_fg m)"
  by (simp add: frames_def with_fg_def sc_fixed_def Let_def split: option.split)

lemma frames_recording: "frames sc_fixed (image_barrier cmd img from to sa da ss ds)" "frames sc_fixed (copy_whole cmd src dst e)"
  by (simp_all add: image_barrier_def copy_whole_def frames_intros)

lemma frames_record_frame: "frames sc_fixed (afmf_sc_record_frame cmd slot i generate j)"
  unfolding afmf_sc_record_frame_def record_framegen_def record_companion_copy_def record_history_copy_def Let_def
  by (intro frames_rules frames_with_fg frames_recording; simp add: sc_fixed_def)

lemma upd_slot_fixed:
  assumes "\<And>x. slot_fence (f x) = slot_fence x" "\<And>x. slot_cmd (f x) = slot_cmd x"
  shows "sc_fixed (upd_slot k f sc) = sc_fixed sc"
proof -
  have "map slot_fence ((sc_slots sc)[k := f (sc_slots sc ! k)]) = map slot_fence (sc_slots sc)"
    "map slot_cmd ((sc_slots sc)[k := f (sc_slots sc ! k)]) = map slot_cmd (sc_slots sc)"
    by (simp_all add: map_update assms map_update_same)
  then show ?thesis by (simp add: sc_fixed_def upd_slot_def)
qed

lemma frames_wait_slot: "frames sc_fixed (frame_wait_slot k)"
  unfolding frame_wait_slot_def by (intro frames_rules; simp add: upd_slot_fixed)

lemma frames_companion: "frames sc_fixed (frame_companion n)"
  unfolding frame_companion_def
  by (intro frames_rules frames_governor frames_spare_take; simp add: sc_fixed_def)

lemma frames_submit: "frames sc_fixed (frame_submit queue k waits threaded i generate j)"
  unfolding frame_submit_def Let_def by (intro frames_rules)

lemma frames_frame_finish: "frames sc_fixed (frame_finish k threaded generate j job)"
  unfolding frame_finish_def frame_dump_def frame_pacing_def
  by (intro frames_rules frames_with_fg; simp add: upd_slot_fixed) (simp add: sc_fixed_def)

lemma frames_account: "frames sc_fixed (sc_modify (frame_account a b c d e r g))"
  by (intro frames_rules) (simp add: sc_fixed_def frame_account_def Let_def)

lemma frames_generate: "frames sc_fixed (afmf_sc_frame_generate queue k waits threaded job)"
  unfolding afmf_sc_frame_generate_def
  by (intro frames_rules frames_wait_slot frames_companion frames_record_frame frames_submit frames_account
      frames_frame_finish)

lemma frames_worker: "frames sc_fixed (worker_frame work)"
  unfolding worker_frame_def
  by (intro frames_rules frames_generate; simp add: sc_fixed_def)

text \<open>Everything but the submission of a frame's work is quiet.\<close>

lemma emits_fgs [emits_intros]: "emits P (fg_gets g)" "emits P (fg_modify f)"
  by (simp_all add: emits_def)

lemma emits_with_fg: "emits P m \<Longrightarrow> emits P (with_fg m)"
  unfolding emits_def with_fg_def by (force simp: fgs_of_def Let_def split: option.split dest: spec [of _ "fgs_of s fg" for s fg])

lemma emits_small:
  "emits quiet (afmf_sync cmd)" "emits quiet (afmf_sync_compute cmd)"
  "emits quiet (afmf_framegen_copy_whole cmd src sl dst dl e)"
  "emits quiet (image_barrier cmd img from to sa da ss ds)" "emits quiet (copy_whole cmd src dst e)"
  by (simp_all add: afmf_sync_def afmf_sync_compute_def afmf_framegen_copy_whole_def image_barrier_def
      copy_whole_def emits_emit)

lemma emits_dispatch:
  "emits quiet (afmf_dispatch_pass cmd pipe layout ds os x y z b)"
  "emits quiet (afmf_dispatch cmd pipe layout ds os x y z)"
  unfolding afmf_dispatch_def afmf_dispatch_pass_def by (intro emits_intros emits_small; simp)+

lemma emits_mark: "emits quiet (afmf_framegen_profiler_mark cmd slot stage)"
  unfolding afmf_framegen_profiler_mark_def Let_def by (intro emits_intros; simp)

lemma emits_begin: "emits quiet (afmf_framegen_profiler_begin cmd slot)"
  unfolding afmf_framegen_profiler_begin_def afmf_framegen_profiler_collect_def Let_def
  by (intro emits_intros emits_mark; simp)

lemma emits_interpolate: "emits quiet (afmf_framegen_record_interpolate cmd slot ds v)"
  unfolding afmf_framegen_record_interpolate_def Let_def by (intro emits_intros emits_small emits_dispatch emits_mark; simp)

lemma emits_levels: "emits quiet (record_levels cmd slot p n)"
proof (induction n)
  case (Suc n)
  then show ?case
    unfolding record_levels.simps record_level_def Let_def
    by (intro emits_intros emits_small emits_dispatch emits_mark; simp)
qed (simp add: emits_return)

lemmas emits_parts = emits_small emits_dispatch emits_mark emits_begin emits_interpolate emits_levels

lemma emits_flow: "emits quiet (afmf_framegen_record_flow cmd slot p levels companion)"
  unfolding afmf_framegen_record_flow_def Let_def by (intro emits_intros emits_parts; simp)

lemma emits_framegen_record: "emits quiet (afmf_framegen_record cmd slot cur ci target ti)"
  unfolding afmf_framegen_record_def afmf_framegen_initialize_def record_ingest_def record_output_def
    record_dump_def execute_flow_def record_secondary_def Let_def
  by (intro emits_intros emits_parts emits_flow; simp)

lemma emits_record_frame: "emits quiet (afmf_sc_record_frame cmd slot i generate j)"
  unfolding afmf_sc_record_frame_def record_framegen_def record_companion_copy_def record_history_copy_def Let_def
  by (intro emits_intros emits_with_fg emits_framegen_record emits_small; simp)

lemma emits_wait_slot: "emits quiet (frame_wait_slot k)"
  unfolding frame_wait_slot_def by (intro emits_intros; simp)

lemma emits_companion: "emits quiet (frame_companion n)"
  unfolding frame_companion_def by (intro emits_intros emits_governor emits_spare_take; simp)

lemma emits_frame_finish: "emits quiet (frame_finish k threaded generate j job)"
proof -
  have "emits quiet (with_fg afmf_framegen_dump_arm)"
    unfolding afmf_framegen_dump_arm_def Let_def by (intro emits_with_fg emits_intros; simp)
  then show ?thesis
    unfolding frame_finish_def frame_dump_def frame_pacing_def by (intro emits_intros; simp)
qed

section \<open>The signals of a frame\<close>

text \<open>A job as the frame's work leaves it: the companion, the fence, an arrival and a hold.\<close>

definition finished :: "bool \<Rightarrow> bool \<Rightarrow> nat \<Rightarrow> handle \<Rightarrow> afmf_present_job \<Rightarrow> afmf_present_job \<Rightarrow> bool" where
  "finished generate threaded j fence job job' \<longleftrightarrow>
     (\<exists>t h. job' = job\<lparr>job_generate := generate, job_companion_image := j, job_done := fence,
                      job_arrival := t, job_hold_ns := h\<rparr>
       \<and> (h = job_hold_ns job \<or> generate \<and> threaded \<and> 500000 \<le> h \<and> h \<le> 40000000))"

lemma gives_dump: "gives (\<lambda>job'. \<exists>t. job' = job\<lparr>job_arrival := t\<rparr>) (frame_dump k generate job)"
proof -
  have same: "\<exists>t. job = job\<lparr>job_arrival := t\<rparr>" by (rule exI [of _ "job_arrival job"]) simp
  show ?thesis
    unfolding frame_dump_def
    by (intro gives_bind_any gives_if gives_return) (auto simp: same split: option.split)
qed

lemma gives_pacing:
  "gives (\<lambda>job'. \<exists>h. job' = job\<lparr>job_hold_ns := h\<rparr>
      \<and> (h = job_hold_ns job \<or> generate \<and> threaded \<and> 500000 \<le> h \<and> h \<le> 40000000))
    (frame_pacing generate threaded job)"
proof -
  have same: "\<exists>h. job = job\<lparr>job_hold_ns := h\<rparr> \<and> (h = job_hold_ns job \<or> Q h)" for Q
    by (rule exI [of _ "job_hold_ns job"]) simp
  show ?thesis
    unfolding frame_pacing_def
    by (intro gives_bind_any gives_if gives_return) (auto simp: same pacing_hold_bounds)
qed

lemma finish_job:
  assumes run: "run_state (frame_finish k threaded generate j job) s = (job', s')"
    and k: "k < length (sc_slots (sys_sc s))"
  shows "finished generate threaded j (slot_fence (sc_slots (sys_sc s) ! k)) job job'"
proof -
  let ?fence = "slot_fence (sc_slots (sys_sc s) ! k)"
  let ?job = "job\<lparr>job_generate := generate, job_companion_image := j, job_done := ?fence\<rparr>"
  let ?s = "s\<lparr>sys_sc := upd_slot k (\<lambda>slot. slot\<lparr>slot_pending := True\<rparr>) (sys_sc s)\<rparr>"
  have "run_state (do { job \<leftarrow> frame_dump k generate ?job; frame_pacing generate threaded job }) ?s = (job', s')"
    using run k by (simp add: frame_finish_def upd_slot_def)
  then obtain j1 s1 where d: "run_state (frame_dump k generate ?job) ?s = (j1, s1)"
      and p: "run_state (frame_pacing generate threaded j1) s1 = (job', s')"
    by (rule run_bindE)
  obtain t where t: "j1 = ?job\<lparr>job_arrival := t\<rparr>" using givesD [OF gives_dump d] by blast
  obtain h where "job' = j1\<lparr>job_hold_ns := h\<rparr>"
      "h = job_hold_ns j1 \<or> generate \<and> threaded \<and> 500000 \<le> h \<and> h \<le> 40000000"
    using givesD [OF gives_pacing p] by blast
  then show ?thesis
    unfolding finished_def t by (intro exI [of _ t] exI [of _ h]) simp
qed


text \<open>The submission of a frame: what it waits on, runs and signals.\<close>

definition frame_submission :: "afmf_swapchain \<Rightarrow> nat \<Rightarrow> handle list \<Rightarrow> nat \<Rightarrow> bool \<Rightarrow> nat \<Rightarrow> submit_info \<times> handle" where
  "frame_submission sc k waits i generate j =
     (\<lparr>si_waits = waits, si_cmds = [slot_cmd (sc_slots sc ! k)],
       si_signals = sc_sem_real sc ! i # (if generate then [sc_sem_generated sc ! j] else [])\<rparr>,
      slot_fence (sc_slots sc ! k))"

lemma frame_submission_cong:
  assumes "sc_fixed sc' = sc_fixed sc" and "k < length (sc_slots sc)"
  shows "frame_submission sc' k = frame_submission sc k" and "k < length (sc_slots sc')"
    and "slot_fence (sc_slots sc' ! k) = slot_fence (sc_slots sc ! k)"
proof -
  have f: "map slot_fence (sc_slots sc') = map slot_fence (sc_slots sc)"
    and c: "map slot_cmd (sc_slots sc') = map slot_cmd (sc_slots sc)"
    and r: "sc_sem_real sc' = sc_sem_real sc" "sc_sem_generated sc' = sc_sem_generated sc"
    using assms(1) by (simp_all add: sc_fixed_def)
  show len: "k < length (sc_slots sc')" using f assms(2) by (metis length_map)
  show "slot_fence (sc_slots sc' ! k) = slot_fence (sc_slots sc ! k)" using f len assms(2) by (metis nth_map)
  moreover have "slot_cmd (sc_slots sc' ! k) = slot_cmd (sc_slots sc ! k)" using c len assms(2) by (metis nth_map)
  ultimately show "frame_submission sc' k = frame_submission sc k" by (simp add: frame_submission_def r fun_eq_iff)
qed

lemma submit_run:
  assumes "run_state (frame_submit queue k waits threaded i generate j) s = (res, s')"
  shows "\<exists>tr. eff_trace s' = eff_trace s @ tr \<and> presents tr = []
          \<and> submits tr = (if res = VK_SUCCESS then [frame_submission (sys_sc s) k waits i generate j] else [])"
  using assms
  by (auto simp: frame_submit_def Let_def run_effects frame_submission_def split: prod.splits if_splits)

lemma emits_silent: "emits quiet m \<Longrightarrow> run_state m s = (a, s') \<Longrightarrow>
    \<exists>tr. eff_trace s' = eff_trace s @ tr \<and> submits tr = [] \<and> presents tr = []"
  using emitsD submits_quiet presents_quiet by metis

text \<open>The work up to the submission, and from it on.\<close>

definition frame_prologue where
  "frame_prologue k job = do {
     t_start \<leftarrow> clock_gettime;
     frame_wait_slot k;
     t_fence \<leftarrow> clock_gettime;
     (generate, j) \<leftarrow> frame_companion (job_ordinal job);
     t_acquire \<leftarrow> clock_gettime;
     cmd \<leftarrow> sc_gets (\<lambda>sc. slot_cmd (sc_slots sc ! k));
     res0 \<leftarrow> afmf_sc_record_frame cmd k (job_real_image job) generate j;
     t_record \<leftarrow> clock_gettime;
     return (generate, j, res0, t_start, t_fence, t_acquire, t_record) }"

definition frame_epilogue where
  "frame_epilogue queue k waits threaded job = (\<lambda>(generate, j, res0, t_start, t_fence, t_acquire, t_record). do {
     res \<leftarrow> (if res0 = VK_SUCCESS then frame_submit queue k waits threaded (job_real_image job) generate j else return res0);
     t_submit \<leftarrow> clock_gettime;
     lock_mutex JobLock;
     sc_modify (frame_account t_start t_fence t_acquire t_record t_submit res generate);
     unlock_mutex JobLock;
     if res \<noteq> VK_SUCCESS then return (res, job)
     else do { job \<leftarrow> frame_finish k threaded generate j job; return (VK_SUCCESS, job) } })"

lemma generate_parts:
  "afmf_sc_frame_generate queue k waits threaded job =
     State_Monad.bind (frame_prologue k job) (frame_epilogue queue k waits threaded job)"
  unfolding afmf_sc_frame_generate_def frame_prologue_def frame_epilogue_def
  by (simp only: bind_assoc bind_left_identity split_def fst_conv snd_conv)

lemma frame_prologue_quiet: "emits quiet (frame_prologue k job)" "frames sc_fixed (frame_prologue k job)"
  unfolding frame_prologue_def
  by (intro emits_intros emits_wait_slot emits_companion emits_record_frame)
     (intro frames_rules frames_wait_slot frames_companion frames_record_frame)

lemma frame_epilogue_run:
  assumes run: "run_state (frame_epilogue queue k waits threaded job (generate, j, res0, ts)) s = ((res, job'), s')"
    and k: "k < length (sc_slots (sys_sc s))"
  shows "\<exists>tr. eff_trace s' = eff_trace s @ tr \<and> presents tr = []
    \<and> (if res = VK_SUCCESS
       then submits tr = [frame_submission (sys_sc s) k waits (job_real_image job) generate j]
          \<and> finished generate threaded j (slot_fence (sc_slots (sys_sc s) ! k)) job job'
       else submits tr = [] \<and> job' = job)"
proof -
  obtain t_start t_fence t_acquire t_record where ts: "ts = (t_start, t_fence, t_acquire, t_record)" by (metis surj_pair)
  obtain r s2 where r: "run_state (if res0 = VK_SUCCESS then frame_submit queue k waits threaded (job_real_image job) generate j
        else return res0) s = (r, s2)" by fastforce
  have sub: "\<exists>tr. eff_trace s2 = eff_trace s @ tr \<and> presents tr = []
     \<and> submits tr = (if r = VK_SUCCESS then [frame_submission (sys_sc s) k waits (job_real_image job) generate j] else [])"
    using submit_run [of queue k waits threaded "job_real_image job" generate j s r s2] r by (auto split: if_splits)
  then obtain tr2 where tr2: "eff_trace s2 = eff_trace s @ tr2" "presents tr2 = []"
      "submits tr2 = (if r = VK_SUCCESS then [frame_submission (sys_sc s) k waits (job_real_image job) generate j] else [])"
    by blast
  obtain t_submit s3 where c: "run_state clock_gettime s2 = (t_submit, s3)" by fastforce
  have s3: "eff_trace s3 = eff_trace s2" "sys_sc s3 = sys_sc s2" using c by (auto simp: run_clock split: prod.splits)
  let ?s4 = "s3\<lparr>sys_sc := frame_account t_start t_fence t_acquire t_record t_submit r generate (sys_sc s3),
                eff_trace := eff_trace s3 @ [Locked JobLock, Unlocked JobLock]\<rparr>"
  have "sc_fixed (sys_sc s2) = sc_fixed (sys_sc s)"
    using r frames_run [OF frames_submit] by (auto split: if_splits)
  then have fx4: "sc_fixed (sys_sc ?s4) = sc_fixed (sys_sc s)"
    using s3 by (simp add: frame_account_def Let_def sc_fixed_def)
  show ?thesis
  proof (cases "r = VK_SUCCESS")
    case False
    then have "res = r \<and> job' = job \<and> s' = ?s4" using run unfolding frame_epilogue_def ts by (auto simp: r c)
    then show ?thesis using False tr2 s3
      by (intro exI [of _ "tr2 @ [Locked JobLock, Unlocked JobLock]"]) simp
  next
    case True
    obtain job1 s5 where f: "run_state (frame_finish k threaded generate j job) ?s4 = (job1, s5)" by fastforce
    have out: "res = VK_SUCCESS" "job' = job1" "s' = s5" using run True f unfolding frame_epilogue_def ts by (simp_all add: r c)
    note same4 = frame_submission_cong [OF fx4 k]
    obtain tr3 where "eff_trace s5 = eff_trace ?s4 @ tr3" "submits tr3 = []" "presents tr3 = []"
      using emits_silent [OF emits_frame_finish f] by blast
    moreover have "finished generate threaded j (slot_fence (sc_slots (sys_sc s) ! k)) job job1"
      using finish_job [OF f same4(2)] same4(3) by simp
    ultimately show ?thesis using True tr2 s3 out
      by (intro exI [of _ "tr2 @ [Locked JobLock, Unlocked JobLock] @ tr3"]) simp
  qed
qed

lemma generate_signals:
  assumes run: "run_state (afmf_sc_frame_generate queue k waits threaded job) s = ((res, job'), s')"
    and k: "k < length (sc_slots (sys_sc s))"
  shows "\<exists>tr generate j. eff_trace s' = eff_trace s @ tr \<and> presents tr = []
    \<and> (if res = VK_SUCCESS
       then submits tr = [frame_submission (sys_sc s) k waits (job_real_image job) generate j]
          \<and> finished generate threaded j (slot_fence (sc_slots (sys_sc s) ! k)) job job'
       else submits tr = [] \<and> job' = job)"
proof -
  obtain b s1 where b: "run_state (frame_prologue k job) s = (b, s1)"
      and rest: "run_state (frame_epilogue queue k waits threaded job b) s1 = ((res, job'), s')"
    using run unfolding generate_parts by (rule run_bindE)
  obtain generate j res0 ts where bs: "b = (generate, j, res0, ts)" by (metis surj_pair)
  obtain tr1 where tr1: "eff_trace s1 = eff_trace s @ tr1" "submits tr1 = []" "presents tr1 = []"
    using emits_silent [OF frame_prologue_quiet(1) b] by blast
  note same = frame_submission_cong [OF frames_run [OF frame_prologue_quiet(2) b] k]
  obtain tr2 where tr2: "eff_trace s' = eff_trace s1 @ tr2 \<and> presents tr2 = []
    \<and> (if res = VK_SUCCESS
       then submits tr2 = [frame_submission (sys_sc s1) k waits (job_real_image job) generate j]
          \<and> finished generate threaded j (slot_fence (sc_slots (sys_sc s1) ! k)) job job'
       else submits tr2 = [] \<and> job' = job)"
    using frame_epilogue_run [OF rest [unfolded bs] same(2)] by blast
  then show ?thesis
    using tr1 same by (intro exI [of _ "tr1 @ tr2"] exI [of _ generate] exI [of _ j]) (auto split: if_splits)
qed


lemma locks_worker_frame: "locks [] (worker_frame work) (\<lambda>_. [])"
  unfolding worker_frame_def by (intro locks_wp locks_wp_at [OF locks_generate_threaded]; simp)

lemma worker_frame_signals:
  assumes run: "run_state (worker_frame work) s = (job, s')"
    and k: "frame_slot work < length (sc_slots (sys_sc s))"
    and fresh: "\<not> job_generate (frame_present work)" "\<not> job_real_unwaited (frame_present work)"
  shows "\<exists>tr. eff_trace s' = eff_trace s @ tr \<and> presents tr = []
    \<and> job_real_image job = job_real_image (frame_present work) \<and> job_ordinal job = job_ordinal (frame_present work)
    \<and> (if job_real_unwaited job then submits tr = [] \<and> \<not> job_generate job
       else \<exists>cmds fence. submits tr =
         [(\<lparr>si_waits = [sc_sem_app (sys_sc s) ! frame_slot work], si_cmds = cmds,
            si_signals = sc_sem_real (sys_sc s) ! job_real_image job
              # (if job_generate job then [sc_sem_generated (sys_sc s) ! job_companion_image job] else [])\<rparr>, fence)])
    \<and> (job_generate job \<longrightarrow> job_done job = slot_fence (sc_slots (sys_sc s) ! frame_slot work))
    \<and> (job_hold_ns job = job_hold_ns (frame_present work)
       \<or> job_generate job \<and> 500000 \<le> job_hold_ns job \<and> job_hold_ns job \<le> 40000000)"
proof -
  let ?q = "dev_async_queue (sys_dev s)" and ?app = "sc_sem_app (sys_sc s) ! frame_slot work"
  let ?job = "frame_present work"
  obtain res j1 s1 where g: "run_state (afmf_sc_frame_generate ?q (frame_slot work) [?app] True ?job) s = ((res, j1), s1)"
    by (metis surj_pair)
  obtain tr generate j where tr: "eff_trace s1 = eff_trace s @ tr" "presents tr = []"
    and sig: "if res = VK_SUCCESS
       then submits tr = [frame_submission (sys_sc s) (frame_slot work) [?app] (job_real_image ?job) generate j]
          \<and> finished generate True j (slot_fence (sc_slots (sys_sc s) ! frame_slot work)) ?job j1
       else submits tr = [] \<and> j1 = ?job"
    using generate_signals [OF g k] by blast
  show ?thesis
  proof (cases "res = VK_SUCCESS")
    case True
    then have "job = j1 \<and> s' = s1" using run g by (simp add: worker_frame_def)
    then show ?thesis using True sig tr fresh
      by (intro exI [of _ tr]) (auto simp: finished_def frame_submission_def)
  next
    case False
    have same: "sc_sem_real (sys_sc s1) = sc_sem_real (sys_sc s)"
      using frames_run [OF frames_generate g] by (simp add: sc_fixed_def)
    obtain passed out w where p: "eff_driver s1 (QueueSubmit ?q \<lparr>si_waits = [?app], si_cmds = [],
         si_signals = [sc_sem_real (sys_sc s) ! job_real_image ?job]\<rparr> VK_NULL_HANDLE) (eff_world s1) = ((passed, out), w)"
      by (metis surj_pair)
    have "job = ?job\<lparr>job_generate := False, job_real_unwaited := (passed \<noteq> VK_SUCCESS)\<rparr>"
      "\<exists>ls. eff_trace s' = eff_trace s1 @ [Locked AsyncLock, Called (QueueSubmit ?q \<lparr>si_waits = [?app], si_cmds = [],
         si_signals = [sc_sem_real (sys_sc s) ! job_real_image ?job]\<rparr> VK_NULL_HANDLE) passed out,
         Unlocked AsyncLock, Locked JobLock, Unlocked JobLock]"
      using run g False sig p same by (auto simp: worker_frame_def run_vk)
    then show ?thesis using False sig tr fresh by auto
  qed
qed

text \<open>
  C3: The work thread always settles a frame's semaphores. Whatever fails on the way, at most one
  submission of the frame succeeds; if one does, it waits on the slot's semaphore and signals the
  one the real frame's present waits on, and with a companion also the one the companion's present
  waits on, and if none does the job says that the real frame goes out unwaited and there is no
  companion. The job keeps its image and its number, a companion's fence is the slot's, the pacing
  hold is between half a millisecond and forty, and no lock is left held.
\<close>
theorem worker_signals:
  assumes run: "run_state (worker_frame work) s = (job, s')"
    and k: "frame_slot work < length (sc_slots (sys_sc s))"
    and fresh: "\<not> job_generate (frame_present work)" "\<not> job_real_unwaited (frame_present work)"
  shows "\<exists>tr. eff_trace s' = eff_trace s @ tr \<and> presents tr = [] \<and> lock_run [] tr = Some []
    \<and> job_real_image job = job_real_image (frame_present work) \<and> job_ordinal job = job_ordinal (frame_present work)
    \<and> (if job_real_unwaited job then submits tr = [] \<and> \<not> job_generate job
       else \<exists>cmds fence. submits tr =
         [(\<lparr>si_waits = [sc_sem_app (sys_sc s) ! frame_slot work], si_cmds = cmds,
            si_signals = sc_sem_real (sys_sc s) ! job_real_image job
              # (if job_generate job then [sc_sem_generated (sys_sc s) ! job_companion_image job] else [])\<rparr>, fence)])
    \<and> (job_generate job \<longrightarrow> job_done job = slot_fence (sc_slots (sys_sc s) ! frame_slot work))
    \<and> (job_hold_ns job = job_hold_ns (frame_present work)
       \<or> job_generate job \<and> 500000 \<le> job_hold_ns job \<and> job_hold_ns job \<le> 40000000)"
proof -
  obtain tr where tr: "eff_trace s' = eff_trace s @ tr" "lock_run [] tr = Some []"
    using locks_worker_frame [of work] run unfolding locks_def by (metis fst_conv snd_conv)
  from worker_frame_signals [OF run k fresh] tr(2) show ?thesis
    unfolding tr(1) same_append_eq by blast
qed

definition worker_sc :: afmf_swapchain where
  "worker_sc = sc_zero\<lparr>sc_async := True, sc_image_count := 1, sc_images := [10], sc_sem_app := [20],
     sc_sem_real := [30], sc_sem_generated := [40], sc_history := 12,
     sc_slots := [\<lparr>slot_cmd = 50, slot_fence = 60, slot_pending = False\<rparr>]\<rparr>"

theorem worker_signals_witness:
  "\<exists>tr job s'. run_state (worker_frame \<lparr>frame_slot = 0, frame_present = job_init 0 1\<rparr>) (sample_sys worker_sc) = (job, s')
     \<and> eff_trace s' = tr \<and> presents tr = [] \<and> lock_run [] tr = Some [] \<and> job_real_image job = 0"
proof -
  let ?work = "\<lparr>frame_slot = 0, frame_present = job_init 0 1\<rparr>"
  obtain job s' where run: "run_state (worker_frame ?work) (sample_sys worker_sc) = (job, s')" by fastforce
  have "frame_slot ?work < length (sc_slots (sys_sc (sample_sys worker_sc)))" by (simp add: worker_sc_def)
  moreover have "\<not> job_generate (frame_present ?work)" "\<not> job_real_unwaited (frame_present ?work)"
    "job_real_image (frame_present ?work) = 0"
    by (simp_all add: job_init_def)
  ultimately show ?thesis using worker_signals [OF run] run by auto
qed

end
