(* ===== verification/Presenter.thy ===== *)
theory Presenter
  imports Worker "HOL-Library.Signed_Division"
begin

text \<open>
  The presentation thread (src/src/swapchain_presenter.c): one present with the parts of the
  application's chain that were kept, and one turn of \<open>afmf_sc_presenter_main\<close> in the segments
  between its waits: the job at the head, the companion's present, the hold, the real frame's
  present, the next spare, and the results and counts at the end.
\<close>

section \<open>One present\<close>

text \<open>\<open>long\<close> division truncates, hence \<open>sdiv\<close> and \<open>smod\<close>.\<close>

definition timespec_add_ns :: "timespec \<Rightarrow> nat \<Rightarrow> timespec" where
  "timespec_add_ns t ns =
     (let nsec = tv_nsec t + int (ns mod 1000000000)
      in \<lparr>tv_sec = tv_sec t + int (ns div 1000000000) + nsec sdiv 1000000000, tv_nsec = nsec smod 1000000000\<rparr>)"

definition present_chain :: "afmf_present_job \<Rightarrow> bool \<Rightarrow> present_node list" where
  "present_chain job real_frame =
     (if job_have_present_mode job then [PresentModeInfo 1 (Some (job_present_mode job))] else [])
     @ (if real_frame \<and> job_have_present_id job
        then [(if job_present_id_v2 job then PresentId2 else PresentId) (Some (job_present_id job))] else [])
     @ (if real_frame \<and> job_present_fence job \<noteq> VK_NULL_HANDLE then [PresentFenceInfo (Some (job_present_fence job))] else [])
     @ (if real_frame \<and> job_have_timing job then [PresentTimings 1 (Some (job_timing job))] else [])"

definition present_request :: "afmf_swapchain \<Rightarrow> nat \<Rightarrow> handle \<Rightarrow> afmf_present_job \<Rightarrow> bool \<Rightarrow> present_info" where
  "present_request sc img wait job real_frame =
     \<lparr>pi_waits = (if wait \<noteq> VK_NULL_HANDLE then [wait] else []), pi_swapchains = [sc_handle sc],
      pi_images = [img], pi_next = present_chain job real_frame\<rparr>"

definition present_one :: "nat \<Rightarrow> handle \<Rightarrow> afmf_present_job \<Rightarrow> bool \<Rightarrow> ('w sys, vk_result) state" where
  "present_one img wait job real_frame = do {
     sc \<leftarrow> sc_gets id;
     queue \<leftarrow> dev_gets dev_async_queue;
     t0 \<leftarrow> clock_gettime;
     wsi_take;
     lock_mutex AsyncLock;
     res \<leftarrow> vk (QueuePresent queue (present_request sc img wait job real_frame));
     unlock_mutex AsyncLock;
     wsi_give;
     t1 \<leftarrow> clock_gettime;
     lock_mutex JobLock;
     sc_modify (\<lambda>sc. if real_frame
                     then sc\<lparr>sc_present_real_ms := sc_present_real_ms sc + elapsed_ms t0 t1\<rparr>
                     else sc\<lparr>sc_present_ms := sc_present_ms sc + elapsed_ms t0 t1\<rparr>);
     unlock_mutex JobLock;
     return res
   }"

section \<open>A turn of the thread\<close>

text \<open>Under the job lock: the job at the head, and whether the thread is being stopped.\<close>

definition presenter_take :: "('w sys, afmf_present_job \<times> bool) state" where
  "presenter_take = sc_gets (\<lambda>sc. (jobs_front sc, sc_presenter_stop sc))"

definition presenter_companion :: "afmf_present_job \<Rightarrow> ('w sys, vk_result) state" where
  "presenter_companion job =
     (if job_generate job then do {
        sem \<leftarrow> sc_gets (\<lambda>sc. sc_sem_generated sc ! job_companion_image job);
        present_one (job_companion_image job) sem job False
      } else return VK_SUCCESS)"

text \<open>
  The hold: the generated frame's fence, and the time the real frame is held until, \<open>None\<close> when it
  is not held. The thread then waits on \<open>job_cond\<close> until that time, a stop, or the next job.
\<close>

definition hold_delay_ms :: "timespec \<Rightarrow> timespec \<Rightarrow> real" where
  "hold_delay_ms arrival ready = (if elapsed_ms arrival ready < 0 then 0 else elapsed_ms arrival ready)"

definition hold_for :: "nat \<Rightarrow> real \<Rightarrow> nat" where
  "hold_for hold_ns delay_ms =
     (let delay_ns = nat \<lfloor>delay_ms * 1000000\<rfloor> in hold_ns + (if delay_ns < hold_ns then delay_ns else hold_ns))"

definition presenter_hold :: "afmf_present_job \<Rightarrow> bool \<Rightarrow> ('w sys, timespec option) state" where
  "presenter_hold job draining =
     (if job_generate job \<and> job_hold_ns job > 0 \<and> \<not> draining then do {
        _ \<leftarrow> vk (WaitForFences (job_done job) (of_nat (2 * job_hold_ns job)));
        ready \<leftarrow> clock_gettime;
        let delay_ms = hold_delay_ms (job_arrival job) ready;
        let hold = hold_for (job_hold_ns job) delay_ms;
        lock_mutex JobLock;
        sc_modify (\<lambda>sc. sc\<lparr>sc_gpu_delay_ms := sc_gpu_delay_ms sc + delay_ms, sc_last_delay_ms := delay_ms,
                           sc_hold_ms := sc_hold_ms sc + real hold / 1000000\<rparr>);
        unlock_mutex JobLock;
        return (Some (timespec_add_ns (job_arrival job) hold))
      } else do {
        whenb (job_generate job) (do { lock_mutex JobLock; unlock_mutex JobLock });
        return None
      })"

text \<open>The condition of the wait's loop, besides the timeout.\<close>

definition hold_over :: "afmf_swapchain \<Rightarrow> bool" where
  "hold_over sc \<longleftrightarrow> sc_presenter_stop sc \<or> \<not> sc_job_count sc < 2"

definition presenter_real :: "afmf_present_job \<Rightarrow> ('w sys, vk_result) state" where
  "presenter_real job = do {
     sem \<leftarrow> sc_gets (\<lambda>sc. if job_real_unwaited job then VK_NULL_HANDLE else sc_sem_real sc ! job_real_image job);
     present_one (job_real_image job) sem job True
   }"

definition presenter_refill :: "('w sys, real) state" where
  "presenter_refill = do {
     r0 \<leftarrow> clock_gettime;
     wsi_take;
     afmf_sc_spare_refill 0;
     wsi_give;
     r1 \<leftarrow> clock_gettime;
     return (elapsed_ms r0 r1)
   }"

definition worst_of :: "vk_result \<Rightarrow> vk_result \<Rightarrow> vk_result" where
  "worst_of first second =
     (if first < 0 then first else if second < 0 then second else if first \<noteq> VK_SUCCESS then first else second)"

definition defer_result :: "vk_result \<Rightarrow> vk_result \<Rightarrow> vk_result" where
  "defer_result deferred worst =
     (if deferred \<ge> 0 \<and> (worst < 0 \<or> deferred = VK_SUCCESS) then worst else deferred)"

definition presenter_finish :: "vk_result \<Rightarrow> vk_result \<Rightarrow> real \<Rightarrow> afmf_swapchain \<Rightarrow> afmf_swapchain" where
  "presenter_finish first second refill_ms sc =
     (jobs_pop (sc\<lparr>sc_refill_ms := sc_refill_ms sc + refill_ms,
                  sc_deferred_result := defer_result (sc_deferred_result sc) (worst_of first second)\<rparr>))
       \<lparr>sc_in_flight := sc_in_flight sc - 1\<rparr>"

text \<open>The turn as a whole, the waiting of the hold left out.\<close>

definition presenter_turn :: "('w sys, unit) state" where
  "presenter_turn = do {
     lock_mutex JobLock;
     (job, draining) \<leftarrow> presenter_take;
     unlock_mutex JobLock;
     first \<leftarrow> presenter_companion job;
     _ \<leftarrow> presenter_hold job draining;
     second \<leftarrow> presenter_real job;
     refill_ms \<leftarrow> presenter_refill;
     lock_mutex JobLock;
     sc_modify (presenter_finish first second refill_ms);
     unlock_mutex JobLock
   }"


section \<open>The chain comes back out\<close>

lemma first_nonzero_Some [simp]: "v \<noteq> 0 \<Longrightarrow> first_nonzero (Some v) = Some v"
  by (simp add: first_nonzero_def)

text \<open>What a job read from a chain has: nothing it does not mark, no zero id, no mode to rewrite.\<close>

definition job_normal :: "afmf_swapchain \<Rightarrow> afmf_present_job \<Rightarrow> bool" where
  "job_normal sc job \<longleftrightarrow>
     (if job_have_present_id job then job_present_id job \<noteq> 0
      else job_present_id job = 0 \<and> \<not> job_present_id_v2 job)
   \<and> (job_have_present_mode job \<longrightarrow> sc_fifo_to_mailbox sc \<longrightarrow> needs_mailbox sc (job_present_mode job) \<longrightarrow>
        job_present_mode job = PRESENT_MODE_MAILBOX)
   \<and> (\<not> job_have_present_mode job \<longrightarrow> job_present_mode job = 0)
   \<and> (\<not> job_have_timing job \<longrightarrow> job_timing job = 0)"

lemma job_normal_steps:
  assumes "job_normal sc job"
  shows "job_normal sc (case first_nonzero ids of
      Some v \<Rightarrow> job\<lparr>job_have_present_id := True, job_present_id := v\<rparr> | None \<Rightarrow> job)"
    "job_normal sc (case first_nonzero ids of
      Some v \<Rightarrow> job\<lparr>job_have_present_id := True, job_present_id_v2 := True, job_present_id := v\<rparr> | None \<Rightarrow> job)"
    "job_normal sc (case modes of
      Some m \<Rightarrow> if n < 1 then job
        else job\<lparr>job_have_present_mode := True,
          job_present_mode := (if sc_fifo_to_mailbox sc \<and> needs_mailbox sc m then PRESENT_MODE_MAILBOX else m)\<rparr>
    | None \<Rightarrow> job)"
    "job_normal sc (case fences of Some f \<Rightarrow> job\<lparr>job_present_fence := f\<rparr> | None \<Rightarrow> job)"
    "job_normal sc (case infos of
      Some t \<Rightarrow> if n \<ge> 1 then job\<lparr>job_timing := t, job_have_timing := True\<rparr> else job | None \<Rightarrow> job)"
proof -
  have ids: "first_nonzero ids = Some v \<Longrightarrow> v \<noteq> 0" for v
    by (auto simp: first_nonzero_def split: option.splits if_splits)
  show "job_normal sc (case first_nonzero ids of
      Some v \<Rightarrow> job\<lparr>job_have_present_id := True, job_present_id := v\<rparr> | None \<Rightarrow> job)"
    "job_normal sc (case first_nonzero ids of
      Some v \<Rightarrow> job\<lparr>job_have_present_id := True, job_present_id_v2 := True, job_present_id := v\<rparr> | None \<Rightarrow> job)"
    using assms ids by (simp_all add: job_normal_def split: option.split)
  show "job_normal sc (case modes of
      Some m \<Rightarrow> if n < 1 then job
        else job\<lparr>job_have_present_mode := True,
          job_present_mode := (if sc_fifo_to_mailbox sc \<and> needs_mailbox sc m then PRESENT_MODE_MAILBOX else m)\<rparr>
    | None \<Rightarrow> job)"
    "job_normal sc (case fences of Some f \<Rightarrow> job\<lparr>job_present_fence := f\<rparr> | None \<Rightarrow> job)"
    "job_normal sc (case infos of
      Some t \<Rightarrow> if n \<ge> 1 then job\<lparr>job_timing := t, job_have_timing := True\<rparr> else job | None \<Rightarrow> job)"
    using assms by (simp_all add: job_normal_def split: option.split)
qed

lemma job_from_chain_normal:
  "job_normal sc job \<Longrightarrow> job_normal sc (snd (afmf_sc_job_from_chain sc chain job))"
  by (induction sc chain job rule: afmf_sc_job_from_chain.induct)
     (simp_all only: afmf_sc_job_from_chain.simps snd_conv job_normal_steps simp_thms)

definition chain_part :: "afmf_present_job \<Rightarrow> afmf_present_job \<Rightarrow> afmf_present_job" where
  "chain_part job0 job = job0
     \<lparr> job_have_present_id := job_have_present_id job, job_present_id := job_present_id job,
       job_present_id_v2 := job_present_id_v2 job, job_have_present_mode := job_have_present_mode job,
       job_present_mode := job_present_mode job, job_present_fence := job_present_fence job,
       job_have_timing := job_have_timing job, job_timing := job_timing job \<rparr>"

definition job_rest where
  "job_rest job = (job_real_image job, job_companion_image job, job_generate job, job_ordinal job,
     job_arrival job, job_hold_ns job, job_done job, job_real_unwaited job)"

lemma job_rest_kept [simp]: "job_rest (snd (afmf_sc_job_from_chain sc chain job)) = job_rest job"
  by (induction sc chain job rule: afmf_sc_job_from_chain.induct)
     (auto simp: job_rest_def split: option.split)

lemma chain_part_same: "job_rest x = job_rest job \<Longrightarrow> chain_part job x = x"
  by (simp add: chain_part_def job_rest_def)

lemma chain_part_normal:
  assumes "job_normal sc job"
  shows "afmf_sc_job_from_chain sc (present_chain job True) (job_init i n) = (True, chain_part (job_init i n) job)"
  using assms
  by (auto simp: job_normal_def present_chain_def chain_part_def job_init_def)


text \<open>
  C34: The chain survives the hand-over. Whatever chain of structures the layer carries the
  application attached to its present, the chain of the real frame's present, read again, gives
  the same job: ids, mode, fence and timing request all reach the driver. The companion's present
  carries at most the mode, and never an id, a fence or a timing request.
\<close>
theorem chain_roundtrip:
  assumes read: "afmf_sc_job_from_chain sc chain (job_init i n) = (True, job)"
  shows "afmf_sc_job_from_chain sc (present_chain job True) (job_init i n) = (True, job)
    \<and> (\<forall>node \<in> set (present_chain job False). node = PresentModeInfo 1 (Some (job_present_mode job)))"
proof -
  have job: "job = snd (afmf_sc_job_from_chain sc chain (job_init i n))" using read by simp
  have "job_normal sc job" unfolding job by (rule job_from_chain_normal) (simp add: job_normal_def job_init_def)
  moreover have "chain_part (job_init i n) job = job" unfolding job by (rule chain_part_same) simp
  ultimately show ?thesis
    using chain_part_normal [of sc job i n] by (auto simp: present_chain_def)
qed

theorem chain_roundtrip_witness:
  "\<exists>job. afmf_sc_job_from_chain sc_zero [PresentId2 (Some 7), PresentFenceInfo (Some 4)] (job_init 3 4) = (True, job)
    \<and> afmf_sc_job_from_chain sc_zero (present_chain job True) (job_init 3 4) = (True, job)"
proof -
  obtain job where
    read: "afmf_sc_job_from_chain sc_zero [PresentId2 (Some 7), PresentFenceInfo (Some 4)] (job_init 3 4) = (True, job)"
    by simp
  show ?thesis using chain_roundtrip [OF read] read by blast
qed

section \<open>The hold\<close>

definition total_ns :: "timespec \<Rightarrow> int" where
  "total_ns t = 1000000000 * tv_sec t + tv_nsec t"

lemma timespec_add_total: "total_ns (timespec_add_ns t ns) = total_ns t + int ns"
proof -
  let ?n = "tv_nsec t + int (ns mod 1000000000)"
  have "?n sdiv 1000000000 * 1000000000 + ?n smod 1000000000 = ?n"
    by (rule sdiv_mult_smod_eq)
  moreover have "int ns = 1000000000 * int (ns div 1000000000) + int (ns mod 1000000000)"
    by (metis div_mult_mod_eq mult.commute of_nat_add of_nat_mult of_nat_numeral)
  ultimately show ?thesis by (simp add: total_ns_def timespec_add_ns_def Let_def algebra_simps)
qed

lemma timespec_add_normal:
  "0 \<le> tv_nsec t \<Longrightarrow> 0 \<le> tv_nsec (timespec_add_ns t ns) \<and> tv_nsec (timespec_add_ns t ns) < 1000000000"
  by (simp add: timespec_add_ns_def Let_def signed_modulo_int_def sgn_if)

lemma hold_for_bounds: "h \<le> hold_for h d \<and> hold_for h d \<le> 2 * h"
  by (simp add: hold_for_def Let_def)

text \<open>
  The real frame is held between one and two half frames. When the thread holds the real frame
  back, it waits for the companion's fence at most twice the job's hold, and the time it then holds
  until is between one and two times the hold after the frame's arrival, however long the fence took
  and whatever the clock said; the time is a normal one (nanoseconds below a second) and the delay
  handed to the governor is not negative. A job without a companion, a job without a hold and a
  thread that is being stopped hold nothing.
\<close>
theorem hold_bounds:
  assumes run: "run_state (presenter_hold job draining) s = (until, s')" and arrival: "0 \<le> tv_nsec (job_arrival job)"
  shows "case until of
      None \<Rightarrow> \<not> job_generate job \<or> job_hold_ns job = 0 \<or> draining
    | Some t \<Rightarrow> job_generate job \<and> 0 < job_hold_ns job \<and> \<not> draining
        \<and> total_ns (job_arrival job) + int (job_hold_ns job) \<le> total_ns t
        \<and> total_ns t \<le> total_ns (job_arrival job) + 2 * int (job_hold_ns job)
        \<and> 0 \<le> tv_nsec t \<and> tv_nsec t < 1000000000 \<and> 0 \<le> sc_last_delay_ms (sys_sc s')
        \<and> (\<exists>r out. eff_trace s' = eff_trace s
             @ [Called (WaitForFences (job_done job) (of_nat (2 * job_hold_ns job))) r out, Locked JobLock, Unlocked JobLock])"
proof (cases "job_generate job \<and> job_hold_ns job > 0 \<and> \<not> draining")
  case False
  then show ?thesis using run by (auto simp: presenter_hold_def split: if_splits)
next
  case True
  obtain r out w where w: "eff_driver s (WaitForFences (job_done job) (of_nat (2 * job_hold_ns job))) (eff_world s) = ((r, out), w)"
    by (metis surj_pair)
  let ?s = "s\<lparr>eff_world := w, eff_trace := eff_trace s
      @ [Called (WaitForFences (job_done job) (of_nat (2 * job_hold_ns job))) r out]\<rparr>"
  obtain ready s1 where c: "run_state clock_gettime ?s = (ready, s1)" by fastforce
  have s1: "eff_trace s1 = eff_trace ?s" using c by (auto simp: run_clock split: prod.splits)
  let ?d = "hold_delay_ms (job_arrival job) ready"
  have out': "until = Some (timespec_add_ns (job_arrival job) (hold_for (job_hold_ns job) ?d))"
    "sc_last_delay_ms (sys_sc s') = ?d" "eff_trace s' = eff_trace s1 @ [Locked JobLock, Unlocked JobLock]"
    using run True by (auto simp: presenter_hold_def run_vk w c Let_def simp del: of_nat_mult)
  show ?thesis
    using True timespec_add_normal [OF arrival] hold_for_bounds [of "job_hold_ns job" ?d] s1
    by (simp add: out' timespec_add_total hold_delay_ms_def)
qed

theorem hold_bounds_witness:
  "\<exists>t. fst (run_state (presenter_hold ((job_init 0 1)\<lparr>job_generate := True, job_hold_ns := 8000000\<rparr>) False)
        (sample_sys sc_zero)) = Some t \<and> 8000000 \<le> total_ns t \<and> total_ns t \<le> 16000000"
proof -
  let ?job = "(job_init 0 1)\<lparr>job_generate := True, job_hold_ns := 8000000\<rparr>"
  obtain until s' where run: "run_state (presenter_hold ?job False) (sample_sys sc_zero) = (until, s')" by fastforce
  have "0 \<le> tv_nsec (job_arrival ?job)" by (simp add: job_init_def)
  note b = hold_bounds [OF run this]
  then show ?thesis using run by (cases until) (simp_all add: total_ns_def job_init_def)
qed

section \<open>The results\<close>

text \<open>How bad a result is: an error, anything else that is not a success, a success.\<close>

definition severity :: "vk_result \<Rightarrow> nat" where
  "severity r = (if r < 0 then 2 else if r = VK_SUCCESS then 0 else 1)"

lemma worst_severity: "severity (worst_of a b) = max (severity a) (severity b)"
  by (auto simp: severity_def worst_of_def)

lemma worst_either: "worst_of a b = a \<or> worst_of a b = b"
  by (simp add: worst_of_def)

lemma defer_severity: "severity (defer_result d w) = max (severity d) (severity w)"
  by (auto simp: severity_def defer_result_def)

lemma defer_first_error: "d < 0 \<Longrightarrow> defer_result d w = d"
  by (simp add: defer_result_def)

text \<open>
  The worst result reaches the application. Over any run of frames' results, what the thread
  defers is as bad as the worst of what was deferred before and every present of the run: an
  error is never overwritten by a success or a suboptimal, the first error stays, and the deferred
  result is one of the results there were.
\<close>
theorem deferred_worst:
  assumes "d' = fold (\<lambda>(first, second) d. defer_result d (worst_of first second)) rs d"
  shows "severity d \<le> severity d'
    \<and> (\<forall>(first, second) \<in> set rs. severity first \<le> severity d' \<and> severity second \<le> severity d')
    \<and> (d' = d \<or> (\<exists>(first, second) \<in> set rs. d' = first \<or> d' = second))
    \<and> (d < 0 \<longrightarrow> d' = d)"
  using assms
proof (induction rs arbitrary: d)
  case (Cons r rs)
  obtain a b where r: "r = (a, b)" by fastforce
  let ?d = "defer_result d (worst_of a b)"
  have sev: "severity ?d = max (severity d) (max (severity a) (severity b))"
    by (simp add: defer_severity worst_severity)
  have mem: "?d = d \<or> ?d = a \<or> ?d = b" using worst_either [of a b] by (auto simp: defer_result_def)
  have kept: "d < 0 \<longrightarrow> ?d = d" by (simp add: defer_first_error)
  have tail: "d' = fold (\<lambda>(first, second) d. defer_result d (worst_of first second)) rs ?d"
    using Cons.prems by (simp add: r)
  note IH = Cons.IH [OF tail]
  have "severity d \<le> severity d'" "severity a \<le> severity d'" "severity b \<le> severity d'" using IH sev by auto
  moreover have "d' = d \<or> (\<exists>(first, second) \<in> set (r # rs). d' = first \<or> d' = second)"
    using IH mem by (fastforce simp: r)
  moreover have "d < 0 \<longrightarrow> d' = d" using IH kept by simp
  ultimately show ?case using IH by (simp add: r)
qed simp

theorem deferred_worst_witness:
  "severity (fold (\<lambda>(first, second) d. defer_result d (worst_of first second))
     [(VK_SUBOPTIMAL_KHR, VK_SUCCESS), (VK_SUCCESS, VK_ERROR_OUT_OF_DATE_KHR)] VK_SUCCESS) = 2"
proof -
  let ?rs = "[(VK_SUBOPTIMAL_KHR, VK_SUCCESS), (VK_SUCCESS, VK_ERROR_OUT_OF_DATE_KHR)]"
  have "2 \<le> severity (fold (\<lambda>(first, second) d. defer_result d (worst_of first second)) ?rs VK_SUCCESS)"
    using deferred_worst [OF refl, of VK_SUCCESS ?rs] by (simp add: severity_def [of VK_ERROR_OUT_OF_DATE_KHR])
  moreover have "severity r \<le> 2" for r by (simp add: severity_def)
  ultimately show ?thesis by (metis antisym)
qed

section \<open>A turn\<close>

definition turn_kept where
  "turn_kept sc = (sc_fixed sc, sc_deferred_result sc)"

lemma frames_present_one: "frames turn_kept (present_one img wait job real_frame)"
  unfolding present_one_def by (intro frames_rules) (simp add: turn_kept_def sc_fixed_def)

lemma frames_presenter_companion: "frames turn_kept (presenter_companion job)"
  unfolding presenter_companion_def by (intro frames_rules frames_present_one)

lemma frames_hold: "frames turn_kept (presenter_hold job draining)"
  unfolding presenter_hold_def Let_def by (intro frames_rules) (simp add: turn_kept_def sc_fixed_def)

lemma frames_real: "frames turn_kept (presenter_real job)"
  unfolding presenter_real_def by (intro frames_rules frames_present_one)

lemma frames_refill: "frames turn_kept presenter_refill"
  unfolding presenter_refill_def afmf_sc_spare_refill_def
  by (intro frames_rules) (simp add: turn_kept_def sc_fixed_def)

lemma present_request_cong: "sc_fixed sc' = sc_fixed sc \<Longrightarrow> present_request sc' = present_request sc"
  by (simp add: present_request_def sc_fixed_def fun_eq_iff)

lemma present_one_run:
  assumes "run_state (present_one img wait job real_frame) s = (res, s')"
  shows "\<exists>tr. eff_trace s' = eff_trace s @ tr \<and> submits tr = []
          \<and> presents tr = [present_request (sys_sc s) img wait job real_frame]"
  using assms by (auto simp: present_one_def run_effects split: prod.splits)

lemma locks_present_one: "locks [] (present_one img wait job real_frame) (\<lambda>_. [])"
  unfolding present_one_def by (intro locks_wp; simp)

lemma locks_hold: "locks [] (presenter_hold job draining) (\<lambda>_. [])"
  unfolding presenter_hold_def Let_def by (intro locks_wp; simp)

lemma locks_refill: "locks [] presenter_refill (\<lambda>_. [])"
  unfolding presenter_refill_def by (intro locks_wp locks_wp_neutral [OF locks_spare_refill]; simp)

lemma locks_presenter_companion: "locks [] (presenter_companion job) (\<lambda>_. [])"
  unfolding presenter_companion_def by (intro locks_wp locks_wp_at_last [OF locks_present_one]; simp)

lemma locks_real: "locks [] (presenter_real job) (\<lambda>_. [])"
  unfolding presenter_real_def by (intro locks_wp locks_wp_at_last [OF locks_present_one]; simp)

lemma locks_turn: "locks [] presenter_turn (\<lambda>_. [])"
  unfolding presenter_turn_def presenter_take_def
  by (intro locks_wp locks_wp_at [OF locks_presenter_companion] locks_wp_at [OF locks_hold] locks_wp_at [OF locks_real]
      locks_wp_at [OF locks_refill]; simp)

lemma emits_hold: "emits quiet (presenter_hold job draining)"
  unfolding presenter_hold_def Let_def by (intro emits_intros; simp)

lemma emits_refill: "emits quiet presenter_refill"
  unfolding presenter_refill_def by (intro emits_intros emits_spare_refill; simp)

lemma companion_presents:
  assumes "run_state (presenter_companion job) s = (res, s')"
  shows "\<exists>tr. eff_trace s' = eff_trace s @ tr \<and> submits tr = []
          \<and> presents tr = (if job_generate job
               then [present_request (sys_sc s) (job_companion_image job)
                       (sc_sem_generated (sys_sc s) ! job_companion_image job) job False] else [])"
  using assms present_one_run
  by (auto simp: presenter_companion_def split: if_splits)

lemma real_presents:
  assumes "run_state (presenter_real job) s = (res, s')"
  shows "\<exists>tr. eff_trace s' = eff_trace s @ tr \<and> submits tr = []
          \<and> presents tr = [present_request (sys_sc s) (job_real_image job)
               (if job_real_unwaited job then VK_NULL_HANDLE else sc_sem_real (sys_sc s) ! job_real_image job) job True]"
  using assms present_one_run by (auto simp: presenter_real_def)

lemma turn_presents:
  assumes run: "run_state presenter_turn s = (u, s')" and job: "job = jobs_front (sys_sc s)"
  shows "\<exists>tr first second refill_ms. eff_trace s' = eff_trace s @ tr \<and> submits tr = []
    \<and> presents tr =
        (if job_generate job
         then [present_request (sys_sc s) (job_companion_image job)
                 (sc_sem_generated (sys_sc s) ! job_companion_image job) job False] else [])
        @ [present_request (sys_sc s) (job_real_image job)
             (if job_real_unwaited job then VK_NULL_HANDLE else sc_sem_real (sys_sc s) ! job_real_image job) job True]
    \<and> (\<exists>sc. turn_kept sc = turn_kept (sys_sc s) \<and> sys_sc s' = presenter_finish first second refill_ms sc)"
proof -
  let ?s0 = "s\<lparr>eff_trace := eff_trace s @ [Locked JobLock, Unlocked JobLock]\<rparr>"
  let ?d = "sc_presenter_stop (sys_sc s)"
  obtain first s1 where c: "run_state (presenter_companion job) ?s0 = (first, s1)" by fastforce
  obtain t s2 where h: "run_state (presenter_hold job ?d) s1 = (t, s2)" by fastforce
  obtain second s3 where r: "run_state (presenter_real job) s2 = (second, s3)" by fastforce
  obtain ms s4 where f: "run_state presenter_refill s3 = (ms, s4)" by fastforce
  have s': "s' = s4\<lparr>sys_sc := presenter_finish first second ms (sys_sc s4),
                    eff_trace := eff_trace s4 @ [Locked JobLock, Unlocked JobLock]\<rparr>"
    using run by (simp add: presenter_turn_def presenter_take_def job [symmetric] c h r f)
  have k: "turn_kept (sys_sc s1) = turn_kept (sys_sc s)" "turn_kept (sys_sc s2) = turn_kept (sys_sc s)"
    "turn_kept (sys_sc s4) = turn_kept (sys_sc s)"
    using frames_run [OF frames_presenter_companion c] frames_run [OF frames_hold h] frames_run [OF frames_real r]
      frames_run [OF frames_refill f] by simp_all
  then have fx: "sc_fixed (sys_sc s2) = sc_fixed (sys_sc s)" by (simp add: turn_kept_def)
  then have sem: "sc_sem_real (sys_sc s2) = sc_sem_real (sys_sc s)" by (simp add: sc_fixed_def)
  obtain tr1 where tr1: "eff_trace s1 = eff_trace ?s0 @ tr1" "submits tr1 = []"
      "presents tr1 = (if job_generate job then [present_request (sys_sc s) (job_companion_image job)
                       (sc_sem_generated (sys_sc s) ! job_companion_image job) job False] else [])"
    using companion_presents [OF c] by auto
  obtain tr2 where tr2: "eff_trace s2 = eff_trace s1 @ tr2" "submits tr2 = []" "presents tr2 = []"
    using emits_silent [OF emits_hold h] by blast
  obtain tr3 where tr3: "eff_trace s3 = eff_trace s2 @ tr3" "submits tr3 = []"
      "presents tr3 = [present_request (sys_sc s) (job_real_image job)
               (if job_real_unwaited job then VK_NULL_HANDLE else sc_sem_real (sys_sc s) ! job_real_image job) job True]"
    using real_presents [OF r] unfolding present_request_cong [OF fx] sem by blast
  obtain tr4 where tr4: "eff_trace s4 = eff_trace s3 @ tr4" "submits tr4 = []" "presents tr4 = []"
    using emits_silent [OF emits_refill f] by blast
  show ?thesis
    using tr1 tr2 tr3 tr4 k(3)
    by (intro exI [of _ "[Locked JobLock, Unlocked JobLock] @ tr1 @ tr2 @ tr3 @ tr4 @ [Locked JobLock, Unlocked JobLock]"]
        exI [of _ first] exI [of _ second] exI [of _ ms] conjI exI [of _ "sys_sc s4"])
       (simp_all add: s')
qed


text \<open>
  C7: A turn of the presentation thread. The job at the head of the queue goes out as the
  companion's present, if it has one, and then the real frame's, each waiting on its own semaphore
  (the real frame's on none when the work thread could not have it signalled) and the real frame's
  carrying the application's chain; nothing is submitted. Then exactly that job is off the queue, a
  frame fewer is in flight, the worst result is deferred, and no lock is left held.
\<close>
theorem presenter_turn_correct:
  assumes run: "run_state presenter_turn s = (u, s')"
    and ok: "jobs_ok (sys_sc s)" and queue: "jobs_contents (sys_sc s) = job # rest"
  shows "\<exists>tr first second. eff_trace s' = eff_trace s @ tr \<and> submits tr = [] \<and> lock_run [] tr = Some []
    \<and> presents tr =
        (if job_generate job
         then [present_request (sys_sc s) (job_companion_image job)
                 (sc_sem_generated (sys_sc s) ! job_companion_image job) job False] else [])
        @ [present_request (sys_sc s) (job_real_image job)
             (if job_real_unwaited job then VK_NULL_HANDLE else sc_sem_real (sys_sc s) ! job_real_image job) job True]
    \<and> jobs_ok (sys_sc s') \<and> jobs_contents (sys_sc s') = rest
    \<and> sc_in_flight (sys_sc s') = sc_in_flight (sys_sc s) - 1
    \<and> sc_deferred_result (sys_sc s') = defer_result (sc_deferred_result (sys_sc s)) (worst_of first second)"
proof -
  have job: "job = jobs_front (sys_sc s)"
    using jobs.front_contents [OF ok] queue by (metis list.distinct(1) list.sel(1))
  obtain tr first second ms sc where t: "eff_trace s' = eff_trace s @ tr" "submits tr = []"
      "presents tr =
        (if job_generate job
         then [present_request (sys_sc s) (job_companion_image job)
                 (sc_sem_generated (sys_sc s) ! job_companion_image job) job False] else [])
        @ [present_request (sys_sc s) (job_real_image job)
             (if job_real_unwaited job then VK_NULL_HANDLE else sc_sem_real (sys_sc s) ! job_real_image job) job True]"
    and k: "turn_kept sc = turn_kept (sys_sc s)" and s': "sys_sc s' = presenter_finish first second ms sc"
    using turn_presents [OF run job] by blast
  have l: "lock_run [] tr = Some []"
    using locks_turn run t(1) unfolding locks_def by (metis fst_conv snd_conv same_append_eq)
  have q: "jobs_ok sc" "jobs_contents sc = job # rest"
    using k ok queue by (simp_all add: turn_kept_def sc_fixed_def jobs_ok_def jobs_contents_def)
  have same: "jobs_ok (presenter_finish a b ms sc) = jobs_ok (jobs_pop sc)"
    "jobs_contents (presenter_finish a b ms sc) = jobs_contents (jobs_pop sc)" for a b
    by (simp_all add: presenter_finish_def jobs_ok_def jobs_contents_def jobs_pop_def)
  have "jobs_contents sc \<noteq> []" using q by simp
  then have pop: "jobs_ok (jobs_pop sc)" "jobs_contents (jobs_pop sc) = rest"
    using jobs.pop_inv [OF q(1)] jobs.pop_contents [OF q(1)] q(2) by simp_all
  have fl: "sc_in_flight (sys_sc s') = sc_in_flight (sys_sc s) - 1"
    "sc_deferred_result (sys_sc s') = defer_result (sc_deferred_result (sys_sc s)) (worst_of first second)"
    using k by (simp_all add: s' presenter_finish_def jobs_pop_def turn_kept_def sc_fixed_def)
  show ?thesis
    using t l pop fl by (intro exI [of _ tr] exI [of _ first] exI [of _ second] conjI) (simp_all add: s' same)
qed

theorem presenter_turn_witness:
  "let job = (job_init 1 5)\<lparr>job_generate := True, job_companion_image := 2\<rparr>;
       s' = snd (run_state presenter_turn (sample_sys (jobs_push job (sc_zero
              \<lparr>sc_in_flight := 1, sc_sem_generated := [7, 8, 9], sc_sem_real := [4, 5, 6]\<rparr>))))
   in jobs_contents (sys_sc s') = [] \<and> map pi_images (presents (eff_trace s')) = [[2], [1]] \<and> sc_in_flight (sys_sc s') = 0"
proof -
  let ?job = "(job_init 1 5)\<lparr>job_generate := True, job_companion_image := 2\<rparr>"
  let ?sc = "sc_zero\<lparr>sc_in_flight := 1, sc_sem_generated := [7, 8, 9], sc_sem_real := [4, 5, 6]\<rparr>"
  let ?s = "sample_sys (jobs_push ?job ?sc)"
  obtain u s' where run: "run_state presenter_turn ?s = (u, s')" by (metis surj_pair)
  have z: "jobs_ok ?sc" "jobs_contents ?sc = []"
    using rings_ok_zero(2) by (simp_all add: jobs_ok_def sc_zero_def)
  then have ok: "jobs_ok (sys_sc ?s)" "jobs_contents (sys_sc ?s) = [?job]"
    using jobs.push_inv [OF z(1), of ?job] jobs.push_contents [OF z(1), of ?job] by simp_all
  have g: "job_generate ?job" "job_companion_image ?job = 2" "job_real_image ?job = 1" by (simp_all add: job_init_def)
  have f: "sc_in_flight (sys_sc ?s) = 1" by (simp add: jobs_push_def)
  have tr: "eff_trace ?s = []" by simp
  from presenter_turn_correct [OF run ok] show ?thesis
    unfolding Let_def run snd_conv tr append_Nil f
    by (elim exE conjE) (simp add: g present_request_def job_init_def)
qed

end
