(* ===== verification/Threads.thy ===== *)
theory Threads
  imports Presenter
begin

text \<open>
  The two threads' lifetime (src/src/swapchain_threads.c). A wait on a condition variable is not an
  operation: its condition is a predicate here, the guard of a step of \<open>Pipeline\<close>, and the code
  after it a definition of its own. \<open>afmf_sc_presenter_drain\<close> and \<open>afmf_sc_presenter_stop\<close> are the
  whole functions as a caller sees them, what the threads do meanwhile left to \<open>Pipeline\<close>.
\<close>

section \<open>Draining and stopping\<close>

definition worker_drained :: "afmf_swapchain \<Rightarrow> bool" where
  "worker_drained sc \<longleftrightarrow> \<not> (sc_work_count sc > 0 \<or> sc_worker_busy sc)"

definition presenter_drained :: "afmf_swapchain \<Rightarrow> bool" where
  "presenter_drained sc \<longleftrightarrow> \<not> sc_job_count sc > 0"

definition worker_drain :: "('w sys, unit) state" where
  "worker_drain = do {
     running \<leftarrow> sc_gets sc_worker_running;
     whenb running (do { lock_mutex WorkLock; unlock_mutex WorkLock })
   }"

definition worker_stop_request :: "('w sys, unit) state" where
  "worker_stop_request = do {
     lock_mutex WorkLock;
     sc_modify (\<lambda>sc. sc\<lparr>sc_worker_stop := True\<rparr>);
     unlock_mutex WorkLock
   }"

definition worker_stopped :: "('w sys, unit) state" where
  "worker_stopped = do {
     _ \<leftarrow> vk PthreadJoin;
     sc_modify (\<lambda>sc. sc\<lparr>sc_worker_running := False\<rparr>)
   }"

definition worker_stop :: "('w sys, unit) state" where
  "worker_stop = do {
     running \<leftarrow> sc_gets sc_worker_running;
     whenb running (do { worker_stop_request; worker_stopped })
   }"

definition presenter_stop_request :: "('w sys, unit) state" where
  "presenter_stop_request = do {
     lock_mutex JobLock;
     sc_modify (\<lambda>sc. sc\<lparr>sc_presenter_stop := True\<rparr>);
     unlock_mutex JobLock
   }"

definition presenter_stopped :: "('w sys, unit) state" where
  "presenter_stopped = do {
     _ \<leftarrow> vk PthreadJoin;
     sc_modify (\<lambda>sc. sc\<lparr>sc_presenter_running := False\<rparr>)
   }"

definition afmf_sc_presenter_drain :: "('w sys, unit) state" where
  "afmf_sc_presenter_drain = do {
     worker_drain;
     running \<leftarrow> sc_gets sc_presenter_running;
     whenb running (do { lock_mutex JobLock; unlock_mutex JobLock })
   }"

definition afmf_sc_presenter_stop :: "('w sys, unit) state" where
  "afmf_sc_presenter_stop = do {
     worker_stop;
     running \<leftarrow> sc_gets sc_presenter_running;
     whenb running (do { presenter_stop_request; presenter_stopped })
   }"

section \<open>Starting\<close>

definition afmf_sc_presenter_start :: "('w sys, bool) state" where
  "afmf_sc_presenter_start = do {
     sc \<leftarrow> sc_gets id;
     if sc_presenter_running sc \<and> sc_worker_running sc then return True
     else if \<not> sc_async sc \<or> sc_presenter_stop sc \<or> sc_worker_stop sc then return False
     else do {
       presenter \<leftarrow> (if sc_presenter_running sc then return 0 else vk PthreadCreate);
       if presenter \<noteq> 0 then do {
         sc_modify (\<lambda>sc. sc\<lparr>sc_presenter_stop := True\<rparr>);
         return False
       } else do {
         sc_modify (\<lambda>sc. sc\<lparr>sc_presenter_running := True\<rparr>);
         worker \<leftarrow> vk PthreadCreate;
         if worker \<noteq> 0 then do {
           sc_modify (\<lambda>sc. sc\<lparr>sc_worker_stop := True\<rparr>);
           return False
         } else do {
           sc_modify (\<lambda>sc. sc\<lparr>sc_worker_running := True\<rparr>);
           return True
         }
       }
     }
   }"

lemma locks_threads:
  "locks [] afmf_sc_presenter_drain (\<lambda>_. [])" "locks [] afmf_sc_presenter_stop (\<lambda>_. [])"
  "locks H afmf_sc_presenter_start (\<lambda>_. H)"
  unfolding afmf_sc_presenter_drain_def worker_drain_def afmf_sc_presenter_stop_def worker_stop_def
    worker_stop_request_def worker_stopped_def presenter_stop_request_def presenter_stopped_def
    afmf_sc_presenter_start_def
  by (intro locks_wp; simp)+

lemma emits_threads:
  "emits quiet afmf_sc_presenter_drain" "emits quiet afmf_sc_presenter_stop" "emits quiet afmf_sc_presenter_start"
  unfolding afmf_sc_presenter_drain_def worker_drain_def afmf_sc_presenter_stop_def worker_stop_def
    worker_stop_request_def worker_stopped_def presenter_stop_request_def presenter_stopped_def
    afmf_sc_presenter_start_def
  by (intro emits_intros; simp)+

section \<open>The state of the threads\<close>

text \<open>
  What \<open>afmf_sc_presenter_start\<close> and \<open>afmf_sc_presenter_stop\<close> keep: the work thread only runs beside
  the presentation thread, a thread told to stop is not running again, and only a swapchain with a
  queue of its own has threads.
\<close>

definition threads_ok :: "afmf_swapchain \<Rightarrow> bool" where
  "threads_ok sc \<longleftrightarrow>
     (sc_worker_running sc \<longrightarrow> sc_presenter_running sc \<and> \<not> sc_worker_stop sc)
   \<and> (sc_presenter_running sc \<longrightarrow> sc_async sc \<and> \<not> sc_presenter_stop sc)"



end
