(* ===== verification/Hook.thy ===== *)
theory Hook
  imports Threads
begin

text \<open>
  The threaded path of \<open>afmf_sc_present_generated\<close> (src/src/swapchain.c) in its segments, cut where the
  hook waits on a condition variable: the job and the slot, the frame reserved against the images in
  flight, the empty submission that consumes the application's semaphores, the frame queued for the
  work thread, the results of earlier presents.
\<close>

section \<open>The segments\<close>

text \<open>The job for a chain the threads carry, and the slot it takes.\<close>

definition hook_take_slot :: "('w sys, nat) state" where
  "hook_take_slot = do {
     slot_index \<leftarrow> sc_gets sc_slot_index;
     sc_modify (\<lambda>sc. sc\<lparr>sc_slot_index := (sc_slot_index sc + 1) mod sc_image_count sc\<rparr>);
     return slot_index
   }"

text \<open>The condition the hook waits for, and the reservation once it holds.\<close>

definition hook_has_room :: "afmf_swapchain \<Rightarrow> bool" where
  "hook_has_room sc \<longleftrightarrow> \<not> (sc_in_flight sc \<ge> sc_image_count sc \<and> \<not> sc_presenter_stop sc)"

definition hook_reserve :: "('w sys, unit) state" where
  "hook_reserve = do {
     lock_mutex JobLock;
     sc_modify (\<lambda>sc. sc\<lparr>sc_in_flight := sc_in_flight sc + 1\<rparr>);
     unlock_mutex JobLock
   }"

definition hook_adapter :: "handle list \<Rightarrow> nat \<Rightarrow> ('w sys, vk_result) state" where
  "hook_adapter waits slot_index = do {
     queue \<leftarrow> dev_gets dev_async_queue;
     app \<leftarrow> sc_gets (\<lambda>sc. sc_sem_app sc ! slot_index);
     lock_mutex AsyncLock;
     res \<leftarrow> vk (QueueSubmit queue \<lparr>si_waits = waits, si_cmds = [], si_signals = [app]\<rparr> VK_NULL_HANDLE);
     unlock_mutex AsyncLock;
     return res
   }"

text \<open>When that submission fails: the reservation and the slot given back.\<close>

definition hook_cancel :: "nat \<Rightarrow> ('w sys, unit) state" where
  "hook_cancel slot_index = do {
     lock_mutex JobLock;
     sc_modify (\<lambda>sc. sc\<lparr>sc_in_flight := sc_in_flight sc - 1\<rparr>);
     unlock_mutex JobLock;
     sc_modify (\<lambda>sc. sc\<lparr>sc_slot_index := slot_index\<rparr>)
   }"

definition hook_queue :: "nat \<Rightarrow> afmf_present_job \<Rightarrow> ('w sys, unit) state" where
  "hook_queue slot_index job = do {
     lock_mutex WorkLock;
     sc_modify (work_push \<lparr>frame_slot = slot_index, frame_present = job\<rparr>);
     unlock_mutex WorkLock
   }"

text \<open>The deferred result, reset once read, and whether the work thread failed.\<close>

definition hook_results :: "('w sys, vk_result \<times> bool) state" where
  "hook_results = do {
     lock_mutex JobLock;
     res \<leftarrow> sc_gets sc_deferred_result;
     sc_modify (\<lambda>sc. sc\<lparr>sc_deferred_result := VK_SUCCESS\<rparr>);
     failed \<leftarrow> sc_gets sc_worker_failed;
     unlock_mutex JobLock;
     return (res, failed)
   }"

lemma locks_hook:
  "locks H hook_take_slot (\<lambda>_. H)"
  "locks [] hook_reserve (\<lambda>_. [])" "locks [] (hook_adapter waits slot_index) (\<lambda>_. [])"
  "locks [] (hook_cancel slot_index) (\<lambda>_. [])" "locks [] (hook_queue slot_index job) (\<lambda>_. [])"
  "locks [] hook_results (\<lambda>_. [])"
  unfolding hook_take_slot_def hook_reserve_def hook_adapter_def hook_cancel_def hook_queue_def hook_results_def
  by (intro locks_wp; simp)+

lemma frames_hook_adapter: "frames sc_fixed (hook_adapter waits slot_index)"
  unfolding hook_adapter_def by (intro frames_rules)

lemma frames_hook_results: "frames sc_fixed hook_results"
  unfolding hook_results_def by (intro frames_rules) (simp add: sc_fixed_def)

lemma hook_adapter_submits:
  assumes "run_state (hook_adapter waits k) s = (res, s')"
  shows "\<exists>tr. eff_trace s' = eff_trace s @ tr \<and> presents tr = []
    \<and> submits tr = (if res = VK_SUCCESS
         then [(\<lparr>si_waits = waits, si_cmds = [], si_signals = [sc_sem_app (sys_sc s) ! k]\<rparr>, VK_NULL_HANDLE)] else [])"
  using assms by (auto simp: hook_adapter_def run_effects split: prod.splits)

section \<open>The cadence leaves the queues alone\<close>

lemma frames_update_cadence: "frames sc_fixed afmf_sc_update_cadence"
  unfolding afmf_sc_update_cadence_def reset_stats_def Let_def
  by (intro frames_rules; simp add: sc_fixed_def)

end
