(* ===== verification/Flow.thy ===== *)
theory Flow
  imports Hook
begin

text \<open>
  The protocol between the hook, the work thread and the presentation thread, on its own: the
  queues as lists, the counts, and where each thread is. It is the specification \<open>Pipeline\<close> shows
  the code to refine; its invariants, its progress and its measure are proved here once.
  \<open>fl_flight\<close> are the frames between the hook's queueing and the end of their presents, in order;
  \<open>fl_accepted\<close> and \<open>fl_presented\<close> are the frames queued and the real frames presented so far, each as
  its image and its number.
\<close>

section \<open>Where the threads are\<close>

datatype hook_pc =
    HIdle
  | HReserve "handle list" nat afmf_present_job \<comment> \<open>waiting for room\<close>
  | HAdapter "handle list" nat afmf_present_job
  | HCancel nat
  | HQueue nat afmf_present_job \<comment> \<open>waiting for the work queue\<close>
  | HResults
  | HStop
  | HJoinWorker
  | HJoinPresenter
  | HStopped

datatype worker_pc = WIdle | WFrame afmf_frame_job | WHand afmf_present_job | WDrop | WDone

datatype presenter_pc =
    PIdle
  | PCompanion afmf_present_job bool
  | PHold afmf_present_job bool vk_result
  | PWait afmf_present_job vk_result
  | PReal afmf_present_job vk_result
  | PRefill vk_result vk_result
  | PFinish vk_result vk_result real
  | PDone

record flow =
  fl_n :: nat \<comment> \<open>\<open>image_count\<close>\<close>
  fl_fences :: "handle list"
  fl_next :: nat \<comment> \<open>\<open>slot_index\<close>\<close>
  fl_flying :: nat \<comment> \<open>\<open>in_flight\<close>\<close>
  fl_work :: "afmf_frame_job list"
  fl_jobs :: "afmf_present_job list"
  fl_wstop :: bool
  fl_pstop :: bool
  fl_hook :: hook_pc
  fl_worker :: worker_pc
  fl_presenter :: presenter_pc
  fl_flight :: "afmf_frame_job list"
  fl_accepted :: "(nat \<times> nat) list"
  fl_presented :: "(nat \<times> nat) list"

definition key :: "afmf_present_job \<Rightarrow> nat \<times> nat" where
  "key job = (job_real_image job, job_ordinal job)"

abbreviation "fkey frame \<equiv> key (frame_present frame)"

definition fresh :: "afmf_present_job \<Rightarrow> bool" where
  "fresh job \<longleftrightarrow> \<not> job_generate job \<and> \<not> job_real_unwaited job"

section \<open>The steps\<close>

inductive flow_step :: "flow \<Rightarrow> flow \<Rightarrow> bool" where
  f_take: "fl_hook f = HIdle \<Longrightarrow> fresh job \<Longrightarrow>
    flow_step f (f\<lparr>fl_next := (fl_next f + 1) mod fl_n f, fl_hook := HReserve waits (fl_next f) job\<rparr>)"
| f_reserve: "fl_hook f = HReserve waits k job \<Longrightarrow> fl_flying f < fl_n f \<or> fl_pstop f \<Longrightarrow>
    flow_step f (f\<lparr>fl_flying := fl_flying f + 1, fl_hook := HAdapter waits k job\<rparr>)"
| f_adapter: "fl_hook f = HAdapter waits k job \<Longrightarrow> flow_step f (f\<lparr>fl_hook := HQueue k job\<rparr>)"
| f_refused: "fl_hook f = HAdapter waits k job \<Longrightarrow> flow_step f (f\<lparr>fl_hook := HCancel k\<rparr>)"
| f_cancel: "fl_hook f = HCancel k \<Longrightarrow>
    flow_step f (f\<lparr>fl_next := k, fl_flying := fl_flying f - 1, fl_hook := HStop\<rparr>)"
| f_queue: "fl_hook f = HQueue k job \<Longrightarrow> length (fl_work f) < AFMF_MAX_JOBS \<Longrightarrow>
    flow_step f (f\<lparr>fl_work := fl_work f @ [\<lparr>frame_slot = k, frame_present = job\<rparr>], fl_hook := HResults,
                  fl_flight := fl_flight f @ [\<lparr>frame_slot = k, frame_present = job\<rparr>],
                  fl_accepted := fl_accepted f @ [key job]\<rparr>)"
| f_results: "fl_hook f = HResults \<Longrightarrow> h = HIdle \<or> h = HStop \<Longrightarrow> flow_step f (f\<lparr>fl_hook := h\<rparr>)"
| f_teardown: "fl_hook f = HIdle \<Longrightarrow> flow_step f (f\<lparr>fl_hook := HStop\<rparr>)"
| f_stop_worker: "fl_hook f = HStop \<Longrightarrow> flow_step f (f\<lparr>fl_wstop := True, fl_hook := HJoinWorker\<rparr>)"
| f_stop_presenter: "fl_hook f = HJoinWorker \<Longrightarrow> fl_worker f = WDone \<Longrightarrow>
    flow_step f (f\<lparr>fl_pstop := True, fl_hook := HJoinPresenter\<rparr>)"
| f_stopped: "fl_hook f = HJoinPresenter \<Longrightarrow> fl_presenter f = PDone \<Longrightarrow> flow_step f (f\<lparr>fl_hook := HStopped\<rparr>)"
| w_take: "fl_worker f = WIdle \<Longrightarrow> fl_work f = frame # rest \<Longrightarrow> flow_step f (f\<lparr>fl_worker := WFrame frame\<rparr>)"
| w_end: "fl_worker f = WIdle \<Longrightarrow> fl_work f = [] \<Longrightarrow> fl_wstop f \<Longrightarrow> flow_step f (f\<lparr>fl_worker := WDone\<rparr>)"
| w_frame: "fl_worker f = WFrame frame \<Longrightarrow> key job = fkey frame \<Longrightarrow>
    (job_generate job \<longrightarrow> job_done job = fl_fences f ! frame_slot frame) \<Longrightarrow>
    flow_step f (f\<lparr>fl_worker := WHand job\<rparr>)"
| w_hand: "fl_worker f = WHand job \<Longrightarrow> length (fl_jobs f) < AFMF_MAX_JOBS \<Longrightarrow>
    flow_step f (f\<lparr>fl_jobs := fl_jobs f @ [job], fl_worker := WDrop\<rparr>)"
| w_drop: "fl_worker f = WDrop \<Longrightarrow> flow_step f (f\<lparr>fl_work := tl (fl_work f), fl_worker := WIdle\<rparr>)"
| p_take: "fl_presenter f = PIdle \<Longrightarrow> fl_jobs f = job # rest \<Longrightarrow>
    flow_step f (f\<lparr>fl_presenter := PCompanion job draining\<rparr>)"
| p_end: "fl_presenter f = PIdle \<Longrightarrow> fl_jobs f = [] \<Longrightarrow> fl_pstop f \<Longrightarrow> flow_step f (f\<lparr>fl_presenter := PDone\<rparr>)"
| p_companion: "fl_presenter f = PCompanion job draining \<Longrightarrow>
    flow_step f (f\<lparr>fl_presenter := PHold job draining first\<rparr>)"
| p_hold: "fl_presenter f = PHold job draining first \<Longrightarrow> pc = PWait job first \<or> pc = PReal job first \<Longrightarrow>
    flow_step f (f\<lparr>fl_presenter := pc\<rparr>)"
| p_wait: "fl_presenter f = PWait job first \<Longrightarrow> flow_step f (f\<lparr>fl_presenter := PReal job first\<rparr>)"
| p_real: "fl_presenter f = PReal job first \<Longrightarrow>
    flow_step f (f\<lparr>fl_presenter := PRefill first second, fl_presented := fl_presented f @ [key job]\<rparr>)"
| p_refill: "fl_presenter f = PRefill first second \<Longrightarrow> flow_step f (f\<lparr>fl_presenter := PFinish first second ms\<rparr>)"
| p_finish: "fl_presenter f = PFinish first second ms \<Longrightarrow>
    flow_step f (f\<lparr>fl_jobs := tl (fl_jobs f), fl_flying := fl_flying f - 1, fl_presenter := PIdle,
                  fl_flight := tl (fl_flight f)\<rparr>)"

definition flow_start :: "flow \<Rightarrow> bool" where
  "flow_start f \<longleftrightarrow>
     0 < fl_n f \<and> fl_n f \<le> length (fl_fences f) \<and> distinct (fl_fences f) \<and> fl_next f < fl_n f \<and> fl_flying f = 0 \<and> fl_work f = []
   \<and> fl_jobs f = [] \<and> \<not> fl_wstop f \<and> \<not> fl_pstop f \<and> fl_hook f = HIdle \<and> fl_worker f = WIdle
   \<and> fl_presenter f = PIdle \<and> fl_flight f = [] \<and> fl_accepted f = fl_presented f"

section \<open>The invariant\<close>

text \<open>The slot the next frame takes, whether the hook holds a place, and the frames not handed on yet.\<close>

fun hook_slot :: "hook_pc \<Rightarrow> nat option" where
  "hook_slot (HReserve waits k job) = Some k"
| "hook_slot (HAdapter waits k job) = Some k"
| "hook_slot (HCancel k) = Some k"
| "hook_slot (HQueue k job) = Some k"
| "hook_slot h = None"

fun hook_place :: "hook_pc \<Rightarrow> nat" where
  "hook_place (HAdapter waits k job) = 1"
| "hook_place (HCancel k) = 1"
| "hook_place (HQueue k job) = 1"
| "hook_place h = 0"

fun hook_job :: "hook_pc \<Rightarrow> afmf_present_job option" where
  "hook_job (HReserve waits k job) = Some job"
| "hook_job (HAdapter waits k job) = Some job"
| "hook_job (HQueue k job) = Some job"
| "hook_job h = None"

definition next_of :: "hook_pc \<Rightarrow> nat \<Rightarrow> nat" where
  "next_of h n = (case hook_slot h of Some k \<Rightarrow> k | None \<Rightarrow> n)"

lemma next_of_simps [simp]:
  "next_of HIdle n = n" "next_of (HReserve waits k job) n = k" "next_of (HAdapter waits k job) n = k"
  "next_of (HCancel k) n = k" "next_of (HQueue k job) n = k" "next_of HResults n = n" "next_of HStop n = n"
  "next_of HJoinWorker n = n" "next_of HJoinPresenter n = n" "next_of HStopped n = n"
  by (simp_all add: next_of_def)

definition next_slot :: "flow \<Rightarrow> nat" where
  "next_slot f = next_of (fl_hook f) (fl_next f)"

definition pending :: "flow \<Rightarrow> afmf_frame_job list" where
  "pending f = (if fl_worker f = WDrop then tl (fl_work f) else fl_work f)"

fun past_real :: "presenter_pc \<Rightarrow> bool" where
  "past_real (PRefill first second) = True"
| "past_real (PFinish first second ms) = True"
| "past_real pc = False"

fun presenter_job :: "presenter_pc \<Rightarrow> afmf_present_job option" where
  "presenter_job (PCompanion job draining) = Some job"
| "presenter_job (PHold job draining first) = Some job"
| "presenter_job (PWait job first) = Some job"
| "presenter_job (PReal job first) = Some job"
| "presenter_job pc = None"

definition counts_ok :: "flow \<Rightarrow> bool" where
  "counts_ok f \<longleftrightarrow>
     length (fl_flight f) + hook_place (fl_hook f) = fl_flying f \<and> fl_flying f \<le> fl_n f
   \<and> 0 < fl_n f \<and> fl_n f \<le> length (fl_fences f) \<and> distinct (fl_fences f)"

text \<open>The slots of the frames in flight are the ones before the next, in order round the ring.\<close>

definition slots_ok :: "flow \<Rightarrow> bool" where
  "slots_ok f \<longleftrightarrow>
     fl_next f < fl_n f \<and> next_slot f < fl_n f
   \<and> (\<forall>k. hook_slot (fl_hook f) = Some k \<longrightarrow> fl_next f = (k + 1) mod fl_n f)
   \<and> (\<forall>i < length (fl_flight f). frame_slot (fl_flight f ! i) < fl_n f
        \<and> (frame_slot (fl_flight f ! i) + (length (fl_flight f) - i)) mod fl_n f = next_slot f)"

definition worker_ok :: "flow \<Rightarrow> bool" where
  "worker_ok f \<longleftrightarrow>
     (case fl_worker f of
        WFrame frame \<Rightarrow> fl_work f \<noteq> [] \<and> frame = hd (fl_work f)
      | WHand job \<Rightarrow> fl_work f \<noteq> [] \<and> key job = fkey (hd (fl_work f))
          \<and> (job_generate job \<longrightarrow> job_done job = fl_fences f ! frame_slot (hd (fl_work f)))
      | WDrop \<Rightarrow> fl_work f \<noteq> []
      | WDone \<Rightarrow> fl_work f = [] \<and> fl_wstop f
      | WIdle \<Rightarrow> True)"

definition presenter_ok :: "flow \<Rightarrow> bool" where
  "presenter_ok f \<longleftrightarrow>
     (\<forall>job. presenter_job (fl_presenter f) = Some job \<longrightarrow> fl_jobs f \<noteq> [] \<and> job = hd (fl_jobs f))
   \<and> (past_real (fl_presenter f) \<longrightarrow> fl_jobs f \<noteq> [])
   \<and> (fl_presenter f = PDone \<longrightarrow> fl_jobs f = [] \<and> fl_pstop f)"

text \<open>The frames in flight are those handed on, then those still with the work thread.\<close>

definition order_ok :: "flow \<Rightarrow> bool" where
  "order_ok f \<longleftrightarrow>
     pending f = drop (length (fl_jobs f)) (fl_flight f) \<and> length (fl_jobs f) \<le> length (fl_flight f)
   \<and> (\<forall>i < length (fl_jobs f). key (fl_jobs f ! i) = fkey (fl_flight f ! i)
        \<and> (job_generate (fl_jobs f ! i) \<longrightarrow> job_done (fl_jobs f ! i) = fl_fences f ! frame_slot (fl_flight f ! i)))
   \<and> (\<forall>frame \<in> set (pending f). fresh (frame_present frame))
   \<and> (\<forall>job. hook_job (fl_hook f) = Some job \<longrightarrow> fresh job)"

definition conserved :: "flow \<Rightarrow> bool" where
  "conserved f \<longleftrightarrow>
     fl_accepted f = fl_presented f @ map fkey (if past_real (fl_presenter f) then tl (fl_flight f) else fl_flight f)"

definition stops_ok :: "flow \<Rightarrow> bool" where
  "stops_ok f \<longleftrightarrow>
     (fl_wstop f \<longleftrightarrow> fl_hook f \<in> {HJoinWorker, HJoinPresenter, HStopped})
   \<and> (fl_pstop f \<longleftrightarrow> fl_hook f \<in> {HJoinPresenter, HStopped})
   \<and> (fl_hook f \<in> {HJoinPresenter, HStopped} \<longrightarrow> fl_worker f = WDone)
   \<and> (fl_hook f = HStopped \<longrightarrow> fl_presenter f = PDone)"

named_theorems flow_parts

lemmas [flow_parts] = counts_ok_def slots_ok_def worker_ok_def presenter_ok_def order_ok_def conserved_def stops_ok_def

definition flow_ok :: "flow \<Rightarrow> bool" where
  "flow_ok f \<longleftrightarrow> counts_ok f \<and> slots_ok f \<and> worker_ok f \<and> presenter_ok f \<and> order_ok f \<and> conserved f \<and> stops_ok f"

lemma flow_start_ok: "flow_start f \<Longrightarrow> flow_ok f"
  by (simp add: flow_ok_def flow_start_def flow_parts next_slot_def pending_def)

lemma jobs_in_flight:
  assumes "flow_ok f" and "fl_jobs f \<noteq> []"
  shows "fl_flight f \<noteq> []" and "key (hd (fl_jobs f)) = fkey (hd (fl_flight f))"
proof -
  show ne: "fl_flight f \<noteq> []" using assms by (auto simp: flow_ok_def order_ok_def)
  have "key (fl_jobs f ! 0) = fkey (fl_flight f ! 0)"
    using assms by (auto simp: flow_ok_def order_ok_def)
  then show "key (hd (fl_jobs f)) = fkey (hd (fl_flight f))" using assms(2) ne by (simp add: hd_conv_nth)
qed

lemma step_counts: "flow_step f g \<Longrightarrow> flow_ok f \<Longrightarrow> counts_ok g"
proof (induction rule: flow_step.induct)
  case (f_reserve f waits k job)
  then have "\<not> fl_pstop f" by (auto simp: flow_ok_def stops_ok_def)
  with f_reserve show ?case by (simp add: flow_ok_def counts_ok_def)
next
  case (p_finish f first second ms)
  then have "fl_jobs f \<noteq> []" by (simp add: flow_ok_def presenter_ok_def)
  from jobs_in_flight(1) [OF p_finish(2) this] p_finish show ?case
    by (cases "fl_flight f") (auto simp: flow_ok_def counts_ok_def)
qed (auto simp: flow_ok_def counts_ok_def)

lemma step_worker: "flow_step f g \<Longrightarrow> flow_ok f \<Longrightarrow> worker_ok g"
proof (induction rule: flow_step.induct)
  case (f_queue f k job)
  then have "fl_worker f \<noteq> WDone" by (auto simp: flow_ok_def worker_ok_def stops_ok_def)
  with f_queue show ?case by (auto simp: flow_ok_def worker_ok_def split: worker_pc.splits)
next
  case (w_frame f frame job)
  then show ?case by (auto simp: flow_ok_def worker_ok_def)
qed (auto simp: flow_ok_def worker_ok_def split: worker_pc.splits)

lemma step_presenter: "flow_step f g \<Longrightarrow> flow_ok f \<Longrightarrow> presenter_ok g"
proof (induction rule: flow_step.induct)
  case (w_hand f job)
  then have "fl_presenter f \<noteq> PDone" by (auto simp: flow_ok_def presenter_ok_def stops_ok_def)
  with w_hand show ?case by (auto simp: flow_ok_def presenter_ok_def)
next
  case (p_hold f job draining first pc)
  then show ?case by (auto simp: flow_ok_def presenter_ok_def)
qed (auto simp: flow_ok_def presenter_ok_def)

lemma step_stops: "flow_step f g \<Longrightarrow> flow_ok f \<Longrightarrow> stops_ok g"
  by (induction rule: flow_step.induct) (auto simp: flow_ok_def stops_ok_def presenter_ok_def worker_ok_def)

lemma step_conserved: "flow_step f g \<Longrightarrow> flow_ok f \<Longrightarrow> conserved g"
proof (induction rule: flow_step.induct)
  case (f_queue f k job)
  have "past_real (fl_presenter f) \<Longrightarrow> fl_flight f \<noteq> []"
    using jobs_in_flight(1) [OF f_queue(3)] f_queue(3) by (simp add: flow_ok_def presenter_ok_def)
  with f_queue show ?case by (auto simp: flow_ok_def conserved_def)
next
  case (p_real f job first second)
  then have job: "fl_jobs f \<noteq> []" "job = hd (fl_jobs f)" by (simp_all add: flow_ok_def presenter_ok_def)
  with jobs_in_flight [OF p_real(2)] p_real show ?case
    by (cases "fl_flight f") (auto simp: flow_ok_def conserved_def)
next
  case (p_hold f job draining first pc)
  then show ?case by (auto simp: flow_ok_def conserved_def)
qed (auto simp: flow_ok_def conserved_def)

lemma step_order: "flow_step f g \<Longrightarrow> flow_ok f \<Longrightarrow> order_ok g"
proof (induction rule: flow_step.induct)
  case (f_queue f k job)
  then have "fl_worker f = WDrop \<Longrightarrow> fl_work f \<noteq> []" by (simp add: flow_ok_def worker_ok_def)
  with f_queue show ?case
    by (auto simp: flow_ok_def order_ok_def pending_def nth_append split: if_splits)
next
  case (w_hand f job)
  then have w: "pending f = fl_work f" "fl_work f \<noteq> []" "key job = fkey (hd (fl_work f))"
      "job_generate job \<longrightarrow> job_done job = fl_fences f ! frame_slot (hd (fl_work f))"
    by (simp_all add: flow_ok_def worker_ok_def pending_def)
  then have d: "fl_work f = drop (length (fl_jobs f)) (fl_flight f)" and le: "length (fl_jobs f) \<le> length (fl_flight f)"
    using w_hand by (simp_all add: flow_ok_def order_ok_def)
  then have lt: "length (fl_jobs f) < length (fl_flight f)" using w(2) by simp
  then have h: "hd (fl_work f) = fl_flight f ! length (fl_jobs f)" using d by (simp add: hd_drop_conv_nth)
  have t: "tl (fl_work f) = drop (Suc (length (fl_jobs f))) (fl_flight f)" using d by (simp add: drop_Suc tl_drop)
  have "set (tl (fl_work f)) \<subseteq> set (pending f)" using w(1) w(2) by (simp add: list.set_sel(2) subsetI)
  with w_hand w h t lt show ?case
    by (auto simp: flow_ok_def order_ok_def pending_def nth_append less_Suc_eq)
next
  case (w_drop f)
  then show ?case by (simp add: flow_ok_def order_ok_def pending_def)
next
  case (p_finish f first second ms)
  then have ne: "fl_jobs f \<noteq> []" by (simp add: flow_ok_def presenter_ok_def)
  note fl = jobs_in_flight(1) [OF p_finish(2) this]
  obtain j js where j: "fl_jobs f = j # js" using ne by (cases "fl_jobs f") auto
  obtain x xs where x: "fl_flight f = x # xs" using fl by (cases "fl_flight f") auto
  from p_finish show ?case
    by (auto simp: flow_ok_def order_ok_def pending_def j x)
next
  case (f_take f job waits)
  then show ?case by (auto simp: flow_ok_def order_ok_def pending_def)
next
  case (w_take f frame rest)
  have "pending (f\<lparr>fl_worker := WFrame frame\<rparr>) = pending f" using w_take(1) by (simp add: pending_def)
  with w_take(3) show ?case by (simp add: flow_ok_def order_ok_def)
qed (auto simp: flow_ok_def order_ok_def pending_def)

lemma step_slots: "flow_step f g \<Longrightarrow> flow_ok f \<Longrightarrow> slots_ok g"
proof (induction rule: flow_step.induct)
  case (f_take f job waits)
  then show ?case by (auto simp: flow_ok_def slots_ok_def counts_ok_def next_slot_def)
next
  case (f_queue f k job)
  let ?n = "fl_n f" and ?l = "length (fl_flight f)"
  have old: "frame_slot (fl_flight f ! i) < ?n"
      "(frame_slot (fl_flight f ! i) + (?l - i)) mod ?n = k" if "i < ?l" for i
    using f_queue that by (simp_all add: flow_ok_def slots_ok_def next_slot_def)
  have k: "k < ?n" "fl_next f = (k + 1) mod ?n" "fl_next f < ?n"
    using f_queue by (simp_all add: flow_ok_def slots_ok_def next_slot_def)
  have "(frame_slot (fl_flight f ! i) + (Suc ?l - i)) mod ?n = fl_next f" if "i < ?l" for i
  proof -
    have "frame_slot (fl_flight f ! i) + (Suc ?l - i) = (frame_slot (fl_flight f ! i) + (?l - i)) + 1"
      using that by simp
    then show ?thesis using old(2) [OF that] k(2) by (metis mod_add_left_eq)
  qed
  then show ?case using old(1) k f_queue
    by (auto simp: slots_ok_def next_slot_def nth_append less_Suc_eq)
next
  case (p_finish f first second ms)
  then have "fl_jobs f \<noteq> []" by (simp add: flow_ok_def presenter_ok_def)
  from jobs_in_flight(1) [OF p_finish(2) this] obtain x xs where x: "fl_flight f = x # xs" by (cases "fl_flight f") auto
  have "\<forall>i < length xs. frame_slot (xs ! i) < fl_n f \<and> (frame_slot (xs ! i) + (length xs - i)) mod fl_n f = next_slot f"
    using p_finish(2) unfolding flow_ok_def slots_ok_def x
    by (metis Suc_mono diff_Suc_Suc length_Cons nth_Cons_Suc)
  with p_finish show ?case by (simp add: flow_ok_def slots_ok_def x next_slot_def)
next
  case (f_cancel f k)
  then show ?case by (auto simp: flow_ok_def slots_ok_def next_slot_def)
qed (auto simp: flow_ok_def slots_ok_def next_slot_def)

lemma flow_step_ok: "flow_step f g \<Longrightarrow> flow_ok f \<Longrightarrow> flow_ok g"
  unfolding flow_ok_def [of g]
  by (intro conjI step_counts step_slots step_worker step_presenter step_order step_conserved step_stops)


section \<open>Slots in flight\<close>

lemma flight_slots_distinct:
  assumes ok: "flow_ok f"
  shows "distinct (map frame_slot (fl_flight f))"
    and "hook_place (fl_hook f) = 1 \<Longrightarrow> next_slot f \<notin> frame_slot ` set (fl_flight f)"
proof -
  let ?n = "fl_n f" and ?l = "length (fl_flight f)"
  have s: "(frame_slot (fl_flight f ! i) + (?l - i)) mod ?n = next_slot f" if "i < ?l" for i
    using ok that by (simp add: flow_ok_def slots_ok_def)
  have n: "frame_slot (fl_flight f ! i) < ?n" if "i < ?l" for i
    using ok that by (simp add: flow_ok_def slots_ok_def)
  have le: "?l + hook_place (fl_hook f) \<le> ?n" using ok by (simp add: flow_ok_def counts_ok_def)
  have ring: "i = j" if "(a + i) mod ?n = (a + j) mod ?n" "i \<le> ?l" "j \<le> ?l" "0 < i" "0 < j" for a i j
  proof -
    have "(a + 1 + (i - 1)) mod ?n = (a + 1 + (j - 1)) mod ?n" using that by simp
    then have "i - 1 = j - 1" using ring_index_inj [of "a + 1" "i - 1" ?n "j - 1"] that le by linarith
    then show ?thesis using that by simp
  qed
  show "distinct (map frame_slot (fl_flight f))"
  proof (simp add: distinct_conv_nth, intro allI impI)
    fix i j assume i: "i < ?l" and j: "j < ?l" and ne: "i \<noteq> j"
    show "frame_slot (fl_flight f ! i) \<noteq> frame_slot (fl_flight f ! j)"
    proof
      assume eq: "frame_slot (fl_flight f ! i) = frame_slot (fl_flight f ! j)"
      have "?l - i = ?l - j"
        using ring [of "frame_slot (fl_flight f ! j)" "?l - i" "?l - j"] s [OF i] s [OF j] eq i j by simp
      with i j ne show False by simp
    qed
  qed
  show "next_slot f \<notin> frame_slot ` set (fl_flight f)" if place: "hook_place (fl_hook f) = 1"
  proof
    assume "next_slot f \<in> frame_slot ` set (fl_flight f)"
    then obtain i where i: "i < ?l" and eq: "next_slot f = frame_slot (fl_flight f ! i)"
      by (metis imageE in_set_conv_nth)
    have "(frame_slot (fl_flight f ! i) + (?l - i)) mod ?n = (frame_slot (fl_flight f ! i) + 0) mod ?n"
      using s [OF i] n [OF i] eq by simp
    then have "?l - i = 0" using le place by (intro ring_index_inj [of _ _ ?n 0]) auto
    with i show False by simp
  qed
qed

text \<open>The fence of the slot the work thread is about to reset is not one a queued present waits on.\<close>

lemma worker_fence_free:
  assumes ok: "flow_ok f" and w: "fl_worker f = WFrame frame"
    and job: "job \<in> set (fl_jobs f)" "job_generate job"
  shows "job_done job \<noteq> fl_fences f ! frame_slot frame"
proof -
  obtain i where i: "i < length (fl_jobs f)" "job = fl_jobs f ! i" using job by (metis in_set_conv_nth)
  have o: "fl_work f = drop (length (fl_jobs f)) (fl_flight f)" "length (fl_jobs f) \<le> length (fl_flight f)"
    "job_done job = fl_fences f ! frame_slot (fl_flight f ! i)"
    using ok w i job by (auto simp: flow_ok_def order_ok_def pending_def)
  have "fl_work f \<noteq> []" "frame = hd (fl_work f)" using ok w by (simp_all add: flow_ok_def worker_ok_def)
  then have lt: "length (fl_jobs f) < length (fl_flight f)" and frame: "frame = fl_flight f ! length (fl_jobs f)"
    using o by (simp_all add: hd_drop_conv_nth)
  have "frame_slot (fl_flight f ! i) \<noteq> frame_slot frame"
    using flight_slots_distinct(1) [OF ok] i lt by (auto simp: frame distinct_conv_nth)
  moreover have "frame_slot (fl_flight f ! i) < length (fl_fences f)" "frame_slot frame < length (fl_fences f)"
  proof -
    have "k < length (fl_flight f) \<Longrightarrow> frame_slot (fl_flight f ! k) < length (fl_fences f)" for k
      using ok by (auto simp: flow_ok_def slots_ok_def counts_ok_def dest: spec [of _ k])
    then show "frame_slot (fl_flight f ! i) < length (fl_fences f)" "frame_slot frame < length (fl_fences f)"
      using i lt by (simp_all add: frame)
  qed
  ultimately show ?thesis using ok by (simp add: o(3) nth_eq_iff_index_eq flow_ok_def counts_ok_def)
qed

section \<open>Progress\<close>

text \<open>The steps of the two threads are the ones that leave the hook where it is.\<close>

definition thread_step :: "flow \<Rightarrow> flow \<Rightarrow> bool" where
  "thread_step f g \<longleftrightarrow> flow_step f g \<and> fl_hook g = fl_hook f"

fun worker_pos :: "worker_pc \<Rightarrow> nat" where
  "worker_pos (WFrame frame) = 1"
| "worker_pos (WHand job) = 2"
| "worker_pos WDrop = 10"
| "worker_pos pc = 0"

fun presenter_pos :: "presenter_pc \<Rightarrow> nat" where
  "presenter_pos (PCompanion job draining) = 1"
| "presenter_pos (PHold job draining first) = 2"
| "presenter_pos (PWait job first) = 3"
| "presenter_pos (PReal job first) = 4"
| "presenter_pos (PRefill first second) = 5"
| "presenter_pos (PFinish first second ms) = 6"
| "presenter_pos pc = 0"

definition work_left :: "flow \<Rightarrow> nat" where
  "work_left f = (11 * length (fl_work f) - worker_pos (fl_worker f))
     + (7 * length (fl_jobs f) - presenter_pos (fl_presenter f))
     + (if fl_worker f = WDone then 0 else 1) + (if fl_presenter f = PDone then 0 else 1)"

lemma length_pos: "xs \<noteq> [] \<Longrightarrow> \<exists>m. length xs = Suc m"
  by (cases xs) auto

lemma thread_step_decreases:
  assumes "thread_step f g" and "flow_ok f"
  shows "work_left g < work_left f"
proof -
  have "flow_step f g" "fl_hook g = fl_hook f" using assms(1) by (simp_all add: thread_step_def)
  then show ?thesis
    using assms(2)
    by (induction rule: flow_step.induct)
       (auto simp: flow_ok_def work_left_def worker_ok_def presenter_ok_def dest!: length_pos)
qed

lemma thread_step_accepted: "thread_step f g \<Longrightarrow> fl_accepted g = fl_accepted f"
  unfolding thread_step_def by (elim conjE) (erule flow_step.cases; simp)

lemma thread_progress:
  assumes ok: "flow_ok f" and left: "fl_work f \<noteq> [] \<or> fl_jobs f \<noteq> []"
  shows "\<exists>g. thread_step f g"
proof (cases "fl_jobs f")
  case (Cons job rest)
  have "fl_presenter f \<noteq> PDone" using ok Cons by (auto simp: flow_ok_def presenter_ok_def)
  then show ?thesis
    by (cases "fl_presenter f") (fastforce simp: thread_step_def Cons intro: flow_step.intros)+
next
  case Nil
  then obtain frame rest where w: "fl_work f = frame # rest" using left by (cases "fl_work f") auto
  have "fl_worker f \<noteq> WDone" using ok w by (auto simp: flow_ok_def worker_ok_def)
  moreover have "\<exists>g. thread_step f g" if "fl_worker f = WFrame frame'" for frame'
  proof -
    have "frame' = frame" "pending f = fl_work f" using ok that w by (auto simp: flow_ok_def worker_ok_def pending_def)
    then have "\<not> job_generate (frame_present frame')" using ok w by (simp add: flow_ok_def order_ok_def fresh_def)
    then have "flow_step f (f\<lparr>fl_worker := WHand (frame_present frame')\<rparr>)" by (intro w_frame [OF that]) simp_all
    then show ?thesis by (auto simp: thread_step_def)
  qed
  ultimately show ?thesis
    by (cases "fl_worker f") (fastforce simp: thread_step_def Nil w intro: flow_step.intros)+
qed

end
