(* ===== verification/Pipeline.thy ===== *)
theory Pipeline
  imports Flow
begin

text \<open>
  The three threads of a swapchain together: the hook on the application's thread
  (\<open>afmf_sc_present_generated\<close>, the teardown), the work thread and the presentation thread, as one step
  relation over the state they share. A step is the code of one thread between two points where
  it lets go of the queues' locks: the segments of \<open>Hook\<close>, \<open>Worker\<close>, \<open>Presenter\<close> and \<open>Threads\<close>, with
  the condition of each wait as its guard. A timed wait may end at any moment, so \<open>PWait\<close> has no
  guard. The relation is shown to refine \<open>Flow\<close>, whose invariants and progress then hold here.
\<close>

record 'w pipe =
  pipe_sys :: "'w sys"
  pipe_hook :: hook_pc
  pipe_worker :: worker_pc
  pipe_presenter :: presenter_pc
  pipe_flight :: "afmf_frame_job list"
  pipe_accepted :: "(nat \<times> nat) list"
  pipe_presented :: "(nat \<times> nat) list"

abbreviation "pipe_sc p \<equiv> sys_sc (pipe_sys p)"

section \<open>The steps\<close>

text \<open>
  The hook's first segment: the cadence numbers the present, the chain becomes the job, the frame
  takes its slot.
\<close>

definition hook_begin :: "nat \<Rightarrow> present_node list \<Rightarrow> ('w sys, bool \<times> nat \<times> afmf_present_job) state" where
  "hook_begin i chain = do {
     ordinal \<leftarrow> afmf_sc_update_cadence;
     sc \<leftarrow> sc_gets id;
     (case afmf_sc_job_from_chain sc chain (job_init i ordinal) of (carried', job) \<Rightarrow> do {
        t_start \<leftarrow> clock_gettime;
        k \<leftarrow> hook_take_slot;
        return (carried', k, job\<lparr>job_arrival := t_start\<rparr>)
      })
   }"

definition hook_stop_presenter :: "('w sys, unit) state" where
  "hook_stop_presenter = do { worker_stopped; presenter_stop_request }"

inductive pipe_step :: "'w pipe \<Rightarrow> 'w pipe \<Rightarrow> bool" where
  hook_take: "pipe_hook p = HIdle \<Longrightarrow> i < sc_image_count (pipe_sc p) \<Longrightarrow> length waits \<le> AFMF_MAX_APP_WAITS \<Longrightarrow>
    run_state (hook_begin i chain) (pipe_sys p) = ((True, k, job), s) \<Longrightarrow>
    pipe_step p (p\<lparr>pipe_sys := s, pipe_hook := HReserve waits k job\<rparr>)"
| hook_reserved: "pipe_hook p = HReserve waits k job \<Longrightarrow> hook_has_room (pipe_sc p) \<Longrightarrow>
    run_state hook_reserve (pipe_sys p) = (u, s) \<Longrightarrow>
    pipe_step p (p\<lparr>pipe_sys := s, pipe_hook := HAdapter waits k job\<rparr>)"
| hook_adapted: "pipe_hook p = HAdapter waits k job \<Longrightarrow> run_state (hook_adapter waits k) (pipe_sys p) = (res, s) \<Longrightarrow>
    pipe_step p (p\<lparr>pipe_sys := s, pipe_hook := (if res = VK_SUCCESS then HQueue k job else HCancel k)\<rparr>)"
| hook_cancelled: "pipe_hook p = HCancel k \<Longrightarrow> run_state (hook_cancel k) (pipe_sys p) = (u, s) \<Longrightarrow>
    pipe_step p (p\<lparr>pipe_sys := s, pipe_hook := HStop\<rparr>)"
| hook_queued: "pipe_hook p = HQueue k job \<Longrightarrow> sc_work_count (pipe_sc p) \<noteq> AFMF_MAX_JOBS \<Longrightarrow>
    run_state (hook_queue k job) (pipe_sys p) = (u, s) \<Longrightarrow>
    pipe_step p (p\<lparr>pipe_sys := s, pipe_hook := HResults,
                   pipe_flight := pipe_flight p @ [\<lparr>frame_slot = k, frame_present = job\<rparr>],
                   pipe_accepted := pipe_accepted p @ [key job]\<rparr>)"
| hook_returned: "pipe_hook p = HResults \<Longrightarrow> run_state hook_results (pipe_sys p) = ((res, failed), s) \<Longrightarrow>
    pipe_step p (p\<lparr>pipe_sys := s, pipe_hook := (if failed then HStop else HIdle)\<rparr>)"
| hook_teardown: "pipe_hook p = HIdle \<Longrightarrow> pipe_step p (p\<lparr>pipe_hook := HStop\<rparr>)"
| hook_stops_worker: "pipe_hook p = HStop \<Longrightarrow> run_state worker_stop_request (pipe_sys p) = (u, s) \<Longrightarrow>
    pipe_step p (p\<lparr>pipe_sys := s, pipe_hook := HJoinWorker\<rparr>)"
| hook_stops_presenter: "pipe_hook p = HJoinWorker \<Longrightarrow> pipe_worker p = WDone \<Longrightarrow>
    run_state hook_stop_presenter (pipe_sys p) = (u, s) \<Longrightarrow>
    pipe_step p (p\<lparr>pipe_sys := s, pipe_hook := HJoinPresenter\<rparr>)"
| hook_stopped: "pipe_hook p = HJoinPresenter \<Longrightarrow> pipe_presenter p = PDone \<Longrightarrow>
    run_state presenter_stopped (pipe_sys p) = (u, s) \<Longrightarrow> pipe_step p (p\<lparr>pipe_sys := s, pipe_hook := HStopped\<rparr>)"
| worker_takes: "pipe_worker p = WIdle \<Longrightarrow> sc_work_count (pipe_sc p) \<noteq> 0 \<Longrightarrow>
    run_state worker_take (pipe_sys p) = (work, s) \<Longrightarrow> pipe_step p (p\<lparr>pipe_sys := s, pipe_worker := WFrame work\<rparr>)"
| worker_ends: "pipe_worker p = WIdle \<Longrightarrow> sc_work_count (pipe_sc p) = 0 \<Longrightarrow> sc_worker_stop (pipe_sc p) \<Longrightarrow>
    pipe_step p (p\<lparr>pipe_worker := WDone\<rparr>)"
| worker_framed: "pipe_worker p = WFrame work \<Longrightarrow> run_state (worker_frame work) (pipe_sys p) = (job, s) \<Longrightarrow>
    pipe_step p (p\<lparr>pipe_sys := s, pipe_worker := WHand job\<rparr>)"
| worker_hands: "pipe_worker p = WHand job \<Longrightarrow> sc_job_count (pipe_sc p) \<noteq> AFMF_MAX_JOBS \<Longrightarrow>
    run_state (worker_hand job) (pipe_sys p) = (u, s) \<Longrightarrow> pipe_step p (p\<lparr>pipe_sys := s, pipe_worker := WDrop\<rparr>)"
| worker_drops: "pipe_worker p = WDrop \<Longrightarrow> run_state worker_drop (pipe_sys p) = (u, s) \<Longrightarrow>
    pipe_step p (p\<lparr>pipe_sys := s, pipe_worker := WIdle\<rparr>)"
| presenter_takes: "pipe_presenter p = PIdle \<Longrightarrow> sc_job_count (pipe_sc p) \<noteq> 0 \<Longrightarrow>
    run_state presenter_take (pipe_sys p) = ((job, draining), s) \<Longrightarrow>
    pipe_step p (p\<lparr>pipe_sys := s, pipe_presenter := PCompanion job draining\<rparr>)"
| presenter_ends: "pipe_presenter p = PIdle \<Longrightarrow> sc_job_count (pipe_sc p) = 0 \<Longrightarrow> sc_presenter_stop (pipe_sc p) \<Longrightarrow>
    pipe_step p (p\<lparr>pipe_presenter := PDone\<rparr>)"
| presenter_companioned: "pipe_presenter p = PCompanion job draining \<Longrightarrow>
    run_state (presenter_companion job) (pipe_sys p) = (first, s) \<Longrightarrow>
    pipe_step p (p\<lparr>pipe_sys := s, pipe_presenter := PHold job draining first\<rparr>)"
| presenter_holds: "pipe_presenter p = PHold job draining first \<Longrightarrow>
    run_state (presenter_hold job draining) (pipe_sys p) = (until, s) \<Longrightarrow>
    pipe_step p (p\<lparr>pipe_sys := s, pipe_presenter := (case until of Some t \<Rightarrow> PWait job first | None \<Rightarrow> PReal job first)\<rparr>)"
| presenter_waited: "pipe_presenter p = PWait job first \<Longrightarrow> pipe_step p (p\<lparr>pipe_presenter := PReal job first\<rparr>)"
| presenter_realized: "pipe_presenter p = PReal job first \<Longrightarrow> run_state (presenter_real job) (pipe_sys p) = (second, s) \<Longrightarrow>
    pipe_step p (p\<lparr>pipe_sys := s, pipe_presenter := PRefill first second,
                   pipe_presented := pipe_presented p @ [key job]\<rparr>)"
| presenter_refilled: "pipe_presenter p = PRefill first second \<Longrightarrow> run_state presenter_refill (pipe_sys p) = (ms, s) \<Longrightarrow>
    pipe_step p (p\<lparr>pipe_sys := s, pipe_presenter := PFinish first second ms\<rparr>)"
| presenter_finished: "pipe_presenter p = PFinish first second ms \<Longrightarrow>
    run_state (sc_modify (presenter_finish first second ms)) (pipe_sys p) = (u, s) \<Longrightarrow>
    pipe_step p (p\<lparr>pipe_sys := s, pipe_presenter := PIdle, pipe_flight := tl (pipe_flight p)\<rparr>)"

text \<open>Both threads just started, nothing in flight.\<close>

definition pipe_start :: "'w pipe \<Rightarrow> bool" where
  "pipe_start p \<longleftrightarrow>
     (let sc = pipe_sc p in
        work_ok sc \<and> jobs_ok sc \<and> sc_work_count sc = 0 \<and> sc_job_count sc = 0 \<and> sc_in_flight sc = 0
      \<and> 0 < sc_image_count sc \<and> length (sc_slots sc) = sc_image_count sc \<and> sc_slot_index sc < sc_image_count sc
      \<and> distinct (map slot_fence (sc_slots sc)) \<and> \<not> sc_worker_stop sc \<and> \<not> sc_presenter_stop sc
      \<and> \<not> sc_worker_busy sc)
   \<and> pipe_hook p = HIdle \<and> pipe_worker p = WIdle \<and> pipe_presenter p = PIdle
   \<and> pipe_flight p = [] \<and> pipe_accepted p = [] \<and> pipe_presented p = []"

inductive reachable :: "'w pipe \<Rightarrow> bool" where
  reach_start: "pipe_start p \<Longrightarrow> reachable p"
| reach_step: "reachable p \<Longrightarrow> pipe_step p q \<Longrightarrow> reachable q"

section \<open>The refinement\<close>

definition flow_of :: "'w pipe \<Rightarrow> flow" where
  "flow_of p =
     \<lparr> fl_n = sc_image_count (pipe_sc p), fl_fences = map slot_fence (sc_slots (pipe_sc p)),
       fl_next = sc_slot_index (pipe_sc p), fl_flying = sc_in_flight (pipe_sc p),
       fl_work = work_contents (pipe_sc p), fl_jobs = jobs_contents (pipe_sc p),
       fl_wstop = sc_worker_stop (pipe_sc p), fl_pstop = sc_presenter_stop (pipe_sc p),
       fl_hook = pipe_hook p, fl_worker = pipe_worker p, fl_presenter = pipe_presenter p,
       fl_flight = pipe_flight p, fl_accepted = pipe_accepted p, fl_presented = pipe_presented p \<rparr>"

definition pipe_ok :: "'w pipe \<Rightarrow> bool" where
  "pipe_ok p \<longleftrightarrow> work_ok (pipe_sc p) \<and> jobs_ok (pipe_sc p) \<and> flow_ok (flow_of p)"

lemma pipe_start_flow: "pipe_start p \<Longrightarrow> flow_start (flow_of p)"
  by (simp add: pipe_start_def flow_start_def flow_of_def Let_def work_contents_def jobs_contents_def)

lemma flow_of_pcs [simp]:
  "flow_of (p\<lparr>pipe_hook := h\<rparr>) = (flow_of p)\<lparr>fl_hook := h\<rparr>"
  "flow_of (p\<lparr>pipe_worker := w\<rparr>) = (flow_of p)\<lparr>fl_worker := w\<rparr>"
  "flow_of (p\<lparr>pipe_presenter := c\<rparr>) = (flow_of p)\<lparr>fl_presenter := c\<rparr>"
  "flow_of (p\<lparr>pipe_flight := xs\<rparr>) = (flow_of p)\<lparr>fl_flight := xs\<rparr>"
  "flow_of (p\<lparr>pipe_accepted := ks\<rparr>) = (flow_of p)\<lparr>fl_accepted := ks\<rparr>"
  "flow_of (p\<lparr>pipe_presented := ks\<rparr>) = (flow_of p)\<lparr>fl_presented := ks\<rparr>"
  by (simp_all add: flow_of_def)

lemma flow_of_fields [simp]:
  "fl_n (flow_of p) = sc_image_count (pipe_sc p)" "fl_fences (flow_of p) = map slot_fence (sc_slots (pipe_sc p))"
  "fl_next (flow_of p) = sc_slot_index (pipe_sc p)" "fl_flying (flow_of p) = sc_in_flight (pipe_sc p)"
  "fl_work (flow_of p) = work_contents (pipe_sc p)" "fl_jobs (flow_of p) = jobs_contents (pipe_sc p)"
  "fl_wstop (flow_of p) = sc_worker_stop (pipe_sc p)" "fl_pstop (flow_of p) = sc_presenter_stop (pipe_sc p)"
  "fl_hook (flow_of p) = pipe_hook p" "fl_worker (flow_of p) = pipe_worker p"
  "fl_presenter (flow_of p) = pipe_presenter p" "fl_flight (flow_of p) = pipe_flight p"
  "fl_accepted (flow_of p) = pipe_accepted p" "fl_presented (flow_of p) = pipe_presented p"
  by (simp_all add: flow_of_def)

text \<open>What \<open>flow_of\<close> sees of the swapchain, with the shape of the rings.\<close>

definition view where
  "view sc = ((sc_image_count sc, map slot_fence (sc_slots sc), sc_slot_index sc, sc_in_flight sc),
     (work_contents sc, jobs_contents sc, sc_worker_stop sc, sc_presenter_stop sc), work_ok sc, jobs_ok sc)"

lemma view_fixed: "sc_fixed sc' = sc_fixed sc \<Longrightarrow> view sc' = view sc"
  by (simp add: view_def sc_fixed_def work_contents_def jobs_contents_def work_ok_def jobs_ok_def)

lemma flow_of_sys:
  assumes "view (sys_sc s) = view (pipe_sc p)"
  shows "flow_of (p\<lparr>pipe_sys := s\<rparr>) = flow_of p" "work_ok (sys_sc s) = work_ok (pipe_sc p)"
    "jobs_ok (sys_sc s) = jobs_ok (pipe_sc p)"
  using assms by (simp_all add: view_def flow_of_def)

lemma frames_view: "frames sc_fixed m \<Longrightarrow> run_state m (pipe_sys p) = (a, s) \<Longrightarrow> view (sys_sc s) = view (pipe_sc p)"
  by (rule view_fixed) (rule frames_run)

lemma turn_view: "frames turn_kept m \<Longrightarrow> run_state m (pipe_sys p) = (a, s) \<Longrightarrow> view (sys_sc s) = view (pipe_sc p)"
  using frames_run by (fastforce simp: turn_kept_def intro: view_fixed)

lemma hook_begin_run:
  assumes "run_state (hook_begin i chain) (pipe_sys p) = ((ok, k, job), s)"
  shows "k = sc_slot_index (pipe_sc p)" and "fresh job"
    and "\<exists>sc. view sc = view (pipe_sc p) \<and> sys_sc s = sc\<lparr>sc_slot_index := (k + 1) mod sc_image_count (pipe_sc p)\<rparr>"
proof -
  obtain ordinal s1 where u: "run_state afmf_sc_update_cadence (pipe_sys p) = (ordinal, s1)" by fastforce
  obtain c j where c: "afmf_sc_job_from_chain (sys_sc s1) chain (job_init i ordinal) = (c, j)" by fastforce
  obtain t s2 where t: "run_state clock_gettime s1 = (t, s2)" by fastforce
  have s2: "sys_sc s2 = sys_sc s1" using t by (auto simp: run_clock split: prod.splits)
  have fx: "sc_fixed (sys_sc s1) = sc_fixed (pipe_sc p)" using frames_run [OF frames_update_cadence u] .
  then have same: "sc_slot_index (sys_sc s1) = sc_slot_index (pipe_sc p)" "sc_image_count (sys_sc s1) = sc_image_count (pipe_sc p)"
    by (simp_all add: sc_fixed_def)
  have r: "k = sc_slot_index (pipe_sc p)" "job = j\<lparr>job_arrival := t\<rparr>"
      "sys_sc s = (sys_sc s1)\<lparr>sc_slot_index := (k + 1) mod sc_image_count (pipe_sc p)\<rparr>"
    using assms by (auto simp: hook_begin_def u c t s2 same hook_take_slot_def)
  show "k = sc_slot_index (pipe_sc p)" by (fact r(1))
  have "job_rest j = job_rest (job_init i ordinal)"
    using job_rest_kept [of "sys_sc s1" chain "job_init i ordinal"] by (simp add: c)
  then show "fresh job" by (simp add: r fresh_def job_rest_def job_init_def)
  show "\<exists>sc. view sc = view (pipe_sc p) \<and> sys_sc s = sc\<lparr>sc_slot_index := (k + 1) mod sc_image_count (pipe_sc p)\<rparr>"
    using view_fixed [OF fx] r(3) by blast
qed

lemma view_parts:
  "view sc' = view sc \<Longrightarrow> work_ok sc' = work_ok sc" "view sc' = view sc \<Longrightarrow> jobs_ok sc' = jobs_ok sc"
  "view sc' = view sc \<Longrightarrow> sc_image_count sc' = sc_image_count sc"
  "view sc' = view sc \<Longrightarrow> map slot_fence (sc_slots sc') = map slot_fence (sc_slots sc)"
  "view sc' = view sc \<Longrightarrow> sc_slot_index sc' = sc_slot_index sc"
  "view sc' = view sc \<Longrightarrow> sc_in_flight sc' = sc_in_flight sc"
  "view sc' = view sc \<Longrightarrow> work_contents sc' = work_contents sc" "view sc' = view sc \<Longrightarrow> jobs_contents sc' = jobs_contents sc"
  "view sc' = view sc \<Longrightarrow> sc_worker_stop sc' = sc_worker_stop sc"
  "view sc' = view sc \<Longrightarrow> sc_presenter_stop sc' = sc_presenter_stop sc"
  by (simp_all add: view_def)

text \<open>Changes of one part of the swapchain, and what they do to the rest of the view.\<close>

lemma ring_updates [simp]:
  "work_contents (sc\<lparr>sc_slot_index := k\<rparr>) = work_contents sc" "jobs_contents (sc\<lparr>sc_slot_index := k\<rparr>) = jobs_contents sc"
  "work_contents (sc\<lparr>sc_in_flight := k\<rparr>) = work_contents sc" "jobs_contents (sc\<lparr>sc_in_flight := k\<rparr>) = jobs_contents sc"
  "work_contents (sc\<lparr>sc_worker_stop := b\<rparr>) = work_contents sc" "jobs_contents (sc\<lparr>sc_worker_stop := b\<rparr>) = jobs_contents sc"
  "work_contents (sc\<lparr>sc_presenter_stop := b\<rparr>) = work_contents sc" "jobs_contents (sc\<lparr>sc_presenter_stop := b\<rparr>) = jobs_contents sc"
  "work_contents (sc\<lparr>sc_worker_running := b\<rparr>) = work_contents sc" "jobs_contents (sc\<lparr>sc_worker_running := b\<rparr>) = jobs_contents sc"
  "work_contents (sc\<lparr>sc_presenter_running := b\<rparr>) = work_contents sc" "jobs_contents (sc\<lparr>sc_presenter_running := b\<rparr>) = jobs_contents sc"
  "work_contents (sc\<lparr>sc_worker_busy := b\<rparr>) = work_contents sc" "jobs_contents (sc\<lparr>sc_worker_busy := b\<rparr>) = jobs_contents sc"
  "work_contents (sc\<lparr>sc_refill_ms := x\<rparr>) = work_contents sc" "jobs_contents (sc\<lparr>sc_refill_ms := x\<rparr>) = jobs_contents sc"
  "work_contents (sc\<lparr>sc_deferred_result := r\<rparr>) = work_contents sc" "jobs_contents (sc\<lparr>sc_deferred_result := r\<rparr>) = jobs_contents sc"
  "work_contents (jobs_push j sc) = work_contents sc" "work_contents (jobs_pop sc) = work_contents sc"
  "jobs_contents (work_push w sc) = jobs_contents sc" "jobs_contents (work_pop sc) = jobs_contents sc"
  by (simp_all add: work_contents_def jobs_contents_def jobs_push_def jobs_pop_def work_push_def work_pop_def)

lemma ring_ok_updates [simp]:
  "work_ok (sc\<lparr>sc_slot_index := k\<rparr>) = work_ok sc" "jobs_ok (sc\<lparr>sc_slot_index := k\<rparr>) = jobs_ok sc"
  "work_ok (sc\<lparr>sc_in_flight := k\<rparr>) = work_ok sc" "jobs_ok (sc\<lparr>sc_in_flight := k\<rparr>) = jobs_ok sc"
  "work_ok (sc\<lparr>sc_worker_stop := b\<rparr>) = work_ok sc" "jobs_ok (sc\<lparr>sc_worker_stop := b\<rparr>) = jobs_ok sc"
  "work_ok (sc\<lparr>sc_presenter_stop := b\<rparr>) = work_ok sc" "jobs_ok (sc\<lparr>sc_presenter_stop := b\<rparr>) = jobs_ok sc"
  "work_ok (sc\<lparr>sc_worker_running := b\<rparr>) = work_ok sc" "jobs_ok (sc\<lparr>sc_worker_running := b\<rparr>) = jobs_ok sc"
  "work_ok (sc\<lparr>sc_presenter_running := b\<rparr>) = work_ok sc" "jobs_ok (sc\<lparr>sc_presenter_running := b\<rparr>) = jobs_ok sc"
  "work_ok (sc\<lparr>sc_worker_busy := b\<rparr>) = work_ok sc" "jobs_ok (sc\<lparr>sc_worker_busy := b\<rparr>) = jobs_ok sc"
  "work_ok (sc\<lparr>sc_refill_ms := x\<rparr>) = work_ok sc" "jobs_ok (sc\<lparr>sc_refill_ms := x\<rparr>) = jobs_ok sc"
  "work_ok (sc\<lparr>sc_deferred_result := r\<rparr>) = work_ok sc" "jobs_ok (sc\<lparr>sc_deferred_result := r\<rparr>) = jobs_ok sc"
  "work_ok (jobs_push j sc) = work_ok sc" "work_ok (jobs_pop sc) = work_ok sc"
  "jobs_ok (work_push w sc) = jobs_ok sc" "jobs_ok (work_pop sc) = jobs_ok sc"
  by (simp_all add: work_ok_def jobs_ok_def jobs_push_def jobs_pop_def work_push_def work_pop_def)

lemma ring_other [simp]:
  "sc_image_count (work_push w sc) = sc_image_count sc" "sc_slots (work_push w sc) = sc_slots sc"
  "sc_slot_index (work_push w sc) = sc_slot_index sc" "sc_in_flight (work_push w sc) = sc_in_flight sc"
  "sc_worker_stop (work_push w sc) = sc_worker_stop sc" "sc_presenter_stop (work_push w sc) = sc_presenter_stop sc"
  "sc_image_count (work_pop sc) = sc_image_count sc" "sc_slots (work_pop sc) = sc_slots sc"
  "sc_slot_index (work_pop sc) = sc_slot_index sc" "sc_in_flight (work_pop sc) = sc_in_flight sc"
  "sc_worker_stop (work_pop sc) = sc_worker_stop sc" "sc_presenter_stop (work_pop sc) = sc_presenter_stop sc"
  "sc_image_count (jobs_push j sc) = sc_image_count sc" "sc_slots (jobs_push j sc) = sc_slots sc"
  "sc_slot_index (jobs_push j sc) = sc_slot_index sc" "sc_in_flight (jobs_push j sc) = sc_in_flight sc"
  "sc_worker_stop (jobs_push j sc) = sc_worker_stop sc" "sc_presenter_stop (jobs_push j sc) = sc_presenter_stop sc"
  "sc_image_count (jobs_pop sc) = sc_image_count sc" "sc_slots (jobs_pop sc) = sc_slots sc"
  "sc_slot_index (jobs_pop sc) = sc_slot_index sc" "sc_in_flight (jobs_pop sc) = sc_in_flight sc"
  "sc_worker_stop (jobs_pop sc) = sc_worker_stop sc" "sc_presenter_stop (jobs_pop sc) = sc_presenter_stop sc"
  by (simp_all add: jobs_push_def jobs_pop_def work_push_def work_pop_def)

lemma working_frame:
  assumes ok: "flow_ok f" and w: "fl_worker f = WFrame frame"
  shows "frame_slot frame < length (fl_fences f)" "fresh (frame_present frame)"
proof -
  have ne: "fl_work f \<noteq> []" "frame = hd (fl_work f)" using ok w by (simp_all add: flow_ok_def worker_ok_def)
  have p: "pending f = fl_work f" using w by (simp add: pending_def)
  have d: "fl_work f = drop (length (fl_jobs f)) (fl_flight f)" "\<forall>x \<in> set (fl_work f). fresh (frame_present x)"
    using ok p by (simp_all add: flow_ok_def order_ok_def)
  then show "fresh (frame_present frame)" using ne by simp
  have lt: "length (fl_jobs f) < length (fl_flight f)" using d(1) ne(1) by simp
  then have "frame = fl_flight f ! length (fl_jobs f)" using d(1) ne(2) by (simp add: hd_drop_conv_nth)
  moreover have "\<forall>i < length (fl_flight f). frame_slot (fl_flight f ! i) < fl_n f" "fl_n f \<le> length (fl_fences f)"
    using ok by (simp_all add: flow_ok_def slots_ok_def counts_ok_def)
  ultimately show "frame_slot frame < length (fl_fences f)" using lt by (metis less_le_trans)
qed

lemma work_front_hd: "work_ok sc \<Longrightarrow> sc_work_count sc \<noteq> 0 \<Longrightarrow> work_contents sc = work_front sc # tl (work_contents sc)"
  using work.front_contents [of sc] by (metis contents_Nil(1) list.collapse)

lemma jobs_front_hd: "jobs_ok sc \<Longrightarrow> sc_job_count sc \<noteq> 0 \<Longrightarrow> jobs_contents sc = jobs_front sc # tl (jobs_contents sc)"
  using jobs.front_contents [of sc] by (metis contents_Nil(2) list.collapse)

definition refines where
  "refines p q \<longleftrightarrow> flow_step (flow_of p) (flow_of q) \<and> work_ok (pipe_sc q) \<and> jobs_ok (pipe_sc q)"

lemma refines_view:
  assumes "view (sys_sc s) = view (pipe_sc p)" and "pipe_ok p"
  shows "flow_of (p\<lparr>pipe_sys := s\<rparr>) = flow_of p" "work_ok (sys_sc s)" "jobs_ok (sys_sc s)"
  using flow_of_sys [OF assms(1)] assms(2) by (simp_all add: pipe_ok_def)

lemma pipe_queues:
  assumes "pipe_ok p"
  shows "work_ok (pipe_sc p)" "jobs_ok (pipe_sc p)"
  using assms by (simp_all add: pipe_ok_def)

lemma pipe_flow: "pipe_ok p \<Longrightarrow> flow_ok (flow_of p)"
  by (simp add: pipe_ok_def)

lemma hook_begin_refines:
  assumes ok: "pipe_ok p"
    and h: "pipe_hook p = HIdle"
    and run: "run_state (hook_begin i chain) (pipe_sys p) = ((True, k, job), s)"
  shows "refines p (p\<lparr>pipe_sys := s, pipe_hook := HReserve waits k job\<rparr>)"
proof -
  note r = pipe_queues [OF ok]
  obtain sc where sc: "view sc = view (pipe_sc p)" "sys_sc s = sc\<lparr>sc_slot_index := (k + 1) mod sc_image_count (pipe_sc p)\<rparr>"
    using hook_begin_run(3) [OF run] by blast
  have fl: "flow_of (p\<lparr>pipe_sys := s\<rparr>) = (flow_of p)\<lparr>fl_next := (fl_next (flow_of p) + 1) mod fl_n (flow_of p)\<rparr>"
    using view_parts [OF sc(1)] hook_begin_run(1) [OF run] by (simp add: flow_of_def sc(2))
  show ?thesis
    using f_take [of "flow_of p" job waits] h hook_begin_run(1,2) [OF run] view_parts(1,2) [OF sc(1)] r
    by (simp add: refines_def fl sc(2))
qed

lemma hook_reserve_refines:
  assumes ok: "pipe_ok p"
    and h: "pipe_hook p = HReserve waits k job"
    and room: "hook_has_room (pipe_sc p)"
    and run: "run_state hook_reserve (pipe_sys p) = (u, s)"
  shows "refines p (p\<lparr>pipe_sys := s, pipe_hook := HAdapter waits k job\<rparr>)"
proof -
  note r = pipe_queues [OF ok]
  have s: "sys_sc s = (pipe_sc p)\<lparr>sc_in_flight := sc_in_flight (pipe_sc p) + 1\<rparr>"
    using run by (auto simp: hook_reserve_def)
  have fl: "flow_of (p\<lparr>pipe_sys := s\<rparr>) = (flow_of p)\<lparr>fl_flying := fl_flying (flow_of p) + 1\<rparr>"
    by (simp add: flow_of_def s)
  show ?thesis using f_reserve [of "flow_of p" waits k job] h room r
    by (simp add: refines_def fl s hook_has_room_def not_le)
qed

lemma hook_adapter_refines:
  assumes ok: "pipe_ok p"
    and h: "pipe_hook p = HAdapter waits k job"
    and run: "run_state (hook_adapter waits k) (pipe_sys p) = (res, s)"
  shows "refines p (p\<lparr>pipe_sys := s, pipe_hook := (if res = VK_SUCCESS then HQueue k job else HCancel k)\<rparr>)"
  using refines_view [OF frames_view [OF frames_hook_adapter run] ok] f_adapter [of "flow_of p" waits k job]
    f_refused [of "flow_of p" waits k job] h
  by (simp add: refines_def)

lemma hook_cancel_refines:
  assumes ok: "pipe_ok p"
    and h: "pipe_hook p = HCancel k"
    and run: "run_state (hook_cancel k) (pipe_sys p) = (u, s)"
  shows "refines p (p\<lparr>pipe_sys := s, pipe_hook := HStop\<rparr>)"
proof -
  note r = pipe_queues [OF ok]
  have s: "sys_sc s = (pipe_sc p)\<lparr>sc_in_flight := sc_in_flight (pipe_sc p) - 1\<rparr>\<lparr>sc_slot_index := k\<rparr>"
    using run by (auto simp: hook_cancel_def)
  have fl: "flow_of (p\<lparr>pipe_sys := s\<rparr>) = (flow_of p)\<lparr>fl_next := k, fl_flying := fl_flying (flow_of p) - 1\<rparr>"
    by (simp add: flow_of_def s)
  show ?thesis using f_cancel [of "flow_of p" k] h r by (simp add: refines_def fl s)
qed

lemma hook_queue_refines:
  assumes ok: "pipe_ok p"
    and h: "pipe_hook p = HQueue k job"
    and room: "sc_work_count (pipe_sc p) \<noteq> AFMF_MAX_JOBS"
    and run: "run_state (hook_queue k job) (pipe_sys p) = (u, s)"
  shows "refines p (p\<lparr>pipe_sys := s, pipe_hook := HResults,
      pipe_flight := pipe_flight p @ [\<lparr>frame_slot = k, frame_present = job\<rparr>],
      pipe_accepted := pipe_accepted p @ [key job]\<rparr>)"
proof -
  note r = pipe_queues [OF ok]
  let ?frame = "\<lparr>frame_slot = k, frame_present = job\<rparr>"
  have s: "sys_sc s = work_push ?frame (pipe_sc p)" using run by (auto simp: hook_queue_def)
  have lt: "length (work_contents (pipe_sc p)) < AFMF_MAX_JOBS" using r(1) room by (simp add: work_ok_def)
  note push = work.push_contents [OF r(1) lt, of ?frame] work.push_inv [OF r(1) lt, of ?frame]
  have fl: "flow_of (p\<lparr>pipe_sys := s\<rparr>) = (flow_of p)\<lparr>fl_work := fl_work (flow_of p) @ [?frame]\<rparr>"
    using push(1) by (simp add: flow_of_def s)
  show ?thesis using f_queue [of "flow_of p" k job] h push(2) lt r by (simp add: refines_def fl s)
qed

lemma hook_results_refines:
  assumes ok: "pipe_ok p"
    and h: "pipe_hook p = HResults"
    and run: "run_state hook_results (pipe_sys p) = ((res, failed), s)"
  shows "refines p (p\<lparr>pipe_sys := s, pipe_hook := (if failed then HStop else HIdle)\<rparr>)"
  using refines_view [OF frames_view [OF frames_hook_results run] ok] f_results [of "flow_of p" HIdle]
    f_results [of "flow_of p" HStop] h
  by (simp add: refines_def)

lemmas hook_step_refines =
  hook_begin_refines
  hook_reserve_refines
  hook_adapter_refines
  hook_cancel_refines
  hook_queue_refines
  hook_results_refines

lemma hook_teardown_refines:
  assumes ok: "pipe_ok p"
    and h: "pipe_hook p = HIdle"
  shows "refines p (p\<lparr>pipe_hook := HStop\<rparr>)"
  using f_teardown [of "flow_of p"] h pipe_queues [OF ok] by (simp add: refines_def)

lemma worker_stop_refines:
  assumes ok: "pipe_ok p"
    and h: "pipe_hook p = HStop"
    and run: "run_state worker_stop_request (pipe_sys p) = (u, s)"
  shows "refines p (p\<lparr>pipe_sys := s, pipe_hook := HJoinWorker\<rparr>)"
proof -
  note r = pipe_queues [OF ok]
  have s: "sys_sc s = (pipe_sc p)\<lparr>sc_worker_stop := True\<rparr>" using run by (auto simp: worker_stop_request_def)
  have fl: "flow_of (p\<lparr>pipe_sys := s\<rparr>) = (flow_of p)\<lparr>fl_wstop := True\<rparr>" by (simp add: flow_of_def s)
  show ?thesis using f_stop_worker [of "flow_of p"] h r by (simp add: refines_def fl s)
qed

lemma presenter_stop_refines:
  assumes ok: "pipe_ok p"
    and h: "pipe_hook p = HJoinWorker" "pipe_worker p = WDone"
    and run: "run_state hook_stop_presenter (pipe_sys p) = (u, s)"
  shows "refines p (p\<lparr>pipe_sys := s, pipe_hook := HJoinPresenter\<rparr>)"
proof -
  note r = pipe_queues [OF ok]
  have s: "sys_sc s = (pipe_sc p)\<lparr>sc_worker_running := False, sc_presenter_stop := True\<rparr>"
    using run by (auto simp: hook_stop_presenter_def worker_stopped_def presenter_stop_request_def run_effects
        split: prod.splits)
  have fl: "flow_of (p\<lparr>pipe_sys := s\<rparr>) = (flow_of p)\<lparr>fl_pstop := True\<rparr>" by (simp add: flow_of_def s)
  show ?thesis using f_stop_presenter [of "flow_of p"] h r by (simp add: refines_def fl s)
qed

lemma presenter_join_refines:
  assumes ok: "pipe_ok p"
    and h: "pipe_hook p = HJoinPresenter" "pipe_presenter p = PDone"
    and run: "run_state presenter_stopped (pipe_sys p) = (u, s)"
  shows "refines p (p\<lparr>pipe_sys := s, pipe_hook := HStopped\<rparr>)"
proof -
  note r = pipe_queues [OF ok]
  have s: "sys_sc s = (pipe_sc p)\<lparr>sc_presenter_running := False\<rparr>"
    using run by (auto simp: presenter_stopped_def run_effects split: prod.splits)
  have fl: "flow_of (p\<lparr>pipe_sys := s\<rparr>) = flow_of p" by (simp add: flow_of_def s)
  show ?thesis using f_stopped [of "flow_of p"] h r by (simp add: refines_def fl s)
qed

lemmas stop_step_refines =
  hook_teardown_refines
  worker_stop_refines
  presenter_stop_refines
  presenter_join_refines

lemma worker_take_refines:
  assumes ok: "pipe_ok p"
    and w: "pipe_worker p = WIdle" "sc_work_count (pipe_sc p) \<noteq> 0"
    and run: "run_state worker_take (pipe_sys p) = (work, s)"
  shows "refines p (p\<lparr>pipe_sys := s, pipe_worker := WFrame work\<rparr>)"
proof -
  note r = pipe_queues [OF ok]
  have s: "sys_sc s = (pipe_sc p)\<lparr>sc_worker_busy := True\<rparr>" "work = work_front (pipe_sc p)"
    using run by (auto simp: worker_take_def)
  have fl: "flow_of (p\<lparr>pipe_sys := s\<rparr>) = flow_of p" by (simp add: flow_of_def s)
  show ?thesis
    using w_take [of "flow_of p" work "tl (work_contents (pipe_sc p))"] w work_front_hd [OF r(1) w(2)] r
    by (simp add: refines_def fl s)
qed

lemma worker_end_refines:
  assumes ok: "pipe_ok p"
    and h: "pipe_worker p = WIdle" "sc_work_count (pipe_sc p) = 0" "sc_worker_stop (pipe_sc p)"
  shows "refines p (p\<lparr>pipe_worker := WDone\<rparr>)"
  using w_end [of "flow_of p"] h pipe_queues [OF ok] by (simp add: refines_def)

lemma worker_frame_refines:
  assumes ok: "pipe_ok p"
    and w: "pipe_worker p = WFrame work"
    and run: "run_state (worker_frame work) (pipe_sys p) = (job, s)"
  shows "refines p (p\<lparr>pipe_sys := s, pipe_worker := WHand job\<rparr>)"
proof -
  note r = pipe_queues [OF ok]
  note fl_ok = pipe_flow [OF ok]
  note v = refines_view [OF frames_view [OF frames_worker run] ok]
  have k: "frame_slot work < length (sc_slots (pipe_sc p))" "fresh (frame_present work)"
    using working_frame [OF fl_ok, of work] w by simp_all
  then have "\<not> job_generate (frame_present work)" "\<not> job_real_unwaited (frame_present work)"
    by (simp_all add: fresh_def)
  from worker_frame_signals [OF run k(1) this]
  have "key job = fkey work" "job_generate job \<longrightarrow> job_done job = slot_fence (sc_slots (pipe_sc p) ! frame_slot work)"
    unfolding key_def by blast+
  then show ?thesis using w_frame [of "flow_of p" work job] w v k(1) by (simp add: refines_def)
qed

lemma worker_hand_refines:
  assumes ok: "pipe_ok p"
    and w: "pipe_worker p = WHand job" "sc_job_count (pipe_sc p) \<noteq> AFMF_MAX_JOBS"
    and run: "run_state (worker_hand job) (pipe_sys p) = (u, s)"
  shows "refines p (p\<lparr>pipe_sys := s, pipe_worker := WDrop\<rparr>)"
proof -
  note r = pipe_queues [OF ok]
  have s: "sys_sc s = jobs_push job (pipe_sc p)" using run by (auto simp: worker_hand_def)
  have lt: "length (jobs_contents (pipe_sc p)) < AFMF_MAX_JOBS" using r(2) w(2) by (simp add: jobs_ok_def)
  note push = jobs.push_contents [OF r(2) lt, of job] jobs.push_inv [OF r(2) lt, of job]
  have fl: "flow_of (p\<lparr>pipe_sys := s\<rparr>) = (flow_of p)\<lparr>fl_jobs := fl_jobs (flow_of p) @ [job]\<rparr>"
    using push(1) by (simp add: flow_of_def s)
  show ?thesis using w_hand [of "flow_of p" job] w lt push(2) r by (simp add: refines_def fl s)
qed

lemma worker_drop_refines:
  assumes ok: "pipe_ok p"
    and w: "pipe_worker p = WDrop"
    and run: "run_state worker_drop (pipe_sys p) = (u, s)"
  shows "refines p (p\<lparr>pipe_sys := s, pipe_worker := WIdle\<rparr>)"
proof -
  note r = pipe_queues [OF ok]
  note fl_ok = pipe_flow [OF ok]
  have s: "sys_sc s = (work_pop (pipe_sc p))\<lparr>sc_worker_busy := False\<rparr>" using run by (auto simp: worker_drop_def)
  have ne: "work_contents (pipe_sc p) \<noteq> []" using fl_ok w by (simp add: flow_ok_def worker_ok_def)
  note pop = work.pop_contents [OF r(1) ne] work.pop_inv [OF r(1) ne]
  have fl: "flow_of (p\<lparr>pipe_sys := s\<rparr>) = (flow_of p)\<lparr>fl_work := tl (fl_work (flow_of p))\<rparr>"
    using pop(1) by (simp add: flow_of_def s)
  show ?thesis using w_drop [of "flow_of p"] w pop(2) r by (simp add: refines_def fl s)
qed

lemmas worker_step_refines =
  worker_take_refines
  worker_end_refines
  worker_frame_refines
  worker_hand_refines
  worker_drop_refines

lemma presenter_take_refines:
  assumes ok: "pipe_ok p"
    and c: "pipe_presenter p = PIdle" "sc_job_count (pipe_sc p) \<noteq> 0"
    and run: "run_state presenter_take (pipe_sys p) = ((job, draining), s)"
  shows "refines p (p\<lparr>pipe_sys := s, pipe_presenter := PCompanion job draining\<rparr>)"
  using p_take [of "flow_of p" job "tl (jobs_contents (pipe_sc p))" draining] c run
    jobs_front_hd [OF pipe_queues(2) [OF ok] c(2)] pipe_queues [OF ok]
  by (auto simp: refines_def presenter_take_def)

lemma presenter_end_refines:
  assumes ok: "pipe_ok p"
    and h: "pipe_presenter p = PIdle" "sc_job_count (pipe_sc p) = 0" "sc_presenter_stop (pipe_sc p)"
  shows "refines p (p\<lparr>pipe_presenter := PDone\<rparr>)"
  using p_end [of "flow_of p"] h pipe_queues [OF ok] by (simp add: refines_def)

lemma presenter_companion_refines:
  assumes ok: "pipe_ok p"
    and c: "pipe_presenter p = PCompanion job draining"
    and run: "run_state (presenter_companion job) (pipe_sys p) = (first, s)"
  shows "refines p (p\<lparr>pipe_sys := s, pipe_presenter := PHold job draining first\<rparr>)"
  using refines_view [OF turn_view [OF frames_presenter_companion run] ok] p_companion [of "flow_of p" job draining first] c
  by (simp add: refines_def)

lemma presenter_hold_refines:
  assumes ok: "pipe_ok p"
    and c: "pipe_presenter p = PHold job draining first"
    and run: "run_state (presenter_hold job draining) (pipe_sys p) = (until, s)"
  shows "refines p (p\<lparr>pipe_sys := s, pipe_presenter := (case until of Some t \<Rightarrow> PWait job first | None \<Rightarrow> PReal job first)\<rparr>)"
  using refines_view [OF turn_view [OF frames_hold run] ok]
    p_hold [of "flow_of p" job draining first "case until of Some t \<Rightarrow> PWait job first | None \<Rightarrow> PReal job first"] c
  by (cases until) (simp_all add: refines_def)

lemma presenter_wait_refines:
  assumes ok: "pipe_ok p"
    and h: "pipe_presenter p = PWait job first"
  shows "refines p (p\<lparr>pipe_presenter := PReal job first\<rparr>)"
  using p_wait [of "flow_of p" job first] h pipe_queues [OF ok] by (simp add: refines_def)

lemma presenter_real_refines:
  assumes ok: "pipe_ok p"
    and c: "pipe_presenter p = PReal job first"
    and run: "run_state (presenter_real job) (pipe_sys p) = (second, s)"
  shows "refines p (p\<lparr>pipe_sys := s, pipe_presenter := PRefill first second, pipe_presented := pipe_presented p @ [key job]\<rparr>)"
  using refines_view [OF turn_view [OF frames_real run] ok] p_real [of "flow_of p" job first second] c
  by (simp add: refines_def)

lemma presenter_refill_refines:
  assumes ok: "pipe_ok p"
    and c: "pipe_presenter p = PRefill first second"
    and run: "run_state presenter_refill (pipe_sys p) = (ms, s)"
  shows "refines p (p\<lparr>pipe_sys := s, pipe_presenter := PFinish first second ms\<rparr>)"
  using refines_view [OF turn_view [OF frames_refill run] ok] p_refill [of "flow_of p" first second ms] c
  by (simp add: refines_def)

lemma presenter_finish_refines:
  assumes ok: "pipe_ok p"
    and c: "pipe_presenter p = PFinish first second ms"
    and run: "run_state (sc_modify (presenter_finish first second ms)) (pipe_sys p) = (u, s)"
  shows "refines p (p\<lparr>pipe_sys := s, pipe_presenter := PIdle, pipe_flight := tl (pipe_flight p)\<rparr>)"
proof -
  note r = pipe_queues [OF ok]
  note fl_ok = pipe_flow [OF ok]
  have s: "sys_sc s = presenter_finish first second ms (pipe_sc p)" using run by auto
  have ne: "jobs_contents (pipe_sc p) \<noteq> []" using fl_ok c by (simp add: flow_ok_def presenter_ok_def)
  let ?sc = "(pipe_sc p)\<lparr>sc_refill_ms := sc_refill_ms (pipe_sc p) + ms,
     sc_deferred_result := defer_result (sc_deferred_result (pipe_sc p)) (worst_of first second)\<rparr>"
  have "jobs_ok ?sc" "jobs_contents ?sc \<noteq> []" using r ne by simp_all
  note pop = jobs.pop_contents [OF this] jobs.pop_inv [OF this]
  have fl: "flow_of (p\<lparr>pipe_sys := s\<rparr>)
      = (flow_of p)\<lparr>fl_jobs := tl (fl_jobs (flow_of p)), fl_flying := fl_flying (flow_of p) - 1\<rparr>"
    using pop(1) by (simp add: flow_of_def s presenter_finish_def)
  show ?thesis using p_finish [of "flow_of p" first second ms] c pop(2) r
    by (simp add: refines_def fl s presenter_finish_def)
qed

lemmas presenter_step_refines =
  presenter_take_refines
  presenter_end_refines
  presenter_companion_refines
  presenter_hold_refines
  presenter_wait_refines
  presenter_real_refines
  presenter_refill_refines
  presenter_finish_refines

lemma pipe_step_refines: "pipe_step p q \<Longrightarrow> pipe_ok p \<Longrightarrow> refines p q"
  by (induction rule: pipe_step.induct)
     (rule hook_step_refines stop_step_refines worker_step_refines presenter_step_refines; assumption)+

lemma pipe_step_ok: "pipe_step p q \<Longrightarrow> pipe_ok p \<Longrightarrow> pipe_ok q"
  using pipe_step_refines flow_step_ok by (fastforce simp: refines_def pipe_ok_def)

lemma reachable_ok: "reachable p \<Longrightarrow> pipe_ok p"
proof (induction rule: reachable.induct)
  case (reach_start p)
  then show ?case
    using flow_start_ok [OF pipe_start_flow] by (simp add: pipe_ok_def pipe_start_def Let_def)
qed (rule pipe_step_ok)

section \<open>Progress\<close>

definition pipe_thread :: "'w pipe \<Rightarrow> 'w pipe \<Rightarrow> bool" where
  "pipe_thread p q \<longleftrightarrow> pipe_step p q \<and> pipe_hook q = pipe_hook p"

lemma pipe_threadI: "pipe_step p q \<Longrightarrow> pipe_hook q = pipe_hook p \<Longrightarrow> \<exists>q. pipe_thread p q"
  by (auto simp: pipe_thread_def)

lemma presenter_moves:
  assumes "pipe_presenter p \<noteq> PDone" and "sc_job_count (pipe_sc p) \<noteq> 0 \<or> sc_presenter_stop (pipe_sc p)"
  shows "\<exists>q. pipe_thread p q"
proof (cases "pipe_presenter p")
  case PIdle
  show ?thesis
  proof (cases "sc_job_count (pipe_sc p) = 0")
    case True
    then show ?thesis using assms PIdle by (intro pipe_threadI [OF presenter_ends]) auto
  next
    case False
    obtain job draining s where "run_state presenter_take (pipe_sys p) = ((job, draining), s)" by (metis surj_pair)
    from presenter_takes [OF PIdle False this] show ?thesis by (rule pipe_threadI) simp
  qed
next
  case (PCompanion job draining)
  obtain first s where "run_state (presenter_companion job) (pipe_sys p) = (first, s)" by (metis surj_pair)
  from presenter_companioned [OF PCompanion this] show ?thesis by (rule pipe_threadI) simp
next
  case (PHold job draining first)
  obtain until s where "run_state (presenter_hold job draining) (pipe_sys p) = (until, s)" by (metis surj_pair)
  from presenter_holds [OF PHold this] show ?thesis by (rule pipe_threadI) simp
next
  case (PWait job first)
  from presenter_waited [OF this] show ?thesis by (rule pipe_threadI) simp
next
  case (PReal job first)
  obtain second s where "run_state (presenter_real job) (pipe_sys p) = (second, s)" by (metis surj_pair)
  from presenter_realized [OF PReal this] show ?thesis by (rule pipe_threadI) simp
next
  case (PRefill first second)
  obtain ms s where "run_state presenter_refill (pipe_sys p) = (ms, s)" by (metis surj_pair)
  from presenter_refilled [OF PRefill this] show ?thesis by (rule pipe_threadI) simp
next
  case (PFinish first second ms)
  obtain u s where "run_state (sc_modify (presenter_finish first second ms)) (pipe_sys p) = (u, s)" by (metis surj_pair)
  from presenter_finished [OF PFinish this] show ?thesis by (rule pipe_threadI) simp
qed (use assms in simp)

lemma worker_moves:
  assumes "pipe_worker p \<noteq> WDone" and "sc_work_count (pipe_sc p) \<noteq> 0 \<or> sc_worker_stop (pipe_sc p)"
    and "sc_job_count (pipe_sc p) \<noteq> AFMF_MAX_JOBS"
  shows "\<exists>q. pipe_thread p q"
proof (cases "pipe_worker p")
  case WIdle
  show ?thesis
  proof (cases "sc_work_count (pipe_sc p) = 0")
    case True
    then show ?thesis using assms WIdle by (intro pipe_threadI [OF worker_ends]) auto
  next
    case False
    obtain work s where "run_state worker_take (pipe_sys p) = (work, s)" by (metis surj_pair)
    from worker_takes [OF WIdle False this] show ?thesis by (rule pipe_threadI) simp
  qed
next
  case (WFrame work)
  obtain job s where "run_state (worker_frame work) (pipe_sys p) = (job, s)" by (metis surj_pair)
  from worker_framed [OF WFrame this] show ?thesis by (rule pipe_threadI) simp
next
  case (WHand job)
  obtain u s where "run_state (worker_hand job) (pipe_sys p) = (u, s)" by (metis surj_pair)
  from worker_hands [OF WHand assms(3) this] show ?thesis by (rule pipe_threadI) simp
next
  case WDrop
  obtain u s where "run_state worker_drop (pipe_sys p) = (u, s)" by (metis surj_pair)
  from worker_drops [OF WDrop this] show ?thesis by (rule pipe_threadI) simp
qed (use assms in simp)

lemma threads_move:
  assumes ok: "pipe_ok p"
    and "sc_work_count (pipe_sc p) \<noteq> 0 \<or> sc_job_count (pipe_sc p) \<noteq> 0
      \<or> sc_worker_stop (pipe_sc p) \<and> pipe_worker p \<noteq> WDone \<or> sc_presenter_stop (pipe_sc p) \<and> pipe_presenter p \<noteq> PDone"
  shows "\<exists>q. pipe_thread p q"
proof (cases "sc_job_count (pipe_sc p) = 0")
  case False
  then have "pipe_presenter p \<noteq> PDone" using ok by (auto simp: pipe_ok_def flow_ok_def presenter_ok_def)
  with False show ?thesis by (intro presenter_moves) simp_all
next
  case True
  have w: "sc_work_count (pipe_sc p) \<noteq> 0 \<Longrightarrow> pipe_worker p \<noteq> WDone"
    using ok by (auto simp: pipe_ok_def flow_ok_def worker_ok_def)
  show ?thesis
  proof (cases "sc_presenter_stop (pipe_sc p) \<and> pipe_presenter p \<noteq> PDone")
    case True
    then show ?thesis by (intro presenter_moves) simp_all
  next
    case False
    then show ?thesis using assms(2) True w by (intro worker_moves) auto
  qed
qed

lemma thread_of_pipe: "pipe_thread p q \<Longrightarrow> pipe_ok p \<Longrightarrow> thread_step (flow_of p) (flow_of q)"
  using pipe_step_refines by (auto simp: pipe_thread_def thread_step_def refines_def)

lemma waiting_has_work:
  assumes ok: "pipe_ok p" and busy: "pipe_flight p \<noteq> []"
  shows "sc_work_count (pipe_sc p) \<noteq> 0 \<or> sc_job_count (pipe_sc p) \<noteq> 0"
proof (rule ccontr)
  assume "\<not> ?thesis"
  then have none: "sc_work_count (pipe_sc p) = 0" "sc_job_count (pipe_sc p) = 0" by simp_all
  then have "pending (flow_of p) = pipe_flight p"
    using ok by (simp add: pipe_ok_def flow_ok_def order_ok_def)
  moreover have "length (pending (flow_of p)) \<le> sc_work_count (pipe_sc p)" by (simp add: pending_def)
  ultimately show False using none busy by simp
qed

text \<open>
  C10: The code refines the protocol. Every step a thread's code takes, from any state the three
  threads can reach, is a step of the protocol on the queues as lists: the segments change only the
  part of the swapchain their step says, the rings never overflow or underflow, and whatever the
  driver answers takes one of the protocol's branches.
\<close>
theorem pipe_refines:
  assumes "reachable p" and "pipe_step p q"
  shows "flow_step (flow_of p) (flow_of q) \<and> flow_ok (flow_of q) \<and> work_ok (pipe_sc q) \<and> jobs_ok (pipe_sc q)"
  using pipe_step_refines [OF assms(2) reachable_ok [OF assms(1)]] pipe_step_ok [OF assms(2) reachable_ok [OF assms(1)]]
  by (simp add: refines_def pipe_ok_def)

text \<open>
  C1: No frame is lost, doubled or overtaken. In every state the three threads can reach, the real
  frames presented so far are the first of the frames the hook accepted, in their order, and those
  not yet presented are at most as many as the swapchain has images; never more frames are in
  flight than the swapchain has images.
\<close>
theorem frames_conserved:
  assumes "reachable p"
  shows "\<exists>waiting. pipe_accepted p = pipe_presented p @ waiting \<and> length waiting \<le> sc_in_flight (pipe_sc p)
    \<and> sc_in_flight (pipe_sc p) \<le> sc_image_count (pipe_sc p)
    \<and> sc_work_count (pipe_sc p) \<le> AFMF_MAX_JOBS \<and> sc_job_count (pipe_sc p) \<le> AFMF_MAX_JOBS"
proof -
  have ok: "pipe_ok p" by (rule reachable_ok [OF assms])
  then have "pipe_accepted p = pipe_presented p
      @ map fkey (if past_real (pipe_presenter p) then tl (pipe_flight p) else pipe_flight p)"
    and "length (pipe_flight p) \<le> sc_in_flight (pipe_sc p)" "sc_in_flight (pipe_sc p) \<le> sc_image_count (pipe_sc p)"
    and "sc_work_count (pipe_sc p) \<le> AFMF_MAX_JOBS" "sc_job_count (pipe_sc p) \<le> AFMF_MAX_JOBS"
    by (simp_all add: pipe_ok_def flow_ok_def conserved_def counts_ok_def work_ok_def jobs_ok_def)
  then show ?thesis by (intro exI conjI) (assumption, auto)
qed

text \<open>
  C8: A slot is never used twice at once. In every reachable state the frames in flight have
  different slots, the slot the hook has a place for is none of theirs, and while the work thread
  works on a frame, whose slot's fence it waits on and resets, no job queued for the presentation
  thread waits on that fence.
\<close>
theorem slots_exclusive:
  assumes "reachable p"
  shows "distinct (map frame_slot (pipe_flight p))
    \<and> (hook_place (pipe_hook p) = 1 \<longrightarrow> next_slot (flow_of p) \<notin> frame_slot ` set (pipe_flight p))
    \<and> (\<forall>frame job. pipe_worker p = WFrame frame \<and> job \<in> set (jobs_contents (pipe_sc p)) \<and> job_generate job \<longrightarrow>
         job_done job \<noteq> map slot_fence (sc_slots (pipe_sc p)) ! frame_slot frame)"
proof -
  have ok: "flow_ok (flow_of p)" using reachable_ok [OF assms] by (simp add: pipe_ok_def)
  show ?thesis
    using flight_slots_distinct [OF ok] worker_fence_free [OF ok] by simp
qed

text \<open>Where the hook waits, and what it waits for does not hold.\<close>

definition hook_waits :: "'w pipe \<Rightarrow> bool" where
  "hook_waits p \<longleftrightarrow>
     (case pipe_hook p of
        HReserve waits k job \<Rightarrow> \<not> hook_has_room (pipe_sc p)
      | HQueue k job \<Rightarrow> sc_work_count (pipe_sc p) = AFMF_MAX_JOBS
      | HJoinWorker \<Rightarrow> pipe_worker p \<noteq> WDone
      | HJoinPresenter \<Rightarrow> pipe_presenter p \<noteq> PDone
      | _ \<Rightarrow> False)"

lemma waiting_moves:
  assumes ok: "pipe_ok p" and waits: "hook_waits p"
  shows "\<exists>q. pipe_thread p q"
proof -
  have stops: "sc_worker_stop (pipe_sc p) = (pipe_hook p \<in> {HJoinWorker, HJoinPresenter, HStopped})"
    "sc_presenter_stop (pipe_sc p) = (pipe_hook p \<in> {HJoinPresenter, HStopped})"
    using ok by (simp_all add: pipe_ok_def flow_ok_def stops_ok_def)
  show ?thesis
  proof (cases "pipe_hook p")
    case (HReserve ws k job)
    then have "sc_in_flight (pipe_sc p) \<ge> sc_image_count (pipe_sc p)"
      using waits by (simp add: hook_waits_def hook_has_room_def)
    then have "pipe_flight p \<noteq> []" using ok HReserve by (auto simp: pipe_ok_def flow_ok_def counts_ok_def)
    from threads_move [OF ok] waiting_has_work [OF ok this] show ?thesis by blast
  qed (use threads_move [OF ok] waits stops in \<open>simp_all add: hook_waits_def\<close>)
qed

text \<open>Where it does not wait, it moves.\<close>

lemma hook_moves:
  assumes "\<not> hook_waits p" "pipe_hook p \<noteq> HStopped"
  shows "\<exists>q. pipe_step p q"
proof -
  have runs: "\<exists>u s'. run_state m s = (u, s')" for m :: "('b, 'c) state" and s by (metis surj_pair)
  show ?thesis
  proof (cases "pipe_hook p")
    case HIdle
    then show ?thesis by (blast intro: hook_teardown)
  next
    case (HReserve waits k job)
    then show ?thesis using assms(1) hook_reserved [OF HReserve] runs [of hook_reserve "pipe_sys p"] by (auto simp: hook_waits_def)
  next
    case (HAdapter waits k job)
    then show ?thesis using hook_adapted [OF HAdapter] by (metis surj_pair)
  next
    case (HCancel k)
    then show ?thesis using hook_cancelled [OF HCancel] by (metis surj_pair)
  next
    case (HQueue k job)
    then show ?thesis using assms(1) hook_queued [OF HQueue] runs [of "hook_queue k job" "pipe_sys p"] by (auto simp: hook_waits_def)
  next
    case HResults
    then show ?thesis using hook_returned [OF HResults] by (metis surj_pair)
  next
    case HStop
    then show ?thesis using hook_stops_worker [OF HStop] by (metis surj_pair)
  next
    case HJoinWorker
    then show ?thesis using assms(1) hook_stops_presenter [OF HJoinWorker] runs [of hook_stop_presenter "pipe_sys p"] by (auto simp: hook_waits_def)
  next
    case HJoinPresenter
    then show ?thesis using assms(1) hook_stopped [OF HJoinPresenter] runs [of presenter_stopped "pipe_sys p"] by (auto simp: hook_waits_def)
  qed (use assms in simp)
qed

text \<open>
  C9: No deadlock. Every reachable state but the one after a completed stop has a step, whatever
  the driver does; whenever the hook waits for room, for the work queue or for a thread to end, one
  of the two threads can step.
\<close>
theorem pipe_no_deadlock:
  assumes "reachable p" and "pipe_hook p \<noteq> HStopped"
  shows "(\<exists>q. pipe_step p q)
    \<and> (pipe_hook p = HReserve waits k job \<and> \<not> hook_has_room (pipe_sc p)
       \<or> pipe_hook p = HQueue k job \<and> sc_work_count (pipe_sc p) = AFMF_MAX_JOBS
       \<or> pipe_hook p = HJoinWorker \<and> pipe_worker p \<noteq> WDone
       \<or> pipe_hook p = HJoinPresenter \<and> pipe_presenter p \<noteq> PDone \<longrightarrow> (\<exists>q. pipe_thread p q))"
proof -
  have ok: "pipe_ok p" by (rule reachable_ok [OF assms(1)])
  have step: "\<exists>q. pipe_thread p q \<Longrightarrow> \<exists>q. pipe_step p q" by (auto simp: pipe_thread_def)
  have "hook_waits p \<Longrightarrow> \<exists>q. pipe_thread p q" by (rule waiting_moves [OF ok])
  moreover have "\<exists>q. pipe_step p q" using hook_moves [OF _ assms(2)] waiting_moves [OF ok] step by blast
  ultimately show ?thesis by (auto simp: hook_waits_def)
qed


section \<open>Draining\<close>

text \<open>\<open>worker_busy\<close> says that the work thread is between taking a frame and dropping it.\<close>

fun working :: "worker_pc \<Rightarrow> bool" where
  "working WIdle = False"
| "working WDone = False"
| "working pc = True"

definition busy_ok :: "'w pipe \<Rightarrow> bool" where
  "busy_ok p \<longleftrightarrow> sc_worker_busy (pipe_sc p) = working (pipe_worker p)"

lemma fixed_busy:
  "frames sc_fixed m \<Longrightarrow> run_state m (pipe_sys p) = (a, s) \<Longrightarrow> sc_worker_busy (sys_sc s) = sc_worker_busy (pipe_sc p)"
  "frames turn_kept m \<Longrightarrow> run_state m (pipe_sys p) = (a, s) \<Longrightarrow> sc_worker_busy (sys_sc s) = sc_worker_busy (pipe_sc p)"
  using frames_run by (fastforce simp: turn_kept_def sc_fixed_def)+

lemma hook_begin_busy:
  "run_state (hook_begin i chain) (pipe_sys p) = (a, s) \<Longrightarrow> sc_worker_busy (sys_sc s) = sc_worker_busy (pipe_sc p)"
proof -
  have "frames sc_worker_busy afmf_sc_update_cadence"
    using frames_update_cadence unfolding frames_def sc_fixed_def by (metis prod.inject)
  then have "frames sc_worker_busy (hook_begin i chain)"
    unfolding hook_begin_def hook_take_slot_def by (intro frames_rules; simp)
  then show "run_state (hook_begin i chain) (pipe_sys p) = (a, s) \<Longrightarrow> sc_worker_busy (sys_sc s) = sc_worker_busy (pipe_sc p)"
    by (rule frames_run)
qed

lemmas segment_busy =
  hook_begin_busy fixed_busy(1) [OF frames_hook_adapter] fixed_busy(1) [OF frames_hook_results]
  fixed_busy(1) [OF frames_worker] fixed_busy(2) [OF frames_presenter_companion] fixed_busy(2) [OF frames_hold]
  fixed_busy(2) [OF frames_real] fixed_busy(2) [OF frames_refill]

lemma busy_step: "pipe_step p q \<Longrightarrow> busy_ok p \<Longrightarrow> busy_ok q"
  by (induction rule: pipe_step.induct)
     (auto simp: busy_ok_def hook_reserve_def hook_cancel_def hook_queue_def worker_stop_request_def
        hook_stop_presenter_def worker_stopped_def presenter_stop_request_def presenter_stopped_def worker_take_def
        worker_hand_def worker_drop_def presenter_take_def presenter_finish_def run_effects work_push_def work_pop_def
        jobs_push_def jobs_pop_def dest: segment_busy split: prod.splits)

lemma reachable_busy: "reachable p \<Longrightarrow> busy_ok p"
proof (induction rule: reachable.induct)
  case (reach_start p)
  then show ?case by (simp add: busy_ok_def pipe_start_def Let_def)
next
  case (reach_step p q)
  then show ?case using busy_step by blast
qed

inductive pipe_threads :: "nat \<Rightarrow> 'w pipe \<Rightarrow> 'w pipe \<Rightarrow> bool" where
  threads_none: "pipe_threads 0 p p"
| threads_more: "pipe_thread p q \<Longrightarrow> pipe_threads n q r \<Longrightarrow> pipe_threads (Suc n) p r"

lemma threads_ok_run:
  "pipe_threads n p q \<Longrightarrow> pipe_ok p \<Longrightarrow> busy_ok p \<Longrightarrow>
     pipe_ok q \<and> busy_ok q \<and> n + work_left (flow_of q) \<le> work_left (flow_of p) \<and> pipe_accepted q = pipe_accepted p"
proof (induction rule: pipe_threads.induct)
  case (threads_more p q n r)
  have step: "thread_step (flow_of p) (flow_of q)" by (rule thread_of_pipe [OF threads_more.hyps(1) threads_more.prems(1)])
  have "pipe_ok q" "busy_ok q"
    using threads_more.hyps(1) threads_more.prems pipe_step_ok busy_step by (auto simp: pipe_thread_def)
  moreover have "work_left (flow_of q) < work_left (flow_of p)"
    using thread_step_decreases [OF step] threads_more.prems by (simp add: pipe_ok_def)
  moreover have "fl_accepted (flow_of q) = fl_accepted (flow_of p)" by (rule thread_step_accepted [OF step])
  ultimately show ?case using threads_more.IH by simp
qed simp

lemma threads_reach_rest:
  assumes "pipe_ok p"
  shows "\<exists>n q. pipe_threads n p q \<and> \<not> (\<exists>r. pipe_thread q r)"
  using assms
proof (induction "work_left (flow_of p)" arbitrary: p rule: less_induct)
  case less
  show ?case
  proof (cases "\<exists>q. pipe_thread p q")
    case True
    then obtain q where q: "pipe_thread p q" by blast
    have "work_left (flow_of q) < work_left (flow_of p)"
      using thread_step_decreases [OF thread_of_pipe [OF q less.prems]] less.prems by (simp add: pipe_ok_def)
    moreover have "pipe_ok q" using q less.prems pipe_step_ok by (auto simp: pipe_thread_def)
    ultimately obtain n r where "pipe_threads n q r" "\<not> (\<exists>t. pipe_thread r t)" using less.hyps by blast
    then show ?thesis using threads_more [OF q] by blast
  next
    case False
    then show ?thesis using threads_none by blast
  qed
qed

lemma at_rest:
  assumes ok: "pipe_ok p" "busy_ok p" and none: "sc_work_count (pipe_sc p) = 0" "sc_job_count (pipe_sc p) = 0"
  shows "worker_drained (pipe_sc p)" "presenter_drained (pipe_sc p)" "pipe_flight p = []"
    "pipe_presented p = pipe_accepted p"
proof -
  show flight: "pipe_flight p = []" using waiting_has_work [OF ok(1)] none by auto
  have "\<not> working (pipe_worker p)"
    using ok(1) none(1) by (cases "pipe_worker p") (simp_all add: pipe_ok_def flow_ok_def worker_ok_def)
  then show "worker_drained (pipe_sc p)" using ok(2) none by (simp add: busy_ok_def worker_drained_def)
  show "presenter_drained (pipe_sc p)" using none by (simp add: presenter_drained_def)
  show "pipe_presented p = pipe_accepted p"
    using ok(1) flight by (simp add: pipe_ok_def flow_ok_def conserved_def)
qed

text \<open>
  C11: Draining ends. From every reachable state the two threads, however they interleave and
  whatever the driver answers, take at most eleven steps per frame queued for the work thread,
  seven per present queued and two more; and from it they get to a state where the conditions
  \<open>afmf_sc_presenter_drain\<close> waits for hold, every queue is empty and every frame the hook accepted
  has been presented.
\<close>
theorem drain_ends:
  assumes "reachable p"
  shows "(\<forall>n q. pipe_threads n p q \<longrightarrow> n \<le> 11 * sc_work_count (pipe_sc p) + 7 * sc_job_count (pipe_sc p) + 2)
    \<and> (\<exists>n q. pipe_threads n p q \<and> worker_drained (pipe_sc q) \<and> presenter_drained (pipe_sc q)
         \<and> pipe_presented q = pipe_accepted p)"
proof -
  have ok: "pipe_ok p" "busy_ok p" using reachable_ok reachable_busy assms by blast+
  have "n \<le> 11 * sc_work_count (pipe_sc p) + 7 * sc_job_count (pipe_sc p) + 2" if "pipe_threads n p q" for n q
  proof -
    have "n \<le> work_left (flow_of p)" using threads_ok_run [OF that ok] by linarith
    also have "\<dots> \<le> 11 * sc_work_count (pipe_sc p) + 7 * sc_job_count (pipe_sc p) + 2"
      by (simp add: work_left_def) linarith
    finally show ?thesis .
  qed
  moreover obtain n q where q: "pipe_threads n p q" "\<not> (\<exists>r. pipe_thread q r)" using threads_reach_rest [OF ok(1)] by blast
  note okq = threads_ok_run [OF q(1) ok]
  have "sc_work_count (pipe_sc q) = 0" "sc_job_count (pipe_sc q) = 0" using threads_move [of q] okq q(2) by blast+
  with at_rest [of q] okq q(1) have "pipe_threads n p q \<and> worker_drained (pipe_sc q) \<and> presenter_drained (pipe_sc q)
         \<and> pipe_presented q = pipe_accepted p" by simp
  ultimately show ?thesis by blast
qed

text \<open>
  C12: A stop loses nothing. Once the hook has stopped and joined both threads, for a teardown or
  because a submission failed, no frame is in flight, both queues are empty and every frame ever
  accepted has had its real frame presented, in order.
\<close>
theorem stop_loses_nothing:
  assumes "reachable p" and "pipe_hook p = HStopped"
  shows "sc_in_flight (pipe_sc p) = 0 \<and> sc_work_count (pipe_sc p) = 0 \<and> sc_job_count (pipe_sc p) = 0
    \<and> pipe_presented p = pipe_accepted p"
proof -
  have ok: "pipe_ok p" "busy_ok p" using reachable_ok reachable_busy assms(1) by blast+
  then have "pipe_worker p = WDone" "pipe_presenter p = PDone"
    using assms(2) by (simp_all add: pipe_ok_def flow_ok_def stops_ok_def)
  then have none: "sc_work_count (pipe_sc p) = 0" "sc_job_count (pipe_sc p) = 0"
    using ok(1) by (simp_all add: pipe_ok_def flow_ok_def worker_ok_def presenter_ok_def)
  moreover have "sc_in_flight (pipe_sc p) = 0"
    using ok(1) assms(2) at_rest(3) [OF ok none] by (simp add: pipe_ok_def flow_ok_def counts_ok_def)
  ultimately show ?thesis using at_rest(4) [OF ok none] by simp
qed

section \<open>A pipeline to run\<close>

definition pipe_sample :: "nat pipe" where
  "pipe_sample =
     \<lparr> pipe_sys = sample_sys (worker_sc\<lparr>sc_worker_running := True, sc_presenter_running := True\<rparr>),
       pipe_hook = HIdle, pipe_worker = WIdle, pipe_presenter = PIdle, pipe_flight = [], pipe_accepted = [],
       pipe_presented = [] \<rparr>"

lemma pipe_sample_start: "pipe_start pipe_sample"
  by (simp add: pipe_start_def pipe_sample_def worker_sc_def work_ok_def jobs_ok_def) (simp add: sc_zero_def)

lemma pipe_sample_reachable: "reachable pipe_sample"
  by (rule reach_start [OF pipe_sample_start])

theorem pipe_refines_witness:
  "flow_step (flow_of pipe_sample) (flow_of (pipe_sample\<lparr>pipe_hook := HStop\<rparr>))"
proof -
  have "pipe_step pipe_sample (pipe_sample\<lparr>pipe_hook := HStop\<rparr>)"
    by (rule hook_teardown) (simp add: pipe_sample_def)
  from pipe_refines [OF pipe_sample_reachable this] show ?thesis by blast
qed

theorem frames_conserved_witness:
  "\<exists>waiting. pipe_accepted pipe_sample = pipe_presented pipe_sample @ waiting \<and> length waiting \<le> sc_in_flight (pipe_sc pipe_sample)"
  using frames_conserved [OF pipe_sample_reachable] by blast

lemma pipe_sample_stops: "\<exists>q :: nat pipe. reachable q \<and> pipe_hook q = HStopped"
proof -
  let ?hook = "pipe_sample\<lparr>pipe_hook := HStop\<rparr>"
  have stop: "reachable ?hook"
    by (rule reach_step [OF pipe_sample_reachable hook_teardown]) (simp add: pipe_sample_def)
  obtain u s1 where s1: "run_state worker_stop_request (pipe_sys ?hook) = (u, s1)" by (metis surj_pair)
  let ?one = "?hook\<lparr>pipe_sys := s1, pipe_hook := HJoinWorker\<rparr>"
  have one: "reachable ?one" using reach_step [OF stop hook_stops_worker [OF _ s1]] by simp
  have left: "sc_work_count (sys_sc s1) = 0" "sc_worker_stop (sys_sc s1)" "sc_job_count (sys_sc s1) = 0"
    using s1 by (auto simp: worker_stop_request_def run_effects pipe_sample_def worker_sc_def sc_zero_def split: prod.splits)
  let ?two = "?one\<lparr>pipe_worker := WDone\<rparr>"
  have two: "reachable ?two"
    by (rule reach_step [OF one worker_ends]) (simp_all add: left, simp add: pipe_sample_def)
  obtain v s2 where s2: "run_state hook_stop_presenter s1 = (v, s2)" by (metis surj_pair)
  let ?three = "?two\<lparr>pipe_sys := s2, pipe_hook := HJoinPresenter\<rparr>"
  have three: "reachable ?three" by (rule reach_step [OF two hook_stops_presenter]) (simp_all add: s2)
  have off: "sc_job_count (sys_sc s2) = 0" "sc_presenter_stop (sys_sc s2)"
    using s2 left by (auto simp: hook_stop_presenter_def worker_stopped_def presenter_stop_request_def run_effects split: prod.splits)
  let ?four = "?three\<lparr>pipe_presenter := PDone\<rparr>"
  have four: "reachable ?four"
    by (rule reach_step [OF three presenter_ends]) (simp_all add: off, simp add: pipe_sample_def)
  obtain w s3 where s3: "run_state presenter_stopped s2 = (w, s3)" by (metis surj_pair)
  let ?five = "?four\<lparr>pipe_sys := s3, pipe_hook := HStopped\<rparr>"
  have "reachable ?five"
    by (rule reach_step [OF four hook_stopped]) (simp_all add: s3)
  moreover have "pipe_hook ?five = HStopped" by simp
  ultimately show ?thesis by blast
qed

theorem stop_loses_nothing_witness: "\<exists>q :: nat pipe. sc_in_flight (pipe_sc q) = 0 \<and> pipe_presented q = pipe_accepted q"
  using stop_loses_nothing pipe_sample_stops by blast

theorem slots_exclusive_witness: "distinct (map frame_slot (pipe_flight pipe_sample))"
  using slots_exclusive [OF pipe_sample_reachable] by blast

theorem pipe_no_deadlock_witness: "\<exists>q. pipe_step pipe_sample q"
proof -
  have "pipe_hook pipe_sample \<noteq> HStopped" by (simp add: pipe_sample_def)
  from pipe_no_deadlock [OF pipe_sample_reachable this] show ?thesis by blast
qed

theorem drain_ends_witness:
  "\<exists>n q. pipe_threads n pipe_sample q \<and> worker_drained (pipe_sc q) \<and> presenter_drained (pipe_sc q)"
  using drain_ends [OF pipe_sample_reachable] by blast

end
