(* ===== verification/Fg_Format.thy ===== *)
theory Fg_Format
  imports Fg_Profiler
begin

text \<open>
  What a swapchain format means for frame generation (src/src/framegen_format.c): how the colour ring
  is viewed, what the interpolator writes, and the two direct paths. The device's
  \<open>vkGetPhysicalDeviceFormatProperties\<close> is a field of the device, \<open>None\<close> when it is missing.
\<close>

definition afmf_framegen_describe_format :: "vk_format \<Rightarrow> afmf_framegen \<Rightarrow> bool \<times> afmf_framegen" where
  "afmf_framegen_describe_format swapchain_format fg =
     (let kind = (case swapchain_format of
           R8G8B8A8_UNORM \<Rightarrow> Some (R8G8B8A8_UNORM, R8G8B8A8_UNORM, VARIANT_RGBA8)
         | R8G8B8A8_SRGB \<Rightarrow> Some (R8G8B8A8_UNORM, R8G8B8A8_UNORM, VARIANT_RGBA8)
         | B8G8R8A8_UNORM \<Rightarrow> Some (B8G8R8A8_UNORM, R8G8B8A8_UNORM, VARIANT_RGBA8_BGRA)
         | B8G8R8A8_SRGB \<Rightarrow> Some (B8G8R8A8_UNORM, R8G8B8A8_UNORM, VARIANT_RGBA8_BGRA)
         | A2B10G10R10_UNORM_PACK32 \<Rightarrow> Some (swapchain_format, swapchain_format, VARIANT_RGB10A2)
         | R16G16B16A16_SFLOAT \<Rightarrow> Some (swapchain_format, swapchain_format, VARIANT_RGBA16F)
         | _ \<Rightarrow> None)
      in case kind of
           None \<Rightarrow> (False, fg)
         | Some (color, out, v) \<Rightarrow>
             (let scrgb = (v = VARIANT_RGBA16F)
              in (True, fg\<lparr>fg_color_format := color, fg_out_format := out, fg_variant := v,
                           fg_transfer_function := (if scrgb then 2 else 0), fg_min_luminance := 0,
                           fg_max_luminance := (if scrgb then 80 else 1)\<rparr>)))"

definition afmf_framegen_format_supports :: "afmf_device \<Rightarrow> vk_format \<Rightarrow> format_feature set \<Rightarrow> bool" where
  "afmf_framegen_format_supports dev format features =
     (case dev_format_properties dev of None \<Rightarrow> False | Some props \<Rightarrow> features \<subseteq> props format)"

definition afmf_framegen_direct_variant_for :: "afmf_device \<Rightarrow> vk_format \<Rightarrow> variant" where
  "afmf_framegen_direct_variant_for dev swapchain_format =
     (if \<not> afmf_framegen_format_supports dev swapchain_format {FEATURE_STORAGE} then VARIANT_COUNT
      else case swapchain_format of
             R8G8B8A8_UNORM \<Rightarrow> VARIANT_RGBA8
           | A2B10G10R10_UNORM_PACK32 \<Rightarrow> VARIANT_RGB10A2
           | R16G16B16A16_SFLOAT \<Rightarrow> VARIANT_RGBA16F
           | B8G8R8A8_UNORM \<Rightarrow> (if dev_storage_write_without_format dev then VARIANT_NOFORMAT else VARIANT_COUNT)
           | _ \<Rightarrow> VARIANT_COUNT)"

definition afmf_framegen_can_write_direct :: "afmf_device \<Rightarrow> vk_format \<Rightarrow> bool" where
  "afmf_framegen_can_write_direct dev swapchain_format \<longleftrightarrow>
     afmf_framegen_direct_variant_for dev swapchain_format \<noteq> VARIANT_COUNT"

definition afmf_framegen_direct :: "afmf_framegen \<Rightarrow> bool" where
  "afmf_framegen_direct fg = fg_direct fg"

definition afmf_framegen_ingest_variant_for :: "afmf_device \<Rightarrow> vk_format \<Rightarrow> variant" where
  "afmf_framegen_ingest_variant_for dev swapchain_format =
     (case afmf_framegen_describe_format swapchain_format fg_zero of (described, probe) \<Rightarrow>
        if \<not> described \<or> fg_color_format probe \<noteq> swapchain_format then VARIANT_COUNT
        else if \<not> afmf_framegen_format_supports dev swapchain_format {FEATURE_SAMPLED}
                \<or> \<not> afmf_framegen_format_supports dev (fg_color_format probe) {FEATURE_STORAGE} then VARIANT_COUNT
        else if fg_variant probe = VARIANT_RGBA8_BGRA \<and> \<not> dev_storage_write_without_format dev then VARIANT_COUNT
        else fg_variant probe)"

definition afmf_framegen_can_ingest_direct :: "afmf_device \<Rightarrow> vk_format \<Rightarrow> bool" where
  "afmf_framegen_can_ingest_direct dev swapchain_format \<longleftrightarrow>
     afmf_framegen_ingest_variant_for dev swapchain_format \<noteq> VARIANT_COUNT"

definition afmf_framegen_ingest_direct :: "afmf_framegen \<Rightarrow> bool" where
  "afmf_framegen_ingest_direct fg = fg_ingest_direct fg"

section \<open>What a described format promises\<close>

lemma described_format:
  assumes "afmf_framegen_describe_format f fg = (True, fg')"
  shows "fg_variant fg' \<noteq> VARIANT_COUNT" "fg_variant fg' \<noteq> VARIANT_NOFORMAT"
    "fg_variant fg' = VARIANT_RGBA8_BGRA \<longleftrightarrow> fg_color_format fg' = B8G8R8A8_UNORM"
    "fg_variant fg' = VARIANT_RGBA16F \<longleftrightarrow> f = R16G16B16A16_SFLOAT"
    "fg_color_format fg' \<noteq> R8G8B8A8_SRGB" "fg_color_format fg' \<noteq> B8G8R8A8_SRGB"
    "fg_out_format fg' \<noteq> B8G8R8A8_UNORM"
  using assms by (auto simp: afmf_framegen_describe_format_def Let_def split: option.splits vk_format.splits)

text \<open>The fields describing sets, and no others.\<close>

lemma describe_keeps:
  assumes "afmf_framegen_describe_format f fg = (described, fg')"
  shows "fg' = fg\<lparr>fg_color_format := fg_color_format fg', fg_out_format := fg_out_format fg',
      fg_variant := fg_variant fg', fg_transfer_function := fg_transfer_function fg',
      fg_min_luminance := fg_min_luminance fg', fg_max_luminance := fg_max_luminance fg'\<rparr>"
  using assms by (auto simp: afmf_framegen_describe_format_def Let_def split: option.splits vk_format.splits)

text \<open>
  The direct paths only take a format whose bytes they keep. Where the layer writes a swapchain
  image of its own format, or reads one, directly, the format is one the interpolation has a
  variant for, it is not one that decodes or encodes sRGB, the device can store into it, and a
  B8G8R8A8 image, which has no SPIR-V format, needs the feature the application must have enabled.
\<close>
theorem direct_formats_safe:
  shows "(afmf_framegen_can_write_direct dev f \<longrightarrow> f \<noteq> R8G8B8A8_SRGB \<and> f \<noteq> B8G8R8A8_SRGB
      \<and> fst (afmf_framegen_describe_format f fg) \<and> afmf_framegen_format_supports dev f {FEATURE_STORAGE}
      \<and> (f = B8G8R8A8_UNORM \<longrightarrow> dev_storage_write_without_format dev))
   \<and> (afmf_framegen_can_ingest_direct dev f \<longrightarrow> f \<noteq> R8G8B8A8_SRGB \<and> f \<noteq> B8G8R8A8_SRGB
      \<and> fst (afmf_framegen_describe_format f fg)
      \<and> fg_color_format (snd (afmf_framegen_describe_format f fg)) = f
      \<and> fg_variant (snd (afmf_framegen_describe_format f fg)) = afmf_framegen_ingest_variant_for dev f
      \<and> afmf_framegen_format_supports dev f {FEATURE_STORAGE} \<and> afmf_framegen_format_supports dev f {FEATURE_SAMPLED}
      \<and> (f = B8G8R8A8_UNORM \<longrightarrow> dev_storage_write_without_format dev))"
  unfolding afmf_framegen_can_write_direct_def afmf_framegen_can_ingest_direct_def
    afmf_framegen_direct_variant_for_def afmf_framegen_ingest_variant_for_def afmf_framegen_describe_format_def Let_def
  by (cases f) simp_all

definition any_format_device :: afmf_device where
  "any_format_device = dev_zero\<lparr>dev_format_properties := Some (\<lambda>_. {FEATURE_SAMPLED, FEATURE_STORAGE}),
     dev_storage_write_without_format := True\<rparr>"

theorem direct_formats_witness:
  "afmf_framegen_can_write_direct any_format_device B8G8R8A8_UNORM
   \<and> afmf_framegen_can_ingest_direct any_format_device B8G8R8A8_UNORM
   \<and> dev_storage_write_without_format any_format_device"
  using direct_formats_safe [of any_format_device B8G8R8A8_UNORM fg_zero]
  by (simp add: any_format_device_def afmf_framegen_can_write_direct_def afmf_framegen_can_ingest_direct_def
      afmf_framegen_direct_variant_for_def afmf_framegen_ingest_variant_for_def afmf_framegen_describe_format_def
      afmf_framegen_format_supports_def)

end
