(* ===== verification/Ledger.thy ===== *)
theory Ledger
  imports Vulkan "HOL-Library.Multiset"
begin

text \<open>
  The objects a run makes and destroys, as multisets of kinds and handles, so that "everything made
  is destroyed, once" is an equation between two multisets, and rules that follow the functions that
  make them. A driver is \<open>sound\<close> when a successful creation answers a handle that is not null, as
  the Vulkan specification requires; on failure the caller's variable stays as it was. Descriptor sets
  and command buffers belong to their pools and are not counted.
\<close>

section \<open>Made and destroyed\<close>

definition made_by :: "vk_call \<Rightarrow> obj_kind option" where
  "made_by c =
     (case c of
        CreateObj k \<Rightarrow> Some k | CreateImage _ _ _ \<Rightarrow> Some OImage | CreateImageView _ _ \<Rightarrow> Some OImageView
      | CreateBuffer _ \<Rightarrow> Some OBuffer | AllocateMemory _ \<Rightarrow> Some OMemory | CreateCommandPool _ \<Rightarrow> Some OCommandPool
      | CreateDescriptorPool _ _ \<Rightarrow> Some ODescriptorPool | CreateShaderModule _ \<Rightarrow> Some OShaderModule
      | CreateSetLayout _ \<Rightarrow> Some OSetLayout | CreatePipelineLayout _ _ \<Rightarrow> Some OPipelineLayout
      | CreateComputePipeline _ _ _ \<Rightarrow> Some OPipeline | CreateSwapchain _ \<Rightarrow> Some OSwapchain
      | _ \<Rightarrow> None)"

definition new_by :: "vk_call \<Rightarrow> vk_result \<Rightarrow> handle \<Rightarrow> (obj_kind \<times> handle) multiset" where
  "new_by c r h = (if r = VK_SUCCESS then case made_by c of None \<Rightarrow> {#} | Some k \<Rightarrow> {#(k, h)#} else {#})"

definition gone_by :: "vk_call \<Rightarrow> (obj_kind \<times> handle) multiset" where
  "gone_by c = (case c of DestroyObj k h \<Rightarrow> {#(k, h)#} | _ \<Rightarrow> {#})"

definition made1 :: "event \<Rightarrow> (obj_kind \<times> handle) multiset" where
  "made1 e = (case e of Called c r h \<Rightarrow> new_by c r h | _ \<Rightarrow> {#})"

definition gone1 :: "event \<Rightarrow> (obj_kind \<times> handle) multiset" where
  "gone1 e = (case e of Called c r h \<Rightarrow> gone_by c | _ \<Rightarrow> {#})"

definition made :: "event list \<Rightarrow> (obj_kind \<times> handle) multiset" where
  "made es = sum_list (map made1 es)"

definition gone :: "event list \<Rightarrow> (obj_kind \<times> handle) multiset" where
  "gone es = sum_list (map gone1 es)"

lemma made_simps [simp]:
  "made [] = {#}" "made (e # es) = made1 e + made es" "made (es @ fs) = made es + made fs"
  "gone [] = {#}" "gone (e # es) = gone1 e + gone es" "gone (es @ fs) = gone es + gone fs"
  by (simp_all add: made_def gone_def)

lemma made1_simps [simp]:
  "made1 (Called c r h) = new_by c r h" "made1 (Locked l) = {#}" "made1 (Unlocked l) = {#}" "made1 (Recorded cb x) = {#}"
  "gone1 (Called c r h) = gone_by c" "gone1 (Locked l) = {#}" "gone1 (Unlocked l) = {#}" "gone1 (Recorded cb x) = {#}"
  by (simp_all add: made1_def gone1_def)

text \<open>What a variable owns: nothing while it is null.\<close>

definition held :: "obj_kind \<Rightarrow> handle \<Rightarrow> (obj_kind \<times> handle) multiset" where
  "held k h = (if h = VK_NULL_HANDLE then {#} else {#(k, h)#})"

lemma held_some: "h \<noteq> 0 \<Longrightarrow> held k h = {#(k, h)#}"
  by (simp add: held_def)

lemma held_null [simp]: "held k 0 = {#}"
  by (simp add: held_def)

definition sound :: "('w, 'e) eff_scheme \<Rightarrow> bool" where
  "sound s \<longleftrightarrow> (\<forall>c w r h w'. eff_driver s c w = ((r, h), w') \<and> r = VK_SUCCESS \<and> made_by c \<noteq> None \<longrightarrow> h \<noteq> VK_NULL_HANDLE)"

lemma sound_effects [simp]:
  "sound (s\<lparr>eff_trace := tr\<rparr>) = sound s" "sound (s\<lparr>eff_world := w\<rparr>) = sound s"
  by (simp_all add: sound_def)

text \<open>
  The books of a state: what was made, what was destroyed, what is owned. \<open>balanced X own s\<close>: whatever
  was made and not destroyed is owned, by \<open>own s\<close> or by somebody else, who has \<open>X\<close>.
\<close>

definition balanced :: "(obj_kind \<times> handle) multiset \<Rightarrow> ('w, 'e) eff_scheme \<Rightarrow> (obj_kind \<times> handle) multiset \<Rightarrow> bool" where
  "balanced X s own \<longleftrightarrow> sound s \<and> made (eff_trace s) = gone (eff_trace s) + X + own"

lemma balanced_effects [simp]: "balanced X (s\<lparr>eff_world := w\<rparr>) own = balanced X s own"
  by (simp add: balanced_def)

lemma balanced_sound: "balanced X s own \<Longrightarrow> sound s"
  by (simp add: balanced_def)

lemma new_by_cases:
  "made_by c = None \<Longrightarrow> new_by c r h = {#}" "r \<noteq> VK_SUCCESS \<Longrightarrow> new_by c r h = {#}"
  "made_by c = Some k \<Longrightarrow> r = VK_SUCCESS \<Longrightarrow> new_by c r h = {#(k, h)#}"
  by (simp_all add: new_by_def)

text \<open>A call that makes an object, one that destroys one, and any other.\<close>

lemma balanced_make:
  assumes "run_state (vk_full c) s = ((r, h), s')" and "made_by c = Some k" and "balanced X s own"
  shows "balanced X s' (own + (if r = VK_SUCCESS then held k h else {#}))"
proof -
  have g: "gone_by c = {#}" using assms(2) by (auto simp: made_by_def gone_by_def split: vk_call.splits)
  obtain w where d: "eff_driver s c (eff_world s) = ((r, h), w)"
      "s' = s\<lparr>eff_world := w, eff_trace := eff_trace s @ [Called c r h]\<rparr>"
    using assms(1) by (auto simp: run_vk_full split: prod.splits)
  have "h \<noteq> VK_NULL_HANDLE" if "r = VK_SUCCESS"
    using assms(2,3) d(1) that unfolding balanced_def sound_def by blast
  then show ?thesis using assms(2,3) g
    by (cases "r = VK_SUCCESS") (simp_all add: balanced_def d(2) new_by_cases held_def)
qed

lemma balanced_destroy:
  assumes "run_state (vk (DestroyObj k h)) s = (r, s')" and "balanced X s (own + held k h)" and "h \<noteq> VK_NULL_HANDLE"
  shows "balanced X s' own"
  using assms by (auto simp: balanced_def run_vk new_by_cases(1) made_by_def gone_by_def held_def split: prod.splits)

text \<open>\<open>if (h != VK_NULL_HANDLE) destroy(h);\<close>\<close>

definition destroy_if :: "obj_kind \<Rightarrow> handle \<Rightarrow> ('w, 'e, unit) act" where
  "destroy_if k h = whenb (h \<noteq> VK_NULL_HANDLE) (do { _ \<leftarrow> vk (DestroyObj k h); return () })"

lemma balanced_destroy_if:
  assumes run: "run_state (destroy_if k h) s = (u, s')" and ok: "balanced X s (own + held k h)"
  shows "balanced X s' own"
proof (cases "h = VK_NULL_HANDLE")
  case True
  then show ?thesis using assms by (simp add: destroy_if_def)
next
  case False
  obtain r s1 where "run_state (vk (DestroyObj k h)) s = (r, s1)" by fastforce
  moreover from this have "s' = s1" using run False by (simp add: destroy_if_def)
  ultimately show ?thesis using balanced_destroy ok False by blast
qed

lemma balanced_other:
  assumes "run_state (vk_full c) s = (a, s')" and "made_by c = None" and "gone_by c = {#}"
  shows "balanced X s' own = balanced X s own"
  using assms by (auto simp: balanced_def run_vk_full new_by_cases split: prod.splits)

lemma balanced_other_vk:
  assumes "run_state (vk c) s = (a, s')" and "made_by c = None" and "gone_by c = {#}"
  shows "balanced X s' own = balanced X s own"
  using assms by (auto simp: balanced_def run_vk new_by_cases split: prod.splits)

lemma balanced_emit:
  assumes "made1 e = {#}" and "gone1 e = {#}"
  shows "balanced X (s\<lparr>eff_trace := eff_trace s @ [e]\<rparr>) own = balanced X s own"
  using assms by (simp add: balanced_def)

lemma makes_none [simp]:
  "made_by (GetMemoryTypeBits h) = None" "made_by (BindMemory h m) = None" "made_by (MapMemory h) = None"
  "made_by (UnmapMemory h) = None" "made_by (AllocateDescriptorSets h ls) = None" "made_by (UpdateDescriptorSets ws) = None"
  "made_by (AllocateCommandBuffers h n sec) = None" "made_by (SetLoaderData h) = None"
  "made_by MakeDumpDir = None" "made_by (GetQueryPoolResults h a b) = None" "made_by (WaitForFences h t) = None"
  "made_by (QueueWaitIdle h) = None" "made_by (GetSwapchainImages h) = None" "made_by PthreadJoin = None"
  "made_by PthreadCreate = None"
  by (simp_all add: made_by_def)

lemma makes_some [simp]:
  "made_by (CreateObj k) = Some k" "made_by (CreateImage f e u) = Some OImage" "made_by (CreateImageView h f) = Some OImageView"
  "made_by (CreateBuffer n) = Some OBuffer" "made_by (AllocateMemory t) = Some OMemory"
  "made_by (CreateCommandPool q) = Some OCommandPool" "made_by (CreateDescriptorPool ps n) = Some ODescriptorPool"
  "made_by (CreateShaderModule x) = Some OShaderModule" "made_by (CreateSetLayout b) = Some OSetLayout"
  "made_by (CreatePipelineLayout h n) = Some OPipelineLayout" "made_by (CreateComputePipeline h l y) = Some OPipeline"
  by (simp_all add: made_by_def)

lemma gone_none [simp]:
  "gone_by (GetMemoryTypeBits h) = {#}" "gone_by (BindMemory h m) = {#}" "gone_by (MapMemory h) = {#}"
  "gone_by (UnmapMemory h) = {#}" "gone_by (AllocateDescriptorSets h ls) = {#}" "gone_by (UpdateDescriptorSets ws) = {#}"
  "gone_by (AllocateCommandBuffers h n sec) = {#}" "gone_by (SetLoaderData h) = {#}"
  "gone_by MakeDumpDir = {#}" "gone_by (GetQueryPoolResults h a b) = {#}" "gone_by (WaitForFences h t) = {#}"
  "gone_by (QueueWaitIdle h) = {#}" "gone_by (GetSwapchainImages h) = {#}" "gone_by PthreadJoin = {#}"
  "gone_by PthreadCreate = {#}"
  by (simp_all add: gone_by_def)

section \<open>Steps that may fail\<close>

text \<open>\<open>if (res != VK_SUCCESS) return res;\<close> after each step of a list.\<close>

primrec ok_all :: "('s, vk_result) state list \<Rightarrow> ('s, vk_result) state" where
  "ok_all [] = return VK_SUCCESS"
| "ok_all (m # ms) = do { res \<leftarrow> m; if res \<noteq> VK_SUCCESS then return res else ok_all ms }"

primrec do_all :: "('s, unit) state list \<Rightarrow> ('s, unit) state" where
  "do_all [] = return ()"
| "do_all (m # ms) = do { m; do_all ms }"

section \<open>Running with the books open\<close>

text \<open>
  \<open>tracks v X x own m Q\<close>: started where the part \<open>v\<close> of the state has the value \<open>x\<close> and exactly \<open>own\<close>
  is owned (besides the \<open>X\<close> of others), \<open>m\<close> ends with \<open>Q\<close> of its result, the value of \<open>v\<close> and what
  is owned then. The rules run an operation forward, one call at a time; both outcomes of a call
  that makes an object are followed.
\<close>

definition tracks ::
  "(('w, 'e) eff_scheme \<Rightarrow> 'v) \<Rightarrow> (obj_kind \<times> handle) multiset \<Rightarrow> 'v \<Rightarrow> (obj_kind \<times> handle) multiset \<Rightarrow>
     ('w, 'e, 'a) act \<Rightarrow> ('a \<Rightarrow> 'v \<Rightarrow> (obj_kind \<times> handle) multiset \<Rightarrow> bool) \<Rightarrow> bool"
where
  "tracks v X x own m Q \<longleftrightarrow>
     (\<forall>s a s'. v s = x \<longrightarrow> balanced X s own \<longrightarrow> run_state m s = (a, s') \<longrightarrow> (\<exists>own'. balanced X s' own' \<and> Q a (v s') own'))"

lemma tracksD:
  "tracks v X x own m Q \<Longrightarrow> v s = x \<Longrightarrow> balanced X s own \<Longrightarrow> run_state m s = (a, s') \<Longrightarrow>
     \<exists>own'. balanced X s' own' \<and> Q a (v s') own'"
  unfolding tracks_def by blast

lemma tracks_bind:
  assumes m: "tracks v X x own m R" and f: "\<And>a y own'. R a y own' \<Longrightarrow> tracks v X y own' (f a) Q"
  shows "tracks v X x own (State_Monad.bind m f) Q"
  unfolding tracks_def
proof (intro allI impI)
  fix s b s' assume s: "v s = x" "balanced X s own" "run_state (State_Monad.bind m f) s = (b, s')"
  from s(3) obtain a s1 where r: "run_state m s = (a, s1)" "run_state (f a) s1 = (b, s')" by (rule run_bindE)
  obtain own1 where "balanced X s1 own1" "R a (v s1) own1" using tracksD [OF m s(1,2) r(1)] by blast
  then show "\<exists>own'. balanced X s' own' \<and> Q b (v s') own'" using tracksD [OF f _ _ r(2)] by blast
qed

lemma tracks_weaken: "tracks v X x own m R \<Longrightarrow> (\<And>a y own'. R a y own' \<Longrightarrow> Q a y own') \<Longrightarrow> tracks v X x own m Q"
  by (rule tracks_def [THEN iffD2]) (metis tracksD)

named_theorems tracking

lemma tracks_return [tracking]: "Q a x own \<Longrightarrow> tracks v X x own (return a) Q"
  by (auto simp: tracks_def)

lemma tracks_bind_return [tracking]: "tracks v X x own (f a) Q \<Longrightarrow> tracks v X x own (State_Monad.bind (return a) f) Q"
  by (auto simp: tracks_def)

lemma tracks_assoc [tracking]:
  "tracks v X x own (State_Monad.bind m (\<lambda>a. State_Monad.bind (f a) g)) Q \<Longrightarrow>
     tracks v X x own (State_Monad.bind (State_Monad.bind m f) g) Q"
  by (simp add: tracks_def case_prod_beta)

lemma tracks_if [tracking]:
  "(b \<Longrightarrow> tracks v X x own m Q) \<Longrightarrow> (\<not> b \<Longrightarrow> tracks v X x own n Q) \<Longrightarrow> tracks v X x own (if b then m else n) Q"
  by simp

lemma tracks_bind_if [tracking]:
  "(b \<Longrightarrow> tracks v X x own (State_Monad.bind m f) Q) \<Longrightarrow> (\<not> b \<Longrightarrow> tracks v X x own (State_Monad.bind n f) Q) \<Longrightarrow>
     tracks v X x own (State_Monad.bind (if b then m else n) f) Q"
  by simp

lemma tracks_option [tracking]:
  "(p = None \<Longrightarrow> tracks v X x own m Q) \<Longrightarrow> (\<And>z. p = Some z \<Longrightarrow> tracks v X x own (g z) Q) \<Longrightarrow>
     tracks v X x own (case p of None \<Rightarrow> m | Some z \<Rightarrow> g z) Q"
  by (cases p) simp_all

lemma tracks_bind_option [tracking]:
  "(p = None \<Longrightarrow> tracks v X x own (State_Monad.bind m f) Q) \<Longrightarrow>
   (\<And>z. p = Some z \<Longrightarrow> tracks v X x own (State_Monad.bind (g z) f) Q) \<Longrightarrow>
     tracks v X x own (State_Monad.bind (case p of None \<Rightarrow> m | Some z \<Rightarrow> g z) f) Q"
  by (cases p) simp_all

lemma tracks_prod [tracking]:
  "(\<And>y z. p = (y, z) \<Longrightarrow> tracks v X x own (g y z) Q) \<Longrightarrow> tracks v X x own (case p of (y, z) \<Rightarrow> g y z) Q"
  by (cases p) simp

text \<open>The part of the state that is watched: any that the effects leave alone.\<close>

locale books =
  fixes v :: "('w, 'e) eff_scheme \<Rightarrow> 'v"
  assumes v_effects: "v (s\<lparr>eff_world := w, eff_trace := tr\<rparr>) = v s"
begin

lemma v_vk_full: "run_state (vk_full c) s = (a, s') \<Longrightarrow> v s' = v s"
  by (auto simp: run_vk_full v_effects split: prod.splits)

lemma v_vk: "run_state (vk c) s = (a, s') \<Longrightarrow> v s' = v s"
  by (auto simp: run_vk v_effects split: prod.splits)

lemma v_trace: "v (s\<lparr>eff_trace := tr\<rparr>) = v s"
  using v_effects [where s = s and w = "eff_world s" and tr = tr] by simp

lemma v_world: "v (s\<lparr>eff_world := w\<rparr>) = v s"
  using v_effects [where s = s and w = w and tr = "eff_trace s"] by simp

lemma make:
  assumes k: "made_by c = Some k"
    and made: "\<And>h. h \<noteq> VK_NULL_HANDLE \<Longrightarrow> tracks v X x (own + {#(k, h)#}) (f (VK_SUCCESS, h)) Q"
    and not: "\<And>r h. r \<noteq> VK_SUCCESS \<Longrightarrow> tracks v X x own (f (r, h)) Q"
  shows "tracks v X x own (State_Monad.bind (vk_full c) f) Q"
proof (rule tracks_bind)
  show "tracks v X x own (vk_full c)
      (\<lambda>(r, h) y own'. y = x \<and> (if r = VK_SUCCESS then h \<noteq> VK_NULL_HANDLE \<and> own' = own + {#(k, h)#} else own' = own))"
    unfolding tracks_def
  proof (intro allI impI)
    fix s a s' assume s: "v s = x" "balanced X s own" and run: "run_state (vk_full c) s = (a, s')"
    obtain r h where a: "a = (r, h)" by fastforce
    have "h \<noteq> VK_NULL_HANDLE" if "r = VK_SUCCESS"
      using run a that k s(2) unfolding balanced_def sound_def by (auto simp: run_vk_full split: prod.splits)
    then show "\<exists>own'. balanced X s' own' \<and> (case a of (r, h) \<Rightarrow> \<lambda>y own'. y = x \<and>
        (if r = VK_SUCCESS then h \<noteq> VK_NULL_HANDLE \<and> own' = own + {#(k, h)#} else own' = own)) (v s') own'"
      using balanced_make [OF run [unfolded a] k s(2)] v_vk_full [OF run] s(1) a
      by (intro exI [of _ "own + (if r = VK_SUCCESS then held k h else {#})"]) (auto simp: held_def)
  qed
next
  fix a y own' assume "(case a of (r, h) \<Rightarrow> \<lambda>y own'. y = x \<and>
        (if r = VK_SUCCESS then h \<noteq> VK_NULL_HANDLE \<and> own' = own + {#(k, h)#} else own' = own)) y own'"
  then show "tracks v X y own' (f a) Q" using made not by (cases a) (auto split: if_splits)
qed

lemma other:
  assumes "made_by c = None" and "gone_by c = {#}" and "\<And>r h. tracks v X x own (f (r, h)) Q"
  shows "tracks v X x own (State_Monad.bind (vk_full c) f) Q"
proof (rule tracks_bind [where R = "\<lambda>a y own'. y = x \<and> own' = own"])
  show "tracks v X x own (vk_full c) (\<lambda>a y own'. y = x \<and> own' = own)"
    unfolding tracks_def using balanced_other [OF _ assms(1,2)] v_vk_full by blast
qed (use assms(3) in auto)

lemma other_vk:
  assumes "made_by c = None" and "gone_by c = {#}" and "\<And>r. tracks v X x own (f r) Q"
  shows "tracks v X x own (State_Monad.bind (vk c) f) Q"
proof (rule tracks_bind [where R = "\<lambda>a y own'. y = x \<and> own' = own"])
  show "tracks v X x own (vk c) (\<lambda>a y own'. y = x \<and> own' = own)"
    unfolding tracks_def using balanced_other_vk [OF _ assms(1,2)] v_vk by blast
qed (use assms(3) in auto)

lemma destroys_last:
  assumes "own = own' + held k h" and "Q () x own'"
  shows "tracks v X x own (destroy_if k h) Q"
  unfolding tracks_def
proof (intro allI impI)
  fix s a s' assume s: "v s = x" "balanced X s own" "run_state (destroy_if k h) s = (a, s')"
  have "balanced X s' own'" using balanced_destroy_if s(2,3) assms(1) by blast
  moreover have "v s' = x" using s(1,3) v_vk by (auto simp: destroy_if_def split: prod.splits if_splits)
  ultimately show "\<exists>own'. balanced X s' own' \<and> Q a (v s') own'" using assms(2) by auto
qed

lemma destroys:
  assumes "own = own' + held k h" and "tracks v X x own' (f ()) Q"
  shows "tracks v X x own (State_Monad.bind (destroy_if k h) f) Q"
  by (rule tracks_bind [where R = "\<lambda>a y o'. y = x \<and> o' = own'"], rule destroys_last [OF assms(1)]) (use assms(2) in auto)

lemma tracks_gets: "(\<And>a. tracks v X x own (f a) Q) \<Longrightarrow> tracks v X x own (State_Monad.bind (gets g) f) Q"
  by (simp add: tracks_def)

lemma tracks_emit:
  assumes "made1 e = {#}" and "gone1 e = {#}" and f: "tracks v X x own (f ()) Q"
  shows "tracks v X x own (State_Monad.bind (emit e) f) Q"
  unfolding tracks_def
proof (intro allI impI)
  fix s a s' assume "v s = x" "balanced X s own" "run_state (State_Monad.bind (emit e) f) s = (a, s')"
  then show "\<exists>own'. balanced X s' own' \<and> Q a (v s') own'"
    using tracksD [OF f, of "s\<lparr>eff_trace := eff_trace s @ [e]\<rparr>" a s'] assms(1,2) by (simp add: balanced_emit v_trace)
qed

lemma tracks_emit_last:
  assumes "made1 e = {#}" and "gone1 e = {#}" and "Q () x own"
  shows "tracks v X x own (emit e) Q"
  using assms by (auto simp: tracks_def balanced_emit v_trace)

lemmas calls =
  make [OF makes_some(1)] make [OF makes_some(2)] make [OF makes_some(3)] make [OF makes_some(4)] make [OF
  makes_some(5)] make [OF makes_some(6)] make [OF makes_some(7)] make [OF makes_some(8)] make [OF
  makes_some(9)] make [OF makes_some(10)] make [OF makes_some(11)]
  other [OF makes_none(1) gone_none(1)] other [OF makes_none(2) gone_none(2)] other [OF makes_none(3)
  gone_none(3)] other [OF makes_none(4) gone_none(4)] other [OF makes_none(5) gone_none(5)] other [OF
  makes_none(6) gone_none(6)] other [OF makes_none(7) gone_none(7)] other [OF makes_none(8) gone_none(8)]
  other [OF makes_none(9) gone_none(9)] other [OF makes_none(10) gone_none(10)] other [OF makes_none(11)
  gone_none(11)] other [OF makes_none(12) gone_none(12)] other [OF makes_none(13) gone_none(13)] other [OF
  makes_none(14) gone_none(14)] other [OF makes_none(15) gone_none(15)]
  other_vk [OF makes_none(1) gone_none(1)] other_vk [OF makes_none(2) gone_none(2)] other_vk [OF
  makes_none(3) gone_none(3)] other_vk [OF makes_none(4) gone_none(4)] other_vk [OF makes_none(5)
  gone_none(5)] other_vk [OF makes_none(6) gone_none(6)] other_vk [OF makes_none(7) gone_none(7)] other_vk
  [OF makes_none(8) gone_none(8)] other_vk [OF makes_none(9) gone_none(9)] other_vk [OF makes_none(10)
  gone_none(10)] other_vk [OF makes_none(11) gone_none(11)] other_vk [OF makes_none(12) gone_none(12)]
  other_vk [OF makes_none(13) gone_none(13)] other_vk [OF makes_none(14) gone_none(14)] other_vk [OF
  makes_none(15) gone_none(15)]

end

end
