(* ===== verification/Fg_Resources.thy ===== *)
theory Fg_Resources
  imports Fg_Format Fg_Dump Ledger
begin

text \<open>
  The images, the sampler and the constants buffer of one swapchain's frame generation
  (src/src/framegen_resources.c). An image the layer creates is named by a target, the member of
  \<open>struct afmf_framegen\<close> it is stored in; what the code creates one after the other, leaving at the
  first failure, is a list of steps run by \<open>ok_all\<close>.
\<close>

section \<open>One image\<close>

text \<open>Device-local memory of one of the allowed types, or any of them.\<close>

definition image_memory_type :: "afmf_device \<Rightarrow> nat \<Rightarrow> nat option" where
  "image_memory_type dev bits =
     (case afmf_framegen_find_memory_type dev bits {DEVICE_LOCAL} of
        Some type \<Rightarrow> Some type | None \<Rightarrow> afmf_framegen_find_memory_type dev bits {})"

definition image_create ::
  "fg_image \<Rightarrow> vk_format \<Rightarrow> extent2d \<Rightarrow> image_usage set \<Rightarrow> ('w fgs, vk_result \<times> fg_image) state"
where
  "image_create img format extent usage = do {
     dev \<leftarrow> gets fgs_dev;
     (res, image) \<leftarrow> vk_full (CreateImage format extent usage);
     if res \<noteq> VK_SUCCESS then return (res, img)
     else do {
       (_, bits) \<leftarrow> vk_full (GetMemoryTypeBits image);
       (case image_memory_type dev bits of
          None \<Rightarrow> return (VK_ERROR_OUT_OF_DEVICE_MEMORY, img\<lparr>img_image := image\<rparr>)
        | Some type \<Rightarrow> do {
            (res, memory) \<leftarrow> vk_full (AllocateMemory type);
            if res \<noteq> VK_SUCCESS then return (res, img\<lparr>img_image := image\<rparr>)
            else do {
              res \<leftarrow> vk (BindMemory image memory);
              if res \<noteq> VK_SUCCESS then return (res, img\<lparr>img_image := image, img_memory := memory\<rparr>)
              else do {
                (res, view) \<leftarrow> vk_full (CreateImageView image format);
                return (res, (if res = VK_SUCCESS then \<lparr>img_image = image, img_memory = memory, img_view = view\<rparr>
                              else img\<lparr>img_image := image, img_memory := memory\<rparr>))
              }
            }
          })
     }
   }"

text \<open>The image as it is after the call: zero.\<close>

definition afmf_framegen_image_destroy :: "fg_image \<Rightarrow> ('w, 'e, fg_image) act" where
  "afmf_framegen_image_destroy img = do {
     destroy_if OImageView (img_view img);
     destroy_if OImage (img_image img);
     destroy_if OMemory (img_memory img);
     return img_zero
   }"

definition align_up :: "u32 \<Rightarrow> u32 \<Rightarrow> u32" where
  "align_up val alignment = (val + alignment - 1) div alignment * alignment"

section \<open>The images by their targets\<close>

datatype fg_target = Luma nat nat | Flow nat nat | FlowOut | Scd nat | Color nat | ColorHalf | Output

fun target_get :: "fg_target \<Rightarrow> afmf_framegen \<Rightarrow> fg_image" where
  "target_get (Luma p k) fg = fg_luma fg ! p ! k"
| "target_get (Flow p k) fg = fg_flow fg ! p ! k"
| "target_get FlowOut fg = fg_flow_out fg"
| "target_get (Scd i) fg = fg_scd fg ! i"
| "target_get (Color p) fg = fg_color fg ! p"
| "target_get ColorHalf fg = fg_color_half fg"
| "target_get Output fg = fg_output fg"

fun target_put :: "fg_target \<Rightarrow> fg_image \<Rightarrow> afmf_framegen \<Rightarrow> afmf_framegen" where
  "target_put (Luma p k) img fg = fg\<lparr>fg_luma := (fg_luma fg)[p := (fg_luma fg ! p)[k := img]]\<rparr>"
| "target_put (Flow p k) img fg = fg\<lparr>fg_flow := (fg_flow fg)[p := (fg_flow fg ! p)[k := img]]\<rparr>"
| "target_put FlowOut img fg = fg\<lparr>fg_flow_out := img\<rparr>"
| "target_put (Scd i) img fg = fg\<lparr>fg_scd := (fg_scd fg)[i := img]\<rparr>"
| "target_put (Color p) img fg = fg\<lparr>fg_color := (fg_color fg)[p := img]\<rparr>"
| "target_put ColorHalf img fg = fg\<lparr>fg_color_half := img\<rparr>"
| "target_put Output img fg = fg\<lparr>fg_output := img\<rparr>"

section \<open>The resources of one swapchain\<close>

definition half_format :: "half_variant \<Rightarrow> vk_format" where
  "half_format v = (case v of HALF_RGBA8 \<Rightarrow> R8G8B8A8_UNORM | HALF_RGBA16F \<Rightarrow> R16G16B16A16_SFLOAT)"

definition internal_usage :: "image_usage set" where
  "internal_usage = {USAGE_STORAGE, USAGE_SAMPLED, USAGE_TRANSFER_DST, USAGE_TRANSFER_SRC}"

definition histogram_extent :: extent2d where
  "histogram_extent = \<lparr>width = AFMF_HISTOGRAM_BINS * AFMF_HISTOGRAMS_PER_DIM * AFMF_HISTOGRAMS_PER_DIM, height = 1\<rparr>"

fun image_spec :: "afmf_framegen \<Rightarrow> fg_target \<Rightarrow> vk_format \<times> extent2d \<times> image_usage set" where
  "image_spec fg (Luma p k) = (R8_UINT, fg_luma_size fg ! k, internal_usage)"
| "image_spec fg (Flow p k) = (R16G16_SINT, fg_flow_size fg ! k, internal_usage)"
| "image_spec fg FlowOut = (R16G16_SINT, fg_flow_size fg ! 0, internal_usage)"
| "image_spec fg (Scd i) =
     (if i = 0 then (R32_UINT, histogram_extent, internal_usage)
      else if i = 1 then (R32_SFLOAT, histogram_extent, internal_usage)
      else (R32_UINT, \<lparr>width = of_nat AFMF_SCD_SLOTS, height = 1\<rparr>, internal_usage))"
| "image_spec fg (Color p) =
     (fg_color_format fg, fg_extent fg,
      {USAGE_SAMPLED, USAGE_TRANSFER_DST, USAGE_TRANSFER_SRC} \<union> (if fg_ingest_direct fg then {USAGE_STORAGE} else {}))"
| "image_spec fg ColorHalf = (half_format (fg_half fg), fg_of_extent fg, {USAGE_STORAGE, USAGE_SAMPLED})"
| "image_spec fg Output = (fg_out_format fg, fg_extent fg, {USAGE_STORAGE, USAGE_TRANSFER_SRC})"

text \<open>The sizes of level \<open>k\<close>: the flow resolution shifted down, and the blocks halved.\<close>

definition shifted :: "u32 \<Rightarrow> nat \<Rightarrow> u32" where
  "shifted n k = (if drop_bit k n \<noteq> 0 then drop_bit k n else 1)"

definition level_sizes :: "nat \<Rightarrow> afmf_framegen \<Rightarrow> afmf_framegen" where
  "level_sizes k fg =
     (let of_extent = fg_of_extent fg;
          luma = \<lparr>width = shifted (width of_extent) k, height = shifted (height of_extent) k\<rparr>;
          flow = (if k = 0
                  then \<lparr>width = (width of_extent + AFMF_FLOW_BLOCK - 1) div AFMF_FLOW_BLOCK,
                        height = (height of_extent + AFMF_FLOW_BLOCK - 1) div AFMF_FLOW_BLOCK\<rparr>
                  else (let above = fg_flow_size fg ! (k - 1)
                        in \<lparr>width = (width above + 1) div 2, height = (height above + 1) div 2\<rparr>))
      in fg\<lparr>fg_luma_size := (fg_luma_size fg)[k := luma], fg_flow_size := (fg_flow_size fg)[k := flow]\<rparr>)"

datatype res_step = LevelSizes nat | Image fg_target

fun run_step :: "res_step \<Rightarrow> ('w fgs, vk_result) state" where
  "run_step (LevelSizes k) = do { fg_modify (level_sizes k); return VK_SUCCESS }"
| "run_step (Image t) = do {
     fg \<leftarrow> fg_gets id;
     (case image_spec fg t of (format, extent, usage) \<Rightarrow> do {
        (res, img) \<leftarrow> image_create (target_get t fg) format extent usage;
        fg_modify (target_put t img);
        return res
      })
   }"

definition res_steps :: "afmf_framegen \<Rightarrow> res_step list" where
  "res_steps fg =
     concat (map (\<lambda>k. LevelSizes k # concat (map (\<lambda>p. [Image (Luma p k), Image (Flow p k)]) [0, 1])) [0..<AFMF_LEVELS])
     @ [Image FlowOut]
     @ [Image (Scd 0), Image (Scd 1), Image (Scd 2), Image (Scd 3)]
     @ map (\<lambda>p. Image (Color p)) [0, 1]
     @ (if fg_flow_scale fg > 1 \<and> \<not> fg_ingest_direct fg then [Image ColorHalf] else [])
     @ (if \<not> fg_direct fg then [Image Output] else [])"

definition sampler_create :: "('w fgs, vk_result) state" where
  "sampler_create = do {
     (res, sampler) \<leftarrow> vk_full (CreateObj OSampler);
     whenb (res = VK_SUCCESS) (fg_modify (\<lambda>fg. fg\<lparr>fg_sampler := sampler\<rparr>));
     return res
   }"

definition cb_stride_for :: "afmf_device \<Rightarrow> u32" where
  "cb_stride_for dev = (let alignment = ucast (dev_ubo_alignment dev) in align_up (of_nat AFMF_CB_SIZE) (if alignment \<noteq> 0 then alignment else 1))"

definition constants_create :: "('w fgs, vk_result) state" where
  "constants_create = do {
     dev \<leftarrow> gets fgs_dev;
     fg_modify (\<lambda>fg. fg\<lparr>fg_cb_stride := cb_stride_for dev\<rparr>);
     slots \<leftarrow> fg_gets fg_slots;
     (res, cb) \<leftarrow> vk_full (CreateBuffer (unat (cb_stride_for dev) * AFMF_CB_PER_SLOT * slots));
     if res \<noteq> VK_SUCCESS then return res
     else do {
       fg_modify (\<lambda>fg. fg\<lparr>fg_cb := cb\<rparr>);
       (_, bits) \<leftarrow> vk_full (GetMemoryTypeBits cb);
       (case afmf_framegen_find_memory_type dev bits {HOST_VISIBLE, HOST_COHERENT} of
          None \<Rightarrow> return VK_ERROR_OUT_OF_DEVICE_MEMORY
        | Some type \<Rightarrow> do {
            (res, memory) \<leftarrow> vk_full (AllocateMemory type);
            if res \<noteq> VK_SUCCESS then return res
            else do {
              fg_modify (\<lambda>fg. fg\<lparr>fg_cb_memory := memory\<rparr>);
              res \<leftarrow> vk (BindMemory cb memory);
              if res \<noteq> VK_SUCCESS then return res
              else do {
                res \<leftarrow> vk (MapMemory memory);
                fg_modify (\<lambda>fg. fg\<lparr>fg_cb_have_map := (res = VK_SUCCESS)\<rparr>);
                return res
              }
            }
          })
     }
   }"

definition afmf_framegen_resources_create :: "('w fgs, vk_result) state" where
  "afmf_framegen_resources_create = do {
     fg \<leftarrow> fg_gets id;
     ok_all (map run_step (res_steps fg) @ [sampler_create, constants_create])
   }"

section \<open>The books of a frame generation\<close>

interpretation fgb: books "fgs_fg :: 'w fgs \<Rightarrow> afmf_framegen"
  by unfold_locales simp

lemma balanced_fg [simp]: "balanced X (s\<lparr>fgs_fg := fg\<rparr>) own = balanced X s own"
  by (simp add: balanced_def sound_def)

lemma tracks_fg_gets [tracking]:
  "tracks fgs_fg X fg own (f (g fg)) Q \<Longrightarrow> tracks fgs_fg X fg own (State_Monad.bind (fg_gets g) f) Q"
  by (auto simp: tracks_def)

lemma tracks_fg_modify [tracking]:
  assumes "tracks fgs_fg X (h fg) own (f ()) Q"
  shows "tracks fgs_fg X fg own (State_Monad.bind (fg_modify h) f) Q"
  unfolding tracks_def
proof (intro allI impI)
  fix s a s' assume "fgs_fg s = fg" "balanced X s own" "run_state (State_Monad.bind (fg_modify h) f) s = (a, s')"
  then show "\<exists>own'. balanced X s' own' \<and> Q a (fgs_fg s') own'"
    using tracksD [OF assms, of "s\<lparr>fgs_fg := h fg\<rparr>" a s'] by simp
qed

lemma tracks_fg_modify_last [tracking]: "Q () (h fg) own \<Longrightarrow> tracks fgs_fg X fg own (fg_modify h) Q"
  by (auto simp: tracks_def)

lemmas fg_tracking = tracking fgb.calls fgb.destroys fgb.destroys_last fgb.tracks_gets

definition img_objects :: "fg_image \<Rightarrow> (obj_kind \<times> handle) multiset" where
  "img_objects img = held OImageView (img_view img) + held OImage (img_image img) + held OMemory (img_memory img)"

lemma img_zero_simps [simp]:
  "img_image img_zero = 0" "img_memory img_zero = 0" "img_view img_zero = 0" "img_objects img_zero = {#}"
  by (simp_all add: img_zero_def img_objects_def)

lemma image_create_tracks:
  "tracks fgs_fg X fg own (image_create img_zero format extent usage)
     (\<lambda>(res, img) fg' own'. fg' = fg \<and> own' = own + img_objects img)"
  unfolding image_create_def
  by (intro fg_tracking) (simp_all add: img_objects_def held_def)

section \<open>All the images\<close>

text \<open>In the order \<open>afmf_framegen_destroy\<close> takes them.\<close>

definition all_targets :: "fg_target list" where
  "all_targets =
     [Output, ColorHalf]
     @ concat (map (\<lambda>p. Color p # concat (map (\<lambda>k. [Luma p k, Flow p k]) [0..<AFMF_LEVELS])) [0, 1])
     @ [FlowOut, Scd 0, Scd 1, Scd 2, Scd 3]"

fun ok_target :: "fg_target \<Rightarrow> bool" where
  "ok_target (Luma p k) = (p < 2 \<and> k < AFMF_LEVELS)"
| "ok_target (Flow p k) = (p < 2 \<and> k < AFMF_LEVELS)"
| "ok_target (Scd i) = (i < 4)"
| "ok_target (Color p) = (p < 2)"
| "ok_target t = True"

lemma set_all_targets: "set all_targets = {t. ok_target t}"
proof (rule set_eqI)
  fix t show "t \<in> set all_targets \<longleftrightarrow> t \<in> {t. ok_target t}"
    by (cases t) (auto simp: all_targets_def less_2_cases_iff less_Suc_eq eval_nat_numeral)
qed

lemma distinct_all_targets: "distinct all_targets"
  by (simp add: all_targets_def upt_rec)

definition fg_shape :: "afmf_framegen \<Rightarrow> bool" where
  "fg_shape fg \<longleftrightarrow> map length (fg_luma fg) = [AFMF_LEVELS, AFMF_LEVELS] \<and> map length (fg_flow fg) = [AFMF_LEVELS, AFMF_LEVELS]
     \<and> length (fg_scd fg) = 4 \<and> length (fg_color fg) = 2"

lemma fg_shape_zero: "fg_shape fg_zero"
  by (simp add: fg_shape_def fg_zero_def eval_nat_numeral)

lemma shape_lengths:
  assumes "map length xss = [n, m]"
  shows "length xss = 2" "length (xss ! 0) = n" "length (xss ! Suc 0) = m"
proof -
  obtain a b where "xss = [a, b]" "length a = n" "length b = m"
    using assms by (auto simp: map_eq_Cons_conv)
  then show "length xss = 2" "length (xss ! 0) = n" "length (xss ! Suc 0) = m" by simp_all
qed

lemma target_get_put:
  assumes "fg_shape fg" and "ok_target t" and "ok_target u"
  shows "target_get t (target_put u img fg) = (if t = u then img else target_get t fg)"
  using assms shape_lengths [of "fg_luma fg"] shape_lengths [of "fg_flow fg"]
  by (cases t; cases u) (auto simp: fg_shape_def nth_list_update less_2_cases_iff)

lemma map_length_update: "map length (xss[p := ys]) = (map length xss)[p := length ys]"
  by (simp add: map_update)

lemma fg_shape_put:
  assumes "fg_shape fg" and "ok_target u"
  shows "fg_shape (target_put u img fg)"
  using assms shape_lengths [of "fg_luma fg"] shape_lengths [of "fg_flow fg"]
  by (cases u) (auto simp: fg_shape_def map_length_update less_2_cases_iff)

definition imgs :: "afmf_framegen \<Rightarrow> (obj_kind \<times> handle) multiset" where
  "imgs fg = sum_list (map (\<lambda>t. img_objects (target_get t fg)) all_targets)"

lemma sum_list_at:
  fixes f g :: "'a \<Rightarrow> 'b multiset"
  assumes "distinct xs" and "u \<in> set xs" and "\<And>t. t \<in> set xs \<Longrightarrow> t \<noteq> u \<Longrightarrow> g t = f t"
  shows "sum_list (map g xs) + f u = sum_list (map f xs) + g u"
  using assms
proof (induction xs)
  case (Cons a xs)
  show ?case
  proof (cases "a = u")
    case True
    then have "map g xs = map f xs" using Cons.prems by auto
    then show ?thesis using True by (simp del: map_eq_conv)
  next
    case False
    then show ?thesis using Cons by (simp add: add_ac)
  qed
qed simp

lemma imgs_put:
  assumes "fg_shape fg" and "ok_target u"
  shows "imgs (target_put u img fg) + img_objects (target_get u fg) = imgs fg + img_objects img"
proof -
  have "sum_list (map (\<lambda>t. img_objects (target_get t (target_put u img fg))) all_targets) + img_objects (target_get u fg)
    = sum_list (map (\<lambda>t. img_objects (target_get t fg)) all_targets) + img_objects (target_get u (target_put u img fg))"
    by (rule sum_list_at [OF distinct_all_targets]) (use assms in \<open>auto simp: set_all_targets target_get_put\<close>)
  then show ?thesis using assms by (simp add: imgs_def target_get_put)
qed


section \<open>What the creation owns\<close>

text \<open>The objects that are not images of a target.\<close>

definition own_rest :: "afmf_framegen \<Rightarrow> (obj_kind \<times> handle) multiset" where
  "own_rest fg =
     held OSampler (fg_sampler fg) + held OBuffer (fg_cb fg) + held OMemory (fg_cb_memory fg)
     + held ODescriptorPool (fg_pool fg) + held OCommandPool (fg_secondary_pool fg)
     + sum_list (map (held OImageView) (fg_target_views fg))
     + held OBuffer (dump_buffer (fg_dump fg)) + held OMemory (dump_memory (fg_dump fg))
     + held OQueryPool (prof_queries (fg_prof fg))"

definition fg_objects :: "afmf_framegen \<Rightarrow> (obj_kind \<times> handle) multiset" where
  "fg_objects fg = imgs fg + own_rest fg"

text \<open>What the image steps leave alone.\<close>

definition fg_kept where
  "fg_kept fg = (own_rest fg, fg_sampler fg, fg_cb fg, fg_cb_memory fg, fg_pool fg, fg_secondary_pool fg,
     fg_target_views fg, fg_dump fg, fg_prof fg, fg_slots fg)"

lemma fg_kept_put [simp]: "fg_kept (target_put t img fg) = fg_kept fg"
  by (cases t) (simp_all add: fg_kept_def own_rest_def)

lemma fg_kept_sizes [simp]: "fg_kept (level_sizes k fg) = fg_kept fg"
  by (simp add: fg_kept_def own_rest_def level_sizes_def Let_def)

lemma target_get_sizes [simp]: "target_get t (level_sizes k fg) = target_get t fg"
  by (cases t) (simp_all add: level_sizes_def Let_def)

lemma imgs_sizes [simp]: "imgs (level_sizes k fg) = imgs fg"
  by (simp add: imgs_def)

lemma fg_shape_sizes [simp]: "fg_shape (level_sizes k fg) = fg_shape fg"
  by (simp add: fg_shape_def level_sizes_def Let_def)

primrec targets :: "res_step list \<Rightarrow> fg_target list" where
  "targets [] = []"
| "targets (st # sts) = (case st of Image t \<Rightarrow> t # targets sts | LevelSizes k \<Rightarrow> targets sts)"

definition blank :: "fg_target list \<Rightarrow> afmf_framegen \<Rightarrow> bool" where
  "blank ts fg \<longleftrightarrow> (\<forall>t \<in> set ts. target_get t fg = img_zero)"

definition steps_post where
  "steps_post fg own res fg' own' \<longleftrightarrow> fg_shape fg' \<and> fg_kept fg' = fg_kept fg \<and> own' + imgs fg = own + imgs fg'"

lemma run_step_image:
  assumes "fg_shape fg" and "ok_target t" and "target_get t fg = img_zero"
  shows "tracks fgs_fg X fg own (run_step (Image t))
     (\<lambda>res fg' own'. (\<exists>img. fg' = target_put t img fg) \<and> own' + imgs fg = own + imgs fg')"
proof -
  obtain format extent usage where spec: "image_spec fg t = (format, extent, usage)" by (metis surj_pair)
  have sums: "own + img_objects img + imgs fg = own + imgs (target_put t img fg)" for img
    using imgs_put [OF assms(1,2), of img] assms(3) by (simp add: add_ac)
  have rest: "tracks fgs_fg X fg own (do { (res, img) \<leftarrow> image_create img_zero format extent usage;
        fg_modify (target_put t img); return res })
      (\<lambda>res fg' own'. (\<exists>img. fg' = target_put t img fg) \<and> own' + imgs fg = own + imgs fg')"
    by (rule tracks_bind [OF image_create_tracks]) (use sums in \<open>auto intro!: tracking\<close>)
  show ?thesis
    unfolding run_step.simps by (rule tracks_fg_gets) (use rest in \<open>simp add: spec assms(3)\<close>)
qed

lemma sums_chain:
  fixes a b c :: "'x multiset"
  assumes "a + q = b + r" and "b + p = c + q"
  shows "a + p = c + r"
proof -
  have "(a + p) + q = (a + q) + p" by (simp add: add_ac)
  also have "\<dots> = (b + p) + r" by (simp only: assms(1) add_ac)
  also have "\<dots> = (c + r) + q" by (simp only: assms(2) add_ac)
  finally show ?thesis by simp
qed

lemma run_steps_track:
  assumes "distinct (targets sts)" and "\<forall>t \<in> set (targets sts). ok_target t" and "fg_shape fg" and "blank (targets sts) fg"
  shows "tracks (fgs_fg :: 'w fgs \<Rightarrow> _) X fg own (ok_all (map run_step sts)) (steps_post fg own)"
  using assms
proof (induction sts arbitrary: fg own)
  case Nil
  then show ?case by (auto intro: tracking simp: steps_post_def)
next
  case (Cons st sts)
  show ?case
  proof (cases st)
    case (LevelSizes k)
    have "tracks (fgs_fg :: 'w fgs \<Rightarrow> _) X (level_sizes k fg) own (ok_all (map run_step sts)) (steps_post (level_sizes k fg) own)"
      by (rule Cons.IH) (use Cons.prems LevelSizes in \<open>auto simp: blank_def\<close>)
    then have "tracks (fgs_fg :: 'w fgs \<Rightarrow> _) X (level_sizes k fg) own (ok_all (map run_step sts)) (steps_post fg own)"
      by (rule tracks_weaken) (simp add: steps_post_def)
    then show ?thesis using LevelSizes by (auto intro!: tracking)
  next
    case (Image t)
    have t: "ok_target t" "target_get t fg = img_zero" "t \<notin> set (targets sts)"
      using Cons.prems Image by (auto simp: blank_def)
    show ?thesis
      unfolding Image list.map ok_all.simps
    proof (rule tracks_bind [OF run_step_image [OF Cons.prems(3) t(1,2)]])
      fix res :: vk_result and fg' own' assume "(\<exists>img. fg' = target_put t img fg) \<and> own' + imgs fg = own + imgs fg'"
      then obtain img where fg': "fg' = target_put t img fg" and own': "own' + imgs fg = own + imgs fg'" by blast
      have shape: "fg_shape fg'" using fg_shape_put Cons.prems(3) t(1) by (simp add: fg')
      have post: "steps_post fg own r y own2" if "steps_post fg' own' r y own2" for r y own2
        using that sums_chain [of own2 "imgs fg'" own' "imgs y" "imgs fg" own] own' by (simp add: steps_post_def fg')
      have "tracks (fgs_fg :: 'w fgs \<Rightarrow> _) X fg' own' (ok_all (map run_step sts)) (steps_post fg' own')"
      proof (rule Cons.IH)
        show "blank (targets sts) fg'"
          using Cons.prems t(3) Image by (auto simp: blank_def fg' target_get_put t(1))
      qed (use Cons.prems Image shape in auto)
      then have "tracks (fgs_fg :: 'w fgs \<Rightarrow> _) X fg' own' (ok_all (map run_step sts)) (steps_post fg own)"
        by (rule tracks_weaken) (rule post)
      moreover have "tracks (fgs_fg :: 'w fgs \<Rightarrow> _) X fg' own' (return res) (steps_post fg own)"
        using own' shape by (intro tracking) (simp add: steps_post_def fg')
      ultimately show "tracks (fgs_fg :: 'w fgs \<Rightarrow> _) X fg' own' (if res \<noteq> VK_SUCCESS then return res else ok_all (map run_step sts))
          (steps_post fg own)" by simp
    qed
  qed
qed

lemma targets_simps [simp]:
  "targets (sts @ us) = targets sts @ targets us" "targets (concat stss) = concat (map targets stss)"
proof -
  show append: "targets (sts @ us) = targets sts @ targets us" for sts us
    by (induction sts) (simp_all split: res_step.split)
  show "targets (concat stss) = concat (map targets stss)" by (induction stss) (simp_all add: append)
qed

lemma targets_res_steps:
  "targets (res_steps fg) =
     concat (map (\<lambda>k. [Luma 0 k, Flow 0 k, Luma 1 k, Flow 1 k]) [0..<AFMF_LEVELS]) @ [FlowOut, Scd 0, Scd 1, Scd 2, Scd 3, Color 0, Color 1]
     @ (if fg_flow_scale fg > 1 \<and> \<not> fg_ingest_direct fg then [ColorHalf] else []) @ (if \<not> fg_direct fg then [Output] else [])"
  by (simp add: res_steps_def comp_def)

lemma res_steps_ok:
  "distinct (targets (res_steps fg))" "\<forall>t \<in> set (targets (res_steps fg)). ok_target t"
  by (auto simp: targets_res_steps upt_rec)

lemma target_get_other [simp]:
  "target_get t (fg\<lparr>fg_sampler := a\<rparr>) = target_get t fg" "target_get t (fg\<lparr>fg_cb := a\<rparr>) = target_get t fg"
  "target_get t (fg\<lparr>fg_cb_memory := a\<rparr>) = target_get t fg" "target_get t (fg\<lparr>fg_cb_stride := st\<rparr>) = target_get t fg"
  "target_get t (fg\<lparr>fg_cb_have_map := b\<rparr>) = target_get t fg" "target_get t (fg\<lparr>fg_pool := a\<rparr>) = target_get t fg"
  "target_get t (fg\<lparr>fg_sets := ss\<rparr>) = target_get t fg" "target_get t (fg\<lparr>fg_direct_sets := ds\<rparr>) = target_get t fg"
  "target_get t (fg\<lparr>fg_ingest_sets := ds\<rparr>) = target_get t fg" "target_get t (fg\<lparr>fg_secondary_pool := a\<rparr>) = target_get t fg"
  "target_get t (fg\<lparr>fg_secondaries := xs\<rparr>) = target_get t fg" "target_get t (fg\<lparr>fg_target_views := ds\<rparr>) = target_get t fg"
  "target_get t (fg\<lparr>fg_source_views := ds\<rparr>) = target_get t fg" "target_get t (fg\<lparr>fg_dump := d\<rparr>) = target_get t fg"
  "target_get t (fg\<lparr>fg_prof := pr\<rparr>) = target_get t fg"
  by (cases t; simp)+

lemma imgs_cong: "(\<And>t. target_get t fg' = target_get t fg) \<Longrightarrow> imgs fg' = imgs fg"
  by (simp add: imgs_def)

lemma imgs_other [simp]:
  "imgs (fg\<lparr>fg_sampler := a\<rparr>) = imgs fg" "imgs (fg\<lparr>fg_cb := a\<rparr>) = imgs fg" "imgs (fg\<lparr>fg_cb_memory := a\<rparr>) = imgs fg"
  "imgs (fg\<lparr>fg_cb_stride := st\<rparr>) = imgs fg" "imgs (fg\<lparr>fg_cb_have_map := b\<rparr>) = imgs fg" "imgs (fg\<lparr>fg_pool := a\<rparr>) = imgs fg"
  "imgs (fg\<lparr>fg_sets := ss\<rparr>) = imgs fg" "imgs (fg\<lparr>fg_direct_sets := ds\<rparr>) = imgs fg" "imgs (fg\<lparr>fg_ingest_sets := ds\<rparr>) = imgs fg"
  "imgs (fg\<lparr>fg_secondary_pool := a\<rparr>) = imgs fg" "imgs (fg\<lparr>fg_secondaries := xs\<rparr>) = imgs fg" "imgs (fg\<lparr>fg_target_views := ds\<rparr>) = imgs fg"
  "imgs (fg\<lparr>fg_source_views := ds\<rparr>) = imgs fg" "imgs (fg\<lparr>fg_dump := d\<rparr>) = imgs fg" "imgs (fg\<lparr>fg_prof := pr\<rparr>) = imgs fg"
  by (rule imgs_cong; simp)+

text \<open>What comes after the images, the sampler and the constants: none of it touched by them.\<close>

definition fg_later where
  "fg_later fg = (fg_shape fg, fg_pool fg, fg_secondary_pool fg, fg_target_views fg, fg_dump fg, fg_prof fg, fg_slots fg)"

definition creating where
  "creating fg res fg' own' \<longleftrightarrow> own' = fg_objects fg' \<and> fg_later fg' = fg_later fg"

lemma sampler_tracks:
  assumes "fg_sampler fg = VK_NULL_HANDLE"
  shows "tracks fgs_fg X fg (fg_objects fg) sampler_create
     (\<lambda>res fg' own'. creating fg res fg' own' \<and> fg_cb fg' = fg_cb fg \<and> fg_cb_memory fg' = fg_cb_memory fg)"
  unfolding sampler_create_def
  by (intro fg_tracking) (simp_all add: assms creating_def fg_objects_def own_rest_def held_some fg_later_def fg_shape_def)

lemma constants_tracks:
  assumes "fg_cb fg = VK_NULL_HANDLE" "fg_cb_memory fg = VK_NULL_HANDLE"
  shows "tracks fgs_fg X fg (fg_objects fg) constants_create (creating fg)"
  unfolding constants_create_def
  by (intro fg_tracking) (simp_all add: assms creating_def fg_objects_def own_rest_def held_some fg_later_def fg_shape_def)


lemma ok_all_append:
  "ok_all (ms @ ns) = State_Monad.bind (ok_all ms) (\<lambda>res. if res \<noteq> VK_SUCCESS then return res else ok_all ns)"
proof (induction ms)
  case (Cons m ms)
  show ?case
    unfolding append_Cons ok_all.simps Cons.IH
    by (rule state.expand) (auto simp: State_Monad.bind_def fun_eq_iff split: prod.splits)
qed simp

lemma steps_creating:
  assumes "steps_post fg (fg_objects fg) res fg' own'" and "fg_shape fg"
  shows "creating fg res fg' own'" "fg_sampler fg' = fg_sampler fg" "fg_cb fg' = fg_cb fg" "fg_cb_memory fg' = fg_cb_memory fg"
proof -
  have k: "fg_kept fg' = fg_kept fg" and sums: "own' + imgs fg = (imgs fg + own_rest fg) + imgs fg'" and "fg_shape fg'"
    using assms(1) by (simp_all add: steps_post_def fg_objects_def)
  then have r: "own_rest fg' = own_rest fg" by (simp add: fg_kept_def)
  have "own' + imgs fg = (imgs fg' + own_rest fg) + imgs fg" using sums by (simp add: add_ac)
  then show "creating fg res fg' own'"
    using k r \<open>fg_shape fg'\<close> assms(2) by (simp add: creating_def fg_objects_def fg_later_def fg_kept_def)
  show "fg_sampler fg' = fg_sampler fg" "fg_cb fg' = fg_cb fg" "fg_cb_memory fg' = fg_cb_memory fg"
    using k by (simp_all add: fg_kept_def)
qed

lemma creating_trans: "creating fg r fg1 own1 \<Longrightarrow> creating fg1 res fg' own' \<Longrightarrow> creating fg res fg' own'"
  by (simp add: creating_def)

lemma resources_tracks:
  assumes "fg_shape fg" "blank all_targets fg"
    and "fg_sampler fg = VK_NULL_HANDLE" "fg_cb fg = VK_NULL_HANDLE" "fg_cb_memory fg = VK_NULL_HANDLE"
  shows "tracks (fgs_fg :: 'w fgs \<Rightarrow> _) X fg (fg_objects fg) afmf_framegen_resources_create (creating fg)"
proof -
  have blank: "blank (targets (res_steps fg)) fg"
    using assms(2) res_steps_ok(2) set_all_targets by (auto simp: blank_def)
  have "tracks (fgs_fg :: 'w fgs \<Rightarrow> _) X fg (fg_objects fg) (ok_all (map run_step (res_steps fg) @ [sampler_create, constants_create])) (creating fg)"
    unfolding ok_all_append
  proof (rule tracks_bind [OF run_steps_track [OF res_steps_ok assms(1) blank]])
    fix res :: vk_result and fg1 own1 assume post: "steps_post fg (fg_objects fg) res fg1 own1"
    note c = steps_creating [OF post assms(1)]
    have own1: "own1 = fg_objects fg1" using c(1) by (simp add: creating_def)
    have z: "fg_sampler fg1 = 0" "fg_cb fg1 = 0" "fg_cb_memory fg1 = 0" using c assms by simp_all
    have "tracks (fgs_fg :: 'w fgs \<Rightarrow> _) X fg1 own1 (ok_all [sampler_create, constants_create]) (creating fg)"
      unfolding ok_all.simps own1
    proof (rule tracks_bind [OF sampler_tracks [OF z(1)]])
      fix r :: vk_result and fg2 own2
      assume "creating fg1 r fg2 own2 \<and> fg_cb fg2 = fg_cb fg1 \<and> fg_cb_memory fg2 = fg_cb_memory fg1"
      then have s: "creating fg1 r fg2 own2" "fg_cb fg2 = 0" "fg_cb_memory fg2 = 0" "own2 = fg_objects fg2"
        using z by (simp_all add: creating_def)
      have all: "creating fg r' fg' own'" if "creating fg2 r' fg' own'" for r' :: vk_result and fg' own'
        by (rule creating_trans [OF creating_trans [OF c(1) s(1)] that])
      have "creating fg2 r fg2 own2" by (simp add: creating_def s(4))
      then have "creating fg r fg2 own2" by (rule all)
      moreover have "tracks (fgs_fg :: 'w fgs \<Rightarrow> _) X fg2 own2
          (State_Monad.bind constants_create (\<lambda>res. if res \<noteq> VK_SUCCESS then return res else return VK_SUCCESS)) (creating fg)"
        unfolding s(4) by (rule tracks_bind [OF constants_tracks [OF s(2,3)]]) (use all in \<open>auto intro!: tracking simp: creating_def\<close>)
      ultimately show "tracks (fgs_fg :: 'w fgs \<Rightarrow> _) X fg2 own2 (if r \<noteq> VK_SUCCESS then return r else
          State_Monad.bind constants_create (\<lambda>res. if res \<noteq> VK_SUCCESS then return res else return VK_SUCCESS)) (creating fg)"
        by (simp add: tracks_return)
    qed
    moreover have "tracks (fgs_fg :: 'w fgs \<Rightarrow> _) X fg1 own1 (return res) (creating fg)" using c(1) by (intro tracking)
    ultimately show "tracks (fgs_fg :: 'w fgs \<Rightarrow> _) X fg1 own1
        (if res \<noteq> VK_SUCCESS then return res else ok_all [sampler_create, constants_create]) (creating fg)" by simp
  qed
  then show ?thesis unfolding afmf_framegen_resources_create_def by (intro tracks_fg_gets) simp
qed

section \<open>The pyramid\<close>

definition sizes :: "afmf_framegen \<Rightarrow> extent2d \<times> extent2d list \<times> extent2d list" where
  "sizes fg = (fg_of_extent fg, fg_luma_size fg, fg_flow_size fg)"

lemma sizes_put [simp]: "sizes (target_put t img fg) = sizes fg"
  by (cases t) (simp_all add: sizes_def)

lemma sizes_level: "sizes fg' = sizes fg \<Longrightarrow> sizes (level_sizes k fg') = sizes (level_sizes k fg)"
  by (simp add: sizes_def level_sizes_def Let_def)

lemma keeps_image_create [keeps_intros]: "keeps (on_fg Q) (image_create img format extent usage)"
  unfolding image_create_def by (intro keeps_intros effect_free_on_fg)

lemma fg_image_create: "run_state (image_create img format extent usage) s = (a, s') \<Longrightarrow> fgs_fg s' = fgs_fg s"
  using keeps_run [OF keeps_image_create [of "\<lambda>fg. fg = fgs_fg s"]] unfolding on_fg_def by blast

primrec all_sizes :: "res_step list \<Rightarrow> afmf_framegen \<Rightarrow> afmf_framegen" where
  "all_sizes [] fg = fg"
| "all_sizes (st # sts) fg = all_sizes sts (case st of LevelSizes k \<Rightarrow> level_sizes k fg | Image t \<Rightarrow> fg)"

lemma all_sizes_cong: "sizes fg' = sizes fg \<Longrightarrow> sizes (all_sizes sts fg') = sizes (all_sizes sts fg)"
proof (induction sts arbitrary: fg fg')
  case (Cons st sts)
  show ?case
  proof (cases st)
    case (LevelSizes k)
    then show ?thesis using Cons.IH [OF sizes_level [OF Cons.prems]] by simp
  qed (use Cons.IH [OF Cons.prems] in simp)
qed simp

lemma run_steps_sizes:
  assumes "run_state (ok_all (map run_step sts)) s = (VK_SUCCESS, s')"
  shows "sizes (fgs_fg s') = sizes (all_sizes sts (fgs_fg s))"
  using assms
proof (induction sts arbitrary: s)
  case (Cons st sts)
  then obtain s1 where st: "run_state (run_step st) s = (VK_SUCCESS, s1)"
    and rest: "run_state (ok_all (map run_step sts)) s1 = (VK_SUCCESS, s')"
    by (auto split: prod.splits if_splits)
  have "sizes (fgs_fg s1) = sizes (case st of LevelSizes k \<Rightarrow> level_sizes k (fgs_fg s) | Image t \<Rightarrow> fgs_fg s)"
    using st by (cases st) (auto split: prod.splits dest!: fg_image_create)
  then have "sizes (all_sizes sts (fgs_fg s1)) = sizes (all_sizes (st # sts) (fgs_fg s))"
    unfolding all_sizes.simps by (rule all_sizes_cong)
  then show ?case using Cons.IH [OF rest] by simp
qed simp

lemma all_sizes_res_steps: "all_sizes (res_steps fg) fg' = fold level_sizes [0..<AFMF_LEVELS] fg'"
proof -
  have app: "all_sizes (sts @ us) g = all_sizes us (all_sizes sts g)" for sts us g
    by (induction sts arbitrary: g) simp_all
  show ?thesis by (simp add: res_steps_def app upt_rec)
qed

text \<open>The number of blocks of a level, from the pixels of the flow.\<close>

primrec blocks :: "nat \<Rightarrow> nat \<Rightarrow> nat" where
  "blocks n 0 = (n + 7) div 8"
| "blocks n (Suc k) = (blocks n k + 1) div 2"

lemma blocks_cover: "n \<le> blocks n k * 8 * 2 ^ k"
proof (induction k)
  case (Suc k)
  have "blocks n k \<le> 2 * blocks n (Suc k)" by simp
  then have "blocks n k * (8 * 2 ^ k) \<le> 2 * blocks n (Suc k) * (8 * 2 ^ k)" by (rule mult_right_mono) simp
  moreover have "n \<le> blocks n k * (8 * 2 ^ k)" using Suc by (simp add: mult_ac)
  ultimately have "n \<le> 2 * blocks n (Suc k) * (8 * 2 ^ k)" by (rule le_trans [rotated])
  then show ?case by (simp only: power_Suc mult_ac)
qed simp

lemma blocks_le: "blocks n k \<le> n + 1"
proof (induction k)
  case (Suc k)
  then show ?case by simp
qed simp

lemma blocks_pos: "0 < n \<Longrightarrow> 0 < blocks n k"
  by (induction k) simp_all

lemma unat_blocks:
  fixes n a :: u32
  assumes "unat n + 8 < 2 ^ 32"
  shows "unat ((n + 8 - 1) div 8) = blocks (unat n) 0"
    and "unat a = blocks (unat n) k \<Longrightarrow> unat ((a + 1) div 2) = blocks (unat n) (Suc k)"
proof -
  have "unat (n + 7) = unat n + 7" using assms by (subst unat_plus_simple [THEN iffD1]) (simp_all add: word_le_nat_alt unat_word_ariths)
  moreover have "n + 8 - 1 = n + 7" by simp
  moreover have "unat ((n + 7) div 8) = unat (n + 7) div unat (8 :: u32)" by (rule unat_div)
  moreover have "unat (8 :: u32) = 8" by simp
  ultimately show "unat ((n + 8 - 1) div 8) = blocks (unat n) 0" by (simp only: blocks.simps)
next
  assume a: "unat a = blocks (unat n) k"
  then have "unat a + 1 < 2 ^ 32" using blocks_le [of "unat n" k] assms by simp
  then have "unat (a + 1) = unat a + 1" by (simp add: unat_word_ariths)
  then show "unat ((a + 1) div 2) = blocks (unat n) (Suc k)" by (simp add: unat_div a)
qed


definition extent_fits :: "extent2d \<Rightarrow> bool" where
  "extent_fits e \<longleftrightarrow> 0 < width e \<and> 0 < height e \<and> unat (width e) + 8 < 2 ^ 32 \<and> unat (height e) + 8 < 2 ^ 32"

lemma fold_sizes:
  assumes "extent_fits (fg_of_extent fg)" and "length (fg_luma_size fg) = AFMF_LEVELS" "length (fg_flow_size fg) = AFMF_LEVELS"
    and "m \<le> AFMF_LEVELS"
  shows "let fg' = fold level_sizes [0..<m] fg in
     fg_of_extent fg' = fg_of_extent fg \<and> length (fg_luma_size fg') = AFMF_LEVELS \<and> length (fg_flow_size fg') = AFMF_LEVELS
     \<and> (\<forall>k < m. fg_luma_size fg' ! k = \<lparr>width = shifted (width (fg_of_extent fg)) k, height = shifted (height (fg_of_extent fg)) k\<rparr>
          \<and> unat (width (fg_flow_size fg' ! k)) = blocks (unat (width (fg_of_extent fg))) k
          \<and> unat (height (fg_flow_size fg' ! k)) = blocks (unat (height (fg_of_extent fg))) k)"
  using assms(4)
proof (induction m)
  case 0
  then show ?case using assms by (simp add: Let_def)
next
  case (Suc m)
  let ?of = "fg_of_extent fg" and ?fg = "fold level_sizes [0..<m] fg"
  have IH: "fg_of_extent ?fg = ?of" "length (fg_luma_size ?fg) = AFMF_LEVELS" "length (fg_flow_size ?fg) = AFMF_LEVELS"
    "\<forall>k < m. fg_luma_size ?fg ! k = \<lparr>width = shifted (width ?of) k, height = shifted (height ?of) k\<rparr>
          \<and> unat (width (fg_flow_size ?fg ! k)) = blocks (unat (width ?of)) k
          \<and> unat (height (fg_flow_size ?fg ! k)) = blocks (unat (height ?of)) k"
    using Suc by (simp_all add: Let_def)
  have fits: "unat (width ?of) + 8 < 2 ^ 32" "unat (height ?of) + 8 < 2 ^ 32" using assms(1) by (simp_all add: extent_fits_def)
  have m: "m < AFMF_LEVELS" using Suc.prems by simp
  have new: "unat (width (fg_flow_size (level_sizes m ?fg) ! m)) = blocks (unat (width ?of)) m
      \<and> unat (height (fg_flow_size (level_sizes m ?fg) ! m)) = blocks (unat (height ?of)) m"
  proof (cases m)
    case 0
    have "fg_flow_size (level_sizes 0 fg) ! 0 = \<lparr>width = (width ?of + 8 - 1) div 8, height = (height ?of + 8 - 1) div 8\<rparr>"
      using assms(3) by (simp add: level_sizes_def Let_def)
    then show ?thesis using 0 unat_blocks(1) [OF fits(1)] unat_blocks(1) [OF fits(2)] by (simp del: blocks.simps)
  next
    case (Suc j)
    let ?above = "fg_flow_size ?fg ! j"
    have above: "unat (width ?above) = blocks (unat (width ?of)) j" "unat (height ?above) = blocks (unat (height ?of)) j"
      using IH(4) Suc by auto
    have "fg_flow_size (level_sizes m ?fg) ! m = \<lparr>width = (width ?above + 1) div 2, height = (height ?above + 1) div 2\<rparr>"
      using IH(3) m Suc by (simp add: level_sizes_def Let_def)
    then show ?thesis
      using Suc unat_blocks(2) [OF fits(1) above(1)] unat_blocks(2) [OF fits(2) above(2)] by (simp del: blocks.simps)
  qed
  have old: "fg_flow_size (level_sizes m ?fg) ! k = fg_flow_size ?fg ! k" if "k < m" for k
    using that by (simp add: level_sizes_def Let_def)
  have luma: "fg_luma_size (level_sizes m ?fg) ! k = (if k = m then \<lparr>width = shifted (width ?of) m, height = shifted (height ?of) m\<rparr>
      else fg_luma_size ?fg ! k)" if "k \<le> m" for k
    using that IH m by (simp add: level_sizes_def Let_def nth_list_update)
  have kept: "fg_of_extent (level_sizes m ?fg) = ?of" "length (fg_luma_size (level_sizes m ?fg)) = AFMF_LEVELS"
    "length (fg_flow_size (level_sizes m ?fg)) = AFMF_LEVELS" using IH by (simp_all add: level_sizes_def Let_def)
  show ?case
    unfolding Let_def upt_Suc_append [OF le0] fold_append fold.simps comp_apply id_apply
    using new old luma kept IH by (auto simp: less_Suc_eq)
qed


lemma keeps_sizes:
  "keeps (on_fg (\<lambda>fg. sizes fg = c)) sampler_create" "keeps (on_fg (\<lambda>fg. sizes fg = c)) constants_create"
  unfolding sampler_create_def constants_create_def
  by (intro keeps_intros effect_free_on_fg; simp add: sizes_def)+

lemma resources_sizes:
  assumes "run_state afmf_framegen_resources_create s = (VK_SUCCESS, s')"
  shows "sizes (fgs_fg s') = sizes (fold level_sizes [0..<AFMF_LEVELS] (fgs_fg s))"
proof -
  obtain s1 s2 where steps: "run_state (ok_all (map run_step (res_steps (fgs_fg s)))) s = (VK_SUCCESS, s1)"
    and sampler: "run_state sampler_create s1 = (VK_SUCCESS, s2)" and constants: "run_state constants_create s2 = (VK_SUCCESS, s')"
    using assms by (auto simp: afmf_framegen_resources_create_def ok_all_append split: prod.splits if_splits)
  have "sizes (fgs_fg s') = sizes (fgs_fg s1)"
    using keeps_run [OF keeps_sizes(1) _ sampler] keeps_run [OF keeps_sizes(2) _ constants] by (simp add: on_fg_def)
  then show ?thesis using run_steps_sizes [OF steps] all_sizes_res_steps by simp
qed

lemma shifted_bounds: "0 < n \<Longrightarrow> 0 < shifted n k \<and> unat (shifted n k) \<le> max 1 (unat n div 2 ^ k)"
proof -
  have "unat (drop_bit k n) = unat n div 2 ^ k" unfolding unat_drop_bit_eq by (rule drop_bit_eq_div)
  then show ?thesis by (auto simp: shifted_def word_gt_0)
qed

lemma shifted_blocks:
  assumes "0 < n"
  shows "unat (shifted n k) \<le> 8 * blocks (unat n) k"
proof -
  have "unat n \<le> (8 * blocks (unat n) k) * 2 ^ k" using blocks_cover [of "unat n" k] by (simp add: mult_ac)
  then have "unat n div 2 ^ k \<le> 8 * blocks (unat n) k" by (metis div_le_mono nonzero_mult_div_cancel_right power_not_zero zero_neq_numeral)
  moreover have "1 \<le> 8 * blocks (unat n) k" using blocks_pos [of "unat n" k] assms by (simp add: word_gt_0_no unat_gt_0 word_gt_0)
  ultimately show ?thesis using shifted_bounds [OF assms, of k] by (auto simp: max_def split: if_splits)
qed

text \<open>
  C36: The pyramid covers the frame. Once the resources are made, every one of the seven levels has a
  luma image that is not empty and a flow image with a block for every eight pixels of it, and
  each level's flow has half the blocks of the level below it, rounded up.
\<close>
theorem pyramid_covers:
  assumes run: "run_state afmf_framegen_resources_create s = (VK_SUCCESS, s')"
    and fits: "extent_fits (fg_of_extent (fgs_fg s))"
    and lengths: "length (fg_luma_size (fgs_fg s)) = AFMF_LEVELS" "length (fg_flow_size (fgs_fg s)) = AFMF_LEVELS"
    and k: "k < AFMF_LEVELS"
  shows "let luma = fg_luma_size (fgs_fg s') ! k; flow = fg_flow_size (fgs_fg s') ! k; next_flow = fg_flow_size (fgs_fg s') ! (k + 1)
    in 0 < width luma \<and> 0 < height luma
     \<and> unat (width luma) \<le> 8 * unat (width flow) \<and> unat (height luma) \<le> 8 * unat (height flow)
     \<and> (k + 1 < AFMF_LEVELS \<longrightarrow> unat (width next_flow) = (unat (width flow) + 1) div 2
           \<and> unat (height next_flow) = (unat (height flow) + 1) div 2)"
proof -
  let ?of = "fg_of_extent (fgs_fg s)" and ?fg = "fold level_sizes [0..<AFMF_LEVELS] (fgs_fg s)"
  have same: "fg_luma_size (fgs_fg s') = fg_luma_size ?fg" "fg_flow_size (fgs_fg s') = fg_flow_size ?fg"
    using resources_sizes [OF run] by (simp_all add: sizes_def)
  note f = fold_sizes [OF fits lengths order_refl, unfolded Let_def]
  have at: "fg_luma_size ?fg ! j = \<lparr>width = shifted (width ?of) j, height = shifted (height ?of) j\<rparr>"
      "unat (width (fg_flow_size ?fg ! j)) = blocks (unat (width ?of)) j"
      "unat (height (fg_flow_size ?fg ! j)) = blocks (unat (height ?of)) j" if "j < AFMF_LEVELS" for j
    using f that by blast+
  have pos: "0 < width ?of" "0 < height ?of" using fits by (simp_all add: extent_fits_def)
  show ?thesis
    unfolding Let_def same
    using at [OF k] at(2,3) [of "k + 1"] shifted_bounds [OF pos(1)] shifted_bounds [OF pos(2)]
      shifted_blocks [OF pos(1)] shifted_blocks [OF pos(2)]
    by simp
qed


section \<open>A run that succeeds\<close>

text \<open>A driver that answers 3 to everything, a device with one memory type that suits all.\<close>

definition easy_sys :: "afmf_framegen \<Rightarrow> nat fgs" where
  "easy_sys fg = (sample_fgs fg)\<lparr>eff_driver := (\<lambda>c w. ((VK_SUCCESS, 3), w)),
     fgs_dev := dev_zero\<lparr>dev_memory_types := [{DEVICE_LOCAL, HOST_VISIBLE, HOST_COHERENT}]\<rparr>\<rparr>"

definition easy :: "nat fgs \<Rightarrow> bool" where
  "easy s \<longleftrightarrow> eff_driver s = (\<lambda>c w. ((VK_SUCCESS, 3), w))
     \<and> dev_memory_types (fgs_dev s) = [{DEVICE_LOCAL, HOST_VISIBLE, HOST_COHERENT}]"

lemma easy_simps [simp]:
  "easy (s\<lparr>eff_trace := tr\<rparr>) = easy s" "easy (s\<lparr>eff_world := w\<rparr>) = easy s" "easy (s\<lparr>fgs_fg := fg\<rparr>) = easy s"
  by (simp_all add: easy_def)

lemma easy_vk:
  "easy s \<Longrightarrow> run_state (vk_full c) s = ((VK_SUCCESS, 3), s\<lparr>eff_trace := eff_trace s @ [Called c VK_SUCCESS 3]\<rparr>)"
  "easy s \<Longrightarrow> run_state (vk c) s = (VK_SUCCESS, s\<lparr>eff_trace := eff_trace s @ [Called c VK_SUCCESS 3]\<rparr>)"
  by (simp_all add: easy_def run_vk_full run_vk)

lemma easy_memory:
  "easy s \<Longrightarrow> image_memory_type (fgs_dev s) 3 = Some 0"
  "easy s \<Longrightarrow> afmf_framegen_find_memory_type (fgs_dev s) 3 {HOST_VISIBLE, HOST_COHERENT} = Some 0"
  by (simp_all add: easy_def image_memory_type_def afmf_framegen_find_memory_type_def dev_zero_def)

lemma easy_image_create:
  "easy s \<Longrightarrow> \<exists>img s'. run_state (image_create i f e u) s = ((VK_SUCCESS, img), s') \<and> easy s'"
  by (simp add: image_create_def easy_vk easy_memory)

lemma easy_run_step: "easy s \<Longrightarrow> \<exists>s'. run_state (run_step st) s = (VK_SUCCESS, s') \<and> easy s'"
proof (cases st)
  case (Image t)
  assume "easy s"
  moreover obtain format extent usage where "image_spec (fgs_fg s) t = (format, extent, usage)" by (metis surj_pair)
  ultimately show ?thesis
    using easy_image_create [of s "target_get t (fgs_fg s)" format extent usage] Image by auto
qed simp

lemma ok_all_succeeds:
  assumes "\<And>m s. m \<in> set ms \<Longrightarrow> P s \<Longrightarrow> \<exists>s'. run_state m s = (VK_SUCCESS, s') \<and> P s'" and "P s"
  shows "\<exists>s'. run_state (ok_all ms) s = (VK_SUCCESS, s') \<and> P s'"
  using assms
proof (induction ms arbitrary: s)
  case (Cons m ms)
  obtain s1 where m: "run_state m s = (VK_SUCCESS, s1)" "P s1" using Cons.prems by (meson list.set_intros(1))
  have "\<exists>s'. run_state (ok_all ms) s1 = (VK_SUCCESS, s') \<and> P s'"
    by (rule Cons.IH) (use Cons.prems(1) m(2) in auto)
  then show ?case using m by auto
qed simp

lemmas easy_ok_all = ok_all_succeeds [where P = easy]

lemma easy_resources: "easy s \<Longrightarrow> \<exists>s'. run_state afmf_framegen_resources_create s = (VK_SUCCESS, s') \<and> easy s'"
proof -
  assume "easy s"
  moreover have "\<exists>s'. run_state m s = (VK_SUCCESS, s') \<and> easy s'"
    if "m \<in> set (map run_step (res_steps fg) @ [sampler_create, constants_create])" and "easy s" for m s fg
    using that easy_run_step by (auto simp: sampler_create_def constants_create_def easy_vk easy_memory)
  ultimately show ?thesis
    using easy_ok_all [of "map run_step (res_steps (fgs_fg s)) @ [sampler_create, constants_create]" s]
    by (simp add: afmf_framegen_resources_create_def)
qed

lemma easy_easy_sys: "easy (easy_sys fg)" "fgs_fg (easy_sys fg) = fg"
  by (simp_all add: easy_def easy_sys_def sample_fgs_def)

theorem pyramid_covers_witness:
  "\<exists>s'. run_state afmf_framegen_resources_create (easy_sys (fg_zero\<lparr>fg_of_extent := \<lparr>width = 960, height = 540\<rparr>\<rparr>)) = (VK_SUCCESS, s')
     \<and> unat (width (fg_luma_size (fgs_fg s') ! 6)) \<le> 8 * unat (width (fg_flow_size (fgs_fg s') ! 6))"
proof -
  let ?s = "easy_sys (fg_zero\<lparr>fg_of_extent := \<lparr>width = 960, height = 540\<rparr>\<rparr>)"
  obtain s' where run: "run_state afmf_framegen_resources_create ?s = (VK_SUCCESS, s')"
    using easy_resources easy_easy_sys(1) by blast
  have "extent_fits (fg_of_extent (fgs_fg ?s))" by (simp add: easy_easy_sys extent_fits_def)
  moreover have "length (fg_luma_size (fgs_fg ?s)) = AFMF_LEVELS" "length (fg_flow_size (fgs_fg ?s)) = AFMF_LEVELS"
    by (simp_all add: easy_easy_sys) (simp_all add: fg_zero_def)
  ultimately show ?thesis using pyramid_covers [OF run, of 6] run by (auto simp: Let_def)
qed

end
