(* ===== verification/Fg_Descriptors.thy ===== *)
theory Fg_Descriptors
  imports Fg_Resources
begin

text \<open>
  The descriptor sets of frame generation (src/src/framegen_descriptors.c, framegen_writer.h) and the
  bindings of the passes (framegen_passes.c): one pool, the sets of both parities allocated from it,
  and every set written once. A set is named by a reference: which pass it serves and which level or
  swapchain image it is for. \<open>calloc\<close> is taken to succeed.
\<close>

section \<open>The tables\<close>

definition bindings :: "fg_pass \<Rightarrow> descriptor_type list" where
  "bindings pass =
     (case pass of
        PASS_PREPARE_LUMA \<Rightarrow> [SAMPLED, STORAGE, UBO]
      | PASS_PYRAMID \<Rightarrow> [STORAGE, STORAGE, STORAGE, STORAGE, STORAGE, STORAGE, STORAGE, UBO, UBO]
      | PASS_SCD_HISTOGRAM \<Rightarrow> [SAMPLED, STORAGE, UBO]
      | PASS_SCD_DIVERGENCE \<Rightarrow> [STORAGE, STORAGE, STORAGE, STORAGE, UBO]
      | PASS_SEARCH \<Rightarrow> [SAMPLED, SAMPLED, STORAGE, STORAGE, UBO]
      | PASS_FILTER \<Rightarrow> [SAMPLED, STORAGE, UBO]
      | PASS_SCALE \<Rightarrow> [SAMPLED, SAMPLED, SAMPLED, STORAGE, STORAGE, UBO]
      | PASS_INTERPOLATE \<Rightarrow> [COMBINED, COMBINED, SAMPLED, STORAGE, STORAGE]
      | PASS_DOWNSAMPLE \<Rightarrow> [COMBINED, STORAGE]
      | PASS_INGEST \<Rightarrow> [SAMPLED, STORAGE, STORAGE])"

section \<open>The writer\<close>

record set_writer =
  writer_set :: handle
  writer_writes :: "descriptor_write list"

definition writer_begin :: "handle \<Rightarrow> set_writer" where
  "writer_begin dst = \<lparr>writer_set = dst, writer_writes = []\<rparr>"

definition writer_image :: "nat \<Rightarrow> descriptor_type \<Rightarrow> handle \<Rightarrow> handle \<Rightarrow> set_writer \<Rightarrow> set_writer" where
  "writer_image binding type view sampler w =
     w\<lparr>writer_writes := writer_writes w @ [Write (writer_set w) binding type view sampler]\<rparr>"

definition writer_ubo :: "nat \<Rightarrow> handle \<Rightarrow> set_writer \<Rightarrow> set_writer" where
  "writer_ubo binding buffer w =
     w\<lparr>writer_writes := writer_writes w @ [Write (writer_set w) binding UBO buffer VK_NULL_HANDLE]\<rparr>"

definition writer_end :: "set_writer \<Rightarrow> ('w, 'e, unit) act" where
  "writer_end w = do { _ \<leftarrow> vk (UpdateDescriptorSets (writer_writes w)); return () }"

section \<open>Allocation\<close>

text \<open>The passes of the sets of one parity, in the order of their indices.\<close>

definition set_passes :: "fg_pass list" where
  "set_passes =
     [PASS_PREPARE_LUMA, PASS_PYRAMID, PASS_SCD_HISTOGRAM, PASS_SCD_DIVERGENCE]
     @ replicate AFMF_LEVELS PASS_SEARCH @ replicate AFMF_LEVELS PASS_FILTER @ replicate (AFMF_LEVELS - 1) PASS_SCALE
     @ [PASS_INTERPOLATE, PASS_DOWNSAMPLE]"

definition allocate_sets ::
  "fg_pass list \<Rightarrow> (handle list \<Rightarrow> afmf_framegen \<Rightarrow> afmf_framegen) \<Rightarrow> ('w fgs, vk_result) state"
where
  "allocate_sets ps store = do {
     pl \<leftarrow> gets fgs_pl;
     pool \<leftarrow> fg_gets fg_pool;
     (res, answer) \<leftarrow> vk_full (AllocateDescriptorSets pool (map (pl_set_layouts pl) ps));
     if res \<noteq> VK_SUCCESS then return res
     else do {
       sets \<leftarrow> array_of answer (length ps);
       fg_modify (store sets);
       return VK_SUCCESS
     }
   }"

definition put_at :: "nat \<Rightarrow> handle list \<Rightarrow> handle list \<Rightarrow> handle list" where
  "put_at i xs ys = take i ys @ xs @ drop (i + length xs) ys"

definition store_sets :: "nat \<Rightarrow> handle list \<Rightarrow> afmf_framegen \<Rightarrow> afmf_framegen" where
  "store_sets p sets fg = fg\<lparr>fg_sets := (fg_sets fg)[p := sets]\<rparr>"

definition store_direct :: "nat \<Rightarrow> handle list \<Rightarrow> afmf_framegen \<Rightarrow> afmf_framegen" where
  "store_direct p sets fg = fg\<lparr>fg_direct_sets := put_at (p * fg_target_count fg) sets (fg_direct_sets fg)\<rparr>"

definition store_ingest :: "nat \<Rightarrow> handle list \<Rightarrow> afmf_framegen \<Rightarrow> afmf_framegen" where
  "store_ingest p sets fg = fg\<lparr>fg_ingest_sets := put_at (p * fg_target_count fg) sets (fg_ingest_sets fg)\<rparr>"

definition calloc_direct :: "nat \<Rightarrow> ('w fgs, vk_result) state" where
  "calloc_direct n = do { fg_modify (\<lambda>fg. fg\<lparr>fg_direct_sets := replicate n VK_NULL_HANDLE\<rparr>); return VK_SUCCESS }"

definition calloc_ingest :: "nat \<Rightarrow> ('w fgs, vk_result) state" where
  "calloc_ingest n = do { fg_modify (\<lambda>fg. fg\<lparr>fg_ingest_sets := replicate n VK_NULL_HANDLE\<rparr>); return VK_SUCCESS }"

definition sets_allocate :: "nat \<Rightarrow> nat \<Rightarrow> ('w fgs, vk_result) state" where
  "sets_allocate direct_sets ingest_sets = do {
     fg \<leftarrow> fg_gets id;
     (let n = fg_target_count fg in
      ok_all (
        map (\<lambda>p. allocate_sets set_passes (store_sets p)) [0, 1]
        @ (if fg_direct fg then
             calloc_direct direct_sets # map (\<lambda>p. allocate_sets (replicate n PASS_INTERPOLATE) (store_direct p)) [0, 1]
           else [])
        @ (if fg_ingest_direct fg then
             calloc_ingest ingest_sets # map (\<lambda>p. allocate_sets (replicate n PASS_INGEST) (store_ingest p)) [0, 1]
           else [])))
   }"

section \<open>What is written\<close>

datatype set_ref =
    RPrepare | RPyramid | RHistogram | RDivergence | RSearch nat | RFilter nat | RScale nat | RInterpolate
  | RDirect nat | RDownsample | RIngest nat

definition set_of :: "afmf_framegen \<Rightarrow> nat \<Rightarrow> set_ref \<Rightarrow> handle" where
  "set_of fg p r =
     (case r of
        RPrepare \<Rightarrow> fg_sets fg ! p ! SET_PREPARE
      | RPyramid \<Rightarrow> fg_sets fg ! p ! SET_PYRAMID
      | RHistogram \<Rightarrow> fg_sets fg ! p ! SET_SCD_HISTOGRAM
      | RDivergence \<Rightarrow> fg_sets fg ! p ! SET_SCD_DIVERGENCE
      | RSearch k \<Rightarrow> fg_sets fg ! p ! (SET_SEARCH + k)
      | RFilter k \<Rightarrow> fg_sets fg ! p ! (SET_FILTER + k)
      | RScale k \<Rightarrow> fg_sets fg ! p ! (SET_SCALE + k - 1)
      | RInterpolate \<Rightarrow> fg_sets fg ! p ! SET_INTERPOLATE
      | RDirect j \<Rightarrow> fg_direct_sets fg ! (p * fg_target_count fg + j)
      | RDownsample \<Rightarrow> fg_sets fg ! p ! SET_DOWNSAMPLE
      | RIngest j \<Rightarrow> fg_ingest_sets fg ! (p * fg_target_count fg + j))"

definition set_writes :: "afmf_framegen \<Rightarrow> nat \<Rightarrow> set_ref \<Rightarrow> (set_writer \<Rightarrow> set_writer) list" where
  "set_writes fg p r =
     (let q = 1 - p;
          view = (\<lambda>t. img_view (target_get t fg));
          cb = fg_cb fg;
          image = (\<lambda>b type v. writer_image b type v VK_NULL_HANDLE);
          interpolate = (\<lambda>target. [writer_image 0 COMBINED (view (Color q)) (fg_sampler fg),
             writer_image 1 COMBINED (view (Color p)) (fg_sampler fg),
             image 2 SAMPLED (view FlowOut), image 3 STORAGE (view (Scd 3)), image 4 STORAGE target])
      in case r of
        RPrepare \<Rightarrow>
          [image 0 SAMPLED (if fg_flow_scale fg > 1 \<and> \<not> fg_ingest_direct fg then view ColorHalf else view (Color p)),
           image 1 STORAGE (view (Luma p 0)), writer_ubo 2 cb]
      | RPyramid \<Rightarrow> map (\<lambda>k. image k STORAGE (view (Luma p k))) [0..<AFMF_LEVELS] @ [writer_ubo 7 cb, writer_ubo 8 cb]
      | RHistogram \<Rightarrow> [image 0 SAMPLED (view (Luma p 0)), image 1 STORAGE (view (Scd 0)), writer_ubo 2 cb]
      | RDivergence \<Rightarrow>
          [image 0 STORAGE (view (Scd 0)), image 1 STORAGE (view (Scd 1)), image 2 STORAGE (view (Scd 2)),
           image 3 STORAGE (view (Scd 3)), writer_ubo 4 cb]
      | RSearch k \<Rightarrow>
          [image 0 SAMPLED (view (Luma p k)), image 1 SAMPLED (view (Luma q k)),
           image 2 STORAGE (view (Flow (afmf_flow_parity_a p k) k)), image 3 STORAGE (view (Scd 3)), writer_ubo 4 cb]
      | RFilter k \<Rightarrow>
          [image 0 SAMPLED (view (Flow (afmf_flow_parity_a p k) k)),
           image 1 STORAGE (if k = 0 then view FlowOut else view (Flow (1 - afmf_flow_parity_a p k) k)), writer_ubo 2 cb]
      | RScale k \<Rightarrow>
          [image 0 SAMPLED (view (Luma p k)), image 1 SAMPLED (view (Luma q k)),
           image 2 SAMPLED (view (Flow (1 - afmf_flow_parity_a p k) k)),
           image 3 STORAGE (view (Flow (1 - afmf_flow_parity_a p k) (k - 1))), image 4 STORAGE (view (Scd 3)), writer_ubo 5 cb]
      | RInterpolate \<Rightarrow> interpolate (view Output)
      | RDirect j \<Rightarrow> interpolate (fg_target_views fg ! j)
      | RDownsample \<Rightarrow> [writer_image 0 COMBINED (view (Color p)) (fg_sampler fg), image 1 STORAGE (view ColorHalf)]
      | RIngest j \<Rightarrow> [image 0 SAMPLED (fg_source_views fg ! j), image 1 STORAGE (view (Color p)), image 2 STORAGE (view (Luma p 0))])"

definition written_set :: "afmf_framegen \<Rightarrow> nat \<Rightarrow> set_ref \<Rightarrow> set_writer" where
  "written_set fg p r = fold (\<lambda>f. f) (set_writes fg p r) (writer_begin (set_of fg p r))"

text \<open>The sets of one parity in the order they are written.\<close>

definition set_refs :: "afmf_framegen \<Rightarrow> set_ref list" where
  "set_refs fg =
     [RPrepare, RPyramid, RHistogram, RDivergence]
     @ concat (map (\<lambda>k. [RSearch k, RFilter k] @ (if k = 0 then [] else [RScale k])) [0..<AFMF_LEVELS])
     @ (if fg_direct fg then map RDirect [0..<fg_target_count fg] else [RInterpolate])
     @ (if fg_flow_scale fg > 1 \<and> \<not> fg_ingest_direct fg then [RDownsample] else [])
     @ (if fg_ingest_direct fg then map RIngest [0..<fg_target_count fg] else [])"

definition sets_write :: "nat \<Rightarrow> ('w fgs, unit) state" where
  "sets_write p = do {
     fg \<leftarrow> fg_gets id;
     do_all (map (\<lambda>r. writer_end (written_set fg p r)) (set_refs fg))
   }"

definition pool_sizes :: "nat \<Rightarrow> nat \<Rightarrow> (descriptor_type \<times> nat) list" where
  "pool_sizes direct_sets ingest_sets =
     [(SAMPLED, 2 * 42 + direct_sets + ingest_sets), (STORAGE, 2 * 49 + 2 * direct_sets + 2 * ingest_sets),
      (COMBINED, 2 * 3 + 2 * direct_sets), (UBO, 2 * 25)]"

definition afmf_framegen_descriptor_sets_create :: "('w fgs, vk_result) state" where
  "afmf_framegen_descriptor_sets_create = do {
     fg \<leftarrow> fg_gets id;
     (let direct_sets = (if fg_direct fg then 2 * fg_target_count fg else 0);
          ingest_sets = (if fg_ingest_direct fg then 2 * fg_target_count fg else 0)
      in do {
        (res, pool) \<leftarrow> vk_full (CreateDescriptorPool (pool_sizes direct_sets ingest_sets)
                                  (2 * SET_COUNT + direct_sets + ingest_sets));
        if res \<noteq> VK_SUCCESS then return res
        else do {
          fg_modify (\<lambda>fg. fg\<lparr>fg_pool := pool\<rparr>);
          res \<leftarrow> sets_allocate direct_sets ingest_sets;
          if res \<noteq> VK_SUCCESS then return res
          else do { sets_write 0; sets_write 1; return VK_SUCCESS }
        }
      })
   }"

section \<open>The sets fit their layouts\<close>

definition pass_of :: "set_ref \<Rightarrow> fg_pass" where
  "pass_of r =
     (case r of
        RPrepare \<Rightarrow> PASS_PREPARE_LUMA | RPyramid \<Rightarrow> PASS_PYRAMID | RHistogram \<Rightarrow> PASS_SCD_HISTOGRAM
      | RDivergence \<Rightarrow> PASS_SCD_DIVERGENCE | RSearch k \<Rightarrow> PASS_SEARCH | RFilter k \<Rightarrow> PASS_FILTER | RScale k \<Rightarrow> PASS_SCALE
      | RInterpolate \<Rightarrow> PASS_INTERPOLATE | RDirect j \<Rightarrow> PASS_INTERPOLATE | RDownsample \<Rightarrow> PASS_DOWNSAMPLE
      | RIngest j \<Rightarrow> PASS_INGEST)"

lemmas writer_defs = written_set_def set_writes_def writer_begin_def writer_image_def writer_ubo_def

lemma written_set_fits:
  "map (\<lambda>x. (write_binding x, write_type x)) (writer_writes (written_set fg p r))
     = enumerate 0 (bindings (pass_of r))"
  "set (map write_set (writer_writes (written_set fg p r))) \<subseteq> {set_of fg p r}"
  by (cases r; simp add: writer_defs bindings_def pass_of_def Let_def upt_rec)+


text \<open>The pool's sizes against what the sets take from it.\<close>

definition all_passes :: "afmf_framegen \<Rightarrow> fg_pass list" where
  "all_passes fg =
     set_passes @ set_passes
     @ (if fg_direct fg then replicate (2 * fg_target_count fg) PASS_INTERPOLATE else [])
     @ (if fg_ingest_direct fg then replicate (2 * fg_target_count fg) PASS_INGEST else [])"

lemma count_replicate: "count_list (concat (replicate n xs)) t = n * count_list xs t"
  by (induction n) simp_all

lemma pool_exact:
  "\<forall>(t, n) \<in> set (pool_sizes (if fg_direct fg then 2 * fg_target_count fg else 0)
                              (if fg_ingest_direct fg then 2 * fg_target_count fg else 0)).
     count_list (concat (map bindings (all_passes fg))) t = n"
  "length (all_passes fg) = 2 * SET_COUNT + (if fg_direct fg then 2 * fg_target_count fg else 0)
     + (if fg_ingest_direct fg then 2 * fg_target_count fg else 0)"
  by (simp_all add: pool_sizes_def all_passes_def set_passes_def bindings_def map_replicate count_replicate eval_nat_numeral)

section \<open>The run\<close>

text \<open>The sets a run allocated, each with the layout it was allocated for, and the updates it made.\<close>

fun allocated :: "(nat \<Rightarrow> nat \<Rightarrow> handle) \<Rightarrow> event list \<Rightarrow> (handle \<times> handle) list" where
  "allocated arrays [] = []"
| "allocated arrays (Called (AllocateDescriptorSets pool layouts) r answer # es) =
     (if r = VK_SUCCESS then zip (map (arrays answer) [0..<length layouts]) layouts else []) @ allocated arrays es"
| "allocated arrays (e # es) = allocated arrays es"

fun updates :: "event list \<Rightarrow> descriptor_write list list" where
  "updates [] = []"
| "updates (Called (UpdateDescriptorSets ws) r h # es) = ws # updates es"
| "updates (e # es) = updates es"

lemma allocated_append [simp]: "allocated arrays (es @ fs) = allocated arrays es @ allocated arrays fs"
  by (induction arrays es rule: allocated.induct) simp_all

lemma updates_append [simp]: "updates (es @ fs) = updates es @ updates fs"
  by (induction es rule: updates.induct) simp_all

text \<open>What an allocation leaves: the frame generation it stored the sets in, and one call on the trace.\<close>

definition allocates where
  "allocates s s' fg' tr \<longleftrightarrow> fgs_fg s' = fg' \<and> fgs_dev s' = fgs_dev s \<and> eff_array s' = eff_array s
     \<and> eff_trace s' = eff_trace s @ tr \<and> updates tr = []"

lemma allocate_sets_run:
  assumes "run_state (allocate_sets ps store) s = (VK_SUCCESS, s')"
  shows "\<exists>A tr. length A = length ps \<and> allocates s s' (store A (fgs_fg s)) tr
     \<and> allocated (eff_array s) tr = zip A (map (pl_set_layouts (fgs_pl s)) ps)"
proof -
  let ?c = "AllocateDescriptorSets (fg_pool (fgs_fg s)) (map (pl_set_layouts (fgs_pl s)) ps)"
  obtain r answer w where d: "eff_driver s ?c (eff_world s) = ((r, answer), w)" by (metis surj_pair)
  have r: "r = VK_SUCCESS" using assms d by (auto simp: allocate_sets_def run_vk_full split: if_splits)
  have s': "s' = s\<lparr>eff_world := w, eff_trace := eff_trace s @ [Called ?c VK_SUCCESS answer],
      fgs_fg := store (map (eff_array s answer) [0..<length ps]) (fgs_fg s)\<rparr>"
    using assms d r by (auto simp: allocate_sets_def run_vk_full array_of_def)
  show ?thesis
    by (intro exI [of _ "map (eff_array s answer) [0..<length ps]"] exI [of _ "[Called ?c VK_SUCCESS answer]"])
       (simp add: s' allocates_def)
qed

lemma allocates_trans:
  "allocates s s1 fg1 tr \<Longrightarrow> allocates s1 s2 fg2 tr' \<Longrightarrow> allocates s s2 fg2 (tr @ tr')"
  by (simp add: allocates_def)

lemma allocates_pl: "allocates s s' fg' tr \<Longrightarrow> fgs_pl s' = fgs_pl s" "allocates s s' fg' tr \<Longrightarrow> eff_array s' = eff_array s"
  "allocates s s' fg' tr \<Longrightarrow> fgs_fg s' = fg'"
  by (simp_all add: allocates_def fgs_pl_def)

text \<open>Two allocations, one per parity.\<close>

lemma two_allocations:
  assumes "run_state (ok_all (map (\<lambda>p. allocate_sets ps (store p)) [0, 1])) s = (VK_SUCCESS, s')"
  shows "\<exists>A B tr. length A = length ps \<and> length B = length ps \<and> allocates s s' (store 1 B (store 0 A (fgs_fg s))) tr
     \<and> allocated (eff_array s) tr = zip A (map (pl_set_layouts (fgs_pl s)) ps) @ zip B (map (pl_set_layouts (fgs_pl s)) ps)"
proof -
  obtain s1 where r0: "run_state (allocate_sets ps (store 0)) s = (VK_SUCCESS, s1)"
    and r1: "run_state (allocate_sets ps (store 1)) s1 = (VK_SUCCESS, s')"
    using assms by (auto split: prod.splits if_splits)
  obtain A tr where a: "length A = length ps" "allocates s s1 (store 0 A (fgs_fg s)) tr"
      "allocated (eff_array s) tr = zip A (map (pl_set_layouts (fgs_pl s)) ps)"
    using allocate_sets_run [OF r0] by blast
  obtain B tr' where b: "length B = length ps" "allocates s1 s' (store 1 B (fgs_fg s1)) tr'"
      "allocated (eff_array s1) tr' = zip B (map (pl_set_layouts (fgs_pl s1)) ps)"
    using allocate_sets_run [OF r1] by blast
  show ?thesis
    using a b allocates_pl [OF a(2)] allocates_trans [OF a(2) b(2)]
    by (intro exI [of _ A] exI [of _ B] exI [of _ "tr @ tr'"]) simp
qed


lemma put_at_both: "length A = n \<Longrightarrow> length B = n \<Longrightarrow> put_at n B (put_at 0 A (replicate (2 * n) x)) = A @ B"
  by (simp add: put_at_def)

text \<open>The sets per swapchain image: none of them, or one per parity and image.\<close>

lemma image_allocations:
  assumes run: "run_state (ok_all (if b then start # map (\<lambda>p. allocate_sets (replicate n pass) (store p)) [0, 1] else [])) s = (VK_SUCCESS, s')"
    and start: "run_state start s = (VK_SUCCESS, s\<lparr>fgs_fg := upd (replicate (2 * n) VK_NULL_HANDLE) (fgs_fg s)\<rparr>)"
    and both: "\<And>A B. length A = n \<Longrightarrow> length B = n \<Longrightarrow>
      store 1 B (store 0 A (upd (replicate (2 * n) VK_NULL_HANDLE) (fgs_fg s))) = upd (A @ B) (fgs_fg s)"
  shows "\<exists>A tr. (b \<longrightarrow> length A = 2 * n) \<and> allocates s s' (if b then upd A (fgs_fg s) else fgs_fg s) tr
     \<and> allocated (eff_array s) tr = (if b then zip A (replicate (2 * n) (pl_set_layouts (fgs_pl s) pass)) else [])"
proof (cases b)
  case True
  let ?s = "s\<lparr>fgs_fg := upd (replicate (2 * n) VK_NULL_HANDLE) (fgs_fg s)\<rparr>"
  have "run_state (ok_all (map (\<lambda>p. allocate_sets (replicate n pass) (store p)) [0, 1])) ?s = (VK_SUCCESS, s')"
    using run True start by simp
  from two_allocations [OF this] obtain A B tr where
    ab: "length A = n" "length B = n" "allocates ?s s' (store 1 B (store 0 A (fgs_fg ?s))) tr"
    and al: "allocated (eff_array ?s) tr = zip A (replicate n (pl_set_layouts (fgs_pl s) pass))
       @ zip B (replicate n (pl_set_layouts (fgs_pl s) pass))"
    by (auto simp: map_replicate)
  have "allocates s s' (upd (A @ B) (fgs_fg s)) tr" using ab(3) both [OF ab(1,2)] by (simp add: allocates_def)
  then show ?thesis using True ab al
    by (intro exI [of _ "A @ B"] exI [of _ tr]) (simp add: mult_2 replicate_add zip_append)
next
  case False
  then have "s' = s" using run by simp
  then show ?thesis using False by (intro exI [of _ "[]"]) (simp add: allocates_def)
qed

lemma two_updates: "length xs = 2 \<Longrightarrow> xs[0 := a, Suc 0 := b] = [a, b]"
  by (auto simp: length_Suc_conv numeral_2_eq_2)

lemma ok_all_appendD:
  assumes "run_state (ok_all (ms @ ns)) s = (VK_SUCCESS, s')"
  shows "\<exists>s1. run_state (ok_all ms) s = (VK_SUCCESS, s1) \<and> run_state (ok_all ns) s1 = (VK_SUCCESS, s')"
  using assms by (auto simp: ok_all_append split: prod.splits if_splits)


definition layouts_ok where
  "layouts_ok pl fg al \<longleftrightarrow> (\<forall>p < 2. \<forall>r \<in> set (set_refs fg). (set_of fg p r, pl_set_layouts pl (pass_of r)) \<in> set al)"

definition index_of :: "set_ref \<Rightarrow> nat" where
  "index_of r =
     (case r of
        RPrepare \<Rightarrow> SET_PREPARE | RPyramid \<Rightarrow> SET_PYRAMID | RHistogram \<Rightarrow> SET_SCD_HISTOGRAM | RDivergence \<Rightarrow> SET_SCD_DIVERGENCE
      | RSearch k \<Rightarrow> SET_SEARCH + k | RFilter k \<Rightarrow> SET_FILTER + k | RScale k \<Rightarrow> SET_SCALE + k - 1
      | RInterpolate \<Rightarrow> SET_INTERPOLATE | RDownsample \<Rightarrow> SET_DOWNSAMPLE | RDirect j \<Rightarrow> 0 | RIngest j \<Rightarrow> 0)"

lemma set_refs_cases:
  assumes "r \<in> set (set_refs fg)"
  obtains (parity) "set_of fg p r = fg_sets fg ! p ! index_of r" "index_of r < length set_passes" "set_passes ! index_of r = pass_of r"
  | (direct) j where "r = RDirect j" "fg_direct fg" "j < fg_target_count fg"
  | (ingest) j where "r = RIngest j" "fg_ingest_direct fg" "j < fg_target_count fg"
proof (cases r)
  case (RScale k)
  then have "0 < k" "k < 7" using assms by (auto simp: set_refs_def split: if_splits)
  then show ?thesis using RScale parity
    by (simp add: set_of_def index_of_def pass_of_def set_passes_def nth_append nth_Cons')
qed (use assms in \<open>auto simp: set_refs_def set_of_def index_of_def pass_of_def set_passes_def nth_append nth_Cons'
      intro: parity direct ingest split: if_splits\<close>)


lemma zip_replicate_mem: "j < length A \<Longrightarrow> length A = m \<Longrightarrow> (A ! j, l) \<in> set (zip A (replicate m l))"
  by (auto simp: set_zip)

lemma zip_map_mem: "i < length ps \<Longrightarrow> length A = length ps \<Longrightarrow> (A ! i, f (ps ! i)) \<in> set (zip A (map f ps))"
  by (auto simp: set_zip)

text \<open>The sets of both parities, of the direct and of the direct ingest views, each from its layout.\<close>

lemma allocated_layouts:
  assumes fg': "fg_sets fg' = [A, B]" and len: "length A = length set_passes" "length B = length set_passes"
    and sets: "set (zip A (map L set_passes)) \<subseteq> al" "set (zip B (map L set_passes)) \<subseteq> al"
    and direct: "fg_direct fg' \<Longrightarrow> length (fg_direct_sets fg') = 2 * fg_target_count fg'
      \<and> set (zip (fg_direct_sets fg') (replicate (2 * fg_target_count fg') (L PASS_INTERPOLATE))) \<subseteq> al"
    and ingest: "fg_ingest_direct fg' \<Longrightarrow> length (fg_ingest_sets fg') = 2 * fg_target_count fg'
      \<and> set (zip (fg_ingest_sets fg') (replicate (2 * fg_target_count fg') (L PASS_INGEST))) \<subseteq> al"
    and p: "p < 2" and r: "r \<in> set (set_refs fg')"
  shows "(set_of fg' p r, L (pass_of r)) \<in> al"
  using r
proof (cases rule: set_refs_cases [where p = p])
  case parity
  then show ?thesis
    using p zip_map_mem [OF parity(2) len(1), of L] zip_map_mem [OF parity(2) len(2), of L] sets
    by (auto simp: fg' less_2_cases_iff)
next
  case (direct j)
  then have "p * fg_target_count fg' + j < 2 * fg_target_count fg'" using p by (auto simp: less_2_cases_iff)
  then show ?thesis
    using zip_replicate_mem [of _ "fg_direct_sets fg'" "2 * fg_target_count fg'" "L PASS_INTERPOLATE"] assms(6) direct
    by (auto simp: set_of_def pass_of_def)
next
  case (ingest j)
  then have "p * fg_target_count fg' + j < 2 * fg_target_count fg'" using p by (auto simp: less_2_cases_iff)
  then show ?thesis
    using zip_replicate_mem [of _ "fg_ingest_sets fg'" "2 * fg_target_count fg'" "L PASS_INGEST"] assms(7) ingest
    by (auto simp: set_of_def pass_of_def)
qed

lemma sets_allocate_run:
  assumes run: "run_state (sets_allocate (if fg_direct (fgs_fg s) then 2 * fg_target_count (fgs_fg s) else 0)
      (if fg_ingest_direct (fgs_fg s) then 2 * fg_target_count (fgs_fg s) else 0)) s = (VK_SUCCESS, s')"
    and two: "length (fg_sets (fgs_fg s)) = 2"
  shows "\<exists>ss ds is tr. allocates s s' ((fgs_fg s)\<lparr>fg_sets := ss, fg_direct_sets := ds, fg_ingest_sets := is\<rparr>) tr
     \<and> layouts_ok (fgs_pl s) (fgs_fg s') (allocated (eff_array s) tr)
     \<and> map snd (allocated (eff_array s) tr) = map (pl_set_layouts (fgs_pl s)) (all_passes (fgs_fg s))"
proof -
  let ?fg = "fgs_fg s"
  let ?n = "fg_target_count ?fg" and ?L = "pl_set_layouts (fgs_pl s)"
  let ?sets = "map (\<lambda>p. allocate_sets set_passes (store_sets p)) [0, 1]"
  let ?direct = "if fg_direct ?fg then calloc_direct (2 * ?n) # map (\<lambda>p. allocate_sets (replicate ?n PASS_INTERPOLATE) (store_direct p)) [0, 1] else []"
  let ?ingest = "if fg_ingest_direct ?fg then calloc_ingest (2 * ?n) # map (\<lambda>p. allocate_sets (replicate ?n PASS_INGEST) (store_ingest p)) [0, 1] else []"
  have all: "run_state (ok_all (?sets @ ?direct @ ?ingest)) s = (VK_SUCCESS, s')"
    by (cases "fg_direct ?fg"; cases "fg_ingest_direct ?fg")
       (use run in \<open>simp_all add: sets_allocate_def Let_def del: ok_all.simps list.map append_Cons\<close>)
  from ok_all_appendD [OF all] obtain s1 where r1: "run_state (ok_all ?sets) s = (VK_SUCCESS, s1)"
    and r23: "run_state (ok_all (?direct @ ?ingest)) s1 = (VK_SUCCESS, s')" by (elim exE conjE)
  from ok_all_appendD [OF r23] obtain s2 where r2: "run_state (ok_all ?direct) s1 = (VK_SUCCESS, s2)"
    and r3: "run_state (ok_all ?ingest) s2 = (VK_SUCCESS, s')" by (elim exE conjE)
  obtain A B tr1 where ab: "length A = length set_passes" "length B = length set_passes"
      "allocates s s1 (store_sets 1 B (store_sets 0 A ?fg)) tr1"
      "allocated (eff_array s) tr1 = zip A (map ?L set_passes) @ zip B (map ?L set_passes)"
    using two_allocations [OF r1] by blast
  have fg1: "allocates s s1 (?fg\<lparr>fg_sets := [A, B]\<rparr>) tr1" using ab(3) two by (simp add: store_sets_def two_updates)
  have n1: "fg_target_count (fgs_fg s1) = ?n" using fg1 by (simp add: allocates_def)
  obtain D tr2 where de: "fg_direct ?fg \<longrightarrow> length D = 2 * ?n"
      "allocates s1 s2 (if fg_direct ?fg then (fgs_fg s1)\<lparr>fg_direct_sets := D\<rparr> else fgs_fg s1) tr2"
      "allocated (eff_array s1) tr2 = (if fg_direct ?fg then zip D (replicate (2 * ?n) (pl_set_layouts (fgs_pl s1) PASS_INTERPOLATE)) else [])"
    using image_allocations [OF r2, of "\<lambda>xs fg. fg\<lparr>fg_direct_sets := xs\<rparr>"] put_at_both n1
    by (auto simp: calloc_direct_def store_direct_def)
  have n2: "fg_target_count (fgs_fg s2) = ?n" using de(2) n1 by (simp add: allocates_def)
  obtain I tr3 where ij: "fg_ingest_direct ?fg \<longrightarrow> length I = 2 * ?n"
      "allocates s2 s' (if fg_ingest_direct ?fg then (fgs_fg s2)\<lparr>fg_ingest_sets := I\<rparr> else fgs_fg s2) tr3"
      "allocated (eff_array s2) tr3 = (if fg_ingest_direct ?fg then zip I (replicate (2 * ?n) (pl_set_layouts (fgs_pl s2) PASS_INGEST)) else [])"
    using image_allocations [OF r3, of "\<lambda>xs fg. fg\<lparr>fg_ingest_sets := xs\<rparr>"] put_at_both n2
    by (auto simp: calloc_ingest_def store_ingest_def)
  let ?ds = "if fg_direct ?fg then D else fg_direct_sets ?fg" and ?is = "if fg_ingest_direct ?fg then I else fg_ingest_sets ?fg"
  let ?tr = "tr1 @ tr2 @ tr3"
  have fg': "fgs_fg s' = ?fg\<lparr>fg_sets := [A, B], fg_direct_sets := ?ds, fg_ingest_sets := ?is\<rparr>"
    using fg1 de(2) ij(2) by (auto simp: allocates_def)
  have al: "allocated (eff_array s) ?tr = zip A (map ?L set_passes) @ zip B (map ?L set_passes)
      @ allocated (eff_array s) tr2 @ allocated (eff_array s) tr3"
    using ab(4) by simp
  have same: "fgs_pl s1 = fgs_pl s" "fgs_pl s2 = fgs_pl s" "eff_array s1 = eff_array s" "eff_array s2 = eff_array s"
    using allocates_pl [OF fg1] allocates_pl [OF de(2)] by simp_all
  have "layouts_ok (fgs_pl s) (fgs_fg s') (allocated (eff_array s) ?tr)"
    unfolding layouts_ok_def
    by (intro allI impI ballI, rule allocated_layouts [of _ A B]) (use ab(1,2) al de ij same in \<open>auto simp: fg'\<close>)
  moreover have "allocates s s' (fgs_fg s') ?tr"
    using allocates_trans [OF fg1 allocates_trans [OF de(2) ij(2)]] allocates_pl(3) [OF ij(2)] by simp
  moreover have "map snd (allocated (eff_array s) ?tr) = map ?L (all_passes ?fg)"
    using al de ij same ab(1,2) by (simp add: all_passes_def map_replicate)
  ultimately show ?thesis unfolding fg' by blast
qed

lemma writes_run:
  "run_state (do_all (map (\<lambda>r. writer_end (f r)) rs)) s = (u, s') \<Longrightarrow>
     fgs_fg s' = fgs_fg s \<and> (\<exists>tr. eff_trace s' = eff_trace s @ tr \<and> updates tr = map (\<lambda>r. writer_writes (f r)) rs
       \<and> (\<forall>arrays. allocated arrays tr = []))"
proof (induction rs arbitrary: s)
  case (Cons r rs)
  obtain res h w where d: "eff_driver s (UpdateDescriptorSets (writer_writes (f r))) (eff_world s) = ((res, h), w)"
    by (metis surj_pair)
  let ?e = "Called (UpdateDescriptorSets (writer_writes (f r))) res h"
  let ?s = "s\<lparr>eff_world := w, eff_trace := eff_trace s @ [?e]\<rparr>"
  have "run_state (do_all (map (\<lambda>r. writer_end (f r)) rs)) ?s = (u, s')"
    using Cons.prems d by (simp add: writer_end_def run_vk)
  from Cons.IH [OF this] obtain tr where "fgs_fg s' = fgs_fg s" "eff_trace s' = eff_trace s @ ?e # tr"
      "updates tr = map (\<lambda>r. writer_writes (f r)) rs" "\<forall>arrays. allocated arrays tr = []" by auto
  then show ?case by (intro conjI exI [of _ "?e # tr"]) simp_all
qed simp

lemma sets_write_run:
  assumes "run_state (sets_write p) s = (u, s')"
  shows "fgs_fg s' = fgs_fg s \<and> (\<exists>tr. eff_trace s' = eff_trace s @ tr
    \<and> updates tr = map (\<lambda>r. writer_writes (written_set (fgs_fg s) p r)) (set_refs (fgs_fg s))
    \<and> (\<forall>arrays. allocated arrays tr = []))"
  using writes_run [of "written_set (fgs_fg s) p" "set_refs (fgs_fg s)" s u s'] assms by (simp add: sets_write_def)


lemma easy_do_all:
  assumes "\<And>m s. m \<in> set ms \<Longrightarrow> easy s \<Longrightarrow> easy (snd (run_state m s))" and "easy s"
  shows "easy (snd (run_state (do_all ms) s))"
  using assms by (induction ms arbitrary: s) (simp_all add: split_beta)

lemma easy_sets_write: "easy s \<Longrightarrow> easy (snd (run_state (sets_write p) s))"
  unfolding sets_write_def by (auto simp: writer_end_def easy_vk split_beta intro!: easy_do_all)

lemma easy_allocate_sets: "easy s \<Longrightarrow> \<exists>s'. run_state (allocate_sets ps store) s = (VK_SUCCESS, s') \<and> easy s'"
  by (simp add: allocate_sets_def easy_vk array_of_def)

lemma easy_sets_allocate: "easy s \<Longrightarrow> \<exists>s'. run_state (sets_allocate d i) s = (VK_SUCCESS, s') \<and> easy s'"
  by (simp only: sets_allocate_def run_bind fg_gets_def run_gets Let_def prod.case)
     (rule easy_ok_all; auto simp: calloc_direct_def calloc_ingest_def easy_allocate_sets split: if_splits)

lemma easy_descriptor_sets:
  assumes "easy s"
  shows "\<exists>s'. run_state afmf_framegen_descriptor_sets_create s = (VK_SUCCESS, s') \<and> easy s'"
proof -
  let ?fg = "fgs_fg s"
  let ?d = "if fg_direct ?fg then 2 * fg_target_count ?fg else 0" and ?i = "if fg_ingest_direct ?fg then 2 * fg_target_count ?fg else 0"
  let ?s1 = "s\<lparr>eff_trace := eff_trace s @ [Called (CreateDescriptorPool (pool_sizes ?d ?i) (2 * SET_COUNT + ?d + ?i)) VK_SUCCESS 3],
     fgs_fg := ?fg\<lparr>fg_pool := 3\<rparr>\<rparr>"
  obtain s2 where a: "run_state (sets_allocate ?d ?i) ?s1 = (VK_SUCCESS, s2)" "easy s2"
    using easy_sets_allocate [of ?s1] assms by (metis easy_simps(1,3))
  obtain s3 where w0: "run_state (sets_write 0) s2 = ((), s3)" by (metis old.unit.exhaust surj_pair)
  obtain s4 where w1: "run_state (sets_write 1) s3 = ((), s4)" by (metis old.unit.exhaust surj_pair)
  have "easy s4" using easy_sets_write [OF a(2), of 0] easy_sets_write [of s3 1] w0 w1 by simp
  moreover have "run_state afmf_framegen_descriptor_sets_create s = (VK_SUCCESS, s4)"
    using a(1) w0 w1 by (simp add: afmf_framegen_descriptor_sets_create_def Let_def easy_vk assms)
  ultimately show ?thesis by blast
qed


end
