(* ===== verification/Fg_Pipelines.thy ===== *)
theory Fg_Pipelines
  imports Fg_Descriptors
begin

text \<open>
  The pipelines of a device (src/src/framegen_pipelines.c, the tables of framegen_passes.c): compiled
  on a thread of their own from \<open>vkCreateDevice\<close>, joined by the first swapchain that needs them or by
  the device's destruction. The thread works on \<open>dev->framegen_pipelines\<close> and \<open>pipelines_result\<close>, which
  nobody reads before joining it, so its run is placed at the join. A handle of the structure is named
  by a slot; a SPIR-V module, generated by the build, by its name.
\<close>

section \<open>The tables\<close>

definition all_passes_of :: "fg_pass list" where
  "all_passes_of = [PASS_PREPARE_LUMA, PASS_PYRAMID, PASS_SCD_HISTOGRAM, PASS_SCD_DIVERGENCE, PASS_SEARCH,
     PASS_FILTER, PASS_SCALE, PASS_INTERPOLATE, PASS_DOWNSAMPLE, PASS_INGEST]"

definition all_variants :: "variant list" where
  "all_variants = [VARIANT_RGBA8, VARIANT_RGBA8_BGRA, VARIANT_RGB10A2, VARIANT_RGBA16F, VARIANT_NOFORMAT]"

definition all_halves :: "half_variant list" where
  "all_halves = [HALF_RGBA8, HALF_RGBA16F]"

definition pass_spirv :: "fg_pass \<Rightarrow> string" where
  "pass_spirv pass =
     (case pass of
        PASS_PREPARE_LUMA \<Rightarrow> ''ffx_opticalflow_prepare_luma_pass_spv''
      | PASS_PYRAMID \<Rightarrow> ''ffx_opticalflow_compute_luminance_pyramid_pass_spv''
      | PASS_SCD_HISTOGRAM \<Rightarrow> ''ffx_opticalflow_generate_scd_histogram_pass_spv''
      | PASS_SCD_DIVERGENCE \<Rightarrow> ''ffx_opticalflow_compute_scd_divergence_pass_spv''
      | PASS_SEARCH \<Rightarrow> ''ffx_opticalflow_compute_optical_flow_advanced_pass_v5_spv''
      | PASS_FILTER \<Rightarrow> ''ffx_opticalflow_filter_optical_flow_pass_v5_spv''
      | PASS_SCALE \<Rightarrow> ''ffx_opticalflow_scale_optical_flow_advanced_pass_v5_spv''
      | PASS_INTERPOLATE \<Rightarrow> ''afmf_interpolate_rgba8_spv''
      | PASS_DOWNSAMPLE \<Rightarrow> ''afmf_downsample_rgba8_spv''
      | PASS_INGEST \<Rightarrow> ''afmf_ingest_rgba8_spv'')"

text \<open>The bytes of \<open>struct interpolate_push\<close>, \<open>downsample_push\<close> and \<open>ingest_push\<close>.\<close>

definition pass_push_size :: "fg_pass \<Rightarrow> nat" where
  "pass_push_size pass =
     (case pass of PASS_INTERPOLATE \<Rightarrow> 28 | PASS_DOWNSAMPLE \<Rightarrow> 16 | PASS_INGEST \<Rightarrow> 24 | _ \<Rightarrow> 0)"

definition interpolate_variants :: "variant \<Rightarrow> string" where
  "interpolate_variants v =
     (case v of
        VARIANT_RGBA8 \<Rightarrow> ''afmf_interpolate_rgba8_spv'' | VARIANT_RGBA8_BGRA \<Rightarrow> ''afmf_interpolate_rgba8_bgra_spv''
      | VARIANT_RGB10A2 \<Rightarrow> ''afmf_interpolate_rgb10a2_spv'' | VARIANT_RGBA16F \<Rightarrow> ''afmf_interpolate_rgba16f_spv''
      | VARIANT_NOFORMAT \<Rightarrow> ''afmf_interpolate_noformat_spv'' | VARIANT_COUNT \<Rightarrow> [])"

definition downsample_variants :: "half_variant \<Rightarrow> string" where
  "downsample_variants v =
     (case v of HALF_RGBA8 \<Rightarrow> ''afmf_downsample_rgba8_spv'' | HALF_RGBA16F \<Rightarrow> ''afmf_downsample_rgba16f_spv'')"

definition ingest_variants :: "variant \<Rightarrow> string" where
  "ingest_variants v =
     (case v of
        VARIANT_RGBA8 \<Rightarrow> ''afmf_ingest_rgba8_spv'' | VARIANT_RGBA8_BGRA \<Rightarrow> ''afmf_ingest_noformat_spv''
      | VARIANT_RGB10A2 \<Rightarrow> ''afmf_ingest_rgb10a2_spv'' | VARIANT_RGBA16F \<Rightarrow> ''afmf_ingest_rgba16f_spv''
      | VARIANT_NOFORMAT \<Rightarrow> ''afmf_ingest_noformat_spv'' | VARIANT_COUNT \<Rightarrow> [])"

section \<open>The handles by their slots\<close>

datatype pl_slot =
    PlInterpolate variant | PlDownsample half_variant | PlIngest variant
  | PlPipeline fg_pass | PlLayout fg_pass | PlSetLayout fg_pass

fun pl_kind :: "pl_slot \<Rightarrow> obj_kind" where
  "pl_kind (PlLayout i) = OPipelineLayout"
| "pl_kind (PlSetLayout i) = OSetLayout"
| "pl_kind _ = OPipeline"

fun pl_get :: "pl_slot \<Rightarrow> fg_pipelines \<Rightarrow> handle" where
  "pl_get (PlInterpolate v) p = pl_interpolate p v"
| "pl_get (PlDownsample v) p = pl_downsample p v"
| "pl_get (PlIngest v) p = pl_ingest p v"
| "pl_get (PlPipeline i) p = pl_pipelines p i"
| "pl_get (PlLayout i) p = pl_layouts p i"
| "pl_get (PlSetLayout i) p = pl_set_layouts p i"

fun pl_put :: "pl_slot \<Rightarrow> handle \<Rightarrow> fg_pipelines \<Rightarrow> fg_pipelines" where
  "pl_put (PlInterpolate v) h p = p\<lparr>pl_interpolate := (pl_interpolate p)(v := h)\<rparr>"
| "pl_put (PlDownsample v) h p = p\<lparr>pl_downsample := (pl_downsample p)(v := h)\<rparr>"
| "pl_put (PlIngest v) h p = p\<lparr>pl_ingest := (pl_ingest p)(v := h)\<rparr>"
| "pl_put (PlPipeline i) h p = p\<lparr>pl_pipelines := (pl_pipelines p)(i := h)\<rparr>"
| "pl_put (PlLayout i) h p = p\<lparr>pl_layouts := (pl_layouts p)(i := h)\<rparr>"
| "pl_put (PlSetLayout i) h p = p\<lparr>pl_set_layouts := (pl_set_layouts p)(i := h)\<rparr>"

definition dev_modify :: "(afmf_device \<Rightarrow> afmf_device) \<Rightarrow> ('w fgs, unit) state" where
  "dev_modify f = modify (\<lambda>s. s\<lparr>fgs_dev := f (fgs_dev s)\<rparr>)"

definition pl_store :: "pl_slot \<Rightarrow> handle \<Rightarrow> ('w fgs, unit) state" where
  "pl_store t h = dev_modify (\<lambda>dev. dev\<lparr>dev_framegen_pipelines := map_option (pl_put t h) (dev_framegen_pipelines dev)\<rparr>)"

section \<open>Compilation\<close>

definition create_compute_pipeline :: "string \<Rightarrow> handle \<Rightarrow> nat option \<Rightarrow> pl_slot \<Rightarrow> ('w fgs, vk_result) state" where
  "create_compute_pipeline spirv layout specialization out = do {
     (res, module) \<leftarrow> vk_full (CreateShaderModule spirv);
     if res \<noteq> VK_SUCCESS then return res
     else do {
       (res, pipeline) \<leftarrow> vk_full (CreateComputePipeline module layout specialization);
       whenb (res = VK_SUCCESS) (pl_store out pipeline);
       _ \<leftarrow> vk (DestroyObj OShaderModule module);
       return res
     }
   }"

definition pass_create :: "fg_pass \<Rightarrow> ('w fgs, vk_result) state" where
  "pass_create i = do {
     (res, set_layout) \<leftarrow> vk_full (CreateSetLayout (bindings i));
     if res \<noteq> VK_SUCCESS then return res
     else do {
       pl_store (PlSetLayout i) set_layout;
       (res, layout) \<leftarrow> vk_full (CreatePipelineLayout set_layout (pass_push_size i));
       if res \<noteq> VK_SUCCESS then return res
       else do {
         pl_store (PlLayout i) layout;
         if i \<in> {PASS_INTERPOLATE, PASS_DOWNSAMPLE, PASS_INGEST} then return VK_SUCCESS
         else do {
           cfg \<leftarrow> gets fgs_cfg;
           dev \<leftarrow> gets fgs_dev;
           create_compute_pipeline
             (if i = PASS_SEARCH \<and> dev_shader_int16 dev
              then ''ffx_opticalflow_compute_optical_flow_advanced_pass_v5_int16_spv'' else pass_spirv i)
             layout (if i = PASS_SEARCH then Some (unat (cfg_static_block_sad cfg)) else None) (PlPipeline i)
         }
       }
     }
   }"

definition interpolate_create :: "variant \<Rightarrow> ('w fgs, vk_result) state" where
  "interpolate_create v = do {
     dev \<leftarrow> gets fgs_dev;
     if v = VARIANT_NOFORMAT \<and> \<not> dev_storage_write_without_format dev then return VK_SUCCESS
     else create_compute_pipeline (interpolate_variants v) (pl_layouts (dev_pipelines dev) PASS_INTERPOLATE) None (PlInterpolate v)
   }"

definition downsample_create :: "half_variant \<Rightarrow> ('w fgs, vk_result) state" where
  "downsample_create v = do {
     dev \<leftarrow> gets fgs_dev;
     create_compute_pipeline (downsample_variants v) (pl_layouts (dev_pipelines dev) PASS_DOWNSAMPLE) None (PlDownsample v)
   }"

definition ingest_create :: "variant \<Rightarrow> ('w fgs, vk_result) state" where
  "ingest_create v = do {
     dev \<leftarrow> gets fgs_dev;
     if (v = VARIANT_NOFORMAT \<or> v = VARIANT_RGBA8_BGRA) \<and> \<not> dev_storage_write_without_format dev then return VK_SUCCESS
     else create_compute_pipeline (ingest_variants v) (pl_layouts (dev_pipelines dev) PASS_INGEST) None (PlIngest v)
   }"

text \<open>What one round of each loop makes, as data.\<close>

datatype pl_step = PassStep fg_pass | InterpolateStep variant | DownsampleStep half_variant | IngestStep variant

fun run_pl_step :: "pl_step \<Rightarrow> ('w fgs, vk_result) state" where
  "run_pl_step (PassStep i) = pass_create i"
| "run_pl_step (InterpolateStep v) = interpolate_create v"
| "run_pl_step (DownsampleStep v) = downsample_create v"
| "run_pl_step (IngestStep v) = ingest_create v"

definition pl_steps :: "pl_step list" where
  "pl_steps = map PassStep all_passes_of @ map InterpolateStep all_variants @ map DownsampleStep all_halves
     @ map IngestStep all_variants"

definition pipelines_create :: "('w fgs, vk_result) state" where
  "pipelines_create = do {
     dev_modify (\<lambda>dev. dev\<lparr>dev_framegen_pipelines := Some pl_zero\<rparr>);
     ok_all (map run_pl_step pl_steps)
   }"

section \<open>The thread and its callers\<close>

definition pipelines_thread_main :: "('w fgs, unit) state" where
  "pipelines_thread_main = do {
     res \<leftarrow> pipelines_create;
     dev_modify (\<lambda>dev. dev\<lparr>dev_pipelines_result := res\<rparr>)
   }"

definition pipelines_join :: "('w fgs, unit) state" where
  "pipelines_join = do {
     dev \<leftarrow> gets fgs_dev;
     if \<not> dev_pipelines_thread_running dev then return ()
     else do {
       pipelines_thread_main;
       _ \<leftarrow> vk PthreadJoin;
       dev_modify (\<lambda>dev. dev\<lparr>dev_pipelines_thread_running := False\<rparr>)
     }
   }"

definition afmf_framegen_pipelines_prepare :: "('w fgs, unit) state" where
  "afmf_framegen_pipelines_prepare = do {
     dev \<leftarrow> gets fgs_dev;
     if dev_framegen_pipelines dev \<noteq> None \<or> dev_pipelines_thread_running dev then return ()
     else do {
       created \<leftarrow> vk PthreadCreate;
       dev_modify (\<lambda>dev. dev\<lparr>dev_pipelines_thread_running := (created = 0)\<rparr>)
     }
   }"

definition all_pl_slots :: "pl_slot list" where
  "all_pl_slots = map PlInterpolate all_variants @ map PlDownsample all_halves @ map PlIngest all_variants
     @ concat (map (\<lambda>i. [PlPipeline i, PlLayout i, PlSetLayout i]) all_passes_of)"

definition afmf_framegen_pipelines_destroy :: "('w fgs, unit) state" where
  "afmf_framegen_pipelines_destroy = do {
     pipelines_join;
     dev \<leftarrow> gets fgs_dev;
     (case dev_framegen_pipelines dev of
        None \<Rightarrow> return ()
      | Some p \<Rightarrow> do {
          do_all (map (\<lambda>t. destroy_if (pl_kind t) (pl_get t p)) all_pl_slots);
          dev_modify (\<lambda>dev. dev\<lparr>dev_framegen_pipelines := None\<rparr>)
        })
   }"

definition afmf_framegen_pipelines_get :: "('w fgs, fg_pipelines option) state" where
  "afmf_framegen_pipelines_get = do {
     pipelines_join;
     dev \<leftarrow> gets fgs_dev;
     (if dev_framegen_pipelines dev = None then do {
        res \<leftarrow> pipelines_create;
        dev_modify (\<lambda>dev. dev\<lparr>dev_pipelines_result := res\<rparr>)
      } else return ());
     dev \<leftarrow> gets fgs_dev;
     if dev_pipelines_result dev \<noteq> VK_SUCCESS then do { afmf_framegen_pipelines_destroy; return None }
     else return (dev_framegen_pipelines dev)
   }"

section \<open>The books of the pipelines\<close>

interpretation plb: books "fgs_dev :: 'w fgs \<Rightarrow> afmf_device"
  by unfold_locales simp

lemma balanced_dev [simp]: "balanced X (s\<lparr>fgs_dev := dev\<rparr>) own = balanced X s own"
  by (simp add: balanced_def sound_def)

lemma run_dev_modify [simp]: "run_state (dev_modify f) s = ((), s\<lparr>fgs_dev := f (fgs_dev s)\<rparr>)"
  by (simp add: dev_modify_def)

lemma tracks_dev_gets:
  "tracks fgs_dev X dev own (f dev) Q \<Longrightarrow> tracks fgs_dev X dev own (State_Monad.bind (gets fgs_dev) f) Q"
  by (auto simp: tracks_def)

lemma tracks_dev_modify:
  assumes "tracks fgs_dev X (h dev) own (f ()) Q"
  shows "tracks fgs_dev X dev own (State_Monad.bind (dev_modify h) f) Q"
  unfolding tracks_def
proof (intro allI impI)
  fix s a s' assume "fgs_dev s = dev" "balanced X s own" "run_state (State_Monad.bind (dev_modify h) f) s = (a, s')"
  then show "\<exists>own'. balanced X s' own' \<and> Q a (fgs_dev s') own'"
    using tracksD [OF assms, of "s\<lparr>fgs_dev := h dev\<rparr>" a s'] by simp
qed

lemma tracks_dev_modify_last: "Q () (h dev) own \<Longrightarrow> tracks fgs_dev X dev own (dev_modify h) Q"
  by (auto simp: tracks_def)

lemma tracks_destroys_now:
  fixes v :: "('w, 'e) eff_scheme \<Rightarrow> 'v"
  assumes "books v" and "h \<noteq> VK_NULL_HANDLE" and "(k, h) \<in># own" and f: "\<And>r. tracks v X x (own - {#(k, h)#}) (f r) Q"
  shows "tracks v X x own (State_Monad.bind (vk (DestroyObj k h)) f) Q"
proof (rule tracks_bind [where R = "\<lambda>a y o'. y = x \<and> o' = own - {#(k, h)#}"])
  show "tracks v X x own (vk (DestroyObj k h)) (\<lambda>a y o'. y = x \<and> o' = own - {#(k, h)#})"
    unfolding tracks_def
  proof (intro allI impI)
    fix s a s' assume s: "v s = x" "balanced X s own" "run_state (vk (DestroyObj k h)) s = (a, s')"
    have "own = (own - {#(k, h)#}) + held k h" using assms(2,3) by (simp add: held_some)
    then have "balanced X s' (own - {#(k, h)#})" using balanced_destroy [OF s(3)] s(2) assms(2) by metis
    then show "\<exists>own'. balanced X s' own' \<and> v s' = x \<and> own' = own - {#(k, h)#}"
      using s(1) books.v_vk [OF assms(1) s(3)] by simp
  qed
qed (use f in auto)

definition pl_objects :: "fg_pipelines \<Rightarrow> (obj_kind \<times> handle) multiset" where
  "pl_objects p = sum_list (map (\<lambda>t. held (pl_kind t) (pl_get t p)) all_pl_slots)"

definition dev_objects :: "afmf_device \<Rightarrow> (obj_kind \<times> handle) multiset" where
  "dev_objects dev = (case dev_framegen_pipelines dev of None \<Rightarrow> {#} | Some p \<Rightarrow> pl_objects p)"

lemma pl_get_put [simp]: "pl_get t (pl_put u h p) = (if t = u then h else pl_get t p)"
  by (cases t; cases u) auto

lemma pl_get_zero [simp]: "pl_get t pl_zero = 0"
  by (cases t) (simp_all add: pl_zero_def)

lemma pl_objects_zero [simp]: "pl_objects pl_zero = {#}"
  by (simp add: pl_objects_def)

lemma distinct_pl_slots: "distinct all_pl_slots"
  by (simp add: all_pl_slots_def all_variants_def all_halves_def all_passes_of_def)

lemma set_pl_slots: "set all_pl_slots = {t. t \<noteq> PlInterpolate VARIANT_COUNT \<and> t \<noteq> PlIngest VARIANT_COUNT}"
proof (rule set_eqI)
  have v: "set all_variants = {v. v \<noteq> VARIANT_COUNT}" using variant.exhaust by (auto simp: all_variants_def)
  have h: "set all_halves = UNIV" using half_variant.exhaust by (auto simp: all_halves_def)
  have p: "set all_passes_of = UNIV" using fg_pass.exhaust by (auto simp: all_passes_of_def)
  fix t show "t \<in> set all_pl_slots \<longleftrightarrow> t \<in> {t. t \<noteq> PlInterpolate VARIANT_COUNT \<and> t \<noteq> PlIngest VARIANT_COUNT}"
    by (cases t) (auto simp: all_pl_slots_def v h p)
qed

lemma pl_objects_put:
  assumes "t \<in> set all_pl_slots" and "pl_get t p = 0"
  shows "pl_objects (pl_put t h p) = pl_objects p + held (pl_kind t) h"
proof -
  have "sum_list (map (\<lambda>u. held (pl_kind u) (pl_get u (pl_put t h p))) all_pl_slots) + held (pl_kind t) (pl_get t p)
    = sum_list (map (\<lambda>u. held (pl_kind u) (pl_get u p)) all_pl_slots) + held (pl_kind t) (pl_get t (pl_put t h p))"
    by (rule sum_list_at [OF distinct_pl_slots assms(1)]) simp
  then show ?thesis using assms(2) by (simp add: pl_objects_def)
qed

text \<open>
  A slot is filled: the pipelines and nothing else of the device change, what is made goes into empty
  slots, and a success leaves them filled.
\<close>

definition fills :: "pl_slot list \<Rightarrow> afmf_device \<Rightarrow> fg_pipelines \<Rightarrow> (obj_kind \<times> handle) multiset \<Rightarrow>
    vk_result \<Rightarrow> afmf_device \<Rightarrow> (obj_kind \<times> handle) multiset \<Rightarrow> bool" where
  "fills ts dev p own res dev' own' \<longleftrightarrow>
     (\<exists>p'. dev' = dev\<lparr>dev_framegen_pipelines := Some p'\<rparr> \<and> own' + pl_objects p = own + pl_objects p'
       \<and> (\<forall>t. t \<notin> set ts \<longrightarrow> pl_get t p' = pl_get t p) \<and> (res = VK_SUCCESS \<longrightarrow> (\<forall>t \<in> set ts. pl_get t p' \<noteq> 0)))"

lemma fills_none: "dev_framegen_pipelines dev = Some p \<Longrightarrow> ts = [] \<or> res \<noteq> VK_SUCCESS \<Longrightarrow> fills ts dev p own res dev own"
  unfolding fills_def by (intro exI [of _ p]) auto

lemma fills_one:
  assumes "t \<in> set all_pl_slots" "pl_get t p = 0" "h \<noteq> 0"
    and "dev_framegen_pipelines dev = Some p"
  shows "fills [t] dev p own VK_SUCCESS (dev\<lparr>dev_framegen_pipelines := map_option (pl_put t h) (dev_framegen_pipelines dev)\<rparr>)
    (own + {#(pl_kind t, h)#})"
  unfolding fills_def using assms by (intro exI [of _ "pl_put t h p"]) (simp add: pl_objects_put held_some)

lemma fills_trans:
  assumes "fills ts dev p own r dev1 own1" and "\<And>p1. dev_framegen_pipelines dev1 = Some p1 \<Longrightarrow> fills us dev1 p1 own1 res dev' own'"
    and "r = VK_SUCCESS \<or> res \<noteq> VK_SUCCESS" and "distinct (ts @ us)"
  shows "fills (ts @ us) dev p own res dev' own'"
proof -
  obtain p1 where 1: "dev1 = dev\<lparr>dev_framegen_pipelines := Some p1\<rparr>" "own1 + pl_objects p = own + pl_objects p1"
    "\<forall>t. t \<notin> set ts \<longrightarrow> pl_get t p1 = pl_get t p" "r = VK_SUCCESS \<longrightarrow> (\<forall>t \<in> set ts. pl_get t p1 \<noteq> 0)"
    using assms(1) unfolding fills_def by blast
  obtain p2 where 2: "dev' = dev1\<lparr>dev_framegen_pipelines := Some p2\<rparr>" "own' + pl_objects p1 = own1 + pl_objects p2"
    "\<forall>t. t \<notin> set us \<longrightarrow> pl_get t p2 = pl_get t p1" "res = VK_SUCCESS \<longrightarrow> (\<forall>t \<in> set us. pl_get t p2 \<noteq> 0)"
    using assms(2) [of p1] 1(1) unfolding fills_def by auto
  show ?thesis
    unfolding fills_def
  proof (intro exI conjI)
    show "dev' = dev\<lparr>dev_framegen_pipelines := Some p2\<rparr>" using 1(1) 2(1) by simp
    show "own' + pl_objects p = own + pl_objects p2" by (rule sums_chain [OF 2(2) 1(2)])
    show "\<forall>t. t \<notin> set (ts @ us) \<longrightarrow> pl_get t p2 = pl_get t p" using 1(3) 2(3) by simp
    show "res = VK_SUCCESS \<longrightarrow> (\<forall>t \<in> set (ts @ us). pl_get t p2 \<noteq> 0)"
    proof (intro impI ballI)
      fix t assume res: "res = VK_SUCCESS" and t: "t \<in> set (ts @ us)"
      show "pl_get t p2 \<noteq> 0"
        using t res 2(3,4) 1(4) assms(3,4) by (cases "t \<in> set us") auto
    qed
  qed
qed

lemma books_dev: "books (fgs_dev :: 'w fgs \<Rightarrow> afmf_device)" ..

lemmas pl_tracking = tracking plb.calls plb.tracks_gets tracks_dev_modify tracks_destroys_now [OF books_dev]

lemma compute_pipeline_tracks:
  assumes p: "dev_framegen_pipelines dev = Some p" and t: "t \<in> set all_pl_slots" "pl_get t p = 0" "pl_kind t = OPipeline"
  shows "tracks fgs_dev X dev own (create_compute_pipeline spirv layout spec t) (fills [t] dev p own)"
proof -
  have one: "fills [t] dev p own 0 (dev\<lparr>dev_framegen_pipelines := map_option (pl_put t h) (dev_framegen_pipelines dev)\<rparr>)
      (own + {#(OPipeline, h)#})" if "h \<noteq> 0" for h
    using fills_one [of t p h dev own] p t that by simp
  note none = fills_none [OF p]
  show ?thesis
    unfolding create_compute_pipeline_def pl_store_def
    by (intro pl_tracking) (use one none in \<open>auto simp: add_ac\<close>)
qed

lemma skip_tracks:
  assumes "dev_framegen_pipelines dev = Some p" and "tracks fgs_dev X dev own m (fills [t] dev p own)"
  shows "tracks fgs_dev X dev own (if b then return VK_SUCCESS else m) (fills (if b then [] else [t]) dev p own)"
  using assms by (auto intro: tracking fills_none)

text \<open>The slots a step fills on a device.\<close>

fun step_slots :: "afmf_device \<Rightarrow> pl_step \<Rightarrow> pl_slot list" where
  "step_slots dev (PassStep i) = [PlSetLayout i, PlLayout i]
     @ (if i \<in> {PASS_INTERPOLATE, PASS_DOWNSAMPLE, PASS_INGEST} then [] else [PlPipeline i])"
| "step_slots dev (InterpolateStep v) =
     (if v = VARIANT_NOFORMAT \<and> \<not> dev_storage_write_without_format dev then [] else [PlInterpolate v])"
| "step_slots dev (DownsampleStep v) = [PlDownsample v]"
| "step_slots dev (IngestStep v) =
     (if (v = VARIANT_NOFORMAT \<or> v = VARIANT_RGBA8_BGRA) \<and> \<not> dev_storage_write_without_format dev then [] else [PlIngest v])"

definition ok_step :: "pl_step \<Rightarrow> bool" where
  "ok_step st \<longleftrightarrow> st \<noteq> InterpolateStep VARIANT_COUNT \<and> st \<noteq> IngestStep VARIANT_COUNT"

lemma fills_failing:
  "fills ts dev p own r dev' own' \<Longrightarrow> res \<noteq> VK_SUCCESS \<Longrightarrow> set ts \<subseteq> set us \<Longrightarrow> fills us dev p own res dev' own'"
  unfolding fills_def by blast

lemma fills_pipelines:
  assumes "fills ts dev p own res dev' own'"
  obtains p' where "dev' = dev\<lparr>dev_framegen_pipelines := Some p'\<rparr>" "dev_framegen_pipelines dev' = Some p'"
    "\<And>t. t \<notin> set ts \<Longrightarrow> pl_get t p' = pl_get t p"
  using assms unfolding fills_def by force

lemma make_store:
  assumes p: "dev_framegen_pipelines dev = Some p" and t: "t \<in> set all_pl_slots" "pl_get t p = 0" "made_by c = Some (pl_kind t)"
    and on: "\<And>h dev1 own1. fills [t] dev p own VK_SUCCESS dev1 own1 \<Longrightarrow> tracks fgs_dev X dev1 own1 (f h) Q"
    and off: "\<And>r. r \<noteq> VK_SUCCESS \<Longrightarrow> Q r dev own"
  shows "tracks fgs_dev X dev own (do { (res, h) \<leftarrow> vk_full c; if res \<noteq> VK_SUCCESS then return res else do { pl_store t h; f h } }) Q"
  unfolding pl_store_def
  by (rule plb.make [OF t(3)]; simp; (intro pl_tracking)?) (use fills_one [OF t(1,2) _ p] on off in auto)

lemma pass_pipeline_tracks:
  assumes f12: "fills [PlSetLayout i, PlLayout i] dev p own VK_SUCCESS dev2 own2"
    and p2: "dev_framegen_pipelines dev2 = Some p2" "pl_get (PlPipeline i) p2 = 0"
    and i: "i \<notin> {PASS_INTERPOLATE, PASS_DOWNSAMPLE, PASS_INGEST}"
  shows "tracks fgs_dev X dev2 own2 (create_compute_pipeline spirv layout special (PlPipeline i))
    (fills (step_slots dev (PassStep i)) dev p own)"
proof (rule tracks_weaken [OF compute_pipeline_tracks [OF p2(1)]])
  show "PlPipeline i \<in> set all_pl_slots" by (simp add: set_pl_slots)
  fix r dev' own' assume "fills [PlPipeline i] dev2 p2 own2 r dev' own'"
  then have "fills ([PlSetLayout i, PlLayout i] @ [PlPipeline i]) dev p own r dev' own'"
    by (intro fills_trans [OF f12]) (use p2(1) in auto)
  then show "fills (step_slots dev (PassStep i)) dev p own r dev' own'" using i by simp
qed (use p2(2) in simp_all)

lemma pass_tracks:
  assumes p: "dev_framegen_pipelines dev = Some p" and blank: "\<forall>t \<in> set (step_slots dev (PassStep i)). pl_get t p = 0"
  shows "tracks fgs_dev X dev own (pass_create i) (fills (step_slots dev (PassStep i)) dev p own)"
proof -
  let ?all = "step_slots dev (PassStep i)"
  have in_all: "t \<in> set all_pl_slots" if "t \<in> set ?all" for t using that by (auto simp: set_pl_slots split: if_splits)
  have b: "pl_get (PlSetLayout i) p = 0" "pl_get (PlLayout i) p = 0" using blank by auto
  show ?thesis
    unfolding pass_create_def
  proof (rule make_store [OF p in_all b(1)])
    fix h dev1 own1 assume f1: "fills [PlSetLayout i] dev p own VK_SUCCESS dev1 own1"
    obtain p1 where p1: "dev_framegen_pipelines dev1 = Some p1" "dev1 = dev\<lparr>dev_framegen_pipelines := Some p1\<rparr>"
      "\<And>t. t \<noteq> PlSetLayout i \<Longrightarrow> pl_get t p1 = pl_get t p" using fills_pipelines [OF f1] by (metis empty_iff empty_set set_ConsD)
    show "tracks fgs_dev X dev1 own1 (do { (res, layout) \<leftarrow> vk_full (CreatePipelineLayout h (pass_push_size i));
         if res \<noteq> VK_SUCCESS then return res
         else do {
           pl_store (PlLayout i) layout;
           if i \<in> {PASS_INTERPOLATE, PASS_DOWNSAMPLE, PASS_INGEST} then return VK_SUCCESS
           else do {
             cfg \<leftarrow> gets fgs_cfg;
             dev \<leftarrow> gets fgs_dev;
             create_compute_pipeline
               (if i = PASS_SEARCH \<and> dev_shader_int16 dev
                then ''ffx_opticalflow_compute_optical_flow_advanced_pass_v5_int16_spv'' else pass_spirv i)
               layout (if i = PASS_SEARCH then Some (unat (cfg_static_block_sad cfg)) else None) (PlPipeline i)
           }
         } }) (fills ?all dev p own)"
    proof (rule make_store [OF p1(1) in_all])
      fix layout dev2 own2 assume f2: "fills [PlLayout i] dev1 p1 own1 VK_SUCCESS dev2 own2"
      obtain p2 where p2: "dev_framegen_pipelines dev2 = Some p2"
        "\<And>t. t \<noteq> PlLayout i \<Longrightarrow> pl_get t p2 = pl_get t p1" using fills_pipelines [OF f2] by (metis empty_iff empty_set set_ConsD)
      have f12: "fills [PlSetLayout i, PlLayout i] dev p own VK_SUCCESS dev2 own2"
        using fills_trans [OF f1, of "[PlLayout i]"] f2 p1(1) by simp
      have none: "i \<notin> {PASS_INTERPOLATE, PASS_DOWNSAMPLE, PASS_INGEST} \<Longrightarrow> pl_get (PlPipeline i) p2 = 0"
        using p2(2) [of "PlPipeline i"] p1(3) [of "PlPipeline i"] blank by simp
      note rest = pass_pipeline_tracks [OF f12 p2(1) none]
      show "tracks fgs_dev X dev2 own2 (if i \<in> {PASS_INTERPOLATE, PASS_DOWNSAMPLE, PASS_INGEST} then return VK_SUCCESS
           else do {
             cfg \<leftarrow> gets fgs_cfg;
             dev \<leftarrow> gets fgs_dev;
             create_compute_pipeline
               (if i = PASS_SEARCH \<and> dev_shader_int16 dev
                then ''ffx_opticalflow_compute_optical_flow_advanced_pass_v5_int16_spv'' else pass_spirv i)
               layout (if i = PASS_SEARCH then Some (unat (cfg_static_block_sad cfg)) else None) (PlPipeline i)
           }) (fills ?all dev p own)"
        using f12 by (intro tracks_if tracks_return plb.tracks_gets rest) auto
    qed (use b p1(3) [of "PlLayout i"] in \<open>auto intro: fills_failing [OF f1]\<close>)
  qed (use fills_none [OF p] in \<open>auto\<close>)
qed

lemma step_tracks:
  assumes p: "dev_framegen_pipelines dev = Some p" and blank: "\<forall>t \<in> set (step_slots dev st). pl_get t p = 0"
    and ok: "set (step_slots dev st) \<subseteq> set all_pl_slots"
  shows "tracks fgs_dev X dev own (run_pl_step st) (fills (step_slots dev st) dev p own)"
proof (cases st)
  case (PassStep i)
  show ?thesis unfolding PassStep run_pl_step.simps by (rule pass_tracks [OF p]) (use blank PassStep in simp)
next
  case (InterpolateStep v)
  then show ?thesis
    using blank ok fills_none [OF p] unfolding InterpolateStep run_pl_step.simps interpolate_create_def
    by (intro tracks_dev_gets) (auto intro!: tracks_return compute_pipeline_tracks [OF p])
next
  case (DownsampleStep v)
  then show ?thesis
    using blank ok unfolding DownsampleStep run_pl_step.simps downsample_create_def
    by (intro tracks_dev_gets) (auto intro!: compute_pipeline_tracks [OF p])
next
  case (IngestStep v)
  then show ?thesis
    using blank ok fills_none [OF p] unfolding IngestStep run_pl_step.simps ingest_create_def
    by (intro tracks_dev_gets) (auto intro!: tracks_return compute_pipeline_tracks [OF p])
qed

lemma step_slots_other [simp]: "step_slots (dev\<lparr>dev_framegen_pipelines := x\<rparr>) = step_slots dev"
proof
  fix st show "step_slots (dev\<lparr>dev_framegen_pipelines := x\<rparr>) st = step_slots dev st" by (cases st) simp_all
qed

lemma steps_track:
  assumes "dev_framegen_pipelines dev = Some p" and "distinct (concat (map (step_slots dev) sts))"
    and "\<forall>t \<in> set (concat (map (step_slots dev) sts)). t \<in> set all_pl_slots \<and> pl_get t p = 0"
  shows "tracks (fgs_dev :: 'w fgs \<Rightarrow> _) X dev own (ok_all (map run_pl_step sts)) (fills (concat (map (step_slots dev) sts)) dev p own)"
  using assms
proof (induction sts arbitrary: dev p own)
  case Nil
  then show ?case by (auto intro!: tracks_return fills_none)
next
  case (Cons st sts)
  have "tracks (fgs_dev :: 'w fgs \<Rightarrow> _) X dev own (run_pl_step st) (fills (step_slots dev st) dev p own)"
    by (rule step_tracks) (use Cons.prems in auto)
  then show ?case
    unfolding list.map ok_all.simps
  proof (rule tracks_bind)
    fix res dev1 own1 assume f1: "fills (step_slots dev st) dev p own res dev1 own1"
    obtain p1 where p1: "dev1 = dev\<lparr>dev_framegen_pipelines := Some p1\<rparr>" "dev_framegen_pipelines dev1 = Some p1"
      "\<And>t. t \<notin> set (step_slots dev st) \<Longrightarrow> pl_get t p1 = pl_get t p" by (rule fills_pipelines [OF f1]) blast
    show "tracks (fgs_dev :: 'w fgs \<Rightarrow> _) X dev1 own1 (if res \<noteq> VK_SUCCESS then return res else ok_all (map run_pl_step sts))
        (fills (concat (step_slots dev st # map (step_slots dev) sts)) dev p own)"
    proof (cases "res = VK_SUCCESS")
      case True
      have "tracks (fgs_dev :: 'w fgs \<Rightarrow> _) X dev1 own1 (ok_all (map run_pl_step sts)) (fills (concat (map (step_slots dev1) sts)) dev1 p1 own1)"
      proof (rule Cons.IH [OF p1(2)])
        show "\<forall>t \<in> set (concat (map (step_slots dev1) sts)). t \<in> set all_pl_slots \<and> pl_get t p1 = 0"
        proof
          fix t assume "t \<in> set (concat (map (step_slots dev1) sts))"
          then have t: "t \<in> set (concat (map (step_slots dev) sts))" using p1(1) by simp
          then have "t \<notin> set (step_slots dev st)" using Cons.prems(2) by (metis concat.simps(2) disjoint_iff distinct_append list.simps(9))
          then show "t \<in> set all_pl_slots \<and> pl_get t p1 = 0" using p1(3) [of t] Cons.prems(3) t by (metis UnCI concat.simps(2) list.simps(9) set_append)
        qed
      qed (use Cons.prems p1(1) in simp_all)
      then have "tracks (fgs_dev :: 'w fgs \<Rightarrow> _) X dev1 own1 (ok_all (map run_pl_step sts)) (fills (concat (step_slots dev st # map (step_slots dev) sts)) dev p own)"
      proof (rule tracks_weaken)
        fix r dev' own' assume "fills (concat (map (step_slots dev1) sts)) dev1 p1 own1 r dev' own'"
        then show "fills (concat (step_slots dev st # map (step_slots dev) sts)) dev p own r dev' own'"
          using fills_trans [OF f1, of "concat (map (step_slots dev) sts)" r dev' own'] True Cons.prems(2) p1(1,2) by auto
      qed
      then show ?thesis using True by simp
    next
      case False
      then show ?thesis using fills_failing [OF f1] by (auto intro!: tracks_return)
    qed
  qed
qed

definition pl_slots_for :: "afmf_device \<Rightarrow> pl_slot list" where
  "pl_slots_for dev = concat (map (step_slots dev) pl_steps)"

lemma pl_slots_for_ok: "distinct (pl_slots_for dev)" "set (pl_slots_for dev) \<subseteq> set all_pl_slots"
  by (simp_all add: pl_slots_for_def pl_steps_def all_passes_of_def all_variants_def all_halves_def set_pl_slots)

text \<open>The pipelines the device is left with, whatever went wrong; after a success, all its slots filled.\<close>

definition compiled :: "afmf_device \<Rightarrow> vk_result \<Rightarrow> afmf_device \<Rightarrow> bool" where
  "compiled dev res dev' \<longleftrightarrow> (\<exists>p'. dev' = dev\<lparr>dev_framegen_pipelines := Some p'\<rparr>
     \<and> (res = VK_SUCCESS \<longrightarrow> (\<forall>t \<in> set (pl_slots_for dev). pl_get t p' \<noteq> 0)))"

lemma pipelines_create_tracks:
  "tracks fgs_dev X dev own pipelines_create (\<lambda>res dev' own'. compiled dev res dev' \<and> own' = own + dev_objects dev')"
  unfolding pipelines_create_def
proof (rule tracks_dev_modify, rule tracks_weaken [OF steps_track [where p = pl_zero]])
  let ?dev = "dev\<lparr>dev_framegen_pipelines := Some pl_zero\<rparr>"
  show "dev_framegen_pipelines ?dev = Some pl_zero" by simp
  have same: "concat (map (step_slots ?dev) pl_steps) = pl_slots_for dev" by (simp add: pl_slots_for_def)
  show "distinct (concat (map (step_slots ?dev) pl_steps))" unfolding same by (rule pl_slots_for_ok)
  show "\<forall>t \<in> set (concat (map (step_slots ?dev) pl_steps)). t \<in> set all_pl_slots \<and> pl_get t pl_zero = 0"
    unfolding same using pl_slots_for_ok by auto
  fix res dev' own' assume "fills (concat (map (step_slots ?dev) pl_steps)) ?dev pl_zero own res dev' own'"
  then show "compiled dev res dev' \<and> own' = own + dev_objects dev'"
    unfolding same fills_def compiled_def dev_objects_def by auto
qed

lemma run_destroys:
  assumes "books v" and "\<And>x. x \<in> set xs \<Longrightarrow> True"
  shows "tracks v X y (own + sum_list (map (\<lambda>t. held (k t) (h t)) xs)) (do_all (map (\<lambda>t. destroy_if (k t) (h t)) xs))
     (\<lambda>a y' own'. y' = y \<and> own' = own)"
  using assms(1)
proof (induction xs)
  case (Cons t xs)
  show ?case
    unfolding list.map do_all.simps
    by (rule books.destroys [OF Cons.prems, where own' = "own + sum_list (map (\<lambda>t. held (k t) (h t)) xs)"])
       (use Cons in \<open>simp_all add: add_ac\<close>)
qed (auto intro: tracks_return)

definition joined :: "afmf_device \<Rightarrow> afmf_device \<Rightarrow> bool" where
  "joined dev dev' \<longleftrightarrow> \<not> dev_pipelines_thread_running dev'
     \<and> (if dev_pipelines_thread_running dev
        then \<exists>p. dev' = dev\<lparr>dev_framegen_pipelines := Some p, dev_pipelines_result := dev_pipelines_result dev', dev_pipelines_thread_running := False\<rparr>
          \<and> (dev_pipelines_result dev' = VK_SUCCESS \<longrightarrow> (\<forall>t \<in> set (pl_slots_for dev). pl_get t p \<noteq> 0))
        else dev' = dev)"

lemma join_tracks:
  assumes "dev_pipelines_thread_running dev \<longrightarrow> dev_framegen_pipelines dev = None"
  shows "tracks fgs_dev X dev (own + dev_objects dev) pipelines_join
     (\<lambda>_ dev' own'. joined dev dev' \<and> own' = own + dev_objects dev')"
  unfolding pipelines_join_def pipelines_thread_main_def
proof (rule tracks_dev_gets, rule tracks_if)
  assume r: "\<not> \<not> dev_pipelines_thread_running dev"
  then have none: "dev_objects dev = {#}" using assms by (simp add: dev_objects_def)
  show "tracks fgs_dev X dev (own + dev_objects dev) (do {
       do { res \<leftarrow> pipelines_create; dev_modify (\<lambda>dev. dev\<lparr>dev_pipelines_result := res\<rparr>) };
       _ \<leftarrow> vk PthreadJoin;
       dev_modify (\<lambda>dev. dev\<lparr>dev_pipelines_thread_running := False\<rparr>) }) (\<lambda>_ dev' own'. joined dev dev' \<and> own' = own + dev_objects dev')"
    unfolding none
    by (rule tracks_assoc, rule tracks_bind [OF pipelines_create_tracks], intro pl_tracking tracks_dev_modify_last)
       (use r in \<open>auto simp: compiled_def joined_def dev_objects_def\<close>)
qed (auto intro: tracks_return simp: joined_def)

section \<open>The pipelines a device has\<close>

text \<open>
  While the thread runs nothing is there yet; and what is there after a result of success is complete.
\<close>

definition pl_ok :: "afmf_device \<Rightarrow> bool" where
  "pl_ok dev \<longleftrightarrow> (dev_pipelines_thread_running dev \<longrightarrow> dev_framegen_pipelines dev = None)
     \<and> (\<forall>p. dev_framegen_pipelines dev = Some p \<longrightarrow> dev_pipelines_result dev = VK_SUCCESS \<longrightarrow>
          (\<forall>t \<in> set (pl_slots_for dev). pl_get t p \<noteq> 0))"

lemma step_slots_device [simp]:
  "step_slots (dev\<lparr>dev_pipelines_result := r\<rparr>) = step_slots dev" "step_slots (dev\<lparr>dev_pipelines_thread_running := b\<rparr>) = step_slots dev"
proof -
  show "step_slots (dev\<lparr>dev_pipelines_result := r\<rparr>) = step_slots dev"
  proof
    fix st show "step_slots (dev\<lparr>dev_pipelines_result := r\<rparr>) st = step_slots dev st" by (cases st) simp_all
  qed
  show "step_slots (dev\<lparr>dev_pipelines_thread_running := b\<rparr>) = step_slots dev"
  proof
    fix st show "step_slots (dev\<lparr>dev_pipelines_thread_running := b\<rparr>) st = step_slots dev st" by (cases st) simp_all
  qed
qed

lemma pl_slots_for_device [simp]:
  "pl_slots_for (dev\<lparr>dev_pipelines_result := r\<rparr>) = pl_slots_for dev" "pl_slots_for (dev\<lparr>dev_pipelines_thread_running := b\<rparr>) = pl_slots_for dev"
  "pl_slots_for (dev\<lparr>dev_framegen_pipelines := x\<rparr>) = pl_slots_for dev"
  by (simp_all add: pl_slots_for_def)

text \<open>The device but for the pipelines' own fields.\<close>

definition pl_others :: "afmf_device \<Rightarrow> afmf_device" where
  "pl_others dev = dev\<lparr>dev_framegen_pipelines := None, dev_pipelines_result := 0, dev_pipelines_thread_running := False\<rparr>"

lemma pl_others_simps [simp]:
  "pl_others (dev\<lparr>dev_pipelines_result := r\<rparr>) = pl_others dev" "pl_others (dev\<lparr>dev_pipelines_thread_running := b\<rparr>) = pl_others dev"
  "pl_others (dev\<lparr>dev_framegen_pipelines := x\<rparr>) = pl_others dev"
  by (simp_all add: pl_others_def)

lemma joined_ok:
  assumes "joined dev dev'" and "pl_ok dev"
  shows "pl_ok dev'" "\<not> dev_pipelines_thread_running dev'" "pl_others dev' = pl_others dev" "pl_slots_for dev' = pl_slots_for dev"
proof -
  have "\<not> dev_pipelines_thread_running dev' \<and> pl_ok dev' \<and> pl_others dev' = pl_others dev \<and> pl_slots_for dev' = pl_slots_for dev"
  proof (cases "dev_pipelines_thread_running dev")
    case True
    then obtain p where d: "dev' = dev\<lparr>dev_framegen_pipelines := Some p, dev_pipelines_result := dev_pipelines_result dev', dev_pipelines_thread_running := False\<rparr>"
        and f: "dev_pipelines_result dev' = VK_SUCCESS \<longrightarrow> (\<forall>t \<in> set (pl_slots_for dev). pl_get t p \<noteq> 0)"
      using assms(1) unfolding joined_def by auto
    show ?thesis using f by (subst (1 2 3 4) d) (simp add: pl_ok_def)
  qed (use assms in \<open>auto simp: joined_def\<close>)
  then show "pl_ok dev'" "\<not> dev_pipelines_thread_running dev'" "pl_others dev' = pl_others dev" "pl_slots_for dev' = pl_slots_for dev" by auto
qed

lemma pipelines_destroy_tracks:
  assumes "pl_ok dev"
  shows "tracks (fgs_dev :: 'w fgs \<Rightarrow> _) X dev (own + dev_objects dev) afmf_framegen_pipelines_destroy
     (\<lambda>_ dev' own'. own' = own \<and> dev_framegen_pipelines dev' = None \<and> pl_ok dev' \<and> pl_others dev' = pl_others dev
        \<and> \<not> dev_pipelines_thread_running dev')"
  unfolding afmf_framegen_pipelines_destroy_def
proof (rule tracks_bind [OF join_tracks])
  show "dev_pipelines_thread_running dev \<longrightarrow> dev_framegen_pipelines dev = None" using assms by (simp add: pl_ok_def)
  fix u dev1 own1 assume j: "joined dev dev1 \<and> own1 = own + dev_objects dev1"
  note k = joined_ok [OF conjunct1 [OF j] assms]
  let ?Q = "\<lambda>_ dev' own'. own' = own \<and> dev_framegen_pipelines dev' = None \<and> pl_ok dev' \<and> pl_others dev' = pl_others dev
        \<and> \<not> dev_pipelines_thread_running dev'"
  have some: "tracks (fgs_dev :: 'w fgs \<Rightarrow> _) X dev1 own1 (do {
          do_all (map (\<lambda>t. destroy_if (pl_kind t) (pl_get t p)) all_pl_slots);
          dev_modify (\<lambda>dev. dev\<lparr>dev_framegen_pipelines := None\<rparr>) }) ?Q" if p: "dev_framegen_pipelines dev1 = Some p" for p
  proof -
    have own1: "own1 = own + sum_list (map (\<lambda>t. held (pl_kind t) (pl_get t p)) all_pl_slots)"
      using j p by (simp add: dev_objects_def pl_objects_def)
    show ?thesis
      unfolding own1
      by (rule tracks_bind [OF run_destroys [OF books_dev]], simp)
         (rule tracks_dev_modify_last, use k in \<open>simp add: pl_ok_def\<close>)
  qed
  show "tracks (fgs_dev :: 'w fgs \<Rightarrow> _) X dev1 own1 (do { dev \<leftarrow> gets fgs_dev;
     (case dev_framegen_pipelines dev of
        None \<Rightarrow> return ()
      | Some p \<Rightarrow> do {
          do_all (map (\<lambda>t. destroy_if (pl_kind t) (pl_get t p)) all_pl_slots);
          dev_modify (\<lambda>dev. dev\<lparr>dev_framegen_pipelines := None\<rparr>)
        }) }) ?Q"
    by (rule tracks_dev_gets, rule tracks_option, rule tracks_return) (use j k some in \<open>auto simp: dev_objects_def\<close>)
qed

lemma pipelines_get_tracks:
  assumes "pl_ok dev"
  shows "tracks (fgs_dev :: 'w fgs \<Rightarrow> _) X dev (own + dev_objects dev) afmf_framegen_pipelines_get
     (\<lambda>r dev' own'. own' = own + dev_objects dev' \<and> dev_framegen_pipelines dev' = r \<and> pl_ok dev' \<and> pl_others dev' = pl_others dev
        \<and> \<not> dev_pipelines_thread_running dev' \<and> (r \<noteq> None \<longrightarrow> dev_pipelines_result dev' = VK_SUCCESS))"
  unfolding afmf_framegen_pipelines_get_def
proof (rule tracks_bind [OF join_tracks])
  show "dev_pipelines_thread_running dev \<longrightarrow> dev_framegen_pipelines dev = None" using assms by (simp add: pl_ok_def)
  fix u dev1 own1 assume j: "joined dev dev1 \<and> own1 = own + dev_objects dev1"
  note k = joined_ok [OF conjunct1 [OF j] assms]
  let ?Q = "\<lambda>r dev' own'. own' = own + dev_objects dev' \<and> dev_framegen_pipelines dev' = r \<and> pl_ok dev' \<and> pl_others dev' = pl_others dev
        \<and> \<not> dev_pipelines_thread_running dev' \<and> (r \<noteq> None \<longrightarrow> dev_pipelines_result dev' = VK_SUCCESS)"
  let ?rest = "do { dev \<leftarrow> gets fgs_dev;
     if dev_pipelines_result dev \<noteq> VK_SUCCESS then do { afmf_framegen_pipelines_destroy; return None }
     else return (dev_framegen_pipelines dev) }"
  have rest: "tracks (fgs_dev :: 'w fgs \<Rightarrow> _) X dev2 (own + dev_objects dev2) ?rest ?Q"
    if "pl_ok dev2" "pl_others dev2 = pl_others dev" "\<not> dev_pipelines_thread_running dev2" for dev2
    by (rule tracks_dev_gets, rule tracks_if, rule tracks_bind [OF pipelines_destroy_tracks], rule that)
       (use that in \<open>auto intro!: tracks_return simp: dev_objects_def\<close>)
  show "tracks (fgs_dev :: 'w fgs \<Rightarrow> _) X dev1 own1 (do { dev \<leftarrow> gets fgs_dev;
     (if dev_framegen_pipelines dev = None then do {
        res \<leftarrow> pipelines_create;
        dev_modify (\<lambda>dev. dev\<lparr>dev_pipelines_result := res\<rparr>)
      } else return ()); ?rest }) ?Q"
  proof (rule tracks_dev_gets, rule tracks_bind_if)
    assume none: "dev_framegen_pipelines dev1 = None"
    show "tracks (fgs_dev :: 'w fgs \<Rightarrow> _) X dev1 own1 (do { do { res \<leftarrow> pipelines_create; dev_modify (\<lambda>dev. dev\<lparr>dev_pipelines_result := res\<rparr>) }; ?rest }) ?Q"
    proof (rule tracks_assoc, rule tracks_bind [OF pipelines_create_tracks])
      fix res dev2 own2 assume c: "compiled dev1 res dev2 \<and> own2 = own1 + dev_objects dev2"
      let ?dev2 = "dev2\<lparr>dev_pipelines_result := res\<rparr>"
      have own2: "own2 = own + dev_objects ?dev2" using c j none by (simp add: dev_objects_def)
      obtain p where p: "dev2 = dev1\<lparr>dev_framegen_pipelines := Some p\<rparr>"
        "res = VK_SUCCESS \<longrightarrow> (\<forall>t \<in> set (pl_slots_for dev1). pl_get t p \<noteq> 0)" using c unfolding compiled_def by blast
      show "tracks (fgs_dev :: 'w fgs \<Rightarrow> _) X dev2 own2 (do { dev_modify (\<lambda>dev. dev\<lparr>dev_pipelines_result := res\<rparr>); ?rest }) ?Q"
        unfolding own2 by (rule tracks_dev_modify, rule rest) (use p k in \<open>simp_all add: pl_ok_def\<close>)
    qed
  next
    assume "\<not> dev_framegen_pipelines dev1 = None"
    show "tracks (fgs_dev :: 'w fgs \<Rightarrow> _) X dev1 own1 (do { return (); ?rest }) ?Q"
      using rest [of dev1] j k by (intro tracks_bind_return) auto
  qed
qed

lemma pipelines_prepare_tracks:
  assumes "pl_ok dev"
  shows "tracks (fgs_dev :: 'w fgs \<Rightarrow> _) X dev (own + dev_objects dev) afmf_framegen_pipelines_prepare
     (\<lambda>_ dev' own'. own' = own + dev_objects dev' \<and> pl_ok dev' \<and> pl_others dev' = pl_others dev)"
  unfolding afmf_framegen_pipelines_prepare_def
  by (rule tracks_dev_gets, intro pl_tracking tracks_dev_modify_last) (use assms in \<open>auto simp: pl_ok_def dev_objects_def\<close>)


text \<open>What the recording may bind on a device.\<close>

lemma slots_for_passes:
  "PlSetLayout i \<in> set (pl_slots_for dev)" "PlLayout i \<in> set (pl_slots_for dev)"
  "i \<notin> {PASS_INTERPOLATE, PASS_DOWNSAMPLE, PASS_INGEST} \<Longrightarrow> PlPipeline i \<in> set (pl_slots_for dev)"
  by (cases i; simp add: pl_slots_for_def pl_steps_def all_passes_of_def)+

lemma slots_for_halves: "PlDownsample h \<in> set (pl_slots_for dev)"
  by (cases h) (simp_all add: pl_slots_for_def pl_steps_def all_halves_def)

lemma slots_for_variants:
  "v \<noteq> VARIANT_COUNT \<Longrightarrow> v = VARIANT_NOFORMAT \<longrightarrow> dev_storage_write_without_format dev \<Longrightarrow> PlInterpolate v \<in> set (pl_slots_for dev)"
  "v \<noteq> VARIANT_COUNT \<Longrightarrow> v = VARIANT_NOFORMAT \<or> v = VARIANT_RGBA8_BGRA \<longrightarrow> dev_storage_write_without_format dev \<Longrightarrow>
     PlIngest v \<in> set (pl_slots_for dev)"
  by (cases v; simp add: pl_slots_for_def pl_steps_def all_variants_def)+

lemma direct_variant_needs:
  "afmf_framegen_can_write_direct dev f \<Longrightarrow>
     afmf_framegen_direct_variant_for dev f = VARIANT_NOFORMAT \<longrightarrow> dev_storage_write_without_format dev"
  by (cases f) (auto simp: afmf_framegen_can_write_direct_def afmf_framegen_direct_variant_for_def split: if_splits)

lemma ingest_variant_needs:
  "afmf_framegen_can_ingest_direct dev f \<Longrightarrow>
     afmf_framegen_ingest_variant_for dev f \<in> {VARIANT_NOFORMAT, VARIANT_RGBA8_BGRA} \<longrightarrow> dev_storage_write_without_format dev"
  by (cases f) (auto simp: afmf_framegen_can_ingest_direct_def afmf_framegen_ingest_variant_for_def
      afmf_framegen_describe_format_def split: if_splits)

text \<open>
  C38: The pipelines the recording binds are there. When \<open>afmf_framegen_pipelines_get\<close> gives out the
  device's pipelines, whether the thread or the call itself compiled them, every flow pass has its
  pipeline and every pass its layouts; and for every swapchain format the layer takes, the variants
  the format tables choose, for the interpolation into the layer's image or straight into the
  swapchain's and for the direct ingest, were compiled.
\<close>
theorem pipelines_ready:
  fixes s :: "'w fgs"
  assumes run: "run_state afmf_framegen_pipelines_get s = (Some p, s')"
    and bal: "balanced X s (dev_objects (fgs_dev s))" and ok: "pl_ok (fgs_dev s)"
  shows "pl_set_layouts p i \<noteq> 0 \<and> pl_layouts p i \<noteq> 0
   \<and> (i \<notin> {PASS_INTERPOLATE, PASS_DOWNSAMPLE, PASS_INGEST} \<longrightarrow> pl_pipelines p i \<noteq> 0) \<and> pl_downsample p h \<noteq> 0
   \<and> (fst (afmf_framegen_describe_format f fg) \<longrightarrow> pl_interpolate p (fg_variant (snd (afmf_framegen_describe_format f fg))) \<noteq> 0)
   \<and> (afmf_framegen_can_write_direct (fgs_dev s) f \<longrightarrow> pl_interpolate p (afmf_framegen_direct_variant_for (fgs_dev s) f) \<noteq> 0)
   \<and> (afmf_framegen_can_ingest_direct (fgs_dev s) f \<longrightarrow> pl_ingest p (afmf_framegen_ingest_variant_for (fgs_dev s) f) \<noteq> 0)
   \<and> fgs_pl s' = p"
proof -
  let ?dev = "fgs_dev s" and ?dev' = "fgs_dev s'"
  have "balanced X s ({#} + dev_objects ?dev)" using bal by simp
  from tracksD [OF pipelines_get_tracks [OF ok] refl this run]
  have q: "dev_framegen_pipelines ?dev' = Some p" "pl_ok ?dev'" "pl_others ?dev' = pl_others ?dev" "dev_pipelines_result ?dev' = VK_SUCCESS"
    by auto
  have "pl_slots_for (pl_others d) = pl_slots_for d" for d by (simp add: pl_others_def)
  then have same: "pl_slots_for ?dev' = pl_slots_for ?dev" using q(3) by metis
  have filled: "pl_get t p \<noteq> 0" if "t \<in> set (pl_slots_for ?dev)" for t
    using q(1,2,4) that same unfolding pl_ok_def by auto
  note at = filled [OF slots_for_passes(1), simplified] filled [OF slots_for_passes(2), simplified]
    filled [OF slots_for_passes(3)] filled [OF slots_for_halves, simplified] filled [OF slots_for_variants(1)] filled [OF slots_for_variants(2)]
  have "pl_interpolate p (fg_variant (snd (afmf_framegen_describe_format f fg))) \<noteq> 0" if d: "fst (afmf_framegen_describe_format f fg)"
    using at(5) [of "fg_variant (snd (afmf_framegen_describe_format f fg))"] described_format(1,2) [of f fg] d by (cases "afmf_framegen_describe_format f fg") auto
  moreover have "pl_interpolate p (afmf_framegen_direct_variant_for ?dev f) \<noteq> 0" if w: "afmf_framegen_can_write_direct ?dev f"
    using at(5) [of "afmf_framegen_direct_variant_for ?dev f"] direct_variant_needs [OF w] w by (auto simp: afmf_framegen_can_write_direct_def)
  moreover have "pl_ingest p (afmf_framegen_ingest_variant_for ?dev f) \<noteq> 0" if r: "afmf_framegen_can_ingest_direct ?dev f"
    using at(6) [of "afmf_framegen_ingest_variant_for ?dev f"] ingest_variant_needs [OF r] r by (auto simp: afmf_framegen_can_ingest_direct_def)
  ultimately show ?thesis
    using at(1,2,4) at(3) [of i] q(1) by (auto simp: fgs_pl_def dev_pipelines_def)
qed

text \<open>
  The device's pipelines are destroyed with it, all of them once. Whether the compilation was
  started on the thread or not, succeeded or broke off anywhere, and however often a swapchain asked for
  the pipelines: after \<open>afmf_framegen_pipelines_destroy\<close> everything made has been destroyed but the \<open>X\<close>
  of others, nothing was destroyed twice, and no thread is running.
\<close>
theorem pipelines_freed:
  fixes s :: "'w fgs"
  assumes run: "run_state (do { afmf_framegen_pipelines_prepare; first \<leftarrow> afmf_framegen_pipelines_get;
      second \<leftarrow> afmf_framegen_pipelines_get; afmf_framegen_pipelines_destroy; return (first, second) }) s = (r, s')"
    and "sound s" and made: "made (eff_trace s) = gone (eff_trace s) + X"
    and new: "dev_framegen_pipelines (fgs_dev s) = None" "\<not> dev_pipelines_thread_running (fgs_dev s)"
  shows "made (eff_trace s') = gone (eff_trace s') + X \<and> dev_framegen_pipelines (fgs_dev s') = None
    \<and> \<not> dev_pipelines_thread_running (fgs_dev s')"
proof -
  have ok: "pl_ok (fgs_dev s)" and own: "dev_objects (fgs_dev s) = {#}" using new by (simp_all add: pl_ok_def dev_objects_def)
  have bal: "balanced X s {#}" using assms(2) made by (simp add: balanced_def)
  have "tracks (fgs_dev :: 'w fgs \<Rightarrow> _) X (fgs_dev s) ({#} + dev_objects (fgs_dev s)) (do { afmf_framegen_pipelines_prepare;
      first \<leftarrow> afmf_framegen_pipelines_get; second \<leftarrow> afmf_framegen_pipelines_get; afmf_framegen_pipelines_destroy;
      return (first, second) }) (\<lambda>_ dev' own'. own' = {#} \<and> dev_framegen_pipelines dev' = None \<and> \<not> dev_pipelines_thread_running dev')"
    apply (rule tracks_bind [OF pipelines_prepare_tracks [OF ok]], elim conjE, hypsubst)
    apply (rule tracks_bind [OF pipelines_get_tracks], assumption, elim conjE, hypsubst)
    apply (rule tracks_bind [OF pipelines_get_tracks], assumption, elim conjE, hypsubst)
    apply (rule tracks_bind [OF pipelines_destroy_tracks], assumption, elim conjE, hypsubst)
    by (rule tracks_return) simp
  from tracksD [OF this refl _ run] show ?thesis using bal own by (auto simp: balanced_def)
qed


section \<open>A compilation that succeeds\<close>

lemma easy_dev [simp]:
  "easy (s\<lparr>fgs_dev := (fgs_dev s)\<lparr>dev_framegen_pipelines := x\<rparr>\<rparr>) = easy s"
  "easy (s\<lparr>fgs_dev := (fgs_dev s)\<lparr>dev_pipelines_result := r\<rparr>\<rparr>) = easy s"
  "easy (s\<lparr>eff_trace := tr, fgs_dev := (fgs_dev s)\<lparr>dev_framegen_pipelines := x\<rparr>\<rparr>) = easy s"
  by (simp_all add: easy_def)

lemma easy_pipeline:
  "easy s \<Longrightarrow> \<exists>s'. run_state (create_compute_pipeline spirv layout special t) s = (VK_SUCCESS, s') \<and> easy s'"
  by (simp add: create_compute_pipeline_def easy_vk pl_store_def)

lemma easy_pl_step: "easy s \<Longrightarrow> \<exists>s'. run_state (run_pl_step st) s = (VK_SUCCESS, s') \<and> easy s'"
  by (cases st) (simp_all add: pass_create_def interpolate_create_def downsample_create_def ingest_create_def
      easy_vk pl_store_def easy_pipeline)

lemma easy_pipelines_create:
  assumes "easy s"
  shows "\<exists>s'. run_state pipelines_create s = (VK_SUCCESS, s') \<and> easy s'"
  unfolding pipelines_create_def run_bind run_dev_modify prod.case
  by (rule ok_all_succeeds) (use easy_pl_step assms in auto)

lemma easy_pipelines_get:
  assumes "easy s" and "dev_framegen_pipelines (fgs_dev s) = None" "\<not> dev_pipelines_thread_running (fgs_dev s)"
    and "balanced X s own"
  shows "\<exists>p s'. run_state afmf_framegen_pipelines_get s = (Some p, s') \<and> easy s'"
proof -
  obtain s1 where run: "run_state pipelines_create s = (VK_SUCCESS, s1)" "easy s1" using easy_pipelines_create assms(1) by blast
  then obtain p where "fgs_dev s1 = (fgs_dev s)\<lparr>dev_framegen_pipelines := Some p\<rparr>"
    using tracksD [OF pipelines_create_tracks refl assms(4) run(1)] unfolding compiled_def by blast
  moreover from this have "easy (s1\<lparr>fgs_dev := (fgs_dev s)\<lparr>dev_framegen_pipelines := Some p, dev_pipelines_result := 0\<rparr>\<rparr>)"
    using run(2) by (simp add: easy_def)
  ultimately show ?thesis using assms run by (simp add: afmf_framegen_pipelines_get_def pipelines_join_def)
qed

definition capable_device :: afmf_device where
  "capable_device = dev_zero\<lparr>dev_format_properties := Some (\<lambda>_. {FEATURE_SAMPLED, FEATURE_SAMPLED_FILTER_LINEAR, FEATURE_STORAGE,
       FEATURE_STORAGE_ATOMIC}), dev_storage_write_without_format := True, dev_api_version := 4206592, dev_set_loader_data := True,
     dev_subgroup_compute := True, dev_subgroup_ops := {SUBGROUP_BASIC, SUBGROUP_ARITHMETIC, SUBGROUP_QUAD},
     dev_memory_types := [{DEVICE_LOCAL, HOST_VISIBLE, HOST_COHERENT}]\<rparr>"

definition fresh_sys :: "nat fgs" where
  "fresh_sys = (easy_sys fg_zero)\<lparr>fgs_dev := capable_device\<rparr>"

lemma fresh_sys_simps [simp]:
  "easy fresh_sys" "fgs_dev fresh_sys = capable_device" "eff_trace fresh_sys = []" "sound fresh_sys"
  "dev_framegen_pipelines capable_device = None" "\<not> dev_pipelines_thread_running capable_device"
  by (simp_all add: fresh_sys_def easy_def easy_sys_def sample_fgs_def sound_def capable_device_def dev_zero_def)

theorem pipelines_ready_witness:
  "\<exists>p s'. run_state afmf_framegen_pipelines_get fresh_sys = (Some p, s')
     \<and> pl_interpolate p VARIANT_NOFORMAT \<noteq> 0 \<and> pl_ingest p VARIANT_RGBA8_BGRA \<noteq> 0"
proof -
  have bal: "balanced {#} fresh_sys (dev_objects (fgs_dev fresh_sys))" and ok: "pl_ok (fgs_dev fresh_sys)"
    by (simp_all add: balanced_def dev_objects_def pl_ok_def)
  obtain p s' where run: "run_state afmf_framegen_pipelines_get fresh_sys = (Some p, s')"
    using easy_pipelines_get [OF _ _ _ bal] by auto
  have "afmf_framegen_direct_variant_for capable_device B8G8R8A8_UNORM = VARIANT_NOFORMAT"
    "afmf_framegen_ingest_variant_for capable_device B8G8R8A8_UNORM = VARIANT_RGBA8_BGRA"
    by (simp_all add: capable_device_def afmf_framegen_direct_variant_for_def afmf_framegen_ingest_variant_for_def
        afmf_framegen_describe_format_def afmf_framegen_format_supports_def)
  then show ?thesis
    using pipelines_ready [OF run bal ok, of PASS_SEARCH HALF_RGBA8 B8G8R8A8_UNORM fg_zero] run
    by (auto simp: afmf_framegen_can_write_direct_def afmf_framegen_can_ingest_direct_def)
qed

theorem pipelines_freed_witness:
  "\<exists>r s'. run_state (do { afmf_framegen_pipelines_prepare; first \<leftarrow> afmf_framegen_pipelines_get;
      second \<leftarrow> afmf_framegen_pipelines_get; afmf_framegen_pipelines_destroy; return (first, second) }) fresh_sys = (r, s')
     \<and> made (eff_trace s') = gone (eff_trace s')"
proof -
  let ?m = "do { afmf_framegen_pipelines_prepare; first \<leftarrow> afmf_framegen_pipelines_get;
      second \<leftarrow> afmf_framegen_pipelines_get; afmf_framegen_pipelines_destroy; return (first, second) } :: (nat fgs, _) state"
  obtain r s' where run: "run_state ?m fresh_sys = (r, s')" by (metis surj_pair)
  show ?thesis using pipelines_freed [OF run, of "{#}"] run by auto
qed

end
