(* ===== verification/Fg_Create.thy ===== *)
theory Fg_Create
  imports Fg_Pipelines
begin

text \<open>
  Creating and destroying one swapchain's frame generation (src/src/framegen.c). Freed memory is the
  zero structure; \<open>calloc\<close> is taken to succeed. An array and its count are one list, so the
  swapchain's images are a list, empty for \<open>NULL\<close>.
\<close>

section \<open>Pre-recorded command buffers\<close>

definition sec_zero :: secondary where
  "sec_zero = \<lparr>sec_cmd = VK_NULL_HANDLE, sec_recorded = False, sec_levels = 0, sec_stages = []\<rparr>"

text \<open>The dispatch pointer stamped on each buffer, up to the first that fails.\<close>

primrec set_loader_data_all :: "handle list \<Rightarrow> ('w, 'e, bool) act" where
  "set_loader_data_all [] = return True"
| "set_loader_data_all (c # cs) = do {
     res \<leftarrow> vk (SetLoaderData c);
     if res = VK_SUCCESS then set_loader_data_all cs else return False
   }"

definition afmf_framegen_set_family :: "u32 \<Rightarrow> ('w fgs, unit) state" where
  "afmf_framegen_set_family family = do {
     dev \<leftarrow> gets fgs_dev;
     fg \<leftarrow> fg_gets id;
     if fg_secondary_pool fg \<noteq> VK_NULL_HANDLE \<or> \<not> dev_set_loader_data dev then return ()
     else do {
       let n = fg_slots fg * 4;
       (res, pool) \<leftarrow> vk_full (CreateCommandPool family);
       if res \<noteq> VK_SUCCESS then return ()
       else do {
         fg_modify (\<lambda>fg. fg\<lparr>fg_secondary_pool := pool, fg_secondaries := Some (replicate n sec_zero)\<rparr>);
         (res, answer) \<leftarrow> vk_full (AllocateCommandBuffers pool n True);
         cmds \<leftarrow> array_of answer n;
         ok \<leftarrow> (if res = VK_SUCCESS then set_loader_data_all cmds else return False);
         if ok then fg_modify (\<lambda>fg. fg\<lparr>fg_secondaries := Some (map (\<lambda>c. sec_zero\<lparr>sec_cmd := c\<rparr>) cmds)\<rparr>)
         else do {
           _ \<leftarrow> vk (DestroyObj OCommandPool pool);
           fg_modify (\<lambda>fg. fg\<lparr>fg_secondary_pool := VK_NULL_HANDLE, fg_secondaries := None\<rparr>)
         }
       }
     }
   }"

section \<open>Destruction\<close>

definition image_destroy :: "fg_target \<Rightarrow> ('w fgs, unit) state" where
  "image_destroy t = do {
     img \<leftarrow> fg_gets (target_get t);
     zero \<leftarrow> afmf_framegen_image_destroy img;
     fg_modify (target_put t zero)
   }"

definition unmap_if :: "bool \<Rightarrow> handle \<Rightarrow> ('w, 'e, unit) act" where
  "unmap_if mapped memory = whenb mapped (do { _ \<leftarrow> vk (UnmapMemory memory); return () })"

definition profiler_destroy :: "('w fgs, unit) state" where
  "profiler_destroy = do {
     slots \<leftarrow> fg_gets fg_slots;
     queries \<leftarrow> fg_gets (\<lambda>fg. prof_queries (fg_prof fg));
     whenb (queries \<noteq> VK_NULL_HANDLE) (do {
       do_all (map afmf_framegen_profiler_collect [0..<slots]);
       fg_modify afmf_framegen_profiler_report;
       destroy_if OQueryPool queries
     })
   }"

definition afmf_framegen_destroy :: "('w fgs, unit) state" where
  "afmf_framegen_destroy = do {
     fg \<leftarrow> fg_gets id;
     destroy_if OCommandPool (fg_secondary_pool fg);
     do_all (map (destroy_if OImageView) (fg_target_views fg));
     destroy_if ODescriptorPool (fg_pool fg);
     profiler_destroy;
     unmap_if (dump_mapped (fg_dump fg)) (dump_memory (fg_dump fg));
     destroy_if OBuffer (dump_buffer (fg_dump fg));
     destroy_if OMemory (dump_memory (fg_dump fg));
     unmap_if (fg_cb_have_map fg) (fg_cb_memory fg);
     destroy_if OBuffer (fg_cb fg);
     destroy_if OMemory (fg_cb_memory fg);
     destroy_if OSampler (fg_sampler fg);
     do_all (map image_destroy all_targets);
     fg_modify (\<lambda>_. fg_zero)
   }"

section \<open>Creation\<close>

abbreviation (input) VK_API_VERSION_1_1 :: u32 where "VK_API_VERSION_1_1 \<equiv> 4198400"

text \<open>What speaks against it before the pipelines are asked for; describing the format fills its fields.\<close>

definition format_blocker :: "afmf_device \<Rightarrow> afmf_framegen \<Rightarrow> bool \<Rightarrow> string option" where
  "format_blocker dev fg half =
     (let supports = afmf_framegen_format_supports dev
      in if \<not> supports (fg_out_format fg) {FEATURE_STORAGE} \<or> \<not> supports (fg_color_format fg) {FEATURE_SAMPLED_FILTER_LINEAR} then
           Some ''device lacks storage or filtered sampling for the swapchain format''
         else if half \<and> \<not> fg_ingest_direct fg \<and> \<not> supports (half_format (fg_half fg)) {FEATURE_STORAGE, FEATURE_SAMPLED} then
           Some ''device lacks storage for the half-resolution colour''
         else if \<not> supports R32_UINT {FEATURE_STORAGE_ATOMIC} then Some ''device lacks r32ui image atomics''
         else if \<not> supports R8_UINT {FEATURE_STORAGE} \<or> \<not> supports R16G16_SINT {FEATURE_STORAGE} then
           Some ''device lacks r8ui or rg16i storage images (shaderStorageImageExtendedFormats)''
         else None)"

definition blocker_for :: "vk_format \<Rightarrow> extent2d \<Rightarrow> bool \<Rightarrow> ('w fgs, string option) state" where
  "blocker_for swapchain_format extent half = do {
     dev \<leftarrow> gets fgs_dev;
     if dev_api_version dev < VK_API_VERSION_1_1 then
       return (Some ''application uses Vulkan 1.0; the flow shaders need 1.1 subgroups'')
     else if \<not> dev_subgroup_compute dev \<or> \<not> {SUBGROUP_BASIC, SUBGROUP_ARITHMETIC, SUBGROUP_QUAD} \<subseteq> dev_subgroup_ops dev then
       return (Some ''device lacks subgroup basic, arithmetic and quad operations in compute'')
     else do {
       (described, fg) \<leftarrow> fg_gets (afmf_framegen_describe_format swapchain_format);
       fg_modify (\<lambda>_. fg);
       if \<not> described then return (Some ''swapchain format has no interpolation variant'')
       else if width extent < AFMF_MIN_EXTENT \<or> height extent < AFMF_MIN_EXTENT then
         return (Some ''swapchain too small for the optical flow pyramid'')
       else (case format_blocker dev fg half of
               Some why \<Rightarrow> return (Some why)
             | None \<Rightarrow> do {
                 pipelines \<leftarrow> afmf_framegen_pipelines_get;
                 return (if pipelines = None then Some ''pipelines unavailable'' else None)
               })
     }
   }"

text \<open>Performance mode, the flow's resolution and the pyramid levels, from the configuration.\<close>

definition half_flow :: "afmf_config \<Rightarrow> extent2d \<Rightarrow> bool" where
  "half_flow cfg extent \<longleftrightarrow>
     (cfg_performance cfg = AFMF_PERFORMANCE_FAST
      \<or> cfg_performance cfg = AFMF_PERFORMANCE_AUTO \<and> unat (width extent) * unat (height extent) \<ge> 2560 * 1440)
     \<and> \<not> (width extent div 2 < AFMF_MIN_EXTENT \<or> height extent div 2 < AFMF_MIN_EXTENT)"

definition levels_for :: "afmf_config \<Rightarrow> u32 \<Rightarrow> nat" where
  "levels_for cfg flow_scale =
     (let levels = (if cfg_search_mode cfg = AFMF_SEARCH_STANDARD then 5 else 7);
          levels = (if flow_scale > 1 \<and> cfg_search_mode cfg \<noteq> AFMF_SEARCH_HIGH \<and> levels > 5 then 5 else levels)
      in if levels > AFMF_LEVELS then AFMF_LEVELS else levels)"

definition framegen_setup ::
  "afmf_config \<Rightarrow> afmf_device \<Rightarrow> vk_format \<Rightarrow> extent2d \<Rightarrow> nat \<Rightarrow> handle list \<Rightarrow> bool \<Rightarrow> bool \<Rightarrow> afmf_framegen"
where
  "framegen_setup cfg dev swapchain_format extent slots images direct_output direct_ingest =
     (let have_images = images \<noteq> [] \<and> length images \<le> AFMF_MAX_IMAGES;
          direct_variant = afmf_framegen_direct_variant_for dev swapchain_format;
          direct = have_images \<and> direct_output \<and> direct_variant \<noteq> VARIANT_COUNT;
          ingest_variant = afmf_framegen_ingest_variant_for dev swapchain_format;
          ingest_direct = have_images \<and> direct_ingest \<and> ingest_variant \<noteq> VARIANT_COUNT;
          half = half_flow cfg extent;
          flow_scale = (if half then 2 else 1);
          levels = levels_for cfg flow_scale
      in fg_zero\<lparr>
           fg_extent := extent, fg_slots := slots, fg_swapchain_format := swapchain_format,
           fg_dump := dump_zero\<lparr>dump_from := AFMF_DUMP_FIRST\<rparr>,
           fg_direct_variant := direct_variant, fg_direct := direct,
           fg_ingest_variant := ingest_variant, fg_ingest_direct := ingest_direct,
           fg_target_count := (if direct \<or> ingest_direct then length images else 0),
           fg_flow_scale := flow_scale,
           fg_of_extent := \<lparr>width = (width extent + flow_scale - 1) div flow_scale,
                            height = (height extent + flow_scale - 1) div flow_scale\<rparr>,
           fg_half := (if swapchain_format = R16G16B16A16_SFLOAT then HALF_RGBA16F else HALF_RGBA8),
           fg_levels := levels, fg_max_levels := levels\<rparr>)"

text \<open>One view per swapchain image, up to the first that fails.\<close>

primrec target_views_create :: "nat \<Rightarrow> handle list \<Rightarrow> ('w fgs, vk_result) state" where
  "target_views_create j [] = return VK_SUCCESS"
| "target_views_create j (img # images) = do {
     format \<leftarrow> fg_gets fg_swapchain_format;
     (res, view) \<leftarrow> vk_full (CreateImageView img format);
     if res \<noteq> VK_SUCCESS then return res
     else do {
       fg_modify (\<lambda>fg. fg\<lparr>fg_target_views := (fg_target_views fg)[j := view]\<rparr>);
       target_views_create (j + 1) images
     }
   }"

definition views_create :: "handle list \<Rightarrow> ('w fgs, vk_result) state" where
  "views_create images = do {
     fg_modify (\<lambda>fg. fg\<lparr>fg_target_views := replicate (fg_target_count fg) VK_NULL_HANDLE\<rparr>);
     n \<leftarrow> fg_gets fg_target_count;
     res \<leftarrow> target_views_create 0 (take n images);
     fg_modify (\<lambda>fg. fg\<lparr>fg_source_views := fg_target_views fg\<rparr>);
     return res
   }"

text \<open>The rest of the creation once nothing blocks it.\<close>

definition framegen_build :: "handle list \<Rightarrow> ('w fgs, string option) state" where
  "framegen_build images = do {
     fg \<leftarrow> fg_gets id;
     viewed \<leftarrow> (if fg_direct fg \<or> fg_ingest_direct fg then views_create images else return VK_SUCCESS);
     if viewed \<noteq> VK_SUCCESS then return (Some ''views of the swapchain images failed'')
     else do {
       res \<leftarrow> ok_all [afmf_framegen_resources_create, afmf_framegen_descriptor_sets_create];
       if res \<noteq> VK_SUCCESS then return (Some ''resource creation failed'')
       else do {
         afmf_framegen_dump_buffer_create;
         afmf_framegen_profiler_create;
         return None
       }
     }
   }"

text \<open>True when the frame generation was created; it is then the one of the state.\<close>

definition afmf_framegen_create ::
  "vk_format \<Rightarrow> extent2d \<Rightarrow> nat \<Rightarrow> handle list \<Rightarrow> bool \<Rightarrow> bool \<Rightarrow> ('w fgs, bool) state"
where
  "afmf_framegen_create swapchain_format extent slots images direct_output direct_ingest = do {
     cfg \<leftarrow> gets fgs_cfg;
     dev \<leftarrow> gets fgs_dev;
     fg_modify (\<lambda>_. framegen_setup cfg dev swapchain_format extent slots images direct_output direct_ingest);
     blocker \<leftarrow> blocker_for swapchain_format extent (half_flow cfg extent);
     blocker \<leftarrow> (if blocker = None then framegen_build images else return blocker);
     if blocker \<noteq> None then do { afmf_framegen_destroy; return False }
     else return True
   }"

section \<open>The books of a frame generation's life\<close>

lemma destroys_front:
  assumes "books v" and "tracks v X x (own + rest) (f ()) Q"
  shows "tracks v X x (own + (held k h + rest)) (State_Monad.bind (destroy_if k h) f) Q"
  by (rule books.destroys [OF assms(1), where own' = "own + rest"]) (use assms(2) in \<open>simp_all add: add_ac\<close>)

lemma destroy_list_front:
  assumes "books v" and "tracks v X x (own + rest) (f ()) Q"
  shows "tracks v X x (own + (sum_list (map (held k) hs) + rest)) (State_Monad.bind (do_all (map (destroy_if k) hs)) f) Q"
proof -
  have "tracks v X x ((own + rest) + sum_list (map (\<lambda>t. held k t) hs)) (do_all (map (\<lambda>t. destroy_if k t) hs))
      (\<lambda>a y own'. y = x \<and> own' = own + rest)"
    by (rule run_destroys [OF assms(1)]) simp
  then have "tracks v X x (own + (sum_list (map (held k) hs) + rest)) (do_all (map (destroy_if k) hs)) (\<lambda>a y own'. y = x \<and> own' = own + rest)"
    by (simp add: add_ac)
  then show ?thesis by (rule tracks_bind) (use assms(2) in auto)
qed

lemma books_fg: "books (fgs_fg :: 'w fgs \<Rightarrow> afmf_framegen)" ..

lemma unmap_front:
  assumes "tracks (fgs_fg :: 'w fgs \<Rightarrow> _) X fg own (f ()) Q"
  shows "tracks (fgs_fg :: 'w fgs \<Rightarrow> _) X fg own (State_Monad.bind (unmap_if b h) f) Q"
  unfolding unmap_if_def using assms by (intro fg_tracking)

lemma collect_tracks:
  "tracks fgs_fg X fg own (afmf_framegen_profiler_collect slot)
     (\<lambda>_ fg' own'. own' = own \<and> (\<exists>p. fg' = fg\<lparr>fg_prof := p\<rparr> \<and> prof_queries p = prof_queries (fg_prof fg)))"
  unfolding afmf_framegen_profiler_collect_def Let_def
  by (intro fg_tracking) (auto simp: upd_prof_def)

lemma collects_track:
  "tracks (fgs_fg :: 'w fgs \<Rightarrow> _) X fg own (do_all (map afmf_framegen_profiler_collect slots))
     (\<lambda>_ fg' own'. own' = own \<and> (\<exists>p. fg' = fg\<lparr>fg_prof := p\<rparr> \<and> prof_queries p = prof_queries (fg_prof fg)))"
proof (induction slots arbitrary: fg)
  case Nil
  show ?case by (auto intro!: tracks_return exI [of _ "fg_prof fg"])
next
  case (Cons slot slots)
  let ?Q = "\<lambda>_ fg' own'. own' = own \<and> (\<exists>p. fg' = fg\<lparr>fg_prof := p\<rparr> \<and> prof_queries p = prof_queries (fg_prof fg))"
  show ?case
    unfolding list.map do_all.simps
  proof (rule tracks_bind [OF collect_tracks])
    fix a fg1 own1
    assume "own1 = own \<and> (\<exists>p. fg1 = fg\<lparr>fg_prof := p\<rparr> \<and> prof_queries p = prof_queries (fg_prof fg))"
    then obtain p where own1: "own1 = own" and fg1: "fg1 = fg\<lparr>fg_prof := p\<rparr>" "prof_queries p = prof_queries (fg_prof fg)" by blast
    show "tracks (fgs_fg :: 'w fgs \<Rightarrow> _) X fg1 own1 (do_all (map afmf_framegen_profiler_collect slots)) ?Q"
      unfolding own1 by (rule tracks_weaken [OF Cons.IH]) (use fg1 in auto)
  qed
qed

lemma profiler_destroy_tracks:
  "tracks (fgs_fg :: 'w fgs \<Rightarrow> _) X fg (own + (held OQueryPool (prof_queries (fg_prof fg)) + rest)) profiler_destroy
     (\<lambda>_ fg' own'. own' = own + rest \<and> (\<exists>p. fg' = fg\<lparr>fg_prof := p\<rparr>))"
  unfolding profiler_destroy_def
proof (intro tracks_fg_gets tracks_if)
  let ?own = "own + (held OQueryPool (prof_queries (fg_prof fg)) + rest)"
  let ?Q = "\<lambda>_ fg' own'. own' = own + rest \<and> (\<exists>p. fg' = fg\<lparr>fg_prof := p\<rparr>)"
  show "tracks (fgs_fg :: 'w fgs \<Rightarrow> _) X fg ?own (do { do_all (map afmf_framegen_profiler_collect [0..<fg_slots fg]);
       fg_modify afmf_framegen_profiler_report; destroy_if OQueryPool (prof_queries (fg_prof fg)) }) ?Q"
  proof (rule tracks_bind [OF collects_track], elim conjE exE, hypsubst)
    fix p
    show "tracks (fgs_fg :: 'w fgs \<Rightarrow> _) X (fg\<lparr>fg_prof := p\<rparr>) ?own (do {
       fg_modify afmf_framegen_profiler_report; destroy_if OQueryPool (prof_queries (fg_prof fg)) }) ?Q"
      by (rule tracks_fg_modify, rule fgb.destroys_last [where own' = "own + rest"])
         (auto simp: add_ac afmf_framegen_profiler_report_def upd_prof_def)
  qed
  assume "\<not> prof_queries (fg_prof fg) \<noteq> VK_NULL_HANDLE"
  then show "tracks (fgs_fg :: 'w fgs \<Rightarrow> _) X fg ?own (return ()) ?Q"
    by (intro tracks_return) (auto intro: exI [of _ "fg_prof fg"])
qed

lemma image_destroy_tracks:
  assumes "fg_shape fg" "ok_target t" and own: "own = own' + img_objects (target_get t fg)"
  shows "tracks (fgs_fg :: 'w fgs \<Rightarrow> _) X fg own (image_destroy t) (\<lambda>_ fg' o'. o' = own' \<and> fg' = target_put t img_zero fg)"
proof -
  let ?img = "target_get t fg"
  have o: "own = own' + (held OImageView (img_view ?img) + (held OImage (img_image ?img) + (held OMemory (img_memory ?img) + {#})))"
    using own by (simp add: img_objects_def add_ac)
  show ?thesis
    unfolding image_destroy_def afmf_framegen_image_destroy_def o
    by (rule tracks_fg_gets, rule tracks_assoc, rule destroys_front [OF books_fg], rule tracks_assoc, rule destroys_front [OF books_fg],
        rule tracks_assoc, rule destroys_front [OF books_fg], rule tracks_bind_return, rule tracks_fg_modify_last) simp
qed

lemma image_destroys_track:
  assumes "fg_shape fg" and "distinct ts" and "\<forall>t \<in> set ts. ok_target t"
  shows "tracks (fgs_fg :: 'w fgs \<Rightarrow> _) X fg (own + sum_list (map (\<lambda>t. img_objects (target_get t fg)) ts)) (do_all (map image_destroy ts))
     (\<lambda>_ fg' own'. own' = own)"
  using assms
proof (induction ts arbitrary: fg)
  case Nil
  show ?case by (auto intro: tracks_return)
next
  case (Cons t ts)
  let ?rest = "own + sum_list (map (\<lambda>t. img_objects (target_get t fg)) ts)"
  show ?case
    unfolding list.map do_all.simps
  proof (rule tracks_bind [OF image_destroy_tracks [where own' = ?rest]])
    fix a fg1 own1 assume 1: "own1 = ?rest \<and> fg1 = target_put t img_zero fg"
    have "map (\<lambda>u. img_objects (target_get u fg)) ts = map (\<lambda>u. img_objects (target_get u fg1)) ts"
      using Cons.prems 1 by (auto simp: target_get_put)
    then have own1: "own1 = own + sum_list (map (\<lambda>u. img_objects (target_get u fg1)) ts)" using 1 by metis
    show "tracks (fgs_fg :: 'w fgs \<Rightarrow> _) X fg1 own1 (do_all (map image_destroy ts)) (\<lambda>_ fg' own'. own' = own)"
      unfolding own1 by (rule Cons.IH) (use Cons.prems 1 fg_shape_put in auto)
  qed (use Cons.prems in \<open>auto simp: add_ac\<close>)
qed

lemma fg_shape_prof [simp]: "fg_shape (fg\<lparr>fg_prof := p\<rparr>) = fg_shape fg"
  by (simp add: fg_shape_def)

lemma destroy_tracks:
  assumes "fg_shape fg"
  shows "tracks (fgs_fg :: 'w fgs \<Rightarrow> _) X fg (own + fg_objects fg) afmf_framegen_destroy (\<lambda>_ fg' own'. own' = own \<and> fg' = fg_zero)"
proof -
  let ?last = "held OSampler (fg_sampler fg) + imgs fg"
  let ?cb = "held OBuffer (fg_cb fg) + (held OMemory (fg_cb_memory fg) + ?last)"
  let ?dump = "held OBuffer (dump_buffer (fg_dump fg)) + (held OMemory (dump_memory (fg_dump fg)) + ?cb)"
  let ?all = "held OCommandPool (fg_secondary_pool fg) + (sum_list (map (held OImageView) (fg_target_views fg))
     + (held ODescriptorPool (fg_pool fg) + (held OQueryPool (prof_queries (fg_prof fg)) + ?dump)))"
  have all: "fg_objects fg = ?all" by (simp add: fg_objects_def own_rest_def add_ac)
  let ?Q = "\<lambda>_ fg' own'. own' = own \<and> fg' = fg_zero"
  have images: "tracks (fgs_fg :: 'w fgs \<Rightarrow> _) X (fg\<lparr>fg_prof := p\<rparr>) (own + imgs fg)
      (do { do_all (map image_destroy all_targets); fg_modify (\<lambda>_. fg_zero) }) ?Q" for p
  proof (rule tracks_bind)
    have "own + imgs fg = own + sum_list (map (\<lambda>t. img_objects (target_get t (fg\<lparr>fg_prof := p\<rparr>))) all_targets)"
      by (simp add: imgs_def)
    then show "tracks (fgs_fg :: 'w fgs \<Rightarrow> _) X (fg\<lparr>fg_prof := p\<rparr>) (own + imgs fg) (do_all (map image_destroy all_targets))
        (\<lambda>_ fg' own'. own' = own)"
      using image_destroys_track [of "fg\<lparr>fg_prof := p\<rparr>" all_targets X own] assms distinct_all_targets set_all_targets by auto
  qed (auto intro: tracks_fg_modify_last)
  show ?thesis
    unfolding afmf_framegen_destroy_def all
    by (rule tracks_fg_gets, unfold id_apply, rule destroys_front [OF books_fg], rule destroy_list_front [OF books_fg],
        rule destroys_front [OF books_fg], rule tracks_bind [OF profiler_destroy_tracks], elim conjE exE, hypsubst,
        (rule unmap_front | rule destroys_front [OF books_fg] | rule images)+)
qed

text \<open>The descriptor sets, the dump buffer and the query pool: what each adds.\<close>

lemma fg_objects_sets [simp]:
  "fg_objects (fg\<lparr>fg_sets := ss\<rparr>) = fg_objects fg" "fg_objects (fg\<lparr>fg_direct_sets := ds\<rparr>) = fg_objects fg"
  "fg_objects (fg\<lparr>fg_ingest_sets := ds\<rparr>) = fg_objects fg" "fg_objects (fg\<lparr>fg_source_views := ds\<rparr>) = fg_objects fg"
  by (simp_all add: fg_objects_def own_rest_def)

definition fg_kept_sets where
  "fg_kept_sets fg = (fg_objects fg, fg_shape fg, fg_secondary_pool fg, fg_dump fg, fg_prof fg, fg_pool fg)"

lemma fg_kept_sets_stores [simp]:
  "fg_kept_sets (store_sets p A fg) = fg_kept_sets fg" "fg_kept_sets (store_direct p A fg) = fg_kept_sets fg"
  "fg_kept_sets (store_ingest p A fg) = fg_kept_sets fg" "fg_kept_sets (fg\<lparr>fg_direct_sets := A\<rparr>) = fg_kept_sets fg"
  "fg_kept_sets (fg\<lparr>fg_ingest_sets := A\<rparr>) = fg_kept_sets fg"
  by (simp_all add: fg_kept_sets_def store_sets_def store_direct_def store_ingest_def fg_shape_def)

definition keeping where
  "keeping fg own r fg' own' \<longleftrightarrow> own' = own \<and> fg_kept_sets fg' = fg_kept_sets fg"

lemma tracks_array_of:
  "(\<And>xs. tracks v X x own (f xs) Q) \<Longrightarrow> tracks v X x own (State_Monad.bind (array_of answer n) f) Q"
  by (simp add: tracks_def array_of_def)

lemma allocate_sets_tracks:
  assumes "\<And>A fg. fg_kept_sets (store A fg) = fg_kept_sets fg"
  shows "tracks (fgs_fg :: 'w fgs \<Rightarrow> _) X fg own (allocate_sets ps store) (keeping fg own)"
  unfolding allocate_sets_def
  by (intro fg_tracking tracks_array_of) (simp_all add: assms keeping_def)

lemma ok_all_keeping:
  assumes "\<And>m fg. m \<in> set ms \<Longrightarrow> tracks (fgs_fg :: 'w fgs \<Rightarrow> _) X fg own m (keeping fg own)"
  shows "tracks (fgs_fg :: 'w fgs \<Rightarrow> _) X fg own (ok_all ms) (keeping fg own)"
  using assms
proof (induction ms arbitrary: fg)
  case Nil
  show ?case by (auto intro: tracks_return simp: keeping_def)
next
  case (Cons m ms)
  show ?case
    unfolding ok_all.simps
  proof (rule tracks_bind [OF Cons.prems])
    fix r :: vk_result and fg1 own1 assume k: "keeping fg own r fg1 own1"
    then have own1: "own1 = own" by (simp add: keeping_def)
    show "tracks (fgs_fg :: 'w fgs \<Rightarrow> _) X fg1 own1 (if r \<noteq> VK_SUCCESS then return r else ok_all ms) (keeping fg own)"
    proof (rule tracks_if)
      have "tracks (fgs_fg :: 'w fgs \<Rightarrow> _) X fg1 own (ok_all ms) (keeping fg1 own)" by (rule Cons.IH) (use Cons.prems in auto)
      then show "tracks (fgs_fg :: 'w fgs \<Rightarrow> _) X fg1 own1 (ok_all ms) (keeping fg own)"
        unfolding own1 by (rule tracks_weaken) (use k in \<open>simp add: keeping_def\<close>)
    qed (use k in \<open>auto intro: tracks_return simp: keeping_def\<close>)
  qed simp
qed

lemma writes_track:
  "tracks (fgs_fg :: 'w fgs \<Rightarrow> _) X fg own (do_all (map writer_end ws)) (\<lambda>_ fg' own'. fg' = fg \<and> own' = own)"
proof (induction ws)
  case (Cons w ws)
  then show ?case by (simp add: writer_end_def) (intro fg_tracking)
qed (auto intro: tracks_return)

lemma sets_write_tracks:
  "tracks (fgs_fg :: 'w fgs \<Rightarrow> _) X fg own (sets_write p) (\<lambda>_ fg' own'. fg' = fg \<and> own' = own)"
proof -
  have "tracks (fgs_fg :: 'w fgs \<Rightarrow> _) X fg own (do_all (map writer_end (map (written_set fg p) (set_refs fg)))) (\<lambda>_ fg' own'. fg' = fg \<and> own' = own)"
    by (rule writes_track)
  then show ?thesis unfolding sets_write_def by (intro tracks_fg_gets) (simp add: comp_def)
qed

lemma calloc_tracks:
  "tracks (fgs_fg :: 'w fgs \<Rightarrow> _) X fg own (calloc_direct n) (keeping fg own)"
  "tracks (fgs_fg :: 'w fgs \<Rightarrow> _) X fg own (calloc_ingest n) (keeping fg own)"
  unfolding calloc_direct_def calloc_ingest_def
  by (intro tracks_fg_modify tracks_return; simp add: keeping_def)+

lemma sets_allocate_tracks: "tracks (fgs_fg :: 'w fgs \<Rightarrow> _) X fg own (sets_allocate d i) (keeping fg own)"
  unfolding sets_allocate_def Let_def
proof (rule tracks_fg_gets, rule ok_all_keeping)
  fix m :: "('w fgs, vk_result) state" and fg'
  assume "m \<in> set (map (\<lambda>p. allocate_sets set_passes (store_sets p)) [0, 1]
        @ (if fg_direct (id fg) then
             calloc_direct d # map (\<lambda>p. allocate_sets (replicate (fg_target_count (id fg)) PASS_INTERPOLATE) (store_direct p)) [0, 1]
           else [])
        @ (if fg_ingest_direct (id fg) then
             calloc_ingest i # map (\<lambda>p. allocate_sets (replicate (fg_target_count (id fg)) PASS_INGEST) (store_ingest p)) [0, 1]
           else []))"
  then show "tracks (fgs_fg :: 'w fgs \<Rightarrow> _) X fg' own m (keeping fg' own)"
    by (auto split: if_splits intro!: allocate_sets_tracks calloc_tracks)
qed

definition fg_kept_pool where
  "fg_kept_pool fg = (fg_shape fg, fg_secondary_pool fg, fg_dump fg, fg_prof fg)"

lemma descriptor_sets_track:
  assumes "fg_pool fg = VK_NULL_HANDLE"
  shows "tracks (fgs_fg :: 'w fgs \<Rightarrow> _) X fg (fg_objects fg) afmf_framegen_descriptor_sets_create
     (\<lambda>res fg' own'. own' = fg_objects fg' \<and> fg_kept_pool fg' = fg_kept_pool fg)"
  unfolding afmf_framegen_descriptor_sets_create_def Let_def
proof (rule tracks_fg_gets, rule fgb.make [OF makes_some(7)])
  let ?Q = "\<lambda>res fg' own'. own' = fg_objects fg' \<and> fg_kept_pool fg' = fg_kept_pool fg"
  fix pool :: handle assume h: "pool \<noteq> VK_NULL_HANDLE"
  let ?fg = "fg\<lparr>fg_pool := pool\<rparr>"
  have own: "fg_objects fg + {#(ODescriptorPool, pool)#} = fg_objects ?fg"
    using assms h by (simp add: fg_objects_def own_rest_def held_some add_ac)
  have kp: "own' = fg_objects fg' \<and> fg_kept_pool fg' = fg_kept_pool fg" if "keeping ?fg (fg_objects ?fg) r fg' own'" for r :: vk_result and fg' own'
    using that by (auto simp: keeping_def fg_kept_sets_def fg_kept_pool_def fg_shape_def)
  show "tracks (fgs_fg :: 'w fgs \<Rightarrow> _) X fg (fg_objects fg + {#(ODescriptorPool, pool)#})
      (case (VK_SUCCESS, pool) of (res, pool) \<Rightarrow> if res \<noteq> VK_SUCCESS then return res
        else do {
          fg_modify (\<lambda>fg. fg\<lparr>fg_pool := pool\<rparr>);
          res \<leftarrow> sets_allocate (if fg_direct (id fg) then 2 * fg_target_count (id fg) else 0) (if fg_ingest_direct (id fg) then 2 * fg_target_count (id fg) else 0);
          if res \<noteq> VK_SUCCESS then return res
          else do { sets_write 0; sets_write 1; return VK_SUCCESS }
        }) ?Q"
    unfolding prod.case own
    apply (simp only: if_False simp_thms)
    apply (rule tracks_fg_modify, rule tracks_bind [OF sets_allocate_tracks], drule kp)
    by (auto intro!: tracks_return tracks_bind [OF sets_write_tracks])
next
  fix r :: vk_result and h :: handle assume "r \<noteq> VK_SUCCESS"
  then show "tracks (fgs_fg :: 'w fgs \<Rightarrow> _) X fg (fg_objects fg) (case (r, h) of (res, pool) \<Rightarrow> if res \<noteq> VK_SUCCESS then return res
        else do {
          fg_modify (\<lambda>fg. fg\<lparr>fg_pool := pool\<rparr>);
          res \<leftarrow> sets_allocate (if fg_direct (id fg) then 2 * fg_target_count (id fg) else 0) (if fg_ingest_direct (id fg) then 2 * fg_target_count (id fg) else 0);
          if res \<noteq> VK_SUCCESS then return res
          else do { sets_write 0; sets_write 1; return VK_SUCCESS }
        }) (\<lambda>res fg' own'. own' = fg_objects fg' \<and> fg_kept_pool fg' = fg_kept_pool fg)"
    by (auto intro: tracks_return)
qed

lemma upd_exists:
  "\<exists>d. fg = fg\<lparr>fg_dump := d\<rparr>" "\<exists>d. fg\<lparr>fg_dump := x\<rparr> = fg\<lparr>fg_dump := d\<rparr>"
  "\<exists>p. fg = fg\<lparr>fg_prof := p\<rparr>" "\<exists>p. fg\<lparr>fg_prof := y\<rparr> = fg\<lparr>fg_prof := p\<rparr>"
  by (rule exI [of _ "fg_dump fg"], simp) (rule exI [of _ x], simp, rule exI [of _ "fg_prof fg"], simp, rule exI [of _ y], simp)

lemma upd_dump_upd:
  "upd_dump f (upd_dump g fg) = upd_dump (\<lambda>d. f (g d)) fg" "\<exists>d. upd_dump f fg = fg\<lparr>fg_dump := d\<rparr>"
  by (simp_all add: upd_dump_def upd_exists)

lemma fg_objects_dump:
  "dump_buffer (fg_dump fg) = 0 \<Longrightarrow> dump_memory (fg_dump fg) = 0 \<Longrightarrow>
     fg_objects (upd_dump f fg) = fg_objects fg + held OBuffer (dump_buffer (f (fg_dump fg))) + held OMemory (dump_memory (f (fg_dump fg)))"
  by (simp add: upd_dump_def fg_objects_def own_rest_def)

lemma dump_tracks:
  assumes "dump_buffer (fg_dump fg) = 0" "dump_memory (fg_dump fg) = 0"
  shows "tracks (fgs_fg :: 'w fgs \<Rightarrow> _) X fg (fg_objects fg) afmf_framegen_dump_buffer_create
     (\<lambda>_ fg' own'. own' = fg_objects fg' \<and> (\<exists>d. fg' = fg\<lparr>fg_dump := d\<rparr>))"
  unfolding afmf_framegen_dump_buffer_create_def
  by (intro fg_tracking) (simp_all add: upd_dump_upd fg_objects_dump [OF assms] held_some assms upd_exists)

lemma fg_objects_prof:
  "prof_queries (fg_prof fg) = 0 \<Longrightarrow> fg_objects (fg\<lparr>fg_prof := p\<rparr>) = fg_objects fg + held OQueryPool (prof_queries p)"
  by (simp add: fg_objects_def own_rest_def)

lemma profiler_create_tracks:
  assumes "prof_queries (fg_prof fg) = 0"
  shows "tracks (fgs_fg :: 'w fgs \<Rightarrow> _) X fg (fg_objects fg) afmf_framegen_profiler_create
     (\<lambda>_ fg' own'. own' = fg_objects fg' \<and> (\<exists>p. fg' = fg\<lparr>fg_prof := p\<rparr>))"
  unfolding afmf_framegen_profiler_create_def upd_prof_def
  by (intro fg_tracking) (simp_all add: fg_objects_prof [OF assms] held_some upd_exists)

text \<open>The views of the swapchain's images.\<close>

lemma sum_list_held_update:
  "j < length xs \<Longrightarrow> xs ! j = 0 \<Longrightarrow> sum_list (map (held k) (xs[j := h])) = sum_list (map (held k) xs) + held k h"
proof (induction xs arbitrary: j)
  case (Cons a xs)
  then show ?case by (cases j) (simp_all add: add_ac)
qed simp

lemma fg_objects_views:
  "j < length (fg_target_views fg) \<Longrightarrow> fg_target_views fg ! j = 0 \<Longrightarrow>
     fg_objects (fg\<lparr>fg_target_views := (fg_target_views fg)[j := h]\<rparr>) = fg_objects fg + held OImageView h"
  by (simp add: fg_objects_def own_rest_def sum_list_held_update add_ac)

lemma upd_views: "\<exists>vs. fg\<lparr>fg_target_views := a\<rparr> = fg\<lparr>fg_target_views := vs\<rparr>"
  by (rule exI [of _ a]) simp

lemma target_views_tracks:
  assumes "j + length images \<le> length (fg_target_views fg)" and "\<forall>i. j \<le> i \<and> i < length (fg_target_views fg) \<longrightarrow> fg_target_views fg ! i = 0"
  shows "tracks (fgs_fg :: 'w fgs \<Rightarrow> _) X fg (fg_objects fg) (target_views_create j images)
     (\<lambda>res fg' own'. own' = fg_objects fg' \<and> (\<exists>vs. fg' = fg\<lparr>fg_target_views := vs\<rparr>))"
  using assms
proof (induction images arbitrary: j fg)
  case Nil
  show ?case by (auto intro!: tracks_return exI [of _ "fg_target_views fg"])
next
  case (Cons img images)
  let ?Q = "\<lambda>res fg' own'. own' = fg_objects fg' \<and> (\<exists>vs. fg' = fg\<lparr>fg_target_views := vs\<rparr>)"
  have j: "j < length (fg_target_views fg)" "fg_target_views fg ! j = 0" using Cons.prems by auto
  have some: "tracks (fgs_fg :: 'w fgs \<Rightarrow> _) X (fg\<lparr>fg_target_views := (fg_target_views fg)[j := view]\<rparr>)
      (fg_objects fg + {#(OImageView, view)#}) (target_views_create (j + 1) images) ?Q" if "view \<noteq> 0" for view
  proof -
    let ?fg = "fg\<lparr>fg_target_views := (fg_target_views fg)[j := view]\<rparr>"
    have "tracks (fgs_fg :: 'w fgs \<Rightarrow> _) X ?fg (fg_objects ?fg) (target_views_create (j + 1) images)
       (\<lambda>res fg' own'. own' = fg_objects fg' \<and> (\<exists>vs. fg' = ?fg\<lparr>fg_target_views := vs\<rparr>))"
      by (rule Cons.IH) (use Cons.prems in auto)
    then have "tracks (fgs_fg :: 'w fgs \<Rightarrow> _) X ?fg (fg_objects ?fg) (target_views_create (j + 1) images) ?Q"
      by (rule tracks_weaken) (elim conjE exE, hypsubst, simp add: upd_views)
    moreover have "fg_objects fg + {#(OImageView, view)#} = fg_objects ?fg" using j that by (simp add: fg_objects_views held_some)
    ultimately show ?thesis by simp
  qed
  have none: "\<exists>vs. fg = fg\<lparr>fg_target_views := vs\<rparr>" by (rule exI [of _ "fg_target_views fg"]) simp
  show ?case
    unfolding target_views_create.simps
  proof (rule tracks_fg_gets, rule fgb.make [OF makes_some(3)], goal_cases)
    case (1 h)
    then show ?case by (simp only: prod.case if_False simp_thms) (rule tracks_fg_modify, rule some)
  next
    case (2 r h)
    then show ?case using none by (simp add: tracks_return)
  qed
qed

lemma sum_list_none [simp]: "sum_list (replicate n {#}) = {#}"
  by (induction n) simp_all

lemma views_tracks:
  assumes "fg_target_views fg = []"
  shows "tracks (fgs_fg :: 'w fgs \<Rightarrow> _) X fg (fg_objects fg) (views_create images)
     (\<lambda>res fg' own'. own' = fg_objects fg' \<and> (\<exists>vs us. fg' = fg\<lparr>fg_target_views := vs, fg_source_views := us\<rparr>))"
  unfolding views_create_def
proof (rule tracks_fg_modify, rule tracks_fg_gets)
  let ?n = "fg_target_count fg"
  let ?fg = "fg\<lparr>fg_target_views := replicate ?n VK_NULL_HANDLE\<rparr>"
  let ?Q = "\<lambda>res fg' own'. own' = fg_objects fg' \<and> (\<exists>vs us. fg' = fg\<lparr>fg_target_views := vs, fg_source_views := us\<rparr>)"
  have own: "fg_objects fg = fg_objects ?fg" using assms by (simp add: fg_objects_def own_rest_def)
  show "tracks (fgs_fg :: 'w fgs \<Rightarrow> _) X ?fg (fg_objects fg) (do { res \<leftarrow> target_views_create 0 (take (fg_target_count ?fg) images);
     fg_modify (\<lambda>fg. fg\<lparr>fg_source_views := fg_target_views fg\<rparr>); return res }) ?Q"
    unfolding own by (rule tracks_bind [OF target_views_tracks]) (auto intro!: tracks_fg_modify tracks_return)
qed

lemma tracks_frame:
  assumes "tracks v (X + F) x own m (\<lambda>a y o'. Q a y (F + o'))"
  shows "tracks v X x (F + own) m Q"
  unfolding tracks_def
proof (intro allI impI)
  fix s a s' assume s: "v s = x" "balanced X s (F + own)" "run_state m s = (a, s')"
  have "balanced (X + F) s own" using s(2) by (simp add: balanced_def add_ac)
  then obtain own' where "balanced (X + F) s' own'" "Q a (v s') (F + own')" using tracksD [OF assms s(1) _ s(3)] by blast
  then show "\<exists>own'. balanced X s' own' \<and> Q a (v s') own'"
    by (intro exI [of _ "F + own'"]) (simp add: balanced_def add_ac)
qed

text \<open>A frame generation just set up: nothing made yet.\<close>

definition fg_unmade :: "afmf_framegen \<Rightarrow> bool" where
  "fg_unmade fg \<longleftrightarrow> fg_shape fg \<and> blank all_targets fg \<and> fg_sampler fg = 0 \<and> fg_cb fg = 0 \<and> fg_cb_memory fg = 0
     \<and> fg_pool fg = 0 \<and> fg_secondary_pool fg = 0 \<and> fg_target_views fg = [] \<and> dump_buffer (fg_dump fg) = 0
     \<and> dump_memory (fg_dump fg) = 0 \<and> prof_queries (fg_prof fg) = 0"

lemma imgs_blank: "blank all_targets fg \<Longrightarrow> imgs fg = {#}"
proof -
  assume "blank all_targets fg"
  then have "map (\<lambda>t. img_objects (target_get t fg)) all_targets = map (\<lambda>t. {#}) all_targets"
    by (auto simp: blank_def)
  then show ?thesis unfolding imgs_def by (simp add: map_replicate_const)
qed

lemma unmade_objects: "fg_unmade fg \<Longrightarrow> fg_objects fg = {#}"
  by (simp add: fg_unmade_def fg_objects_def imgs_blank own_rest_def)

lemma target_get_setup [simp]:
  "target_get t (framegen_setup cfg dev format extent slots images direct ingest) = target_get t fg_zero"
  by (cases t) (simp_all add: framegen_setup_def Let_def)

lemma target_get_zero: "ok_target t \<Longrightarrow> target_get t fg_zero = img_zero"
  by (cases t) (simp_all add: fg_zero_def nth_replicate less_2_cases_iff nth_Cons')

lemma unmade_setup: "fg_unmade (framegen_setup cfg dev format extent slots images direct ingest)"
proof -
  have "blank all_targets (framegen_setup cfg dev format extent slots images direct ingest)"
    by (simp add: blank_def set_all_targets target_get_zero)
  moreover have "fg_shape (framegen_setup cfg dev format extent slots images direct ingest)"
    using fg_shape_zero by (simp add: framegen_setup_def Let_def fg_shape_def)
  ultimately show ?thesis by (simp add: fg_unmade_def framegen_setup_def Let_def fg_zero_def dump_zero_def prof_zero_def)
qed

lemma target_get_format [simp]:
  "target_get t (fg\<lparr>fg_color_format := a, fg_out_format := b, fg_variant := v, fg_transfer_function := c,
     fg_min_luminance := d, fg_max_luminance := e\<rparr>) = target_get t fg"
  by (cases t) simp_all

lemma unmade_described:
  assumes "fg_unmade fg" shows "fg_unmade (snd (afmf_framegen_describe_format f fg))"
proof -
  obtain d fg' where e: "afmf_framegen_describe_format f fg = (d, fg')" by fastforce
  have "fg_unmade (fg\<lparr>fg_color_format := fg_color_format fg', fg_out_format := fg_out_format fg', fg_variant := fg_variant fg',
      fg_transfer_function := fg_transfer_function fg', fg_min_luminance := fg_min_luminance fg', fg_max_luminance := fg_max_luminance fg'\<rparr>)"
    using assms by (simp add: fg_unmade_def fg_shape_def blank_def)
  then have "fg_unmade fg'" unfolding describe_keeps [OF e, symmetric] .
  then show ?thesis by (simp add: e)
qed

lemma fg_objects_source [simp]: "fg_objects (fg\<lparr>fg_target_views := vs, fg_source_views := us\<rparr>) = fg_objects (fg\<lparr>fg_target_views := vs\<rparr>)"
  by (simp add: fg_objects_def own_rest_def)

lemma blank_views [simp]: "blank ts (fg\<lparr>fg_target_views := vs, fg_source_views := us\<rparr>) = blank ts fg"
  by (simp add: blank_def)

lemma same_views: "\<exists>vs us. fg = fg\<lparr>fg_target_views := vs, fg_source_views := us\<rparr>"
  by (rule exI [of _ "fg_target_views fg"], rule exI [of _ "fg_source_views fg"]) simp

text \<open>What the rest of the creation leaves: the objects it made, all of them the frame generation's.\<close>

definition built where
  "built r fg' own' \<longleftrightarrow> own' = fg_objects fg' \<and> fg_shape fg' \<and> fg_secondary_pool fg' = 0"

text \<open>The parts that may fail without taking the frame generation with them, the resources, and the whole.\<close>

lemma extras_track:
  assumes z: "dump_buffer (fg_dump fg) = 0" "dump_memory (fg_dump fg) = 0" "prof_queries (fg_prof fg) = 0"
    "fg_shape fg" "fg_secondary_pool fg = 0"
  shows "tracks (fgs_fg :: 'w fgs \<Rightarrow> _) X fg (fg_objects fg)
    (do { afmf_framegen_dump_buffer_create; afmf_framegen_profiler_create; return None }) built"
proof (rule tracks_bind [OF dump_tracks [OF z(1,2)]], elim conjE exE, hypsubst)
  fix d
  show "tracks (fgs_fg :: 'w fgs \<Rightarrow> _) X (fg\<lparr>fg_dump := d\<rparr>) (fg_objects (fg\<lparr>fg_dump := d\<rparr>))
      (do { afmf_framegen_profiler_create; return None }) built"
    by (rule tracks_bind [OF profiler_create_tracks], simp add: z, elim conjE exE, hypsubst, rule tracks_return)
       (use z in \<open>simp add: built_def fg_shape_def\<close>)
qed

lemma images_and_sets_track:
  assumes blanks: "fg_shape fg" "blank all_targets fg" "fg_sampler fg = 0" "fg_cb fg = 0" "fg_cb_memory fg = 0" "fg_pool fg = 0"
  shows "tracks (fgs_fg :: 'w fgs \<Rightarrow> _) X fg (fg_objects fg)
    (ok_all [afmf_framegen_resources_create, afmf_framegen_descriptor_sets_create])
    (\<lambda>res fg' own'. own' = fg_objects fg' \<and> fg_kept_pool fg' = fg_kept_pool fg)"
  unfolding ok_all.simps
proof (rule tracks_bind [OF resources_tracks [OF blanks(1-5)]])
  fix res :: vk_result and fg2 own2 assume c: "creating fg res fg2 own2"
  have k: "own2 = fg_objects fg2" "fg_kept_pool fg2 = fg_kept_pool fg" "fg_pool fg2 = 0"
    using c blanks by (auto simp: creating_def fg_later_def fg_kept_pool_def)
  show "tracks (fgs_fg :: 'w fgs \<Rightarrow> _) X fg2 own2 (if res \<noteq> VK_SUCCESS then return res
      else (do { res \<leftarrow> afmf_framegen_descriptor_sets_create; if res \<noteq> VK_SUCCESS then return res else return VK_SUCCESS }))
      (\<lambda>res fg' own'. own' = fg_objects fg' \<and> fg_kept_pool fg' = fg_kept_pool fg)"
    unfolding k(1)
    by (intro tracks_if tracks_bind [OF descriptor_sets_track [OF k(3)]] tracks_return) (use k in auto)
qed

lemma resources_built:
  assumes u: "fg_unmade fg" and fg1: "fg1 = fg\<lparr>fg_target_views := vs, fg_source_views := us\<rparr>"
  shows "tracks (fgs_fg :: 'w fgs \<Rightarrow> _) X fg1 (fg_objects fg1) (do {
       res \<leftarrow> ok_all [afmf_framegen_resources_create, afmf_framegen_descriptor_sets_create];
       if res \<noteq> VK_SUCCESS then return (Some ''resource creation failed'')
       else do { afmf_framegen_dump_buffer_create; afmf_framegen_profiler_create; return None } }) built"
proof -
  have blanks: "fg_shape fg1" "blank all_targets fg1" "fg_sampler fg1 = 0" "fg_cb fg1 = 0" "fg_cb_memory fg1 = 0" "fg_pool fg1 = 0"
      "fg_secondary_pool fg1 = 0" "dump_buffer (fg_dump fg1) = 0" "dump_memory (fg_dump fg1) = 0" "prof_queries (fg_prof fg1) = 0"
    using u by (simp_all add: fg1 fg_shape_def fg_unmade_def)
  show ?thesis
  proof (rule tracks_bind [OF images_and_sets_track [OF blanks(1-6)]], elim conjE, hypsubst)
    fix res :: vk_result and fg2 assume k: "fg_kept_pool fg2 = fg_kept_pool fg1"
    then have z: "dump_buffer (fg_dump fg2) = 0" "dump_memory (fg_dump fg2) = 0" "prof_queries (fg_prof fg2) = 0"
        "fg_shape fg2" "fg_secondary_pool fg2 = 0"
      using blanks by (auto simp: fg_kept_pool_def)
    show "tracks (fgs_fg :: 'w fgs \<Rightarrow> _) X fg2 (fg_objects fg2) (if res \<noteq> VK_SUCCESS then return (Some ''resource creation failed'')
       else do { afmf_framegen_dump_buffer_create; afmf_framegen_profiler_create; return None }) built"
      by (intro tracks_if tracks_return extras_track [OF z]) (use z in \<open>auto simp: built_def\<close>)
  qed
qed

lemma build_tracks:
  assumes un: "fg_unmade fg"
  shows "tracks (fgs_fg :: 'w fgs \<Rightarrow> _) X fg {#} (framegen_build images) built"
proof -
  note u = un [unfolded fg_unmade_def]
  have own: "{#} = fg_objects fg" using unmade_objects [OF un] by simp
  have views: "tracks (fgs_fg :: 'w fgs \<Rightarrow> _) X fg (fg_objects fg)
      (if fg_direct fg \<or> fg_ingest_direct fg then views_create images else return VK_SUCCESS)
      (\<lambda>res fg' own'. own' = fg_objects fg' \<and> (\<exists>vs us. fg' = fg\<lparr>fg_target_views := vs, fg_source_views := us\<rparr>))"
    using u same_views by (intro tracks_if views_tracks tracks_return) auto
  show ?thesis
    unfolding framegen_build_def own
  proof (rule tracks_fg_gets, unfold id_apply, rule tracks_bind [OF views], elim conjE exE, hypsubst)
    fix res :: vk_result and vs us
    let ?fg = "fg\<lparr>fg_target_views := vs, fg_source_views := us\<rparr>"
    show "tracks (fgs_fg :: 'w fgs \<Rightarrow> _) X ?fg (fg_objects ?fg) (if res \<noteq> VK_SUCCESS then return (Some ''views of the swapchain images failed'')
       else do {
         res \<leftarrow> ok_all [afmf_framegen_resources_create, afmf_framegen_descriptor_sets_create];
         if res \<noteq> VK_SUCCESS then return (Some ''resource creation failed'')
         else do { afmf_framegen_dump_buffer_create; afmf_framegen_profiler_create; return None }
       }) built"
      by (intro tracks_if tracks_return resources_built [OF un refl]) (use u in \<open>auto simp: built_def fg_shape_def\<close>)
  qed
qed

lemma loader_data_tracks:
  assumes "\<And>ok. tracks (fgs_fg :: 'w fgs \<Rightarrow> _) X fg own (f ok) Q"
  shows "tracks (fgs_fg :: 'w fgs \<Rightarrow> _) X fg own (State_Monad.bind (set_loader_data_all cs) f) Q"
  using assms
proof (induction cs)
  case (Cons c cs)
  then show ?case by simp (intro fg_tracking; simp)
qed (auto intro: tracks_bind_return)

lemma fg_objects_pool:
  "fg_secondary_pool fg = 0 \<Longrightarrow>
     fg_objects (fg\<lparr>fg_secondary_pool := h, fg_secondaries := xs\<rparr>) = fg_objects fg + held OCommandPool h"
  by (simp add: fg_objects_def own_rest_def)

lemma set_family_tracks:
  assumes "fg_shape fg"
  shows "tracks (fgs_fg :: 'w fgs \<Rightarrow> _) X fg (fg_objects fg) (afmf_framegen_set_family family)
     (\<lambda>_ fg' own'. own' = fg_objects fg' \<and> fg_shape fg')"
proof (cases "fg_secondary_pool fg = 0")
  case True
  show ?thesis
    unfolding afmf_framegen_set_family_def Let_def
    by (intro fg_tracking tracks_array_of loader_data_tracks tracks_destroys_now [OF books_fg])
       (use assms True in \<open>simp_all add: fg_shape_def held_some fg_objects_pool\<close>)
next
  case False
  then show ?thesis
    unfolding afmf_framegen_set_family_def using assms by (intro fg_tracking) auto
qed

section \<open>The device and the frame generation together\<close>

definition fgs_both :: "'w fgs \<Rightarrow> afmf_device \<times> afmf_framegen" where
  "fgs_both s = (fgs_dev s, fgs_fg s)"

lemma fgs_both_eq: "fgs_both s = (dev, fg) \<longleftrightarrow> fgs_dev s = dev \<and> fgs_fg s = fg"
  by (auto simp: fgs_both_def)

definition on_dev :: "(afmf_device \<Rightarrow> bool) \<Rightarrow> 'w fgs \<Rightarrow> bool" where
  "on_dev Q s \<longleftrightarrow> Q (fgs_dev s)"

lemma effect_free_on_dev [simp, intro]: "effect_free (on_dev Q)"
  by (simp add: effect_free_def on_dev_def)

lemma keeps_on_dev [keeps_intros]: "keeps (on_dev Q) (fg_modify f)"
  by (simp add: keeps_def on_dev_def)

lemma keeps_ok_all [keeps_intros]: "(\<And>m. m \<in> set ms \<Longrightarrow> keeps P m) \<Longrightarrow> keeps P (ok_all ms)"
  by (induction ms) (auto intro!: keeps_intros)

lemma keeps_do_all [keeps_intros]: "(\<And>m. m \<in> set ms \<Longrightarrow> keeps P m) \<Longrightarrow> keeps P (do_all ms)"
  by (induction ms) (auto intro!: keeps_intros)

lemma keeps_array_of [keeps_intros]: "keeps P (array_of answer n)"
  by (simp add: array_of_def keeps_intros)

lemma tracks_both_fg:
  assumes m: "tracks fgs_fg X fg own m Q" and keeps: "\<And>P. keeps (on_dev P) m"
  shows "tracks fgs_both X (dev, fg) own m (\<lambda>a (dev', fg') own'. dev' = dev \<and> Q a fg' own')"
  unfolding tracks_def
proof (intro allI impI)
  fix s a s' assume s: "fgs_both s = (dev, fg)" "balanced X s own" "run_state m s = (a, s')"
  have "fgs_dev s' = dev" using keeps_run [OF keeps [of "\<lambda>d. d = dev"] _ s(3)] s(1) by (simp add: on_dev_def fgs_both_eq)
  moreover obtain own' where "balanced X s' own'" "Q a (fgs_fg s') own'"
    using tracksD [OF m _ s(2,3)] s(1) by (auto simp: fgs_both_eq)
  ultimately show "\<exists>own'. balanced X s' own' \<and> (case fgs_both s' of (dev', fg') \<Rightarrow> \<lambda>own'. dev' = dev \<and> Q a fg' own') own'"
    by (auto simp: fgs_both_def)
qed

lemma tracks_both_dev:
  assumes m: "tracks fgs_dev X dev own m Q" and keeps: "\<And>P. keeps (on_fg P) m"
  shows "tracks fgs_both X (dev, fg) own m (\<lambda>a (dev', fg') own'. fg' = fg \<and> Q a dev' own')"
  unfolding tracks_def
proof (intro allI impI)
  fix s a s' assume s: "fgs_both s = (dev, fg)" "balanced X s own" "run_state m s = (a, s')"
  have "fgs_fg s' = fg" using keeps_run [OF keeps [of "\<lambda>d. d = fg"] _ s(3)] s(1) by (simp add: on_fg_def fgs_both_eq)
  moreover obtain own' where "balanced X s' own'" "Q a (fgs_dev s') own'"
    using tracksD [OF m _ s(2,3)] s(1) by (auto simp: fgs_both_eq)
  ultimately show "\<exists>own'. balanced X s' own' \<and> (case fgs_both s' of (dev', fg') \<Rightarrow> \<lambda>own'. fg' = fg \<and> Q a dev' own') own'"
    by (auto simp: fgs_both_def)
qed

lemma tracks_both_gets:
  "tracks fgs_both X (dev, fg) own (f dev) Q \<Longrightarrow> tracks fgs_both X (dev, fg) own (State_Monad.bind (gets fgs_dev) f) Q"
  "tracks fgs_both X (dev, fg) own (g (h fg)) Q \<Longrightarrow> tracks fgs_both X (dev, fg) own (State_Monad.bind (fg_gets h) g) Q"
  by (auto simp: tracks_def fgs_both_eq)

lemma tracks_both_cfg: "(\<And>cfg. tracks fgs_both X y own (f cfg) Q) \<Longrightarrow> tracks fgs_both X y own (State_Monad.bind (gets fgs_cfg) f) Q"
  by (simp add: tracks_def)

lemma tracks_both_modify:
  assumes "tracks fgs_both X (dev, h fg) own (f ()) Q"
  shows "tracks fgs_both X (dev, fg) own (State_Monad.bind (fg_modify h) f) Q"
  unfolding tracks_def
proof (intro allI impI)
  fix s a s' assume "fgs_both s = (dev, fg)" "balanced X s own" "run_state (State_Monad.bind (fg_modify h) f) s = (a, s')"
  then show "\<exists>own'. balanced X s' own' \<and> Q a (fgs_both s') own'"
    using tracksD [OF assms, of "s\<lparr>fgs_fg := h fg\<rparr>" a s'] by (simp add: fgs_both_eq)
qed

subsection \<open>Who touches what\<close>

lemma keeps_dev_build [keeps_intros]:
  "keeps (on_dev Q) (image_create img format extent usage)" "keeps (on_dev Q) (run_step st)"
  "keeps (on_dev Q) sampler_create" "keeps (on_dev Q) constants_create"
  "keeps (on_dev Q) (allocate_sets ps store)" "keeps (on_dev Q) (writer_end w)"
  "keeps (on_dev Q) (calloc_direct n)" "keeps (on_dev Q) (calloc_ingest n)"
  "keeps (on_dev Q) afmf_framegen_dump_buffer_create" "keeps (on_dev Q) afmf_framegen_profiler_create"
  "keeps (on_dev Q) (target_views_create j images)" "keeps (on_dev Q) (destroy_if k h)" "keeps (on_dev Q) (unmap_if b h)"
proof -
  show image: "keeps (on_dev Q) (image_create img format extent usage)" for img format extent usage
    unfolding image_create_def by (intro keeps_intros effect_free_on_dev)
  show "keeps (on_dev Q) (run_step st)"
    by (cases st) (auto intro!: keeps_intros image split: prod.split)
  show "keeps (on_dev Q) sampler_create" "keeps (on_dev Q) constants_create" "keeps (on_dev Q) (allocate_sets ps store)"
    "keeps (on_dev Q) (writer_end w)" "keeps (on_dev Q) (calloc_direct n)" "keeps (on_dev Q) (calloc_ingest n)"
    "keeps (on_dev Q) afmf_framegen_dump_buffer_create" "keeps (on_dev Q) afmf_framegen_profiler_create"
    "keeps (on_dev Q) (destroy_if k h)" "keeps (on_dev Q) (unmap_if b h)"
    unfolding sampler_create_def constants_create_def allocate_sets_def writer_end_def calloc_direct_def calloc_ingest_def
      afmf_framegen_dump_buffer_create_def afmf_framegen_profiler_create_def destroy_if_def unmap_if_def
    by (intro keeps_intros effect_free_on_dev)+
  show "keeps (on_dev Q) (target_views_create j images)"
    by (induction images arbitrary: j) (auto intro!: keeps_intros)
qed

lemma keeps_dev_create [keeps_intros]:
  "keeps (on_dev Q) afmf_framegen_resources_create" "keeps (on_dev Q) afmf_framegen_descriptor_sets_create"
  "keeps (on_dev Q) (views_create images)"
  unfolding afmf_framegen_resources_create_def afmf_framegen_descriptor_sets_create_def sets_allocate_def sets_write_def
    views_create_def Let_def
  by (intro keeps_intros effect_free_on_dev; (auto intro!: keeps_intros split: if_splits)?)+

lemma keeps_dev_build_all [keeps_intros]: "keeps (on_dev Q) (framegen_build images)"
  unfolding framegen_build_def by (intro keeps_intros) (auto intro!: keeps_intros)

lemma keeps_dev_destroy [keeps_intros]: "keeps (on_dev Q) afmf_framegen_destroy"
proof -
  have "keeps (on_dev Q) (image_destroy t)" for t
    unfolding image_destroy_def afmf_framegen_image_destroy_def by (intro keeps_intros)
  moreover have "keeps (on_dev Q) (afmf_framegen_profiler_collect slot)" for slot
    unfolding afmf_framegen_profiler_collect_def Let_def by (intro keeps_intros effect_free_on_dev)
  ultimately show ?thesis
    unfolding afmf_framegen_destroy_def profiler_destroy_def
    by (intro keeps_intros) (auto intro!: keeps_intros)
qed

lemma keeps_fg_dev_modify [keeps_intros]: "keeps (on_fg Q) (dev_modify f)"
  by (simp add: keeps_def on_fg_def)

lemma keeps_fg_pipelines [keeps_intros]:
  "keeps (on_fg Q) afmf_framegen_pipelines_get" "keeps (on_fg Q) afmf_framegen_pipelines_destroy"
  "keeps (on_fg Q) afmf_framegen_pipelines_prepare"
proof -
  have pipeline: "keeps (on_fg Q) (create_compute_pipeline spirv layout special t)" for spirv layout special t
    unfolding create_compute_pipeline_def pl_store_def by (intro keeps_intros effect_free_on_fg)
  have "keeps (on_fg Q) (run_pl_step st)" for st
    by (cases st) (auto simp: pass_create_def interpolate_create_def downsample_create_def ingest_create_def pl_store_def
        intro!: keeps_intros pipeline split: prod.split)
  then have create: "keeps (on_fg Q) pipelines_create" unfolding pipelines_create_def by (intro keeps_intros) auto
  have join: "keeps (on_fg Q) pipelines_join"
    unfolding pipelines_join_def pipelines_thread_main_def by (intro keeps_intros create effect_free_on_fg)
  have one: "keeps (on_fg Q) (destroy_if k h)" for k h unfolding destroy_if_def by (intro keeps_intros effect_free_on_fg)
  show destroy: "keeps (on_fg Q) afmf_framegen_pipelines_destroy"
    unfolding afmf_framegen_pipelines_destroy_def by (intro keeps_intros join) (auto intro: one)
  show "keeps (on_fg Q) afmf_framegen_pipelines_get"
    unfolding afmf_framegen_pipelines_get_def by (intro keeps_intros join create destroy)
  show "keeps (on_fg Q) afmf_framegen_pipelines_prepare"
    unfolding afmf_framegen_pipelines_prepare_def by (intro keeps_intros effect_free_on_fg)
qed

text \<open>What finding no blocker says of the device, the swapchain and the pipelines.\<close>

definition unblocked :: "afmf_device \<Rightarrow> afmf_device \<Rightarrow> afmf_framegen \<Rightarrow> vk_format \<Rightarrow> extent2d \<Rightarrow> bool \<Rightarrow> bool" where
  "unblocked dev dev' fg format extent half \<longleftrightarrow>
     VK_API_VERSION_1_1 \<le> dev_api_version dev
   \<and> dev_subgroup_compute dev \<and> {SUBGROUP_BASIC, SUBGROUP_ARITHMETIC, SUBGROUP_QUAD} \<subseteq> dev_subgroup_ops dev
   \<and> fst (afmf_framegen_describe_format format fg)
   \<and> AFMF_MIN_EXTENT \<le> width extent \<and> AFMF_MIN_EXTENT \<le> height extent
   \<and> format_blocker dev (snd (afmf_framegen_describe_format format fg)) half = None
   \<and> dev_framegen_pipelines dev' \<noteq> None \<and> dev_pipelines_result dev' = VK_SUCCESS"

lemma blocker_tracks:
  assumes ok: "pl_ok dev" and un: "fg_unmade fg"
  shows "tracks (fgs_both :: 'w fgs \<Rightarrow> _) X (dev, fg) (own + dev_objects dev) (blocker_for format extent half)
     (\<lambda>b (dev', fg') own'. own' = own + dev_objects dev' \<and> pl_ok dev' \<and> pl_others dev' = pl_others dev \<and> fg_unmade fg'
        \<and> (b = None \<longrightarrow> unblocked dev dev' fg format extent half \<and> fg' = snd (afmf_framegen_describe_format format fg)))"
  (is "tracks _ _ _ _ _ ?Q")
proof -
  have early: "tracks (fgs_both :: 'w fgs \<Rightarrow> _) X (dev, fg1) (own + dev_objects dev) (return (Some why)) ?Q" if "fg_unmade fg1" for why fg1
    by (rule tracks_return) (use ok that in simp)
  have described: "tracks (fgs_both :: 'w fgs \<Rightarrow> _) X (dev, fg) (own + dev_objects dev) (do {
       fg_modify (\<lambda>_. fg1);
       if \<not> d then return (Some ''swapchain format has no interpolation variant'')
       else if width extent < AFMF_MIN_EXTENT \<or> height extent < AFMF_MIN_EXTENT then
         return (Some ''swapchain too small for the optical flow pyramid'')
       else (case format_blocker dev fg1 half of
               Some why \<Rightarrow> return (Some why)
             | None \<Rightarrow> do {
                 pipelines \<leftarrow> afmf_framegen_pipelines_get;
                 return (if pipelines = None then Some ''pipelines unavailable'' else None)
               }) }) ?Q"
    if e: "afmf_framegen_describe_format format fg = (d, fg1)" and device: "\<not> dev_api_version dev < VK_API_VERSION_1_1"
      "\<not> (\<not> dev_subgroup_compute dev \<or> \<not> {SUBGROUP_BASIC, SUBGROUP_ARITHMETIC, SUBGROUP_QUAD} \<subseteq> dev_subgroup_ops dev)" for d fg1
  proof -
    have un1: "fg_unmade fg1" using unmade_described [OF un, of format] e by simp
    have last: "tracks (fgs_both :: 'w fgs \<Rightarrow> _) X (dev, fg1) (own + dev_objects dev) (do {
       pipelines \<leftarrow> afmf_framegen_pipelines_get;
       return (if pipelines = None then Some ''pipelines unavailable'' else None) }) ?Q"
      if "d" "AFMF_MIN_EXTENT \<le> width extent" "AFMF_MIN_EXTENT \<le> height extent" "format_blocker dev fg1 half = None"
      by (rule tracks_bind [OF tracks_both_dev [OF pipelines_get_tracks [OF ok]]], rule keeps_fg_pipelines, rule tracks_return)
         (use that un1 e device in \<open>auto simp: unblocked_def\<close>)
    show ?thesis
      by (rule tracks_both_modify, rule tracks_if, rule early [OF un1], rule tracks_if, rule early [OF un1], rule tracks_option)
         (auto simp: not_less intro: early [OF un1] last)
  qed
  show ?thesis
    unfolding blocker_for_def
    by (rule tracks_both_gets, rule tracks_if, rule early [OF un], rule tracks_if, rule early [OF un], rule tracks_both_gets,
        rule tracks_prod, rule described)
qed

lemma unmade_zero: "fg_unmade fg_zero"
proof -
  have "blank all_targets fg_zero" by (simp add: blank_def set_all_targets target_get_zero)
  then show ?thesis using fg_shape_zero by (simp add: fg_unmade_def) (simp add: fg_zero_def dump_zero_def prof_zero_def)
qed

lemma create_tracks:
  assumes ok: "pl_ok dev"
  shows "tracks (fgs_both :: 'w fgs \<Rightarrow> _) X (dev, fg0) (own + dev_objects dev)
     (afmf_framegen_create format extent slots images direct ingest)
     (\<lambda>created (dev', fg') own'. own' = own + dev_objects dev' + fg_objects fg' \<and> pl_ok dev' \<and> pl_others dev' = pl_others dev
        \<and> fg_shape fg' \<and> (\<not> created \<longrightarrow> fg' = fg_zero))"
  (is "tracks _ _ _ _ _ ?Q")
  unfolding afmf_framegen_create_def
proof (rule tracks_both_cfg, rule tracks_both_gets, rule tracks_both_modify, rule tracks_bind [OF blocker_tracks [OF ok unmade_setup]], goal_cases)
  case (1 cfg b y own1)
  obtain dev1 fg1 where y: "y = (dev1, fg1)" by fastforce
  have b: "own1 = own + dev_objects dev1" "pl_ok dev1" "pl_others dev1 = pl_others dev" "fg_unmade fg1"
    using 1 by (auto simp: y)
  have build: "tracks (fgs_both :: 'w fgs \<Rightarrow> _) X (dev1, fg1) ((own + dev_objects dev1) + {#})
      (if b = None then framegen_build images else return b)
      (\<lambda>b (dev', fg') own'. dev' = dev1 \<and> own' = (own + dev_objects dev1) + fg_objects fg' \<and> fg_shape fg')"
    by (rule tracks_frame, rule tracks_if, rule tracks_weaken [OF tracks_both_fg [OF build_tracks [OF b(4)]]], intro keeps_intros)
       (use b(4) unmade_objects in \<open>auto simp: built_def fg_unmade_def intro!: tracks_return\<close>)
  have own1: "own1 = (own + dev_objects dev1) + {#}" using b(1) by simp
  show ?case
    unfolding y own1
  proof (rule tracks_bind [OF build], goal_cases)
    case (1 b2 y2 own2)
    obtain dev2 fg2 where y2: "y2 = (dev2, fg2)" by fastforce
    have 2: "dev2 = dev1" "own2 = (own + dev_objects dev1) + fg_objects fg2" "fg_shape fg2" using 1 by (auto simp: y2)
    have destroy: "tracks (fgs_both :: 'w fgs \<Rightarrow> _) X (dev1, fg2) ((own + dev_objects dev1) + fg_objects fg2)
        (do { afmf_framegen_destroy; return False }) ?Q"
      by (rule tracks_bind [OF tracks_both_fg [OF destroy_tracks [OF 2(3)]]], rule keeps_dev_destroy, rule tracks_return)
         (use b fg_shape_zero unmade_objects [OF unmade_zero] in auto)
    show ?case
      unfolding y2 2(1,2)
      by (intro tracks_if destroy tracks_return) (use b 2 in auto)
  qed
qed

section \<open>What a creation promises\<close>

lemma keeps_loader_data [keeps_intros]: "effect_free P \<Longrightarrow> keeps P (set_loader_data_all cs)"
  by (induction cs) (auto intro!: keeps_intros)

text \<open>
  C22: A frame generation's objects are destroyed with it, all of them once. Whatever call of its
  creation or of the secondary buffers' pool failed: when the creation says no, or when the frame
  generation it made is destroyed, everything made so far has been destroyed, but the device's
  pipelines and the \<open>X\<close> of others.
\<close>
theorem framegen_freed:
  fixes s :: "'w fgs"
  assumes run: "run_state (do { created \<leftarrow> afmf_framegen_create format extent slots images direct ingest;
      (if created then do { afmf_framegen_set_family family; afmf_framegen_destroy } else return ());
      return created }) s = (r, s')"
    and "sound s" and made: "made (eff_trace s) = gone (eff_trace s) + X + dev_objects (fgs_dev s)" and ok: "pl_ok (fgs_dev s)"
  shows "made (eff_trace s') = gone (eff_trace s') + X + dev_objects (fgs_dev s') \<and> pl_ok (fgs_dev s')"
proof -
  let ?Q = "\<lambda>_ (dev', fg') own'. own' = dev_objects dev' \<and> pl_ok dev'"
  have bal: "balanced X s ({#} + dev_objects (fgs_dev s))" using assms(2) made by (simp add: balanced_def)
  have after: "tracks (fgs_both :: 'w fgs \<Rightarrow> _) X (dev, fg) (dev_objects dev + fg_objects fg)
      (do { afmf_framegen_set_family family; afmf_framegen_destroy }) ?Q" if "pl_ok dev" "fg_shape fg" for dev fg
  proof -
    have family: "keeps (on_dev P) (afmf_framegen_set_family family)" for P :: "afmf_device \<Rightarrow> bool"
      unfolding afmf_framegen_set_family_def Let_def
      by (intro keeps_intros effect_free_on_dev)
    have both: "tracks (fgs_fg :: 'w fgs \<Rightarrow> _) (X + dev_objects dev) fg (fg_objects fg)
        (do { afmf_framegen_set_family family; afmf_framegen_destroy }) (\<lambda>a fg' o'. o' = {#})"
    proof (rule tracks_bind [OF set_family_tracks [OF that(2)]], elim conjE, hypsubst)
      fix fg1 assume "fg_shape fg1"
      from destroy_tracks [OF this, of "X + dev_objects dev" "{#}"]
      have "tracks (fgs_fg :: 'w fgs \<Rightarrow> _) (X + dev_objects dev) fg1 (fg_objects fg1) afmf_framegen_destroy (\<lambda>_ fg' own'. own' = {#} \<and> fg' = fg_zero)"
        by simp
      then show "tracks (fgs_fg :: 'w fgs \<Rightarrow> _) (X + dev_objects dev) fg1 (fg_objects fg1) afmf_framegen_destroy (\<lambda>a fg' o'. o' = {#})"
        by (rule tracks_weaken) simp
    qed
    have dev: "keeps (on_dev P) (do { afmf_framegen_set_family family; afmf_framegen_destroy })" for P :: "afmf_device \<Rightarrow> bool"
      by (intro keeps_intros family)
    show ?thesis
      by (rule tracks_frame, rule tracks_weaken [OF tracks_both_fg [OF both dev]]) (use that in auto)
  qed
  have "tracks (fgs_both :: 'w fgs \<Rightarrow> _) X (fgs_dev s, fgs_fg s) ({#} + dev_objects (fgs_dev s))
     (do { created \<leftarrow> afmf_framegen_create format extent slots images direct ingest;
      (if created then do { afmf_framegen_set_family family; afmf_framegen_destroy } else return ());
      return created }) ?Q"
  proof (rule tracks_bind [OF create_tracks [OF ok]], goal_cases)
    case (1 created y own)
    obtain dev fg where y: "y = (dev, fg)" by fastforce
    have own: "own = dev_objects dev + fg_objects fg" "pl_ok dev" "fg_shape fg" and no: "\<not> created \<Longrightarrow> fg_objects fg = {#}"
      using 1 unmade_objects [OF unmade_zero] by (auto simp: y)
    have "tracks (fgs_both :: 'w fgs \<Rightarrow> _) X (dev, fg) own (if created then do { afmf_framegen_set_family family; afmf_framegen_destroy } else return ()) ?Q"
      unfolding own(1) using own(2,3) no by (intro tracks_if tracks_return after) auto
    then show ?case unfolding y by (rule tracks_bind) (auto intro: tracks_return)
  qed
  from tracksD [OF this _ bal run] show ?thesis by (auto simp: fgs_both_def balanced_def)
qed

text \<open>What the setting up decides, and nothing after it changes.\<close>

definition fg_decided where
  "fg_decided fg = (fg_extent fg, fg_of_extent fg, fg_flow_scale fg, fg_levels fg, fg_max_levels fg, fg_direct fg,
     fg_ingest_direct fg, fg_target_count fg, fg_slots fg, fg_half fg)"

lemma decided_kept [simp]:
  "fg_decided (target_put t img fg) = fg_decided fg" "fg_decided (level_sizes k fg) = fg_decided fg"
  "fg_decided (store_sets p A fg) = fg_decided fg" "fg_decided (store_direct p A fg) = fg_decided fg"
  "fg_decided (store_ingest p A fg) = fg_decided fg"
  "fg_decided (upd_dump f fg) = fg_decided fg" "fg_decided (upd_prof g fg) = fg_decided fg"
  by (cases t; simp add: fg_decided_def level_sizes_def Let_def store_sets_def store_direct_def store_ingest_def
      upd_dump_def upd_prof_def)+

lemma keeps_decided_build: "keeps (on_fg (\<lambda>fg. fg_decided fg = c)) (framegen_build images)"
proof -
  let ?K = "\<lambda>m. keeps (on_fg (\<lambda>fg. fg_decided fg = c)) m"
  have image: "?K (image_create img format extent usage)" for img format extent usage by (rule keeps_image_create)
  have step: "?K (run_step st)" for st by (cases st) (auto intro!: keeps_intros image split: prod.split)
  have parts: "?K sampler_create" "?K constants_create" "?K afmf_framegen_dump_buffer_create" "?K afmf_framegen_profiler_create"
    "?K (calloc_direct n)" "?K (calloc_ingest n)" "?K (writer_end w)" for n w
    unfolding sampler_create_def constants_create_def afmf_framegen_dump_buffer_create_def afmf_framegen_profiler_create_def
      calloc_direct_def calloc_ingest_def writer_end_def
    by (intro keeps_intros effect_free_on_fg; simp add: fg_decided_def upd_dump_def upd_prof_def)+
  have sets: "?K (allocate_sets ps store)" if "\<And>A fg. fg_decided (store A fg) = fg_decided fg" for ps store
    unfolding allocate_sets_def by (intro keeps_intros effect_free_on_fg) (simp add: that)
  have views_all: "?K (target_views_create j imgs)" for j imgs
  proof (induction imgs arbitrary: j)
    case (Cons img imgs)
    then show ?case by (auto intro!: keeps_intros simp: fg_decided_def)
  qed (auto intro: keeps_intros)
  have resources: "?K afmf_framegen_resources_create"
    unfolding afmf_framegen_resources_create_def by (intro keeps_intros) (auto intro: step parts)
  have all: "?K (views_create images)"
    unfolding views_create_def
    by (intro keeps_intros views_all) (simp_all add: fg_decided_def)
  have pool: "fg_decided (fg\<lparr>fg_pool := pool\<rparr>) = fg_decided fg" for fg pool by (simp add: fg_decided_def)
  have "?K afmf_framegen_descriptor_sets_create"
    unfolding afmf_framegen_descriptor_sets_create_def sets_allocate_def sets_write_def Let_def
    by (intro keeps_intros effect_free_on_fg; auto intro!: keeps_intros sets parts simp: pool split: if_splits)
  then show ?thesis
    unfolding framegen_build_def by (intro keeps_intros all parts) (auto intro!: resources)
qed


lemma described_decided: "fg_decided (snd (afmf_framegen_describe_format f fg)) = fg_decided fg"
proof -
  obtain d fg' where e: "afmf_framegen_describe_format f fg = (d, fg')" by fastforce
  have "fg_decided (fg\<lparr>fg_color_format := fg_color_format fg', fg_out_format := fg_out_format fg', fg_variant := fg_variant fg',
      fg_transfer_function := fg_transfer_function fg', fg_min_luminance := fg_min_luminance fg', fg_max_luminance := fg_max_luminance fg'\<rparr>)
     = fg_decided fg" by (simp add: fg_decided_def)
  then have "fg_decided fg' = fg_decided fg" unfolding describe_keeps [OF e, symmetric] .
  then show ?thesis by (simp add: e)
qed

lemma create_run:
  fixes s :: "'w fgs"
  assumes run: "run_state (afmf_framegen_create format extent slots images direct ingest) s = (True, s')"
    and bal: "balanced X s (dev_objects (fgs_dev s))" and ok: "pl_ok (fgs_dev s)"
  defines "begun \<equiv> framegen_setup (fgs_cfg s) (fgs_dev s) format extent slots images direct ingest"
  shows "unblocked (fgs_dev s) (fgs_dev s') begun format extent (half_flow (fgs_cfg s) extent)" and "fg_decided (fgs_fg s') = fg_decided begun"
proof -
  let ?s = "s\<lparr>fgs_fg := begun\<rparr>"
  obtain b s1 where b: "run_state (blocker_for format extent (half_flow (fgs_cfg s) extent)) ?s = (b, s1)" by fastforce
  obtain b2 s2 where b2: "run_state (if b = None then framegen_build images else return b) s1 = (b2, s2)" by fastforce
  have none: "b2 = None" "s2 = s'" "b = None"
    using run b b2 by (auto simp: afmf_framegen_create_def begun_def split: prod.splits if_splits)
  have build: "run_state (framegen_build images) s1 = (None, s')" using b2 none by simp
  have "balanced X ?s ({#} + dev_objects (fgs_dev s))" using bal by simp
  moreover have "fgs_both ?s = (fgs_dev s, begun)" by (simp add: fgs_both_def)
  moreover have "fg_unmade begun" unfolding begun_def by (rule unmade_setup)
  ultimately have u: "unblocked (fgs_dev s) (fgs_dev s1) begun format extent (half_flow (fgs_cfg s) extent)"
      "fgs_fg s1 = snd (afmf_framegen_describe_format format begun)"
    using tracksD [OF blocker_tracks [OF ok] _ _ b, of begun X "{#}"] none(3) by (auto simp: fgs_both_def)
  have "fgs_dev s' = fgs_dev s1"
    using keeps_run [OF keeps_dev_build_all [of "\<lambda>d. d = fgs_dev s1"] _ build] by (simp add: on_dev_def)
  then show "unblocked (fgs_dev s) (fgs_dev s') begun format extent (half_flow (fgs_cfg s) extent)" using u(1) by simp
  have "fg_decided (fgs_fg s') = fg_decided (fgs_fg s1)"
    using keeps_run [OF keeps_decided_build [of "fg_decided (fgs_fg s1)"] _ build] by (simp add: on_fg_def)
  then show "fg_decided (fgs_fg s') = fg_decided begun" using u(2) described_decided by simp
qed

lemma half_covers:
  fixes w :: u32
  assumes "w < UINT32_MAX"
  shows "unat w \<le> 2 * unat ((w + 2 - 1) div 2)" and "\<not> w div 2 < 128 \<Longrightarrow> 128 \<le> (w + 2 - 1) div 2"
proof -
  have "unat w < 2 ^ 32 - 1" using assms by (simp add: word_less_nat_alt unsigned_minus_1_eq_mask mask_eq_exp_minus_1)
  then have "unat (w + 1) = unat w + 1" by (simp add: unat_word_ariths)
  moreover have "w + 2 - 1 = w + 1" by simp
  moreover have "unat (2 :: u32) = 2" by simp
  ultimately have d: "unat ((w + 2 - 1) div 2) = (unat w + 1) div 2" by (simp only: unat_div)
  then show "unat w \<le> 2 * unat ((w + 2 - 1) div 2)" by simp
  assume "\<not> w div 2 < 128"
  then have "128 \<le> unat w div 2" by (simp add: word_less_nat_alt unat_div not_less)
  then show "128 \<le> (w + 2 - 1) div 2" unfolding word_le_nat_alt d by simp
qed



section \<open>A creation that succeeds\<close>

lemma easy_target_views: "easy s \<Longrightarrow> \<exists>s'. run_state (target_views_create j views) s = (VK_SUCCESS, s') \<and> easy s'"
  by (induction views arbitrary: j s) (auto simp: easy_vk)

lemma easy_views: "easy s \<Longrightarrow> \<exists>s'. run_state (views_create views) s = (VK_SUCCESS, s') \<and> easy s'"
  using easy_target_views [of "s\<lparr>fgs_fg := (fgs_fg s)\<lparr>fg_target_views := replicate (fg_target_count (fgs_fg s)) VK_NULL_HANDLE\<rparr>\<rparr>" 0
      "take (fg_target_count (fgs_fg s)) views"]
  by (auto simp: views_create_def)

lemma easy_build:
  assumes "easy s"
  shows "\<exists>s'. run_state (framegen_build views) s = (None, s')"
proof -
  obtain s1 where v: "run_state (if fg_direct (fgs_fg s) \<or> fg_ingest_direct (fgs_fg s) then views_create views else return VK_SUCCESS) s = (VK_SUCCESS, s1)"
    and e: "easy s1" using easy_views [OF assms, of views] assms
    by (cases "fg_direct (fgs_fg s) \<or> fg_ingest_direct (fgs_fg s)") auto
  obtain s2 where r: "run_state afmf_framegen_resources_create s1 = (VK_SUCCESS, s2)" "easy s2" using easy_resources [OF e] by blast
  obtain s3 where d: "run_state afmf_framegen_descriptor_sets_create s2 = (VK_SUCCESS, s3)" using easy_descriptor_sets [OF r(2)] by blast
  show ?thesis using v r(1) d by (auto simp: framegen_build_def split: prod.split)
qed

lemma sound_fg: "sound (s\<lparr>fgs_fg := fg\<rparr>) = sound s"
  by (simp add: sound_def)

lemma fresh_create:
  assumes "AFMF_MIN_EXTENT \<le> width extent" and "AFMF_MIN_EXTENT \<le> height extent" and f: "format = B8G8R8A8_UNORM"
  shows "\<exists>s'. run_state (afmf_framegen_create format extent slots views direct ingest) fresh_sys = (True, s')"
proof -
  let ?made = "framegen_setup (fgs_cfg fresh_sys) capable_device format extent slots views direct ingest"
  obtain fg where d: "afmf_framegen_describe_format format ?made = (True, fg)"
    using f by (auto simp: afmf_framegen_describe_format_def Let_def)
  let ?s = "fresh_sys\<lparr>fgs_fg := fg\<rparr>"
  obtain p s1 where get: "run_state afmf_framegen_pipelines_get ?s = (Some p, s1)" "easy s1"
    using easy_pipelines_get [of ?s "{#}" "{#}"] by (auto simp: balanced_def sound_fg)
  obtain s2 where build: "run_state (framegen_build views) s1 = (None, s2)" using easy_build [OF get(2)] by blast
  have "format_blocker capable_device fg half = None" for fg half
    by (simp add: format_blocker_def Let_def afmf_framegen_format_supports_def capable_device_def)
  moreover have "dev_api_version capable_device = 4206592" "dev_subgroup_compute capable_device"
    "dev_subgroup_ops capable_device = {SUBGROUP_BASIC, SUBGROUP_ARITHMETIC, SUBGROUP_QUAD}"
    by (simp_all add: capable_device_def)
  ultimately have "run_state (blocker_for format extent half) (fresh_sys\<lparr>fgs_fg := ?made\<rparr>) = (None, s1)" for half
    using assms(1,2) get d by (simp add: blocker_for_def not_less)
  then show ?thesis using build by (simp add: afmf_framegen_create_def)
qed


theorem framegen_freed_witness:
  "\<exists>r s'. run_state (do { created \<leftarrow> afmf_framegen_create B8G8R8A8_UNORM \<lparr>width = 2560, height = 1440\<rparr> 3 [11, 12, 13] True True;
      (if created then do { afmf_framegen_set_family 0; afmf_framegen_destroy } else return ());
      return created }) fresh_sys = (r, s')
     \<and> r \<and> made (eff_trace s') = gone (eff_trace s') + dev_objects (fgs_dev s')"
proof -
  let ?e = "\<lparr>width = 2560, height = 1440\<rparr> :: extent2d"
  let ?m = "do { created \<leftarrow> afmf_framegen_create B8G8R8A8_UNORM ?e 3 [11, 12, 13] True True;
      (if created then do { afmf_framegen_set_family 0; afmf_framegen_destroy } else return ());
      return created } :: (nat fgs, _) state"
  obtain r s' where run: "run_state ?m fresh_sys = (r, s')" by fastforce
  obtain s1 where "run_state (afmf_framegen_create B8G8R8A8_UNORM ?e 3 [11, 12, 13] True True) fresh_sys = (True, s1)"
    using fresh_create [of ?e B8G8R8A8_UNORM 3 "[11, 12, 13]" True True] by auto
  with run have "r" by (auto split: prod.splits)
  moreover have "made (eff_trace s') = gone (eff_trace s') + {#} + dev_objects (fgs_dev s')"
    using framegen_freed [OF run, of "{#}"] by (simp add: dev_objects_def pl_ok_def)
  ultimately show ?thesis using run by auto
qed

end
