(* ===== verification/Swapchain_Resources.thy ===== *)
theory Swapchain_Resources
  imports Threads Fg_Create
begin

text \<open>
  The images, semaphores, fences and command pool one swapchain's generation runs on, and their
  teardown (src/src/swapchain_resources.c). An array that is \<open>NULL\<close> is the empty list; \<open>calloc\<close> is
  taken to succeed. \<open>vkGetSwapchainImagesKHR\<close> answers the number of images when it is asked for
  it, and the array it fills when it is asked for them.
\<close>

section \<open>Frame generation of a swapchain\<close>

text \<open>An operation on a frame generation, with the device it may change; its effects are the swapchain's.\<close>

definition run_fg :: "('w fgs, 'a) state \<Rightarrow> afmf_framegen \<Rightarrow> ('w sys, 'a \<times> afmf_framegen) state" where
  "run_fg m fg = State (\<lambda>s. case run_state m (fgs_of s fg) of (a, s') \<Rightarrow>
     ((a, fgs_fg s'), s\<lparr>eff_world := eff_world s', eff_trace := eff_trace s', sys_dev := fgs_dev s'\<rparr>))"

section \<open>The history image\<close>

fun first_type :: "memory_property set list \<Rightarrow> nat \<Rightarrow> nat \<Rightarrow> memory_property set \<Rightarrow> nat option" where
  "first_type [] i type_bits wanted = None"
| "first_type (t # ts) i type_bits wanted =
     (if bit type_bits i \<and> wanted \<subseteq> t then Some i else first_type ts (Suc i) type_bits wanted)"

definition find_memory_type :: "afmf_device \<Rightarrow> nat \<Rightarrow> memory_property set \<Rightarrow> nat option" where
  "find_memory_type dev type_bits wanted = first_type (dev_memory_types dev) 0 type_bits wanted"

definition create_history :: "('w sys, vk_result) state" where
  "create_history = do {
     dev \<leftarrow> dev_gets id;
     sc \<leftarrow> sc_gets id;
     (res, image) \<leftarrow> vk_full (CreateImage (sc_format sc) (sc_extent sc) {USAGE_TRANSFER_SRC, USAGE_TRANSFER_DST});
     if res \<noteq> VK_SUCCESS then return res
     else do {
       sc_modify (\<lambda>sc. sc\<lparr>sc_history := image\<rparr>);
       (_, bits) \<leftarrow> vk_full (GetMemoryTypeBits image);
       (case (case find_memory_type dev bits {DEVICE_LOCAL} of
                Some type \<Rightarrow> Some type | None \<Rightarrow> find_memory_type dev bits {}) of
          None \<Rightarrow> return VK_ERROR_OUT_OF_DEVICE_MEMORY
        | Some type \<Rightarrow> do {
            (res, memory) \<leftarrow> vk_full (AllocateMemory type);
            if res \<noteq> VK_SUCCESS then return res
            else do {
              sc_modify (\<lambda>sc. sc\<lparr>sc_history_memory := memory, sc_history_layout := LAYOUT_UNDEFINED\<rparr>);
              vk (BindMemory image memory)
            }
          })
     }
   }"

section \<open>The semaphores and fences\<close>

text \<open>Where a semaphore or a fence of the swapchain is stored.\<close>

datatype sc_place = SemGenerated nat | SemReal nat | SemApp nat | SlotFence nat | SpareFence

fun place_kind :: "sc_place \<Rightarrow> obj_kind" where
  "place_kind (SlotFence i) = OFence"
| "place_kind SpareFence = OFence"
| "place_kind p = OSemaphore"

fun place_get :: "sc_place \<Rightarrow> afmf_swapchain \<Rightarrow> handle" where
  "place_get (SemGenerated i) sc = sc_sem_generated sc ! i"
| "place_get (SemReal i) sc = sc_sem_real sc ! i"
| "place_get (SemApp i) sc = sc_sem_app sc ! i"
| "place_get (SlotFence i) sc = slot_fence (sc_slots sc ! i)"
| "place_get SpareFence sc = sc_spare_fence sc"

fun place_put :: "sc_place \<Rightarrow> handle \<Rightarrow> afmf_swapchain \<Rightarrow> afmf_swapchain" where
  "place_put (SemGenerated i) h sc = sc\<lparr>sc_sem_generated := (sc_sem_generated sc)[i := h]\<rparr>"
| "place_put (SemReal i) h sc = sc\<lparr>sc_sem_real := (sc_sem_real sc)[i := h]\<rparr>"
| "place_put (SemApp i) h sc = sc\<lparr>sc_sem_app := (sc_sem_app sc)[i := h]\<rparr>"
| "place_put (SlotFence i) h sc = sc\<lparr>sc_slots := (sc_slots sc)[i := (sc_slots sc ! i)\<lparr>slot_fence := h\<rparr>]\<rparr>"
| "place_put SpareFence h sc = sc\<lparr>sc_spare_fence := h\<rparr>"

definition place_create :: "sc_place \<Rightarrow> ('w sys, vk_result) state" where
  "place_create p = do {
     (res, h) \<leftarrow> vk_full (CreateObj (place_kind p));
     whenb (res = VK_SUCCESS) (sc_modify (place_put p h));
     return res
   }"

definition places_of :: "nat \<Rightarrow> sc_place list" where
  "places_of i = [SemGenerated i, SemReal i, SemApp i, SlotFence i]"

definition all_places :: "nat \<Rightarrow> sc_place list" where
  "all_places n = concat (map places_of [0..<n]) @ [SpareFence]"

section \<open>Initialisation\<close>

definition slot_zero :: afmf_slot where
  "slot_zero = \<lparr>slot_cmd = VK_NULL_HANDLE, slot_fence = VK_NULL_HANDLE, slot_pending = False\<rparr>"

definition sc_arrays :: "nat \<Rightarrow> afmf_swapchain \<Rightarrow> afmf_swapchain" where
  "sc_arrays n sc = sc\<lparr>sc_image_count := n, sc_images := replicate n VK_NULL_HANDLE,
     sc_sem_generated := replicate n VK_NULL_HANDLE, sc_sem_real := replicate n VK_NULL_HANDLE,
     sc_sem_app := replicate n VK_NULL_HANDLE, sc_slots := replicate n slot_zero\<rparr>"

definition framegen_or_history :: "('w sys, vk_result) state" where
  "framegen_or_history = do {
     interpolate \<leftarrow> cfg_gets cfg_interpolate;
     sc \<leftarrow> sc_gets id;
     whenb interpolate (do {
       (created, fg) \<leftarrow> run_fg (afmf_framegen_create (sc_format sc) (sc_extent sc) (sc_image_count sc) (sc_images sc)
          (sc_storage_usage sc) (sc_sampled_usage sc)) fg_zero;
       sc_modify (\<lambda>sc. sc\<lparr>sc_fg := (if created then Some fg else None)\<rparr>)
     });
     fg \<leftarrow> sc_gets sc_fg;
     (case fg of Some _ \<Rightarrow> return VK_SUCCESS | None \<Rightarrow> create_history)
   }"

definition afmf_sc_gen_init :: "('w sys, vk_result) state" where
  "afmf_sc_gen_init = do {
     handle \<leftarrow> sc_gets sc_handle;
     (res, n) \<leftarrow> vk_full (GetSwapchainImages handle);
     if res \<noteq> VK_SUCCESS then return res
     else do {
       sc_modify (sc_arrays n);
       (res, answer) \<leftarrow> vk_full (GetSwapchainImages handle);
       images \<leftarrow> array_of answer n;
       if res \<noteq> VK_SUCCESS then return res
       else do {
         sc_modify (\<lambda>sc. sc\<lparr>sc_images := images\<rparr>);
         ok_all (map place_create (all_places n) @ [framegen_or_history])
       }
     }
   }"

section \<open>The command pool\<close>

primrec slot_cmds_create :: "handle \<Rightarrow> nat list \<Rightarrow> ('w sys, bool) state" where
  "slot_cmds_create pool [] = return True"
| "slot_cmds_create pool (i # is) = do {
     (res, answer) \<leftarrow> vk_full (AllocateCommandBuffers pool 1 False);
     cmds \<leftarrow> array_of answer 1;
     if res \<noteq> VK_SUCCESS then return False
     else do {
       sc_modify (\<lambda>sc. sc\<lparr>sc_slots := (sc_slots sc)[i := (sc_slots sc ! i)\<lparr>slot_cmd := cmds ! 0\<rparr>]\<rparr>);
       res \<leftarrow> vk (SetLoaderData (cmds ! 0));
       if res \<noteq> VK_SUCCESS then return False else slot_cmds_create pool is
     }
   }"

definition can_copy :: "queue_flag set \<Rightarrow> bool" where
  "can_copy flags \<longleftrightarrow> flags \<inter> {QUEUE_GRAPHICS, QUEUE_COMPUTE, QUEUE_TRANSFER} \<noteq> {}"

definition afmf_sc_ensure_pool :: "u32 \<Rightarrow> ('w sys, bool) state" where
  "afmf_sc_ensure_pool family = do {
     dev \<leftarrow> dev_gets id;
     sc \<leftarrow> sc_gets id;
     if sc_pool sc \<noteq> VK_NULL_HANDLE then return (sc_pool_family sc = family)
     else if unat family \<ge> length (dev_queue_families dev) \<or> \<not> can_copy (qf_flags (dev_queue_families dev ! unat family)) then
       return False
     else do {
       (res, pool) \<leftarrow> vk_full (CreateCommandPool family);
       if res \<noteq> VK_SUCCESS then return False
       else do {
         sc_modify (\<lambda>sc. sc\<lparr>sc_pool := pool, sc_pool_family := family\<rparr>);
         if \<not> dev_set_loader_data dev then return False
         else do {
           ok \<leftarrow> slot_cmds_create pool [0..<sc_image_count sc];
           if \<not> ok then return False
           else (case sc_fg sc of
                   None \<Rightarrow> return True
                 | Some fg \<Rightarrow> do {
                     (_, fg) \<leftarrow> run_fg (afmf_framegen_set_family family) fg;
                     sc_modify (\<lambda>sc. sc\<lparr>sc_fg := Some fg\<rparr>);
                     return True
                   })
         }
       }
     }
   }"

section \<open>Teardown\<close>

definition slot_destroy :: "afmf_slot \<Rightarrow> ('w sys, unit) state" where
  "slot_destroy slot = do {
     whenb (slot_pending slot) (do { _ \<leftarrow> vk (WaitForFences (slot_fence slot) UINT64_MAX); return () });
     destroy_if OFence (slot_fence slot)
   }"

definition sems_destroy :: "afmf_swapchain \<Rightarrow> nat \<Rightarrow> ('w sys, unit) state" where
  "sems_destroy sc i = do {
     whenb (sc_sem_generated sc \<noteq> []) (destroy_if OSemaphore (sc_sem_generated sc ! i));
     whenb (sc_sem_real sc \<noteq> []) (destroy_if OSemaphore (sc_sem_real sc ! i));
     whenb (sc_sem_app sc \<noteq> []) (destroy_if OSemaphore (sc_sem_app sc ! i))
   }"

definition spare_destroy :: "('w sys, unit) state" where
  "spare_destroy = do {
     sc \<leftarrow> sc_gets id;
     whenb (sc_spare_fence sc \<noteq> VK_NULL_HANDLE) (do {
       _ \<leftarrow> (if sc_spare_valid sc then vk (WaitForFences (sc_spare_fence sc) 1000000000) else return VK_SUCCESS);
       _ \<leftarrow> vk (DestroyObj OFence (sc_spare_fence sc));
       sc_modify (\<lambda>sc. sc\<lparr>sc_spare_fence := VK_NULL_HANDLE, sc_spare_valid := False\<rparr>)
     })
   }"

definition sc_torn_down :: "afmf_swapchain \<Rightarrow> afmf_swapchain" where
  "sc_torn_down sc = sc\<lparr>sc_slots := [], sc_sem_real := [], sc_sem_app := [], sc_sem_generated := [], sc_images := [],
     sc_pool := VK_NULL_HANDLE, sc_history := VK_NULL_HANDLE, sc_history_memory := VK_NULL_HANDLE, sc_gen_enabled := False\<rparr>"

definition afmf_sc_gen_teardown :: "('w sys, unit) state" where
  "afmf_sc_gen_teardown = do {
     afmf_sc_presenter_stop;
     sc \<leftarrow> sc_gets id;
     queue \<leftarrow> dev_gets dev_async_queue;
     whenb (sc_async sc) (do {
       lock_mutex AsyncLock;
       _ \<leftarrow> vk (QueueWaitIdle queue);
       unlock_mutex AsyncLock
     });
     whenb (sc_slots sc \<noteq> []) (do_all (map (\<lambda>i. slot_destroy (sc_slots sc ! i)) [0..<sc_image_count sc]));
     spare_destroy;
     destroy_if OCommandPool (sc_pool sc);
     (case sc_fg sc of None \<Rightarrow> return () | Some fg \<Rightarrow> do { _ \<leftarrow> run_fg afmf_framegen_destroy fg; return () });
     sc_modify (\<lambda>sc. sc\<lparr>sc_fg := None\<rparr>);
     do_all (map (sems_destroy sc) [0..<sc_image_count sc]);
     destroy_if OImage (sc_history sc);
     destroy_if OMemory (sc_history_memory sc);
     sc_modify sc_torn_down
   }"

definition afmf_sc_gen_disable :: "('w sys, unit) state" where
  "afmf_sc_gen_disable = do {
     afmf_sc_presenter_stop;
     sc_modify (\<lambda>sc. sc\<lparr>sc_gen_enabled := False\<rparr>)
   }"

section \<open>The books of a swapchain\<close>

text \<open>What a swapchain owns.\<close>

definition sc_objects :: "afmf_swapchain \<Rightarrow> (obj_kind \<times> handle) multiset" where
  "sc_objects sc =
     sum_list (map (held OSemaphore) (sc_sem_generated sc)) + sum_list (map (held OSemaphore) (sc_sem_real sc))
   + sum_list (map (held OSemaphore) (sc_sem_app sc)) + sum_list (map (\<lambda>slot. held OFence (slot_fence slot)) (sc_slots sc))
   + held OFence (sc_spare_fence sc) + held OCommandPool (sc_pool sc) + held OImage (sc_history sc)
   + held OMemory (sc_history_memory sc) + (case sc_fg sc of None \<Rightarrow> {#} | Some fg \<Rightarrow> fg_objects fg)"

text \<open>The arrays are all there or all \<open>NULL\<close>, and a frame generation has its shape.\<close>

definition sc_sized :: "afmf_swapchain \<Rightarrow> bool" where
  "sc_sized sc \<longleftrightarrow> (\<exists>n \<in> {0, sc_image_count sc}. length (sc_sem_generated sc) = n \<and> length (sc_sem_real sc) = n
     \<and> length (sc_sem_app sc) = n \<and> length (sc_slots sc) = n) \<and> (\<forall>fg. sc_fg sc = Some fg \<longrightarrow> fg_shape fg)"

definition sys_res :: "'w sys \<Rightarrow> afmf_device \<times> afmf_swapchain" where
  "sys_res s = (sys_dev s, sys_sc s)"

lemma sys_res_simps [simp]:
  "sys_res (s\<lparr>eff_world := w\<rparr>) = sys_res s" "sys_res (s\<lparr>eff_trace := tr\<rparr>) = sys_res s"
  "sys_res (s\<lparr>sys_sc := sc\<rparr>) = (sys_dev s, sc)" "sys_res (s\<lparr>sys_dev := d\<rparr>) = (d, sys_sc s)"
  by (simp_all add: sys_res_def)

lemma sys_res_eq: "sys_res s = (dev, sc) \<longleftrightarrow> sys_dev s = dev \<and> sys_sc s = sc"
  by (auto simp: sys_res_def)

interpretation srb: books "sys_res :: 'w sys \<Rightarrow> afmf_device \<times> afmf_swapchain"
  by unfold_locales simp

lemma books_res: "books (sys_res :: 'w sys \<Rightarrow> _)" ..

lemma balanced_sys [simp]:
  "balanced X (s\<lparr>sys_sc := sc\<rparr>) own = balanced X s own" "balanced X (s\<lparr>sys_dev := d\<rparr>) own = balanced X s own"
  by (simp_all add: balanced_def sound_def)

lemma tracks_sys:
  "tracks sys_res X (dev, sc) own (f (g sc)) Q \<Longrightarrow> tracks sys_res X (dev, sc) own (State_Monad.bind (sc_gets g) f) Q"
  "tracks sys_res X (dev, sc) own (f' (g' dev)) Q \<Longrightarrow> tracks sys_res X (dev, sc) own (State_Monad.bind (dev_gets g') f') Q"
  "(\<And>c. tracks sys_res X y own (f'' c) Q) \<Longrightarrow> tracks sys_res X y own (State_Monad.bind (cfg_gets g'') f'') Q"
  "tracks sys_res X (dev, h sc) own (k ()) Q \<Longrightarrow> tracks sys_res X (dev, sc) own (State_Monad.bind (sc_modify h) k) Q"
proof -
  assume k: "tracks sys_res X (dev, h sc) own (k ()) Q"
  show "tracks sys_res X (dev, sc) own (State_Monad.bind (sc_modify h) k) Q"
    unfolding tracks_def
  proof (intro allI impI)
    fix s a s' assume "sys_res s = (dev, sc)" "balanced X s own" "run_state (State_Monad.bind (sc_modify h) k) s = (a, s')"
    then show "\<exists>own'. balanced X s' own' \<and> Q a (sys_res s') own'"
      using tracksD [OF k, of "s\<lparr>sys_sc := h sc\<rparr>" a s'] by (auto simp: sys_res_eq)
  qed
qed (auto simp: tracks_def sys_res_eq)

lemma tracks_sc_modify_last: "Q () (dev, h sc) own \<Longrightarrow> tracks sys_res X (dev, sc) own (sc_modify h) Q"
  by (auto simp: tracks_def sys_res_eq)

lemma vk_bind: "vk c = State_Monad.bind (vk c) return"
  by (simp add: State_Monad.bind_def)

lemmas res_tracking = tracking srb.calls srb.tracks_gets tracks_sys tracks_sc_modify_last tracks_array_of
  srb.tracks_emit srb.tracks_emit_last

text \<open>An operation on the frame generation, its books kept as part of the swapchain's.\<close>

lemma tracks_run_fg:
  assumes "tracks (fgs_both :: 'w fgs \<Rightarrow> _) X (dev, fg) own m (\<lambda>a (dev', fg') own'. Q (a, fg') (dev', sc) own')"
  shows "tracks (sys_res :: 'w sys \<Rightarrow> _) X (dev, sc) own (run_fg m fg) Q"
  unfolding tracks_def
proof (intro allI impI)
  fix s a s' assume s: "sys_res s = (dev, sc)" "balanced X s own" "run_state (run_fg m fg) s = (a, s')"
  obtain b t where t: "run_state m (fgs_of s fg) = (b, t)" by fastforce
  have "fgs_both (fgs_of s fg) = (dev, fg)" "balanced X (fgs_of s fg) own"
    using s(1,2) by (simp_all add: fgs_both_def fgs_of_def sys_res_eq balanced_def sound_def)
  then obtain own' where own': "balanced X t own'" "Q (b, fgs_fg t) (fgs_dev t, sc) own'"
    using tracksD [OF assms _ _ t] by (auto simp: fgs_both_def)
  have s': "s' = s\<lparr>eff_world := eff_world t, eff_trace := eff_trace t, sys_dev := fgs_dev t\<rparr>"
    using s(3) t by (simp add: run_fg_def)
  have "sound s'" using balanced_sound [OF s(2)] by (simp add: s' sound_def)
  then have "balanced X s' own'" using own'(1) by (simp add: s' balanced_def)
  moreover have "Q a (sys_res s') own'" using s(1,3) own'(2) t by (auto simp: run_fg_def sys_res_eq)
  ultimately show "\<exists>own'. balanced X s' own' \<and> Q a (sys_res s') own'" by blast
qed

lemma tracks_vk_last:
  assumes "\<And>r. Q r x own" and "made_by c = None" and "gone_by c = {#}"
  shows "tracks (sys_res :: 'w sys \<Rightarrow> _) X x own (vk c) Q"
proof -
  have "tracks (sys_res :: 'w sys \<Rightarrow> _) X x own (State_Monad.bind (vk c) return) Q"
    using srb.other_vk [OF assms(2,3)] assms(1) by (blast intro: tracks_return)
  then show ?thesis by simp
qed

text \<open>Every part of a list destroyed in turn.\<close>

lemma tracks_do_all:
  assumes "\<And>t own. t \<in> set ts \<Longrightarrow> tracks v X x (own + obj t) (m t) (\<lambda>_ y o'. y = x \<and> o' = own)"
  shows "tracks v X x (own + sum_list (map obj ts)) (do_all (map m ts)) (\<lambda>_ y o'. y = x \<and> o' = own)"
  using assms
proof (induction ts)
  case (Cons t ts)
  have "tracks v X x (own + sum_list (map obj ts) + obj t) (m t) (\<lambda>_ y o'. y = x \<and> o' = own + sum_list (map obj ts))"
    by (rule Cons.prems) simp
  then have "tracks v X x (own + sum_list (map obj (t # ts))) (m t) (\<lambda>_ y o'. y = x \<and> o' = own + sum_list (map obj ts))"
    by (simp add: add_ac)
  then show ?case
    unfolding list.map do_all.simps by (rule tracks_bind) (use Cons in auto)
qed (auto intro: tracks_return)

section \<open>Creation\<close>

fun place_ok :: "sc_place \<Rightarrow> afmf_swapchain \<Rightarrow> bool" where
  "place_ok (SemGenerated i) sc = (i < length (sc_sem_generated sc))"
| "place_ok (SemReal i) sc = (i < length (sc_sem_real sc))"
| "place_ok (SemApp i) sc = (i < length (sc_sem_app sc))"
| "place_ok (SlotFence i) sc = (i < length (sc_slots sc))"
| "place_ok SpareFence sc = True"

lemma sum_list_map_update:
  fixes f :: "'a \<Rightarrow> 'b multiset"
  shows "j < length xs \<Longrightarrow> f (xs ! j) = {#} \<Longrightarrow> sum_list (map f (xs[j := y])) = sum_list (map f xs) + f y"
proof (induction xs arbitrary: j)
  case (Cons a xs)
  then show ?case by (cases j) (simp_all add: add_ac)
qed simp

lemma objects_put:
  "place_ok p sc \<Longrightarrow> place_get p sc = 0 \<Longrightarrow> sc_objects (place_put p h sc) = sc_objects sc + held (place_kind p) h"
  by (cases p) (simp_all add: sc_objects_def sum_list_map_update add_ac)

lemma place_put_others:
  "place_ok q (place_put p h sc) = place_ok q sc"
  "place_ok p sc \<Longrightarrow> place_get q (place_put p h sc) = (if q = p then h else place_get q sc)"
  by (cases p; cases q; simp add: nth_list_update)+

lemma place_put_sized: "sc_sized (place_put p h sc) = sc_sized sc"
  by (cases p) (simp_all add: sc_sized_def)

text \<open>What the semaphores and fences leave alone.\<close>

definition sc_life where
  "sc_life (sc :: afmf_swapchain) =
     ((sc_handle sc, sc_format sc, sc_extent sc, sc_gen_enabled sc, sc_async sc, sc_slot_index sc, sc_pool sc),
      (sc_work sc, sc_work_head sc, sc_work_count sc, sc_worker_running sc, sc_worker_stop sc, sc_worker_busy sc),
      (sc_jobs sc, sc_job_head sc, sc_job_count sc, sc_presenter_running sc, sc_presenter_stop sc, sc_in_flight sc))"

definition sc_rest where
  "sc_rest (sc :: afmf_swapchain) =
     (sc_life sc, sc_image_count sc, sc_images sc, sc_fg sc, sc_history sc, sc_history_memory sc)"

lemma place_put_rest: "sc_rest (place_put p h sc) = sc_rest sc"
  by (cases p) (simp_all add: sc_rest_def sc_life_def)

lemma place_create_tracks:
  assumes "place_ok p sc" "place_get p sc = 0"
  shows "tracks (sys_res :: 'w sys \<Rightarrow> _) X (dev, sc) (own + sc_objects sc) (place_create p)
    (\<lambda>r (dev', sc') own'. dev' = dev \<and> own' = own + sc_objects sc' \<and>
       (if r = VK_SUCCESS then \<exists>h. h \<noteq> 0 \<and> sc' = place_put p h sc else sc' = sc))"
  unfolding place_create_def
  by (intro res_tracking) (use assms in \<open>auto simp: objects_put held_some add_ac\<close>)

lemma places_tracks:
  assumes "distinct ps" "\<forall>p \<in> set ps. place_ok p sc \<and> place_get p sc = 0"
  shows "tracks (sys_res :: 'w sys \<Rightarrow> _) X (dev, sc) (own + sc_objects sc) (ok_all (map place_create ps))
    (\<lambda>r (dev', sc') own'. dev' = dev \<and> own' = own + sc_objects sc' \<and> sc_sized sc' = sc_sized sc \<and> sc_rest sc' = sc_rest sc
       \<and> (\<forall>q. place_ok q sc' = place_ok q sc) \<and> (r = VK_SUCCESS \<longrightarrow> (\<forall>p \<in> set ps. place_get p sc' \<noteq> 0))
       \<and> (\<forall>q. q \<notin> set ps \<longrightarrow> place_get q sc' = place_get q sc))"
  using assms
proof (induction ps arbitrary: sc)
  case (Cons p ps)
  show ?case
    unfolding list.map ok_all.simps
  proof (rule tracks_bind [OF place_create_tracks], goal_cases)
    case (3 r y own1)
    obtain dev1 sc1 where y: "y = (dev1, sc1)" by fastforce
    show ?case
    proof (cases "r = VK_SUCCESS")
      case False
      then show ?thesis using 3 by (auto simp: y intro!: tracks_return)
    next
      case True
      with 3 obtain h where h: "dev1 = dev" "own1 = own + sc_objects sc1" "h \<noteq> 0" "sc1 = place_put p h sc" by (auto simp: y)
      have p: "place_ok p sc" "p \<notin> set ps" using Cons.prems by simp_all
      have "\<forall>q \<in> set ps. place_ok q sc1 \<and> place_get q sc1 = 0"
        using Cons.prems p by (auto simp: h(4) place_put_others)
      from Cons.IH [OF _ this] Cons.prems(1) True show ?thesis
        unfolding y h(1,2) by (simp, elim tracks_weaken)
          (use p h(3) in \<open>auto simp: h(4) place_put_others place_put_sized place_put_rest\<close>)
    qed
  qed (use Cons.prems in simp_all)
qed (auto intro: tracks_return)

lemma history_objects:
  "sc_history sc = 0 \<Longrightarrow> sc_objects (sc\<lparr>sc_history := h\<rparr>) = sc_objects sc + held OImage h"
  "sc_history_memory sc = 0 \<Longrightarrow>
     sc_objects (sc\<lparr>sc_history_memory := h, sc_history_layout := l\<rparr>) = sc_objects sc + held OMemory h"
  by (simp_all add: sc_objects_def)

definition history_made :: "afmf_swapchain \<Rightarrow> vk_result \<Rightarrow> afmf_swapchain \<Rightarrow> bool" where
  "history_made sc r sc' \<longleftrightarrow> (\<exists>h m l. sc' = sc\<lparr>sc_history := h, sc_history_memory := m, sc_history_layout := l\<rparr>
     \<and> (r = VK_SUCCESS \<longrightarrow> h \<noteq> 0 \<and> m \<noteq> 0))"

lemma create_history_tracks:
  assumes "sc_history sc = 0" "sc_history_memory sc = 0"
  shows "tracks (sys_res :: 'w sys \<Rightarrow> _) X (dev, sc) (own + sc_objects sc) create_history
    (\<lambda>r (dev', sc') own'. dev' = dev \<and> own' = own + sc_objects sc' \<and> history_made sc r sc')"
proof -
  have made: "history_made sc r sc"  if "r \<noteq> VK_SUCCESS" for r
    unfolding history_made_def using that assms by (intro exI [of _ 0] exI [of _ "sc_history_layout sc"]) simp
  have one: "history_made sc r (sc\<lparr>sc_history := h\<rparr>)" if "r \<noteq> VK_SUCCESS" for r h
    unfolding history_made_def using that assms by (intro exI [of _ h] exI [of _ 0] exI [of _ "sc_history_layout sc"]) simp
  have two: "history_made sc r (sc\<lparr>sc_history := h, sc_history_memory := m, sc_history_layout := l\<rparr>)"
    if "h \<noteq> 0" "m \<noteq> 0" for r h m l
    unfolding history_made_def using that by (intro exI [of _ h] exI [of _ m] exI [of _ l]) simp
  show ?thesis
    unfolding create_history_def
    by (intro res_tracking tracks_vk_last) (simp_all add: made one two assms history_objects held_some add_ac)
qed

definition work_made :: "afmf_swapchain \<Rightarrow> vk_result \<Rightarrow> afmf_swapchain \<Rightarrow> bool" where
  "work_made sc r sc' \<longleftrightarrow> (\<exists>fg h m l. sc' = sc\<lparr>sc_fg := fg, sc_history := h, sc_history_memory := m, sc_history_layout := l\<rparr>
     \<and> (\<forall>f. fg = Some f \<longrightarrow> fg_shape f) \<and> (r = VK_SUCCESS \<longrightarrow> fg \<noteq> None \<or> h \<noteq> 0 \<and> m \<noteq> 0))"

lemma history_work: "sc_fg sc = None \<Longrightarrow> history_made (sc\<lparr>sc_fg := None\<rparr>) r sc' \<Longrightarrow> work_made sc r sc'"
  unfolding history_made_def work_made_def by (elim exE conjE, rule exI [of _ None], intro exI conjI) auto

lemma fg_objects_in: "sc_fg sc = None \<Longrightarrow> sc_objects (sc\<lparr>sc_fg := Some fg\<rparr>) = sc_objects sc + fg_objects fg"
  by (simp add: sc_objects_def)

lemma fg_objects_zero [simp]: "fg_objects fg_zero = {#}"
  using unmade_objects [OF unmade_zero] by simp

lemma framegen_made_tracks:
  assumes ok: "pl_ok dev"
  shows "tracks (sys_res :: 'w sys \<Rightarrow> _) X (dev, sc) (own + dev_objects dev + sc_objects sc)
      (run_fg (afmf_framegen_create format extent slots images direct ingest) fg_zero)
      (\<lambda>a (dev', sc') own'. sc' = sc \<and> own' = own + dev_objects dev' + sc_objects sc + fg_objects (snd a) \<and> pl_ok dev'
         \<and> pl_others dev' = pl_others dev \<and> fg_shape (snd a) \<and> (\<not> fst a \<longrightarrow> snd a = fg_zero))"
proof (rule tracks_run_fg)
  have own: "own + dev_objects dev + sc_objects sc = own + sc_objects sc + dev_objects dev" by simp
  show "tracks (fgs_both :: 'w fgs \<Rightarrow> _) X (dev, fg_zero) (own + dev_objects dev + sc_objects sc)
    (afmf_framegen_create format extent slots images direct ingest)
    (\<lambda>a (dev', fg'). case (dev', sc) of (dev', sc') \<Rightarrow> \<lambda>own'. sc' = sc \<and>
       own' = own + dev_objects dev' + sc_objects sc + fg_objects (snd (a, fg')) \<and> pl_ok dev'
       \<and> pl_others dev' = pl_others dev \<and> fg_shape (snd (a, fg')) \<and> (\<not> fst (a, fg') \<longrightarrow> snd (a, fg') = fg_zero))"
    unfolding own by (rule tracks_weaken [OF create_tracks [OF ok]]) auto
qed

lemma framegen_or_history_tracks:
  assumes ok: "pl_ok dev" and none: "sc_fg sc = None" "sc_history sc = 0" "sc_history_memory sc = 0"
  shows "tracks (sys_res :: 'w sys \<Rightarrow> _) X (dev, sc) (own + dev_objects dev + sc_objects sc) framegen_or_history
    (\<lambda>r (dev', sc') own'. own' = own + dev_objects dev' + sc_objects sc' \<and> pl_ok dev' \<and> pl_others dev' = pl_others dev
       \<and> work_made sc r sc')"
  (is "tracks _ _ _ _ _ ?Q")
proof -
  have hist: "tracks (sys_res :: 'w sys \<Rightarrow> _) X (dev', sc\<lparr>sc_fg := None\<rparr>) (own + dev_objects dev' + sc_objects sc) create_history ?Q"
    if "pl_ok dev'" "pl_others dev' = pl_others dev" for dev'
  proof -
    have "tracks (sys_res :: 'w sys \<Rightarrow> _) X (dev', sc\<lparr>sc_fg := None\<rparr>) (own + dev_objects dev' + sc_objects (sc\<lparr>sc_fg := None\<rparr>))
       create_history ?Q"
      by (rule tracks_weaken [OF create_history_tracks]) (use that none history_work [OF none(1)] in auto)
    moreover have "sc_objects (sc\<lparr>sc_fg := None\<rparr>) = sc_objects sc" using none(1) by (simp add: sc_objects_def)
    ultimately show ?thesis by simp
  qed
  have same: "sc\<lparr>sc_fg := None\<rparr> = sc" using none(1) by simp
  show ?thesis
    unfolding framegen_or_history_def
  proof (intro tracks_sys tracks_bind_if tracks_assoc, goal_cases)
    case (1 interpolate)
    show ?case
    proof (rule tracks_bind [OF framegen_made_tracks [OF ok]], goal_cases)
      case (1 a y own1)
      obtain created fg dev1 where a: "a = (created, fg)" "y = (dev1, sc)"
        "own1 = own + dev_objects dev1 + sc_objects sc + fg_objects fg" "pl_ok dev1" "pl_others dev1 = pl_others dev" "fg_shape fg"
        "\<not> created \<Longrightarrow> fg = fg_zero" using 1 by (cases a; cases y) auto
      have "work_made sc VK_SUCCESS (sc\<lparr>sc_fg := Some fg\<rparr>)" if created
        unfolding work_made_def using a(6) by (intro exI [of _ "Some fg"] exI [of _ "sc_history sc"] exI [of _ "sc_history_memory sc"]
          exI [of _ "sc_history_layout sc"]) simp
      then show ?case
        unfolding a(1,2,3) using hist [OF a(4,5)] a(4,5,7) none
        by (cases created) (auto simp: fg_objects_in add_ac intro!: res_tracking)
    qed
  next
    case (2 interpolate)
    then show ?case using hist [OF ok refl] by (intro res_tracking) (simp_all add: none same)
  qed
qed

text \<open>A swapchain that owns nothing, and one whose generation is ready.\<close>

definition sc_fresh :: "afmf_swapchain \<Rightarrow> bool" where
  "sc_fresh sc \<longleftrightarrow> sc_objects sc = {#} \<and> sc_fg sc = None \<and> sc_sized sc"

definition gen_ready :: "afmf_swapchain \<Rightarrow> bool" where
  "gen_ready sc \<longleftrightarrow>
     (let n = sc_image_count sc in
        length (sc_sem_generated sc) = n \<and> length (sc_sem_real sc) = n \<and> length (sc_sem_app sc) = n \<and> length (sc_slots sc) = n
      \<and> length (sc_images sc) = n \<and> (\<forall>p \<in> set (all_places n). place_get p sc \<noteq> VK_NULL_HANDLE))
   \<and> (sc_fg sc = None \<longrightarrow> sc_history sc \<noteq> VK_NULL_HANDLE \<and> sc_history_memory sc \<noteq> VK_NULL_HANDLE)"

lemma fresh_nulls:
  assumes "sc_fresh sc"
  shows "sc_spare_fence sc = 0" "sc_pool sc = 0" "sc_history sc = 0" "sc_history_memory sc = 0" "sc_fg sc = None"
  using assms by (auto simp: sc_fresh_def sc_objects_def held_def split: if_splits)

lemma arrays_objects: "sc_fresh sc \<Longrightarrow> sc_objects (sc_arrays n sc) = {#}"
  by (frule fresh_nulls(1), frule fresh_nulls(2), frule fresh_nulls(3), frule fresh_nulls(4), frule fresh_nulls(5))
     (simp add: sc_objects_def sc_arrays_def slot_zero_def map_replicate_const sum_list_replicate)

lemma sized_arrays: "sc_fg sc = None \<Longrightarrow> sc_sized (sc_arrays n sc)"
  by (simp add: sc_sized_def sc_arrays_def)

lemma distinct_places: "distinct (all_places n)"
proof (induction n)
  case (Suc n)
  then show ?case by (auto simp: all_places_def places_of_def)
qed (simp add: all_places_def)

lemma set_all_places: "set (all_places n) = insert SpareFence (\<Union>i < n. {SemGenerated i, SemReal i, SemApp i, SlotFence i})"
  by (auto simp: all_places_def places_of_def lessThan_atLeast0)

lemma places_fresh:
  "sc_fresh sc \<Longrightarrow> p \<in> set (all_places n) \<Longrightarrow> place_ok p (sc_arrays n sc\<lparr>sc_images := images\<rparr>)
     \<and> place_get p (sc_arrays n sc\<lparr>sc_images := images\<rparr>) = 0"
  by (auto simp: set_all_places sc_arrays_def slot_zero_def fresh_nulls)

lemma place_ok_lengths:
  assumes "\<forall>q. place_ok q sc' = place_ok q sc"
  shows "length (sc_sem_generated sc') = length (sc_sem_generated sc)" "length (sc_sem_real sc') = length (sc_sem_real sc)"
    "length (sc_sem_app sc') = length (sc_sem_app sc)" "length (sc_slots sc') = length (sc_slots sc)"
proof -
  have eq: "n = m" if "\<forall>i. (i < n) = (i < m)" for n m :: nat
    using that by (metis less_irrefl nat_neq_iff)
  have "place_ok (SemGenerated i) sc' = place_ok (SemGenerated i) sc" "place_ok (SemReal i) sc' = place_ok (SemReal i) sc"
    "place_ok (SemApp i) sc' = place_ok (SemApp i) sc" "place_ok (SlotFence i) sc' = place_ok (SlotFence i) sc" for i
    using assms by blast+
  then show "length (sc_sem_generated sc') = length (sc_sem_generated sc)" "length (sc_sem_real sc') = length (sc_sem_real sc)"
    "length (sc_sem_app sc') = length (sc_sem_app sc)" "length (sc_slots sc') = length (sc_slots sc)"
    by (auto intro!: eq)
qed

lemma work_made_ready:
  assumes w: "work_made sc r sc'" and places: "\<forall>p \<in> set (all_places (sc_image_count sc)). place_get p sc \<noteq> 0"
    and n: "length (sc_sem_generated sc) = sc_image_count sc" "length (sc_sem_real sc) = sc_image_count sc"
    "length (sc_sem_app sc) = sc_image_count sc" "length (sc_slots sc) = sc_image_count sc" "length (sc_images sc) = sc_image_count sc"
  shows "sc_sized sc'" "r = VK_SUCCESS \<Longrightarrow> gen_ready sc'" "sc_life sc' = sc_life sc"
proof -
  obtain fg h m l where sc': "sc' = sc\<lparr>sc_fg := fg, sc_history := h, sc_history_memory := m, sc_history_layout := l\<rparr>"
    and fg: "\<forall>f. fg = Some f \<longrightarrow> fg_shape f" and r: "r = VK_SUCCESS \<longrightarrow> fg \<noteq> None \<or> h \<noteq> 0 \<and> m \<noteq> 0"
    using w unfolding work_made_def by (elim exE conjE) (rule that)
  have get: "place_get p sc' = place_get p sc" for p by (cases p) (simp_all add: sc')
  show "sc_sized sc'" using n fg by (simp add: sc' sc_sized_def)
  show "gen_ready sc'" if "r = VK_SUCCESS"
    using that r n places get unfolding gen_ready_def by (auto simp: sc' Let_def)
  show "sc_life sc' = sc_life sc" by (simp add: sc' sc_life_def)
qed

lemma tracks_array_length:
  assumes "\<And>xs. length xs = n \<Longrightarrow> tracks v X x own (f xs) Q"
  shows "tracks v X x own (State_Monad.bind (array_of answer n) f) Q"
  unfolding tracks_def
proof (intro allI impI)
  fix s a s' assume "v s = x" "balanced X s own" "run_state (State_Monad.bind (array_of answer n) f) s = (a, s')"
  then show "\<exists>own'. balanced X s' own' \<and> Q a (v s') own'"
    using tracksD [OF assms [of "map (eff_array s answer) [0..<n]"], of s a s'] by (simp add: array_of_def)
qed

lemma places_made_shape:
  assumes fresh: "sc_fresh sc" and n: "length images = n"
    and rest: "sc_rest sc1 = sc_rest (sc_arrays n sc\<lparr>sc_images := images\<rparr>)"
    and places: "\<forall>q. place_ok q sc1 = place_ok q (sc_arrays n sc\<lparr>sc_images := images\<rparr>)"
  shows "sc_life sc1 = sc_life sc" "sc_image_count sc1 = n" "sc_images sc1 = images" "sc_fg sc1 = None"
      "sc_history sc1 = 0" "sc_history_memory sc1 = 0"
    and "length (sc_sem_generated sc1) = sc_image_count sc1" "length (sc_sem_real sc1) = sc_image_count sc1"
      "length (sc_sem_app sc1) = sc_image_count sc1" "length (sc_slots sc1) = sc_image_count sc1"
      "length (sc_images sc1) = sc_image_count sc1"
proof -
  show fields: "sc_life sc1 = sc_life sc" "sc_image_count sc1 = n" "sc_images sc1 = images" "sc_fg sc1 = None"
      "sc_history sc1 = 0" "sc_history_memory sc1 = 0"
    using rest fresh_nulls [OF fresh] by (simp_all add: sc_rest_def sc_arrays_def sc_life_def)
  show "length (sc_sem_generated sc1) = sc_image_count sc1" "length (sc_sem_real sc1) = sc_image_count sc1"
      "length (sc_sem_app sc1) = sc_image_count sc1" "length (sc_slots sc1) = sc_image_count sc1"
      "length (sc_images sc1) = sc_image_count sc1"
    using place_ok_lengths [OF places] fields n by (simp_all add: sc_arrays_def)
qed

lemma gen_init_tracks:
  assumes ok: "pl_ok dev" and fresh: "sc_fresh sc"
  shows "tracks (sys_res :: 'w sys \<Rightarrow> _) X (dev, sc) (own + dev_objects dev) afmf_sc_gen_init
    (\<lambda>r (dev', sc') own'. own' = own + dev_objects dev' + sc_objects sc' \<and> pl_ok dev' \<and> pl_others dev' = pl_others dev
       \<and> sc_sized sc' \<and> sc_life sc' = sc_life sc \<and> (r = VK_SUCCESS \<longrightarrow> gen_ready sc'))"
  (is "tracks _ _ _ _ _ ?Q")
proof -
  have none: "sc_objects sc = {#}" "sc_sized sc" using fresh by (simp_all add: sc_fresh_def)
  have arrays: "sc_objects (sc_arrays n sc) = {#}" "sc_sized (sc_arrays n sc)" "sc_life (sc_arrays n sc) = sc_life sc" for n
    by (simp_all add: arrays_objects [OF fresh] sized_arrays [OF fresh_nulls(5) [OF fresh]])
       (simp add: sc_life_def sc_arrays_def)
  have rest: "tracks (sys_res :: 'w sys \<Rightarrow> _) X (dev, sc_arrays n sc\<lparr>sc_images := images\<rparr>) (own + dev_objects dev)
      (ok_all (map place_create (all_places n) @ [framegen_or_history])) ?Q" if n: "length images = n" for n images
  proof -
    let ?sc = "sc_arrays n sc\<lparr>sc_images := images\<rparr>"
    have sc: "sc_objects ?sc = {#}" "sc_sized ?sc" "sc_life ?sc = sc_life sc"
      using arrays [of n] by (simp_all add: sc_objects_def sc_sized_def sc_life_def)
    have places: "\<forall>p \<in> set (all_places n). place_ok p ?sc \<and> place_get p ?sc = 0" using places_fresh [OF fresh] by blast
    note made = places_tracks [OF distinct_places places, where X = X and dev = dev and own = "own + dev_objects dev", unfolded sc(1)]
    show ?thesis
      unfolding ok_all_append
    proof (rule tracks_bind [OF made [simplified]], goal_cases)
      case (1 r y own1)
      obtain sc1 where y: "y = (dev, sc1)" and own1: "own1 = own + dev_objects dev + sc_objects sc1"
        and sc1: "sc_sized sc1" "sc_rest sc1 = sc_rest ?sc" "\<forall>q. place_ok q sc1 = place_ok q ?sc"
          "r = VK_SUCCESS \<longrightarrow> (\<forall>p \<in> set (all_places n). place_get p sc1 \<noteq> 0)"
        using 1 sc(2) by (cases y) auto
      note shape = places_made_shape [OF fresh n sc1(2,3)]
      show ?case
      proof (cases "r = VK_SUCCESS")
        case True
        have places1: "\<forall>p \<in> set (all_places (sc_image_count sc1)). place_get p sc1 \<noteq> 0" using True sc1(4) shape(2) by simp
        have "tracks (sys_res :: 'w sys \<Rightarrow> _) X (dev, sc1) own1 framegen_or_history ?Q"
          unfolding own1 by (rule tracks_weaken [OF framegen_or_history_tracks [OF ok shape(4-6)]])
            (use work_made_ready [OF _ places1 shape(7-11)] shape(1) in auto)
        then have "tracks (sys_res :: 'w sys \<Rightarrow> _) X (dev, sc1) own1
            (do { res \<leftarrow> framegen_or_history; if res \<noteq> VK_SUCCESS then return res else ok_all [] }) ?Q"
          by (rule tracks_bind) (auto intro!: tracking)
        then show ?thesis using True by (simp add: y)
      next
        case False
        then show ?thesis using own1 sc1(1) shape(1) ok by (auto simp: y intro!: tracks_return)
      qed
    qed
  qed
  show ?thesis
    unfolding afmf_sc_gen_init_def
    by (intro tracks_array_length res_tracking rest) (use none arrays ok in \<open>simp_all\<close>)
qed

section \<open>Teardown\<close>

definition sc_owned where
  "sc_owned (sc :: afmf_swapchain) =
     ((sc_sem_generated sc, sc_sem_real sc, sc_sem_app sc, sc_slots sc), (sc_spare_fence sc, sc_pool sc, sc_fg sc),
      (sc_history sc, sc_history_memory sc, sc_image_count sc))"

lemma owned_same:
  assumes "sc_owned sc' = sc_owned sc"
  shows "sc_objects sc' = sc_objects sc" "sc_sized sc' = sc_sized sc"
  using assms by (simp_all add: sc_owned_def sc_objects_def sc_sized_def)

lemma presenter_stop_tracks:
  "tracks (sys_res :: 'w sys \<Rightarrow> _) X (dev, sc) own afmf_sc_presenter_stop
     (\<lambda>_ (dev', sc') own'. dev' = dev \<and> own' = own \<and> sc_owned sc' = sc_owned sc)"
  unfolding afmf_sc_presenter_stop_def worker_stop_def worker_stop_request_def worker_stopped_def presenter_stop_request_def
    presenter_stopped_def
  by (intro res_tracking; simp add: sc_owned_def)

lemma destroys_then:
  assumes "\<And>own. tracks v X x (own + obj) m (\<lambda>_ y o'. y = x \<and> o' = own)" and "tracks v X x (own + rest) (f ()) Q"
  shows "tracks v X x (own + (obj + rest)) (State_Monad.bind m f) Q"
proof -
  have "tracks v X x (own + (obj + rest)) m (\<lambda>_ y o'. y = x \<and> o' = own + rest)"
    using assms(1) [of "own + rest"] by (simp add: add_ac)
  then show ?thesis by (rule tracks_bind) (use assms(2) in auto)
qed

lemma slot_destroy_tracks:
  "tracks (sys_res :: 'w sys \<Rightarrow> _) X x (own + held OFence (slot_fence slot)) (slot_destroy slot) (\<lambda>_ y o'. y = x \<and> o' = own)"
  unfolding slot_destroy_def by (intro res_tracking srb.destroys_last) simp_all

lemma slots_destroy_tracks:
  assumes "length slots = n \<or> slots = []"
  shows "tracks (sys_res :: 'w sys \<Rightarrow> _) X x (own + sum_list (map (\<lambda>slot. held OFence (slot_fence slot)) slots))
    (whenb (slots \<noteq> []) (do_all (map (\<lambda>i. slot_destroy (slots ! i)) [0..<n]))) (\<lambda>_ y o'. y = x \<and> o' = own)"
proof (cases "slots = []")
  case False
  then have "slots = map (\<lambda>i. slots ! i) [0..<n]" using assms by (auto simp: map_nth)
  then have "map (\<lambda>slot. held OFence (slot_fence slot)) slots = map (\<lambda>i. held OFence (slot_fence (slots ! i))) [0..<n]"
    by (metis (no_types, lifting) map_map comp_def map_eq_conv)
  then show ?thesis using False tracks_do_all [where ts = "[0..<n]" and obj = "\<lambda>i. held OFence (slot_fence (slots ! i))"
      and m = "\<lambda>i. slot_destroy (slots ! i)", OF slot_destroy_tracks] by simp
qed (auto intro: tracks_return)

lemma sem_destroy_tracks:
  "tracks (sys_res :: 'w sys \<Rightarrow> _) X x (own + (if hs \<noteq> [] then held OSemaphore (hs ! i) else {#}))
     (whenb (hs \<noteq> []) (destroy_if OSemaphore (hs ! i))) (\<lambda>_ y o'. y = x \<and> o' = own)"
  by (intro res_tracking srb.destroys_last) simp_all

lemma held_sum: "length hs = n \<or> hs = [] \<Longrightarrow>
  sum_list (map (\<lambda>i. if hs \<noteq> [] then held k (hs ! i) else {#}) [0..<n]) = sum_list (map (held k) hs)"
proof (cases "hs = []")
  case False
  assume "length hs = n \<or> hs = []"
  with False have "map (held k) hs = map (\<lambda>i. held k (hs ! i)) [0..<n]"
    by (metis (no_types, lifting) map_map comp_def map_eq_conv map_nth)
  then show ?thesis using False by simp
qed (simp add: sum_list_0)

lemma sems_destroy_tracks:
  assumes "sc_sized sc"
  shows "tracks (sys_res :: 'w sys \<Rightarrow> _) X x (own + (sum_list (map (held OSemaphore) (sc_sem_generated sc))
       + sum_list (map (held OSemaphore) (sc_sem_real sc)) + sum_list (map (held OSemaphore) (sc_sem_app sc))))
     (do_all (map (sems_destroy sc) [0..<sc_image_count sc])) (\<lambda>_ y o'. y = x \<and> o' = own)"
proof -
  let ?h = "\<lambda>hs i. if hs \<noteq> [] then held OSemaphore (hs ! i) else {#}"
  have n: "length (sc_sem_generated sc) = sc_image_count sc \<or> sc_sem_generated sc = []"
    "length (sc_sem_real sc) = sc_image_count sc \<or> sc_sem_real sc = []"
    "length (sc_sem_app sc) = sc_image_count sc \<or> sc_sem_app sc = []" using assms by (auto simp: sc_sized_def)
  have "tracks (sys_res :: 'w sys \<Rightarrow> _) X x (own + (?h (sc_sem_generated sc) i + (?h (sc_sem_real sc) i + ?h (sc_sem_app sc) i)))
      (sems_destroy sc i) (\<lambda>_ y o'. y = x \<and> o' = own)" for own i
    unfolding sems_destroy_def by (intro destroys_then sem_destroy_tracks)
  note all = tracks_do_all [where ts = "[0..<sc_image_count sc]" and m = "sems_destroy sc", OF this]
  show ?thesis using all by (simp add: sum_list_addf held_sum [OF n(1)] held_sum [OF n(2)] held_sum [OF n(3)] add.assoc)
qed

lemma spare_destroy_tracks:
  "tracks (sys_res :: 'w sys \<Rightarrow> _) X (dev, sc) (own + (held OFence (sc_spare_fence sc) + rest)) spare_destroy
     (\<lambda>_ (dev', sc') own'. dev' = dev \<and> own' = own + rest \<and> (\<exists>b. sc' = sc\<lparr>sc_spare_fence := 0, sc_spare_valid := b\<rparr>))"
proof (cases "sc_spare_fence sc = 0")
  case True
  then have "sc = sc\<lparr>sc_spare_fence := 0, sc_spare_valid := sc_spare_valid sc\<rparr>" by simp
  then have "\<exists>b. sc = sc\<lparr>sc_spare_fence := 0, sc_spare_valid := b\<rparr>" by (rule exI)
  then show ?thesis
    unfolding spare_destroy_def using True by (intro tracks_sys) (simp add: tracks_return)
next
  case False
  let ?own = "own + (held OFence (sc_spare_fence sc) + rest)"
  have wait: "tracks (sys_res :: 'w sys \<Rightarrow> _) X (dev, sc) ?own
      (if sc_spare_valid sc then vk (WaitForFences (sc_spare_fence sc) t) else return VK_SUCCESS) (\<lambda>_ y o'. y = (dev, sc) \<and> o' = ?own)" for t
    by (intro tracks_if tracks_vk_last tracks_return) simp_all
  have gone: "tracks (sys_res :: 'w sys \<Rightarrow> _) X (dev, sc) (?own - {#(OFence, sc_spare_fence sc)#})
      (sc_modify (\<lambda>sc. sc\<lparr>sc_spare_fence := 0, sc_spare_valid := False\<rparr>))
      (\<lambda>_ (dev', sc') own'. dev' = dev \<and> own' = own + rest \<and> (\<exists>b. sc' = sc\<lparr>sc_spare_fence := 0, sc_spare_valid := b\<rparr>))"
    by (rule tracks_sc_modify_last, unfold prod.case, intro conjI exI, rule refl) (simp add: held_some [OF False], rule refl)
  show ?thesis
    unfolding spare_destroy_def
    by (rule tracks_sys(1), unfold id_apply if_P [OF False], rule tracks_bind [OF wait], elim conjE, hypsubst,
        rule tracks_destroys_now [OF books_res False _ gone]) (simp add: held_some [OF False])
qed

lemma fg_destroy_tracks:
  assumes "\<forall>fg. p = Some fg \<longrightarrow> fg_shape fg"
  shows "tracks (sys_res :: 'w sys \<Rightarrow> _) X x (own + (case p of None \<Rightarrow> {#} | Some fg \<Rightarrow> fg_objects fg))
     (case p of None \<Rightarrow> return () | Some fg \<Rightarrow> do { _ \<leftarrow> run_fg afmf_framegen_destroy fg; return () }) (\<lambda>_ y o'. y = x \<and> o' = own)"
proof (cases p)
  case (Some fg)
  obtain dev sc where x: "x = (dev, sc)" by fastforce
  have "tracks (fgs_both :: 'w fgs \<Rightarrow> _) X (dev, fg) (own + fg_objects fg) afmf_framegen_destroy
     (\<lambda>a (dev', fg') own'. dev' = dev \<and> own' = own \<and> fg' = fg_zero)"
    by (rule tracks_both_fg [OF destroy_tracks]) (use assms Some keeps_dev_destroy in auto)
  then have "tracks (sys_res :: 'w sys \<Rightarrow> _) X (dev, sc) (own + fg_objects fg) (run_fg afmf_framegen_destroy fg)
     (\<lambda>_ y o'. y = x \<and> o' = own)"
    by (intro tracks_run_fg, elim tracks_weaken) (auto simp: x)
  then show ?thesis unfolding Some x by simp (rule tracks_bind, assumption, auto intro: tracks_return)
qed (auto intro: tracks_return)

lemma teardown_tracks:
  assumes sized: "sc_sized sc"
  shows "tracks (sys_res :: 'w sys \<Rightarrow> _) X (dev, sc) (own + sc_objects sc) afmf_sc_gen_teardown
     (\<lambda>_ (dev', sc') own'. dev' = dev \<and> own' = own \<and> sc_fresh sc' \<and> \<not> sc_gen_enabled sc')"
  unfolding afmf_sc_gen_teardown_def
proof (rule tracks_bind [OF presenter_stop_tracks], goal_cases)
  case (1 u y own1)
  obtain sc1 where y: "y = (dev, sc1)" and own1: "own1 = own + sc_objects sc" and sc1: "sc_owned sc1 = sc_owned sc"
    using 1 by (cases y) auto
  have sized1: "sc_sized sc1" "sc_objects sc = sc_objects sc1" using owned_same [OF sc1] sized by simp_all
  have slots: "length (sc_slots sc1) = sc_image_count sc1 \<or> sc_slots sc1 = []"
    and shape: "\<forall>fg. sc_fg sc1 = Some fg \<longrightarrow> fg_shape fg" using sized1(1) by (auto simp: sc_sized_def)
  let ?fences = "sum_list (map (\<lambda>slot. held OFence (slot_fence slot)) (sc_slots sc1))"
  let ?sems = "sum_list (map (held OSemaphore) (sc_sem_generated sc1)) + sum_list (map (held OSemaphore) (sc_sem_real sc1))
     + sum_list (map (held OSemaphore) (sc_sem_app sc1))"
  let ?fg = "case sc_fg sc1 of None \<Rightarrow> {#} | Some fg \<Rightarrow> fg_objects fg"
  let ?tail = "held OImage (sc_history sc1) + (held OMemory (sc_history_memory sc1) + {#})"
  have own: "own1 = own + (?fences + (held OFence (sc_spare_fence sc1) + (held OCommandPool (sc_pool sc1) + (?fg + (?sems + ?tail)))))"
    unfolding own1 sized1(2) unfolding sc_objects_def by (simp add: add_ac)
  have torn: "sc_fresh (sc_torn_down (sc1\<lparr>sc_spare_fence := 0, sc_spare_valid := b, sc_fg := None\<rparr>))" for b
    by (simp add: sc_fresh_def sc_objects_def sc_sized_def sc_torn_down_def)
  have wait: "tracks (sys_res :: 'w sys \<Rightarrow> _) X (dev, sc1) own1 (whenb (sc_async sc1) (do {
       lock_mutex AsyncLock; _ \<leftarrow> vk (QueueWaitIdle q); unlock_mutex AsyncLock })) (\<lambda>_ y o'. y = (dev, sc1) \<and> o' = own1)" for q
    by (intro res_tracking) simp_all
  let ?rest = "do {
     destroy_if OCommandPool (sc_pool sc1);
     (case sc_fg sc1 of None \<Rightarrow> return () | Some fg \<Rightarrow> do { _ \<leftarrow> run_fg afmf_framegen_destroy fg; return () });
     sc_modify (\<lambda>sc. sc\<lparr>sc_fg := None\<rparr>);
     do_all (map (sems_destroy sc1) [0..<sc_image_count sc1]);
     destroy_if OImage (sc_history sc1);
     destroy_if OMemory (sc_history_memory sc1);
     sc_modify sc_torn_down }"
  let ?Q = "\<lambda>_ (dev', sc') own'. dev' = dev \<and> own' = own \<and> sc_fresh sc' \<and> \<not> sc_gen_enabled sc'"
  have rest: "tracks (sys_res :: 'w sys \<Rightarrow> _) X (dev, sc1\<lparr>sc_spare_fence := 0, sc_spare_valid := b\<rparr>)
      (own + (held OCommandPool (sc_pool sc1) + (?fg + (?sems + ?tail)))) ?rest ?Q" for b
    by (rule destroys_front [OF books_res], rule destroys_then [OF fg_destroy_tracks [OF shape]], rule tracks_sys(4),
        rule destroys_then [OF sems_destroy_tracks [OF sized1(1)]], (rule destroys_front [OF books_res])+,
        rule tracks_sc_modify_last) (simp add: torn, simp add: sc_torn_down_def)
  show ?case
    unfolding y
    by (rule tracks_sys(1), rule tracks_sys(2), unfold id_apply, rule tracks_bind [OF wait], elim conjE, hypsubst, unfold own,
        rule destroys_then [OF slots_destroy_tracks [OF slots]], rule tracks_bind [OF spare_destroy_tracks])
       (use rest in auto)
qed

section \<open>The command pool\<close>

definition cmds_put :: "afmf_swapchain \<Rightarrow> afmf_swapchain \<Rightarrow> bool" where
  "cmds_put sc sc' \<longleftrightarrow> (\<exists>slots. sc' = sc\<lparr>sc_slots := slots\<rparr> \<and> map slot_fence slots = map slot_fence (sc_slots sc))"

lemma fence_sum: "(\<Sum>slot\<leftarrow>slots. held OFence (slot_fence slot)) = sum_list (map (held OFence) (map slot_fence slots))"
  by (simp add: comp_def)

lemma cmds_put_same:
  assumes "cmds_put sc sc'"
  shows "sc_objects sc' = sc_objects sc" "sc_sized sc' = sc_sized sc" "sc_pool sc' = sc_pool sc" "sc_pool_family sc' = sc_pool_family sc"
    "sc_fg sc' = sc_fg sc"
proof -
  obtain slots where s: "sc' = sc\<lparr>sc_slots := slots\<rparr>" "map slot_fence slots = map slot_fence (sc_slots sc)"
    using assms unfolding cmds_put_def by blast
  have "length slots = length (sc_slots sc)" using arg_cong [OF s(2), of length] by simp
  then show "sc_sized sc' = sc_sized sc" by (simp add: s(1) sc_sized_def)
  show "sc_objects sc' = sc_objects sc" by (simp add: s(1) sc_objects_def fence_sum s(2) del: map_map)
qed (use assms in \<open>auto simp: cmds_put_def\<close>)

lemma cmds_put_one: "cmds_put sc (sc\<lparr>sc_slots := (sc_slots sc)[i := (sc_slots sc ! i)\<lparr>slot_cmd := c\<rparr>]\<rparr>)"
proof -
  have "map slot_fence ((sc_slots sc)[i := (sc_slots sc ! i)\<lparr>slot_cmd := c\<rparr>]) = map slot_fence (sc_slots sc)"
    by (cases "i < length (sc_slots sc)") (simp_all add: map_update list_update_same_conv list_update_beyond)
  then show ?thesis unfolding cmds_put_def by blast
qed

lemma cmds_put_trans: "cmds_put sc sc' \<Longrightarrow> cmds_put sc' sc'' \<Longrightarrow> cmds_put sc sc''"
  unfolding cmds_put_def by (elim exE conjE, hypsubst) (rule exI, auto)

lemma cmds_put_refl: "cmds_put sc sc"
  unfolding cmds_put_def by (intro exI [of _ "sc_slots sc"]) simp

lemma slot_cmds_tracks:
  "tracks (sys_res :: 'w sys \<Rightarrow> _) X (dev, sc) own (slot_cmds_create pool ks)
     (\<lambda>_ (dev', sc') own'. dev' = dev \<and> own' = own \<and> cmds_put sc sc')"
proof (induction ks arbitrary: sc)
  case (Cons i ks)
  have more: "tracks (sys_res :: 'w sys \<Rightarrow> _) X (dev, sc\<lparr>sc_slots := (sc_slots sc)[i := (sc_slots sc ! i)\<lparr>slot_cmd := c\<rparr>]\<rparr>) own
      (slot_cmds_create pool ks) (\<lambda>_ (dev', sc') own'. dev' = dev \<and> own' = own \<and> cmds_put sc sc')" for c
    by (rule tracks_weaken [OF Cons.IH], clarify) (rule conjI [OF refl conjI [OF refl cmds_put_trans [OF cmds_put_one]]])
  show ?case
    unfolding slot_cmds_create.simps by (intro res_tracking more) (simp_all add: cmds_put_refl cmds_put_one)
qed (auto intro!: tracks_return cmds_put_refl)

lemma keeps_dev_family: "keeps (on_dev P) (afmf_framegen_set_family family)"
  unfolding afmf_framegen_set_family_def Let_def by (intro keeps_intros keeps_loader_data effect_free_on_dev)

lemma fg_family_tracks:
  assumes "fg_shape fg"
  shows "tracks (sys_res :: 'w sys \<Rightarrow> _) X x (own + fg_objects fg) (run_fg (afmf_framegen_set_family family) fg)
     (\<lambda>(_, fg') y o'. y = x \<and> o' = own + fg_objects fg' \<and> fg_shape fg')"
proof -
  obtain dev sc where x: "x = (dev, sc)" by fastforce
  have "tracks (fgs_both :: 'w fgs \<Rightarrow> _) (X + own) (dev, fg) (fg_objects fg) (afmf_framegen_set_family family)
     (\<lambda>a (dev', fg') own'. dev' = dev \<and> own' = fg_objects fg' \<and> fg_shape fg')"
    by (rule tracks_both_fg [OF set_family_tracks [OF assms] keeps_dev_family])
  then have "tracks (fgs_both :: 'w fgs \<Rightarrow> _) X (dev, fg) (own + fg_objects fg) (afmf_framegen_set_family family)
     (\<lambda>a (dev', fg') own'. dev' = dev \<and> own' = own + fg_objects fg' \<and> fg_shape fg')"
    by (intro tracks_frame, elim tracks_weaken) auto
  then show ?thesis unfolding x by (intro tracks_run_fg, elim tracks_weaken) auto
qed

lemma swapchain_family_tracks:
  assumes sized: "sc_sized sc" and fg: "sc_fg sc = Some fg"
  shows "tracks (sys_res :: 'w sys \<Rightarrow> _) X (dev, sc) (own + sc_objects sc)
     (do { (_, fg) \<leftarrow> run_fg (afmf_framegen_set_family family) fg; sc_modify (\<lambda>sc. sc\<lparr>sc_fg := Some fg\<rparr>); return True })
     (\<lambda>ok (dev', sc') own'. dev' = dev \<and> own' = own + sc_objects sc' \<and> sc_sized sc'
        \<and> sc_pool sc' = sc_pool sc \<and> sc_pool_family sc' = sc_pool_family sc)"
proof -
  let ?base = "sc_objects (sc\<lparr>sc_fg := None\<rparr>)"
  have base: "fg_shape fg" "sc_objects sc = ?base + fg_objects fg" using sized fg by (simp_all add: sc_sized_def sc_objects_def)
  have again: "sc_objects (sc\<lparr>sc_fg := Some fg'\<rparr>) = ?base + fg_objects fg'" for fg' by (simp add: sc_objects_def)
  have "tracks (sys_res :: 'w sys \<Rightarrow> _) X (dev, sc) (own + sc_objects sc) (run_fg (afmf_framegen_set_family family) fg)
    (\<lambda>a y o'. y = (dev, sc) \<and> o' = own + ?base + fg_objects (snd a) \<and> fg_shape (snd a))"
    unfolding base(2) add.assoc [symmetric] by (rule tracks_weaken [OF fg_family_tracks [OF base(1)]]) auto
  then show ?thesis
    by (rule tracks_bind) (use sized in \<open>auto simp: again sc_sized_def add_ac intro!: res_tracking\<close>)
qed

lemma ensure_pool_tracks:
  assumes sized: "sc_sized sc"
  shows "tracks (sys_res :: 'w sys \<Rightarrow> _) X (dev, sc) (own + sc_objects sc) (afmf_sc_ensure_pool family)
     (\<lambda>ok (dev', sc') own'. dev' = dev \<and> own' = own + sc_objects sc' \<and> sc_sized sc'
        \<and> (ok \<longrightarrow> sc_pool sc' \<noteq> VK_NULL_HANDLE \<and> sc_pool_family sc' = family))"
  (is "tracks _ _ _ _ _ ?Q")
proof (cases "sc_pool sc = 0")
  case False
  then show ?thesis unfolding afmf_sc_ensure_pool_def by (intro res_tracking) (simp_all add: sized)
next
  case True
  have made: "sc_objects (sc\<lparr>sc_pool := pool, sc_pool_family := family\<rparr>) = sc_objects sc + held OCommandPool pool"
    "sc_sized (sc\<lparr>sc_pool := pool, sc_pool_family := family\<rparr>)" for pool
    using True sized by (simp_all add: sc_objects_def sc_sized_def)
  have rest: "tracks (sys_res :: 'w sys \<Rightarrow> _) X (dev, sc1) (own + sc_objects sc1) (do {
       ok \<leftarrow> slot_cmds_create pool ks;
       if \<not> ok then return False
       else (case sc_fg sc of None \<Rightarrow> return True
             | Some fg \<Rightarrow> do { (_, fg) \<leftarrow> run_fg (afmf_framegen_set_family family) fg; sc_modify (\<lambda>sc. sc\<lparr>sc_fg := Some fg\<rparr>); return True }) }) ?Q"
    if sc1: "sc1 = sc\<lparr>sc_pool := pool, sc_pool_family := family\<rparr>" "pool \<noteq> 0" for sc1 pool ks
  proof (rule tracks_bind [OF slot_cmds_tracks], goal_cases)
    case (1 ok y own1)
    obtain sc2 where y: "y = (dev, sc2)" "own1 = own + sc_objects sc1" and put: "cmds_put sc1 sc2" using 1 by (cases y) auto
    have sc2: "sc_objects sc2 = sc_objects sc1" "sc_sized sc2" "sc_pool sc2 = pool" "sc_pool_family sc2 = family" "sc_fg sc2 = sc_fg sc"
      using cmds_put_same [OF put] made(2) sc1(1) by simp_all
    show ?case
    proof (cases "sc_fg sc")
      case None
      then show ?thesis unfolding y using sc2 sc1(2) by (intro res_tracking) simp_all
    next
      case (Some fg)
      have "tracks (sys_res :: 'w sys \<Rightarrow> _) X (dev, sc2) own1 (do { (_, fg) \<leftarrow> run_fg (afmf_framegen_set_family family) fg;
          sc_modify (\<lambda>sc. sc\<lparr>sc_fg := Some fg\<rparr>); return True }) ?Q"
        unfolding y(2) sc2(1) [symmetric]
        by (rule tracks_weaken [OF swapchain_family_tracks]) (use sc2 sc1(2) Some in auto)
      then show ?thesis unfolding y(1) Some using sc2 y(2) by (intro tracks_if tracks_return) simp_all
    qed
  qed
  have pool: "tracks (sys_res :: 'w sys \<Rightarrow> _) X (dev, sc\<lparr>sc_pool := pool, sc_pool_family := family\<rparr>)
      (own + sc_objects sc + {#(OCommandPool, pool)#}) (do {
       ok \<leftarrow> slot_cmds_create pool ks;
       if \<not> ok then return False
       else (case sc_fg sc of None \<Rightarrow> return True
             | Some fg \<Rightarrow> do { (_, fg) \<leftarrow> run_fg (afmf_framegen_set_family family) fg; sc_modify (\<lambda>sc. sc\<lparr>sc_fg := Some fg\<rparr>); return True }) }) ?Q"
    if "pool \<noteq> 0" for pool ks
    using rest [OF refl that] that by (simp add: made held_some add.assoc)
  show ?thesis
    unfolding afmf_sc_ensure_pool_def
    by (rule tracks_sys(2), rule tracks_sys(1), unfold id_apply, intro tracks_if tracks_return srb.make [OF makes_some(6)] tracks_prod tracks_sys(4) pool)
       (simp_all add: True sized made held_some pool [simplified])
qed

section \<open>What the swapchain's resources promise\<close>

text \<open>
  C24: A swapchain's resources are freed, all of them once. Whatever call of the initialisation or of
  the command pool failed, the teardown leaves nothing of the swapchain behind but the device's
  pipelines and the \<open>X\<close> of others, and running it again, as a failed creation followed by the
  destruction does, destroys nothing twice.
\<close>
theorem swapchain_resources_freed:
  fixes s :: "'w sys"
  assumes run: "run_state (do { res \<leftarrow> afmf_sc_gen_init;
      _ \<leftarrow> (if res = VK_SUCCESS then afmf_sc_ensure_pool family else return False);
      afmf_sc_gen_teardown; afmf_sc_gen_teardown; return res }) s = (r, s')"
    and "sound s" and made: "made (eff_trace s) = gone (eff_trace s) + X + dev_objects (sys_dev s)"
    and ok: "pl_ok (sys_dev s)" and fresh: "sc_fresh (sys_sc s)"
  shows "made (eff_trace s') = gone (eff_trace s') + X + dev_objects (sys_dev s') \<and> pl_ok (sys_dev s') \<and> sc_fresh (sys_sc s')"
proof -
  let ?Q = "\<lambda>_ (dev', sc') own'. own' = dev_objects dev' \<and> pl_ok dev' \<and> sc_fresh sc'"
  have teardown: "tracks (sys_res :: 'w sys \<Rightarrow> _) X (dev, sc) (dev_objects dev + sc_objects sc) (do { afmf_sc_gen_teardown; return r }) ?Q"
    if "pl_ok dev" "sc_sized sc" for dev sc and r :: vk_result
    by (rule tracks_bind [OF teardown_tracks [OF that(2)]]) (use that(1) in \<open>auto intro!: tracks_return\<close>)
  have twice: "tracks (sys_res :: 'w sys \<Rightarrow> _) X (dev, sc) (dev_objects dev + sc_objects sc)
      (do { afmf_sc_gen_teardown; afmf_sc_gen_teardown; return r }) ?Q"
    if "pl_ok dev" "sc_sized sc" for dev sc and r :: vk_result
  proof (rule tracks_bind [OF teardown_tracks [OF that(2)]], goal_cases)
    case (1 a y own')
    then obtain sc' where y: "y = (dev, sc')" "own' = dev_objects dev" "sc_fresh sc'" by (cases y) auto
    then show ?case using teardown [OF that(1), of sc' r] by (simp add: sc_fresh_def)
  qed
  have all: "tracks (sys_res :: 'w sys \<Rightarrow> _) X (sys_dev s, sys_sc s) ({#} + dev_objects (sys_dev s)) (do { res \<leftarrow> afmf_sc_gen_init;
      _ \<leftarrow> (if res = VK_SUCCESS then afmf_sc_ensure_pool family else return False);
      afmf_sc_gen_teardown; afmf_sc_gen_teardown; return res }) ?Q"
  proof (rule tracks_bind [OF gen_init_tracks [OF ok fresh]], goal_cases)
    case (1 res y own')
    then obtain dev sc where y: "y = (dev, sc)" "own' = dev_objects dev + sc_objects sc" "pl_ok dev" "sc_sized sc"
      by (cases y) auto
    show ?case
      unfolding y(1,2)
      by (intro tracks_bind_if tracks_bind_return twice y tracks_bind [OF ensure_pool_tracks [OF y(4)]]) (use twice y(3) in auto)
  qed
  have "balanced X s ({#} + dev_objects (sys_dev s))" using assms(2) made by (simp add: balanced_def)
  from tracksD [OF all _ this run] show ?thesis by (auto simp: sys_res_def balanced_def)
qed

text \<open>
  C39: A successful initialisation is complete. Every image has its three semaphores and its slot's
  fence, the spare its own, the arrays have the length the driver counted, and there is a frame
  generation or a history image with its memory; the rings, the threads' flags and the rest of the
  swapchain's life are as they were, so with the threads started it is a start of the pipeline.
\<close>
theorem swapchain_resources_ready:
  fixes s :: "'w sys"
  assumes run: "run_state afmf_sc_gen_init s = (VK_SUCCESS, s')"
    and bal: "balanced X s (dev_objects (sys_dev s))" and ok: "pl_ok (sys_dev s)" and fresh: "sc_fresh (sys_sc s)"
  shows "gen_ready (sys_sc s') \<and> sc_life (sys_sc s') = sc_life (sys_sc s) \<and> pl_ok (sys_dev s')
    \<and> balanced X s' (dev_objects (sys_dev s') + sc_objects (sys_sc s'))"
proof -
  have "balanced X s ({#} + dev_objects (sys_dev s))" using bal by simp
  from tracksD [OF gen_init_tracks [OF ok fresh] _ this run] show ?thesis by (auto simp: sys_res_def)
qed

text \<open>A driver that grants everything, a device with one family, and no interpolation asked for.\<close>

definition plain_device :: afmf_device where
  "plain_device = capable_device\<lparr>dev_queue_families := [\<lparr>qf_flags = {QUEUE_COMPUTE}, qf_count = 1\<rparr>]\<rparr>"

definition plain_sys :: "afmf_swapchain \<Rightarrow> nat sys" where
  "plain_sys sc = (sample_sys sc)\<lparr>eff_driver := (\<lambda>c w. ((VK_SUCCESS, 3), w)), sys_dev := plain_device,
     sys_cfg := (sys_cfg (sample_sys sc))\<lparr>cfg_interpolate := False\<rparr>\<rparr>"

lemma plain_sys_simps [simp]:
  "sys_sc (plain_sys sc) = sc" "sys_dev (plain_sys sc) = plain_device" "eff_trace (plain_sys sc) = []"
  "cfg_interpolate (sys_cfg (plain_sys sc)) = False" "eff_driver (plain_sys sc) = (\<lambda>c w. ((VK_SUCCESS, 3), w))"
  "sound (plain_sys sc)" "pl_ok plain_device" "dev_objects plain_device = {#}"
  by (simp_all add: plain_sys_def sample_sys_def sound_def plain_device_def pl_ok_def dev_objects_def)

lemma zero_fresh: "sc_fresh sc_zero"
  by (simp add: sc_fresh_def sc_objects_def sc_sized_def sc_zero_def)

text \<open>States in which every call succeeds.\<close>

definition plain :: "nat sys \<Rightarrow> bool" where
  "plain s \<longleftrightarrow> eff_driver s = (\<lambda>c w. ((VK_SUCCESS, 3), w)) \<and> sys_dev s = plain_device \<and> \<not> cfg_interpolate (sys_cfg s)
     \<and> sc_fg (sys_sc s) = None"

lemma plain_place: "plain s \<Longrightarrow> \<exists>s'. run_state (place_create p) s = (VK_SUCCESS, s') \<and> plain s'"
  by (cases p) (auto simp: plain_def place_create_def run_vk_full)

lemma plain_history: "plain s \<Longrightarrow> \<exists>s'. run_state framegen_or_history s = (VK_SUCCESS, s') \<and> plain s'"
  by (auto simp: plain_def framegen_or_history_def create_history_def run_effects find_memory_type_def plain_device_def capable_device_def)

lemma plain_init: "plain s \<Longrightarrow> \<exists>s'. run_state afmf_sc_gen_init s = (VK_SUCCESS, s')"
proof -
  assume p: "plain s"
  let ?s = "s\<lparr>eff_trace := eff_trace s @ [Called (GetSwapchainImages (sc_handle (sys_sc s))) VK_SUCCESS 3],
    sys_sc := sc_arrays 3 (sys_sc s), eff_trace := eff_trace s @ [Called (GetSwapchainImages (sc_handle (sys_sc s))) VK_SUCCESS 3]
       @ [Called (GetSwapchainImages (sc_handle (sys_sc s))) VK_SUCCESS 3],
    sys_sc := sc_arrays 3 (sys_sc s)\<lparr>sc_images := map (eff_array s 3) [0..<3]\<rparr>\<rparr>"
  have "plain ?s" using p by (simp add: plain_def sc_arrays_def)
  moreover have "\<exists>s'. run_state m s = (VK_SUCCESS, s') \<and> plain s'"
    if "m \<in> set (map place_create (all_places 3) @ [framegen_or_history])" and "plain s" for m s
    using that plain_place [OF that(2)] plain_history [OF that(2)] by auto
  ultimately obtain s' where "run_state (ok_all (map place_create (all_places 3) @ [framegen_or_history])) ?s = (VK_SUCCESS, s')"
    using ok_all_succeeds [where P = plain] by blast
  then show ?thesis using p by (simp add: afmf_sc_gen_init_def run_vk_full array_of_def plain_def)
qed

lemma plain_plain_sys: "plain (plain_sys sc_zero)"
  by (simp add: plain_def sc_zero_def)

theorem swapchain_resources_ready_witness:
  "\<exists>s'. run_state afmf_sc_gen_init (plain_sys sc_zero) = (VK_SUCCESS, s') \<and> (sc_history (sys_sc s') \<noteq> 0 \<or> sc_fg (sys_sc s') \<noteq> None)"
proof -
  obtain s' where run: "run_state afmf_sc_gen_init (plain_sys sc_zero) = (VK_SUCCESS, s')" using plain_init [OF plain_plain_sys] by blast
  have "gen_ready (sys_sc s')"
    using swapchain_resources_ready [OF run, of "{#}"] by (simp add: balanced_def zero_fresh)
  then show ?thesis using run by (auto simp: gen_ready_def)
qed

theorem swapchain_resources_freed_witness:
  "\<exists>s'. run_state (do { res \<leftarrow> afmf_sc_gen_init;
      _ \<leftarrow> (if res = VK_SUCCESS then afmf_sc_ensure_pool 0 else return False);
      afmf_sc_gen_teardown; afmf_sc_gen_teardown; return res }) (plain_sys sc_zero) = (VK_SUCCESS, s')
     \<and> made (eff_trace s') = gone (eff_trace s') + dev_objects (sys_dev s')"
proof -
  let ?m = "do { res \<leftarrow> afmf_sc_gen_init;
      _ \<leftarrow> (if res = VK_SUCCESS then afmf_sc_ensure_pool 0 else return False);
      afmf_sc_gen_teardown; afmf_sc_gen_teardown; return res } :: (nat sys, vk_result) state"
  obtain r s' where run: "run_state ?m (plain_sys sc_zero) = (r, s')" by fastforce
  obtain s1 where init: "run_state afmf_sc_gen_init (plain_sys sc_zero) = (VK_SUCCESS, s1)" using plain_init [OF plain_plain_sys] by blast
  have "r = VK_SUCCESS" using run init by (auto split: prod.splits)
  moreover have "made (eff_trace s') = gone (eff_trace s') + {#} + dev_objects (sys_dev s')"
    using swapchain_resources_freed [OF run] by (simp add: zero_fresh)
  ultimately show ?thesis using run by auto
qed

end
