(* ===== verification/Create_Chain.thy ===== *)
theory Create_Chain
  imports System
begin

text \<open>
  What the surface offers and the copy of the application's create chain that lets a swapchain be
  created in MAILBOX (src/src/swapchain_chain.c). The chain is a list of nodes; the copy goes into
  \<open>storage\<close>, \<open>AFMF_CHAIN_BYTES\<close> long, at byte offsets that are part of the result. The sizes are the
  ones the structures have in the Vulkan headers on a 64-bit ABI. The driver writes at most the
  sixteen modes the code has room for.
\<close>

section \<open>The definitions\<close>

definition afmf_sc_surface_offers :: "afmf_device \<Rightarrow> handle \<Rightarrow> present_mode \<Rightarrow> bool" where
  "afmf_sc_surface_offers dev surface mode =
     (case dev_surface_present_modes dev of
        None \<Rightarrow> False
      | Some get \<Rightarrow>
          (case get surface of
             (res, modes) \<Rightarrow> if res \<noteq> VK_SUCCESS \<and> res \<noteq> VK_INCOMPLETE then False
                             else mode \<in> set (take 16 modes)))"

fun chain_node_size :: "create_node \<Rightarrow> nat" where
  "chain_node_size (PresentModesCreateInfo ms) = 32"
| "chain_node_size (PresentScalingCreateInfo p) = 32"
| "chain_node_size (ImageFormatListCreateInfo p) = 32"
| "chain_node_size (ImageCompressionControl p) = 32"
| "chain_node_size (DeviceGroupSwapchainCreateInfo p) = 24"
| "chain_node_size (SwapchainCounterCreateInfo p) = 24"
| "chain_node_size (SwapchainDisplayNativeHdrCreateInfo p) = 24"
| "chain_node_size (SwapchainLatencyCreateInfo p) = 24"
| "chain_node_size (SwapchainPresentBarrierCreateInfo p) = 24"
| "chain_node_size (OtherCreateNode t) = 0"

text \<open>The last list of present modes in the chain, as the first loop leaves it.\<close>

fun modes_list :: "create_node list \<Rightarrow> present_mode list option" where
  "modes_list [] = None"
| "modes_list (PresentModesCreateInfo ms # rest) =
     (case modes_list rest of None \<Rightarrow> Some ms | Some later \<Rightarrow> Some later)"
| "modes_list (n # rest) = modes_list rest"

text \<open>The application's modes that may share a swapchain with MAILBOX, \<open>None\<close> past the room for them.\<close>

fun cut_modes :: "present_mode list \<Rightarrow> present_mode list \<Rightarrow> present_mode list \<Rightarrow> present_mode list option" where
  "cut_modes compatible [] modes = Some modes"
| "cut_modes compatible (m # ms) modes =
     (if m \<notin> set compatible \<or> m = PRESENT_MODE_MAILBOX then cut_modes compatible ms modes
      else if length modes = AFMF_MAX_PRESENT_MODES - 1 then None
      else cut_modes compatible ms (modes @ [m]))"

definition align16 :: "nat \<Rightarrow> nat" where
  "align16 used = (used + 15) div 16 * 16"

fun copy_node :: "present_mode list \<Rightarrow> create_node \<Rightarrow> create_node" where
  "copy_node modes (PresentModesCreateInfo ms) = PresentModesCreateInfo modes"
| "copy_node modes n = n"

text \<open>
  The copying loop: the bytes used, the copies made so far with their offsets, and whether it got
  to the end.
\<close>

fun copy_chain ::
  "present_mode list \<Rightarrow> create_node list \<Rightarrow> nat \<Rightarrow> (nat \<times> create_node) list \<Rightarrow> bool \<times> (nat \<times> create_node) list"
where
  "copy_chain modes [] used copies = (True, copies)"
| "copy_chain modes (n # rest) used copies =
     (let size = chain_node_size n; off = align16 used
      in if size = 0 \<or> off + size > AFMF_CHAIN_BYTES then (False, copies)
         else copy_chain modes rest (off + size) (copies @ [(off, copy_node modes n)]))"

record chain_copy =
  copy_ok :: bool
  copy_modes :: "present_mode list" \<comment> \<open>\<open>modes\<close> with \<open>mode_count\<close>\<close>
  copy_out :: "create_node list" \<comment> \<open>the chain \<open>*out\<close> points at\<close>

definition afmf_sc_chain_allows_mailbox ::
  "afmf_device \<Rightarrow> handle \<Rightarrow> create_node list \<Rightarrow> chain_copy" where
  "afmf_sc_chain_allows_mailbox dev surface chain =
     (case modes_list chain of
        None \<Rightarrow> \<lparr>copy_ok = True, copy_modes = [], copy_out = chain\<rparr>
      | Some ms \<Rightarrow>
          (case dev_surface_capabilities2 dev of
             None \<Rightarrow> \<lparr>copy_ok = False, copy_modes = [], copy_out = chain\<rparr>
           | Some get \<Rightarrow>
               (case get surface of
                  (res, compatible) \<Rightarrow>
                    if res \<noteq> VK_SUCCESS then \<lparr>copy_ok = False, copy_modes = [], copy_out = chain\<rparr>
                    else (case cut_modes (take 16 compatible) ms [] of
                            None \<Rightarrow> \<lparr>copy_ok = False, copy_modes = [], copy_out = chain\<rparr>
                          | Some kept \<Rightarrow>
                              (let modes = kept @ [PRESENT_MODE_MAILBOX]
                               in case copy_chain modes chain 0 [] of
                                    (ok, copies) \<Rightarrow>
                                      \<lparr>copy_ok = ok, copy_modes = modes,
                                       copy_out = (if copies = [] then chain else map snd copies)\<rparr>)))))"

section \<open>The copy\<close>

lemma align16_ge: "used \<le> align16 used"
proof -
  have "used + 15 = (used + 15) div 16 * 16 + (used + 15) mod 16" by presburger
  moreover have "(used + 15) mod 16 \<le> 15" by presburger
  ultimately show ?thesis unfolding align16_def by linarith
qed

lemma align16_dvd [simp]: "16 dvd align16 used"
  by (simp add: align16_def)

text \<open>Where the copies may lie: 16-byte aligned, one after the other, inside the storage.\<close>

fun laid_out :: "nat \<Rightarrow> (nat \<times> create_node) list \<Rightarrow> bool" where
  "laid_out used [] = True"
| "laid_out used ((off, n) # rest) =
     (16 dvd off \<and> used \<le> off \<and> off + chain_node_size n \<le> AFMF_CHAIN_BYTES
      \<and> laid_out (off + chain_node_size n) rest)"

lemma chain_node_size_copy [simp]: "chain_node_size (copy_node modes n) = chain_node_size n"
  by (cases n) auto

lemma copy_chain_run:
  "\<exists>more. snd (copy_chain modes chain used copies) = copies @ more \<and> laid_out used more
     \<and> map snd more = map (copy_node modes) (take (length more) chain)
     \<and> (fst (copy_chain modes chain used copies) \<longrightarrow> length more = length chain)"
proof (induction chain arbitrary: used copies)
  case (Cons n rest)
  let ?size = "chain_node_size n" and ?off = "align16 used"
  show ?case
  proof (cases "?size = 0 \<or> ?off + ?size > AFMF_CHAIN_BYTES")
    case True
    then show ?thesis by (intro exI [of _ "[]"]) (auto simp: Let_def)
  next
    case False
    obtain more where
      "snd (copy_chain modes rest (?off + ?size) (copies @ [(?off, copy_node modes n)])) =
         (copies @ [(?off, copy_node modes n)]) @ more"
      "laid_out (?off + ?size) more" "map snd more = map (copy_node modes) (take (length more) rest)"
      "fst (copy_chain modes rest (?off + ?size) (copies @ [(?off, copy_node modes n)])) \<longrightarrow> length more = length rest"
      using Cons.IH [of "?off + ?size" "copies @ [(?off, copy_node modes n)]"] by blast
    then show ?thesis
      using False align16_ge [of used]
      by (intro exI [of _ "(?off, copy_node modes n) # more"]) (simp add: Let_def)
  qed
qed (intro exI [of _ "[]"], simp)

lemma cut_modes_eq:
  "cut_modes compatible ms modes = Some kept \<Longrightarrow>
     kept = modes @ filter (\<lambda>m. m \<in> set compatible \<and> m \<noteq> PRESENT_MODE_MAILBOX) ms"
  by (induction compatible ms modes rule: cut_modes.induct) (auto split: if_splits)

lemma cut_modes_length:
  "cut_modes compatible ms modes = Some kept \<Longrightarrow> length modes \<le> 7 \<Longrightarrow> length kept \<le> 7"
  by (induction compatible ms modes rule: cut_modes.induct) (auto split: if_splits)

text \<open>
  C31: When a swapchain may be created in MAILBOX, the chain used is the application's, node for
  node and in its order, with every list of present modes replaced by the cut-down one: the
  application's modes that the surface declares compatible, then MAILBOX, at most eight; without
  a list in the chain nothing is copied. The copies are 16-byte aligned, do not overlap and stay
  inside the kilobyte of storage.
\<close>
theorem mailbox_chain_copied:
  assumes run: "afmf_sc_chain_allows_mailbox dev surface chain = c" and ok: "copy_ok c"
  shows "case modes_list chain of
           None \<Rightarrow> copy_out c = chain \<and> copy_modes c = []
         | Some ms \<Rightarrow>
             copy_out c = map (copy_node (copy_modes c)) chain
             \<and> length (copy_modes c) \<le> 8
             \<and> (\<exists>get compatible. dev_surface_capabilities2 dev = Some get
                  \<and> get surface = (VK_SUCCESS, compatible)
                  \<and> copy_modes c = filter (\<lambda>m. m \<in> set (take 16 compatible) \<and> m \<noteq> PRESENT_MODE_MAILBOX) ms
                                    @ [PRESENT_MODE_MAILBOX])
             \<and> laid_out 0 (snd (copy_chain (copy_modes c) chain 0 []))"
proof (cases "modes_list chain")
  case None
  then show ?thesis using run by (auto simp: afmf_sc_chain_allows_mailbox_def)
next
  case (Some ms)
  then obtain get compatible kept where *: "dev_surface_capabilities2 dev = Some get"
      "get surface = (VK_SUCCESS, compatible)" "cut_modes (take 16 compatible) ms [] = Some kept"
    using run ok by (auto simp: afmf_sc_chain_allows_mailbox_def split: option.splits prod.splits if_splits)
  let ?modes = "kept @ [PRESENT_MODE_MAILBOX]"
  obtain more where copy: "snd (copy_chain ?modes chain 0 []) = more" "laid_out 0 more"
      "map snd more = map (copy_node ?modes) (take (length more) chain)"
      "fst (copy_chain ?modes chain 0 []) \<longrightarrow> length more = length chain"
    using copy_chain_run [of ?modes chain 0 "[]"] by auto
  have c: "c = \<lparr>copy_ok = fst (copy_chain ?modes chain 0 []), copy_modes = ?modes,
                copy_out = (if more = [] then chain else map snd more)\<rparr>"
    using run [symmetric] Some * by (simp add: afmf_sc_chain_allows_mailbox_def case_prod_beta Let_def copy(1))
  with ok copy(4) have "length more = length chain" by simp
  moreover from Some have "chain \<noteq> []" by auto
  ultimately have "copy_out c = map (copy_node ?modes) chain" using c copy(3) by auto
  then show ?thesis
    using Some * c copy(1,2) cut_modes_eq [OF *(3)] cut_modes_length [OF *(3)] by auto
qed

lemma modes_list_example:
  "modes_list [PresentModesCreateInfo [2, 0], ImageFormatListCreateInfo 5] = Some [2, 0]"
  by simp

definition mailbox_surface :: afmf_device where
  "mailbox_surface = dev_zero\<lparr>
     dev_surface_present_modes := Some (\<lambda>s. (VK_SUCCESS, [0, 1, 2])),
     dev_surface_capabilities2 := Some (\<lambda>s. (VK_SUCCESS, [0, 1]))\<rparr>"

theorem mailbox_chain_witness:
  "afmf_sc_chain_allows_mailbox mailbox_surface 4 [PresentModesCreateInfo [2, 0], ImageFormatListCreateInfo 5]
     = \<lparr>copy_ok = True, copy_modes = [0, 1],
        copy_out = [PresentModesCreateInfo [0, 1], ImageFormatListCreateInfo 5]\<rparr>"
proof -
  let ?c = "afmf_sc_chain_allows_mailbox mailbox_surface 4
              [PresentModesCreateInfo [2, 0], ImageFormatListCreateInfo 5]"
  have m: "copy_ok ?c" "copy_modes ?c = [0, 1]"
    by (simp_all add: afmf_sc_chain_allows_mailbox_def mailbox_surface_def align16_def Let_def)
  with mailbox_chain_copied [OF refl m(1)]
  have "copy_out ?c = [PresentModesCreateInfo [0, 1], ImageFormatListCreateInfo 5]" by simp
  with m show ?thesis by simp
qed



end
