(* ===== verification/Swapchain_Life.thy ===== *)
theory Swapchain_Life
  imports Swapchain_Resources Create_Chain
begin

text \<open>
  Creating and destroying a swapchain (src/src/swapchain_create.c, src/src/swapchain_destroy.c): the
  application's request patched with what generation needs, the swapchain linked into the device's
  list, unlinked again and freed. The list is \<open>sys_swapchains\<close>; an operation on one of its entries runs
  with that entry as the state's swapchain. A freed swapchain is \<open>sc_zero\<close>; \<open>calloc\<close> succeeds.
\<close>

section \<open>What the application asked for, patched\<close>

definition caps_zero :: surface_caps where
  "caps_zero = \<lparr>caps_max_images = 0, caps_usage = {}\<rparr>"

definition generation_blocker ::
  "afmf_config \<Rightarrow> afmf_device \<Rightarrow> swapchain_create_info \<Rightarrow> string option \<times> surface_caps" where
  "generation_blocker cfg dev info =
     (if cfg_passive cfg then
        (Some ''this process is Gamescope itself (AFMF_GAMESCOPE=1); the game inside gets the layer'', caps_zero)
      else (case dev_surface_capabilities dev of
              None \<Rightarrow> (Some ''surface capabilities unavailable'', caps_zero)
            | Some get \<Rightarrow> (case get (ci_surface info) of (res, caps) \<Rightarrow>
                (if res \<noteq> VK_SUCCESS then Some ''surface capabilities unavailable''
                 else if ci_array_layers info \<noteq> 1 then Some ''layered swapchain''
                 else if ci_present_mode info = PRESENT_MODE_SHARED_DEMAND_REFRESH
                       \<or> ci_present_mode info = PRESENT_MODE_SHARED_CONTINUOUS_REFRESH then Some ''shared present mode''
                 else if \<not> {USAGE_TRANSFER_SRC, USAGE_TRANSFER_DST} \<subseteq> caps_usage caps then
                   Some ''surface images cannot be copied''
                 else if caps_max_images caps \<noteq> 0 \<and> ci_min_image_count info + cfg_extra_images cfg > caps_max_images caps then
                   Some ''no room for the extra images''
                 else None, caps))))"

fun gather_families :: "u32 list \<Rightarrow> u32 \<Rightarrow> u32 list \<Rightarrow> u32 list" where
  "gather_families [] own families = families"
| "gather_families (b # bs) own families =
     (if length families < AFMF_MAX_FAMILIES
      then gather_families bs own (if b \<noteq> own then families @ [b] else families) else families)"

definition share_with_layer_queue ::
  "afmf_device \<Rightarrow> swapchain_create_info \<Rightarrow> swapchain_create_info \<Rightarrow> bool \<times> swapchain_create_info" where
  "share_with_layer_queue dev info patched =
     (let can_present = (if dev_async_queue dev = VK_NULL_HANDLE then False
        else (case dev_surface_support dev of
                None \<Rightarrow> False
              | Some get \<Rightarrow> (case get (dev_async_family dev) (ci_surface info) of (res, can) \<Rightarrow> res = VK_SUCCESS \<and> can)))
      in if \<not> can_present then (False, patched)
         else (let base = (if ci_sharing info = SHARING_CONCURRENT then ci_families info else dev_app_families dev);
                   gathered = gather_families base (dev_async_family dev) [];
                   families = (if length gathered < AFMF_MAX_FAMILIES then gathered @ [dev_async_family dev] else gathered)
               in (True, if length families \<ge> 2
                         then patched\<lparr>ci_sharing := SHARING_CONCURRENT, ci_families := families\<rparr> else patched)))"

record swapchain_plan =
  plan_info :: swapchain_create_info
  plan_async :: bool
  plan_mailbox :: bool \<comment> \<open>\<open>fifo_to_mailbox\<close>\<close>
  plan_storage :: bool
  plan_sampled :: bool
  plan_modes :: "present_mode list"

definition plan_none :: "swapchain_create_info \<Rightarrow> swapchain_plan" where
  "plan_none info = \<lparr>plan_info = info, plan_async = False, plan_mailbox = False, plan_storage = False,
     plan_sampled = False, plan_modes = []\<rparr>"

definition plan_mode :: "afmf_config \<Rightarrow> afmf_device \<Rightarrow> swapchain_create_info \<Rightarrow> swapchain_plan \<Rightarrow> swapchain_plan" where
  "plan_mode cfg dev info plan =
     (if cfg_present_mode cfg = AFMF_PRESENT_AUTO
         \<and> (ci_present_mode info = PRESENT_MODE_FIFO \<or> ci_present_mode info = PRESENT_MODE_FIFO_RELAXED)
         \<and> afmf_sc_surface_offers dev (ci_surface info) PRESENT_MODE_MAILBOX
      then (let c = afmf_sc_chain_allows_mailbox dev (ci_surface info) (ci_next info);
                plan = plan\<lparr>plan_info := (plan_info plan)\<lparr>ci_next := copy_out c\<rparr>, plan_modes := copy_modes c\<rparr>
            in if copy_ok c then plan\<lparr>plan_info := (plan_info plan)\<lparr>ci_present_mode := PRESENT_MODE_MAILBOX\<rparr>, plan_mailbox := True\<rparr>
               else plan)
      else plan)"

definition plan_generation :: "afmf_config \<Rightarrow> afmf_device \<Rightarrow> swapchain_create_info \<Rightarrow> surface_caps \<Rightarrow> swapchain_plan" where
  "plan_generation cfg dev info caps =
     (let sampled = cfg_direct_ingest cfg \<and> USAGE_SAMPLED \<in> caps_usage caps \<and> afmf_framegen_can_ingest_direct dev (ci_format info);
          storage = cfg_direct_output cfg \<and> USAGE_STORAGE \<in> caps_usage caps \<and> afmf_framegen_can_write_direct dev (ci_format info);
          usage = ci_usage info \<union> (if sampled then {USAGE_SAMPLED} else {}) \<union> (if storage then {USAGE_STORAGE} else {});
          plan = plan_mode cfg dev info ((plan_none (info\<lparr>ci_usage := usage\<rparr>))\<lparr>plan_sampled := sampled, plan_storage := storage\<rparr>);
          patched = (plan_info plan)\<lparr>ci_usage := usage \<union> {USAGE_TRANSFER_SRC, USAGE_TRANSFER_DST},
                       ci_min_image_count := ci_min_image_count info + cfg_extra_images cfg\<rparr>
      in (case share_with_layer_queue dev info patched of (async, patched) \<Rightarrow> plan\<lparr>plan_info := patched, plan_async := async\<rparr>))"

section \<open>Creation\<close>

text \<open>The new entry, before its generation is set up.\<close>

definition sc_created :: "handle \<Rightarrow> swapchain_create_info \<Rightarrow> swapchain_plan \<Rightarrow> afmf_swapchain" where
  "sc_created handle info plan = sc_zero\<lparr>sc_handle := handle, sc_format := ci_format info, sc_extent := ci_extent info,
     sc_present_mode := ci_present_mode (plan_info plan), sc_fifo_to_mailbox := plan_mailbox plan,
     sc_storage_usage := plan_storage plan, sc_sampled_usage := plan_sampled plan, sc_allowed_modes := plan_modes plan,
     sc_min_image_count := ci_min_image_count info, sc_async := plan_async plan, sc_deferred_result := VK_SUCCESS\<rparr>"

definition list_modify :: "(afmf_swapchain list \<Rightarrow> afmf_swapchain list) \<Rightarrow> ('w sys, unit) state" where
  "list_modify f = modify (\<lambda>s. s\<lparr>sys_swapchains := f (sys_swapchains s)\<rparr>)"

definition swapchain_link :: "('w sys, unit) state" where
  "swapchain_link = do {
     sc \<leftarrow> sc_gets id;
     lock_mutex DevLock;
     list_modify (\<lambda>scs. sc # scs);
     unlock_mutex DevLock
   }"

definition generation_start :: "('w sys, unit) state" where
  "generation_start = do {
     sc_modify (\<lambda>sc. sc\<lparr>sc_gen_enabled := True\<rparr>);
     gen \<leftarrow> afmf_sc_gen_init;
     whenb (gen \<noteq> VK_SUCCESS) afmf_sc_gen_teardown
   }"

text \<open>The result and the handle written to \<open>*out\<close>.\<close>

definition afmf_swapchain_create :: "swapchain_create_info \<Rightarrow> ('w sys, vk_result \<times> handle) state" where
  "afmf_swapchain_create info = do {
     cfg \<leftarrow> cfg_gets id;
     dev \<leftarrow> dev_gets id;
     let (blocker, caps) = generation_blocker cfg dev info;
     let plan = (if blocker = None then plan_generation cfg dev info caps else plan_none info);
     (res, handle) \<leftarrow> vk_full (CreateSwapchain (plan_info plan));
     if res \<noteq> VK_SUCCESS then return (res, handle)
     else do {
       sc_modify (\<lambda>_. sc_created handle info plan);
       whenb (blocker = None) generation_start;
       swapchain_link;
       return (VK_SUCCESS, handle)
     }
   }"

section \<open>Destruction\<close>

definition report_and_free :: "('w sys, unit) state" where
  "report_and_free = do {
     afmf_sc_gen_teardown;
     sc_modify (\<lambda>_. sc_zero)
   }"

text \<open>The numbers of the report.\<close>

definition report_skipped :: "afmf_swapchain \<Rightarrow> nat" where
  "report_skipped sc = sc_skipped_no_image sc + sc_skipped_no_history sc + sc_reduced_frames sc"

fun unlink_locked :: "afmf_swapchain list \<Rightarrow> handle \<Rightarrow> afmf_swapchain option \<times> afmf_swapchain list" where
  "unlink_locked [] handle = (None, [])"
| "unlink_locked (sc # rest) handle =
     (if sc_handle sc = handle then (Some sc, rest)
      else (case unlink_locked rest handle of (found, rest') \<Rightarrow> (found, sc # rest')))"

definition afmf_swapchain_destroy :: "handle \<Rightarrow> ('w sys, unit) state" where
  "afmf_swapchain_destroy swapchain = do {
     whenb (swapchain \<noteq> VK_NULL_HANDLE) (do {
       lock_mutex DevLock;
       (found, rest) \<leftarrow> gets (\<lambda>s. unlink_locked (sys_swapchains s) swapchain);
       list_modify (\<lambda>_. rest);
       unlock_mutex DevLock;
       (case found of
          None \<Rightarrow> return ()
        | Some sc \<Rightarrow> do { sc_modify (\<lambda>_. sc); report_and_free })
     });
     _ \<leftarrow> vk (DestroyObj OSwapchain swapchain);
     return ()
   }"

text \<open>Every entry of a list in turn, as the state's swapchain.\<close>

primrec drain_each :: "afmf_swapchain list \<Rightarrow> ('w sys, afmf_swapchain list) state" where
  "drain_each [] = return []"
| "drain_each (sc # rest) = do {
     sc_modify (\<lambda>_. sc);
     afmf_sc_presenter_drain;
     sc' \<leftarrow> sc_gets id;
     rest' \<leftarrow> drain_each rest;
     return (sc' # rest')
   }"

definition afmf_swapchain_drain_all :: "('w sys, unit) state" where
  "afmf_swapchain_drain_all = do {
     lock_mutex DevLock;
     scs \<leftarrow> gets sys_swapchains;
     scs' \<leftarrow> drain_each scs;
     list_modify (\<lambda>_. scs');
     unlock_mutex DevLock
   }"

primrec free_each :: "afmf_swapchain list \<Rightarrow> ('w sys, unit) state" where
  "free_each [] = return ()"
| "free_each (sc # rest) = do {
     sc_modify (\<lambda>_. sc);
     report_and_free;
     free_each rest
   }"

definition afmf_swapchain_forget_all :: "('w sys, unit) state" where
  "afmf_swapchain_forget_all = do {
     lock_mutex DevLock;
     scs \<leftarrow> gets sys_swapchains;
     list_modify (\<lambda>_. []);
     unlock_mutex DevLock;
     free_each scs
   }"

section \<open>The families the images are shared between\<close>

lemma gather_families_eq:
  "length families \<le> 8 \<Longrightarrow>
     gather_families base own families = families @ take (8 - length families) (filter (\<lambda>b. b \<noteq> own) base)"
proof (induction base own families rule: gather_families.induct)
  case (2 b bs own families)
  show ?case
  proof (cases "length families < 8")
    case True
    then have "8 - length families = Suc (7 - length families)" by simp
    then show ?thesis using 2 True by simp
  qed (use 2 in simp)
qed simp

definition layer_families :: "afmf_device \<Rightarrow> swapchain_create_info \<Rightarrow> u32 list" where
  "layer_families dev info =
     (let others = filter (\<lambda>b. b \<noteq> dev_async_family dev)
        (if ci_sharing info = SHARING_CONCURRENT then ci_families info else dev_app_families dev)
      in if length others < 8 then others @ [dev_async_family dev] else take 8 others)"

lemma share_families:
  assumes "share_with_layer_queue dev info patched = (True, patched')"
  shows "patched' = (if length (layer_families dev info) \<ge> 2
     then patched\<lparr>ci_sharing := SHARING_CONCURRENT, ci_families := layer_families dev info\<rparr> else patched)"
proof -
  let ?base = "if ci_sharing info = SHARING_CONCURRENT then ci_families info else dev_app_families dev"
  let ?g = "gather_families ?base (dev_async_family dev) []"
  have g: "?g = take 8 (filter (\<lambda>b. b \<noteq> dev_async_family dev) ?base)" by (simp add: gather_families_eq)
  define fs where "fs = (if length ?g < AFMF_MAX_FAMILIES then ?g @ [dev_async_family dev] else ?g)"
  have "fs = layer_families dev info"
    unfolding fs_def g layer_families_def Let_def by simp
  moreover have "patched' = (if length fs \<ge> 2 then patched\<lparr>ci_sharing := SHARING_CONCURRENT, ci_families := fs\<rparr> else patched)"
    using assms unfolding share_with_layer_queue_def Let_def fs_def [symmetric] by (simp split: if_split_asm)
  ultimately show ?thesis by simp
qed

lemma share_not: "share_with_layer_queue dev info patched = (False, patched') \<Longrightarrow> patched' = patched"
  by (auto simp: share_with_layer_queue_def Let_def split: if_splits)

section \<open>The request\<close>

lemma plan_mode_kept:
  "plan_sampled (plan_mode cfg dev info plan) = plan_sampled plan" "plan_storage (plan_mode cfg dev info plan) = plan_storage plan"
  "ci_surface (plan_info (plan_mode cfg dev info plan)) = ci_surface (plan_info plan)"
  "ci_format (plan_info (plan_mode cfg dev info plan)) = ci_format (plan_info plan)"
  "ci_extent (plan_info (plan_mode cfg dev info plan)) = ci_extent (plan_info plan)"
  "ci_array_layers (plan_info (plan_mode cfg dev info plan)) = ci_array_layers (plan_info plan)"
  "ci_sharing (plan_info (plan_mode cfg dev info plan)) = ci_sharing (plan_info plan)"
  "ci_families (plan_info (plan_mode cfg dev info plan)) = ci_families (plan_info plan)"
  by (simp_all add: plan_mode_def Let_def)

lemma plan_mode_changes:
  assumes "ci_present_mode (plan_info plan) = ci_present_mode info" and "\<not> plan_mailbox plan"
  shows "if plan_mailbox (plan_mode cfg dev info plan)
    then ci_present_mode (plan_info (plan_mode cfg dev info plan)) = PRESENT_MODE_MAILBOX
      \<and> ci_present_mode info \<in> {PRESENT_MODE_FIFO, PRESENT_MODE_FIFO_RELAXED} \<and> cfg_present_mode cfg = AFMF_PRESENT_AUTO
      \<and> afmf_sc_surface_offers dev (ci_surface info) PRESENT_MODE_MAILBOX
      \<and> copy_ok (afmf_sc_chain_allows_mailbox dev (ci_surface info) (ci_next info))
    else ci_present_mode (plan_info (plan_mode cfg dev info plan)) = ci_present_mode info"
  using assms by (auto simp: plan_mode_def Let_def)


section \<open>The books of a swapchain's life\<close>

lemma makes_swapchain [simp]: "made_by (CreateSwapchain info) = Some OSwapchain"
  by (simp add: made_by_def)

text \<open>The entry's handle and the other entries are not touched by its operations.\<close>

definition handle_in :: "handle \<Rightarrow> afmf_swapchain list \<Rightarrow> 'w sys \<Rightarrow> bool" where
  "handle_in h scs s \<longleftrightarrow> sc_handle (sys_sc s) = h \<and> sys_swapchains s = scs"

lemma effect_free_handle_in [simp, intro]: "effect_free (handle_in h scs)"
  by (simp add: effect_free_def handle_in_def)

lemma keeps_handle_modify: "(\<And>sc. sc_handle (f sc) = sc_handle sc) \<Longrightarrow> keeps (handle_in h scs) (sc_modify f)"
  by (simp add: keeps_def handle_in_def)

lemma keeps_handle_run: "keeps (handle_in h scs) (run_fg m fg)"
  by (simp add: keeps_def handle_in_def run_fg_def split: prod.split)

lemma keeps_handle_destroy: "keeps (handle_in h scs) (destroy_if k x)"
  unfolding destroy_if_def by (intro keeps_intros effect_free_handle_in)

lemmas keeps_handle = keeps_intros effect_free_handle_in keeps_handle_modify keeps_handle_run keeps_handle_destroy

lemma sc_handle_put [simp]: "sc_handle (place_put p h sc) = sc_handle sc"
  by (cases p) simp_all

lemma keeps_handle_stop: "keeps (handle_in h scs) afmf_sc_presenter_stop"
  unfolding afmf_sc_presenter_stop_def worker_stop_def worker_stop_request_def worker_stopped_def presenter_stop_request_def
    presenter_stopped_def
  by (intro keeps_handle; simp)

lemma keeps_do_map: "(\<And>x. keeps P (f x)) \<Longrightarrow> keeps P (do_all (map f xs))"
  by (induction xs) (auto intro!: keeps_bind keeps_return)

lemma keeps_handle_parts:
  "keeps (handle_in h scs) (slot_destroy slot)" "keeps (handle_in h scs) (sems_destroy sc i)" "keeps (handle_in h scs) spare_destroy"
  unfolding slot_destroy_def sems_destroy_def spare_destroy_def by (intro keeps_handle; simp)+

lemma keeps_handle_teardown: "keeps (handle_in h scs) afmf_sc_gen_teardown"
  unfolding afmf_sc_gen_teardown_def
  by (intro keeps_bind keeps_if keeps_option keeps_do_map keeps_handle_parts keeps_handle_stop keeps_handle) (simp_all add: sc_torn_down_def)

lemma keeps_handle_init: "keeps (handle_in h scs) afmf_sc_gen_init"
  unfolding afmf_sc_gen_init_def framegen_or_history_def create_history_def
  by (intro keeps_handle; (auto simp: sc_arrays_def place_create_def intro!: keeps_handle)?)

lemma keeps_handle_start: "keeps (handle_in h scs) generation_start"
  unfolding generation_start_def by (intro keeps_handle keeps_handle_init keeps_handle_teardown) simp

lemma generation_start_tracks:
  assumes ok: "pl_ok dev" and fresh: "sc_fresh sc"
  shows "tracks (sys_res :: 'w sys \<Rightarrow> _) X (dev, sc) (own + dev_objects dev) generation_start
    (\<lambda>_ (dev', sc') own'. own' = own + dev_objects dev' + sc_objects sc' \<and> pl_ok dev' \<and> sc_sized sc')"
  unfolding generation_start_def
proof (rule tracks_sys(4), rule tracks_bind [OF gen_init_tracks [OF ok]], goal_cases)
  case 1
  then show ?case using fresh by (simp add: sc_fresh_def sc_objects_def sc_sized_def)
next
  case (2 r y own1)
  obtain dev1 sc1 where y: "y = (dev1, sc1)" "own1 = own + dev_objects dev1 + sc_objects sc1" "pl_ok dev1" "sc_sized sc1"
    using 2 by (cases y) auto
  show ?case
    unfolding y(1,2)
    by (intro tracks_if tracks_return tracks_weaken [OF teardown_tracks [OF y(4)]]) (use y in \<open>auto simp: sc_fresh_def\<close>)
qed

lemma report_and_free_tracks:
  assumes "sc_sized sc"
  shows "tracks (sys_res :: 'w sys \<Rightarrow> _) X (dev, sc) (own + sc_objects sc) report_and_free
    (\<lambda>_ (dev', sc') own'. dev' = dev \<and> own' = own \<and> sc' = sc_zero)"
  unfolding report_and_free_def
  by (rule tracks_bind [OF teardown_tracks [OF assms]]) (auto intro!: tracks_sc_modify_last)

lemma free_each_tracks:
  assumes "\<forall>sc \<in> set scs. sc_sized sc"
  shows "tracks (sys_res :: 'w sys \<Rightarrow> _) X (dev, sc) (own + sum_list (map sc_objects scs)) (free_each scs)
    (\<lambda>_ (dev', sc') own'. dev' = dev \<and> own' = own)"
  using assms
proof (induction scs arbitrary: sc)
  case (Cons x scs)
  have own: "own + sum_list (map sc_objects (x # scs)) = own + sum_list (map sc_objects scs) + sc_objects x" by (simp add: add_ac)
  show ?case
    unfolding free_each.simps own
    by (rule tracks_sys(4), rule tracks_bind [OF report_and_free_tracks]) (use Cons in auto)
qed (auto intro: tracks_return)

text \<open>The device, the entry worked on and the list of the others.\<close>

definition sys_all :: "'w sys \<Rightarrow> afmf_device \<times> afmf_swapchain \<times> afmf_swapchain list" where
  "sys_all s = (sys_dev s, sys_sc s, sys_swapchains s)"

interpretation sab: books "sys_all :: 'w sys \<Rightarrow> afmf_device \<times> afmf_swapchain \<times> afmf_swapchain list"
  by unfold_locales (simp add: sys_all_def)

lemma books_all: "books (sys_all :: 'w sys \<Rightarrow> _)" ..

lemma balanced_list [simp]: "balanced X (s\<lparr>sys_swapchains := scs\<rparr>) own = balanced X s own"
  by (simp add: balanced_def sound_def)

lemma tracks_state_modify:
  assumes "\<And>s. v s = x \<Longrightarrow> v (f s) = y" and "\<And>s own. balanced X (f s) own = balanced X s own" and k: "tracks v X y own (k ()) Q"
  shows "tracks v X x own (State_Monad.bind (modify f) k) Q"
  unfolding tracks_def
proof (intro allI impI)
  fix s a s' assume "v s = x" "balanced X s own" "run_state (State_Monad.bind (modify f) k) s = (a, s')"
  then show "\<exists>own'. balanced X s' own' \<and> Q a (v s') own'"
    using tracksD [OF k, of "f s" a s'] assms(1,2) by simp
qed

lemma tracks_all_modify:
  "tracks sys_all X (dev, h sc, scs) own (k ()) Q \<Longrightarrow> tracks sys_all X (dev, sc, scs) own (State_Monad.bind (sc_modify h) k) Q"
  "tracks sys_all X (dev, sc, l scs) own (k ()) Q \<Longrightarrow> tracks sys_all X (dev, sc, scs) own (State_Monad.bind (list_modify l) k) Q"
  unfolding sc_modify_def list_modify_def by (rule tracks_state_modify; simp add: sys_all_def)+

lemma tracks_all_modify_last: "Q () (dev, h sc, scs) own \<Longrightarrow> tracks sys_all X (dev, sc, scs) own (sc_modify h) Q"
  by (auto simp: tracks_def sys_all_def)

lemma tracks_all_gets:
  "tracks sys_all X (dev, sc, scs) own (k (g sc)) Q \<Longrightarrow> tracks sys_all X (dev, sc, scs) own (State_Monad.bind (sc_gets g) k) Q"
  "tracks sys_all X (dev, sc, scs) own (k (f scs)) Q \<Longrightarrow>
     tracks sys_all X (dev, sc, scs) own (State_Monad.bind (gets (\<lambda>s. f (sys_swapchains s))) k) Q"
  "tracks sys_all X (dev, sc, scs) own (k (e dev)) Q \<Longrightarrow> tracks sys_all X (dev, sc, scs) own (State_Monad.bind (dev_gets e) k) Q"
  "(\<And>c. tracks sys_all X y own (k c) Q) \<Longrightarrow> tracks sys_all X y own (State_Monad.bind (cfg_gets c) k) Q"
  by (auto simp: tracks_def sys_all_def)

lemma tracks_all:
  assumes m: "tracks sys_res X (dev, sc) own m Q" and keeps: "\<And>h scs. keeps (handle_in h scs) m"
  shows "tracks sys_all X (dev, sc, scs) own m (\<lambda>a (dev', sc', scs') o'. Q a (dev', sc') o' \<and> scs' = scs \<and> sc_handle sc' = sc_handle sc)"
  unfolding tracks_def
proof (intro allI impI)
  fix s a s' assume s: "sys_all s = (dev, sc, scs)" "balanced X s own" "run_state m s = (a, s')"
  have "handle_in (sc_handle sc) scs s'"
    using keeps_run [OF keeps _ s(3), of "sc_handle sc" scs] s(1) by (simp add: handle_in_def sys_all_def)
  moreover have "sys_res s = (dev, sc)" using s(1) by (simp add: sys_all_def sys_res_def)
  ultimately show "\<exists>own'. balanced X s' own' \<and> (case sys_all s' of (dev', sc', scs') \<Rightarrow> \<lambda>o'. Q a (dev', sc') o' \<and> scs' = scs \<and> sc_handle sc' = sc_handle sc) own'"
    using tracksD [OF m _ s(2,3)] by (auto simp: sys_all_def sys_res_def handle_in_def)
qed

lemma sc_created_fresh: "sc_fresh (sc_created h info plan)" "sc_handle (sc_created h info plan) = h"
  by (simp_all add: sc_fresh_def sc_objects_def sc_sized_def sc_created_def sc_zero_def)

text \<open>A creation hands out a handle the list then starts with, owning what the entry owns.\<close>

lemma create_tracks_all:
  assumes ok: "pl_ok dev"
  shows "tracks (sys_all :: 'w sys \<Rightarrow> _) X (dev, sc0, scs) (own + dev_objects dev) (afmf_swapchain_create info)
    (\<lambda>(r, h) (dev', sc', scs') own'. pl_ok dev' \<and>
       (if r = VK_SUCCESS then h \<noteq> VK_NULL_HANDLE \<and> scs' = sc' # scs \<and> sc_handle sc' = h \<and> sc_sized sc'
          \<and> own' = own + {#(OSwapchain, h)#} + dev_objects dev' + sc_objects sc'
        else scs' = scs \<and> own' = own + dev_objects dev'))"
  (is "tracks _ _ _ _ _ ?Q")
proof -
  have link: "tracks (sys_all :: 'w sys \<Rightarrow> _) X (dev1, sc1, scs) own1 (do { swapchain_link; return (VK_SUCCESS, h) }) ?Q"
    if "pl_ok dev1" "sc_handle sc1 = h" "sc_sized sc1" "h \<noteq> 0" "own1 = own + {#(OSwapchain, h)#} + dev_objects dev1 + sc_objects sc1"
    for dev1 sc1 own1 h
    unfolding swapchain_link_def
    by (intro tracks_assoc tracks_all_gets(1) sab.tracks_emit tracks_all_modify tracks_return) (use that in simp_all)
  have start: "tracks (sys_all :: 'w sys \<Rightarrow> _) X (dev, sc_created h info plan, scs) (own + dev_objects dev + {#(OSwapchain, h)#})
      (do { whenb b generation_start; swapchain_link; return (VK_SUCCESS, h) }) ?Q" if "h \<noteq> 0" for h plan b
  proof (cases b)
    case True
    have own: "own + dev_objects dev + {#(OSwapchain, h)#} = own + {#(OSwapchain, h)#} + dev_objects dev" by simp
    show ?thesis
      unfolding own if_P [OF True]
    proof (rule tracks_bind [OF tracks_all [OF generation_start_tracks [OF ok sc_created_fresh(1)] keeps_handle_start]], goal_cases)
      case (1 u y own1)
      obtain dev1 sc1 where y: "y = (dev1, sc1, scs)" "own1 = own + {#(OSwapchain, h)#} + dev_objects dev1 + sc_objects sc1"
        "pl_ok dev1" "sc_sized sc1" "sc_handle sc1 = h" using 1 by (cases y) (auto simp: sc_created_fresh)
      show ?case unfolding y(1) by (rule link) (use y that in simp_all)
    qed
  next
    case False
    show ?thesis unfolding if_not_P [OF False]
      by (intro tracks_bind_return link) (use ok that sc_created_fresh [of h info plan] in \<open>simp_all add: sc_fresh_def\<close>)
  qed
  show ?thesis
    unfolding afmf_swapchain_create_def Let_def
    by (intro tracks_all_gets tracks_prod sab.make [OF makes_swapchain] tracks_if tracks_return tracks_all_modify)
       (use ok start [where b = True] start [where b = False] in simp_all)
qed

lemma destroy_tracks_all:
  assumes "sc_handle sc = h" "h \<noteq> VK_NULL_HANDLE" "sc_sized sc"
  shows "tracks (sys_all :: 'w sys \<Rightarrow> _) X (dev, sc0, sc # scs) (own + {#(OSwapchain, h)#} + sc_objects sc) (afmf_swapchain_destroy h)
    (\<lambda>_ (dev', sc', scs') own'. dev' = dev \<and> scs' = scs \<and> own' = own)"
proof -
  have free: "tracks (sys_all :: 'w sys \<Rightarrow> _) X (dev, sc, scs) (own + {#(OSwapchain, h)#} + sc_objects sc) report_and_free
      (\<lambda>_ y o'. y = (dev, sc_zero, scs) \<and> o' = own + {#(OSwapchain, h)#})"
    unfolding report_and_free_def
  proof (rule tracks_bind [OF tracks_all [OF teardown_tracks [OF assms(3)] keeps_handle_teardown]], goal_cases)
    case (1 u y own1)
    then obtain sc1 where y: "y = (dev, sc1, scs)" "own1 = own + {#(OSwapchain, h)#}" by (cases y) auto
    show ?case unfolding y by (rule tracks_all_modify_last) simp
  qed
  have gone: "tracks (sys_all :: 'w sys \<Rightarrow> _) X y (own + {#(OSwapchain, h)#}) (do { _ \<leftarrow> vk (DestroyObj OSwapchain h); return () })
      (\<lambda>_ z o'. z = y \<and> o' = own)" for y
    by (rule tracks_destroys_now [OF books_all assms(2)]) (simp_all add: tracks_return)
  have unlink: "unlink_locked (sc # scs) h = (Some sc, scs)" using assms(1) by simp
  have rest: "tracks (sys_all :: 'w sys \<Rightarrow> _) X (dev, sc, scs) (own + {#(OSwapchain, h)#} + sc_objects sc)
      (do { report_and_free; _ \<leftarrow> vk (DestroyObj OSwapchain h); return () })
      (\<lambda>_ (dev', sc', scs') own'. dev' = dev \<and> scs' = scs \<and> own' = own)"
    by (rule tracks_bind [OF free], elim conjE, hypsubst, rule tracks_weaken [OF gone]) auto
  show ?thesis
    unfolding afmf_swapchain_destroy_def if_P [OF assms(2)]
    by (rule tracks_assoc, rule sab.tracks_emit, simp, simp, rule tracks_assoc, rule tracks_all_gets(2), unfold unlink prod.case,
        rule tracks_assoc, rule tracks_all_modify(2), rule tracks_assoc, rule sab.tracks_emit, simp, simp, unfold option.case,
        rule tracks_assoc, rule tracks_all_modify(1), rule rest)
qed

text \<open>
  C25: A swapchain's life is balanced. Whatever the driver answers, a creation that fails leaves the
  list and the books as they were; one that succeeds, generation on or off, followed by the
  destruction of the handle it gave out, leaves the list of the others and everything made
  destroyed, once each, but the device's pipelines and the \<open>X\<close> of others.
\<close>
theorem swapchain_lifetime:
  fixes s :: "'w sys"
  assumes run: "run_state (do { (res, handle) \<leftarrow> afmf_swapchain_create info;
      whenb (res = VK_SUCCESS) (afmf_swapchain_destroy handle);
      return res }) s = (r, s')"
    and "sound s" and made: "made (eff_trace s) = gone (eff_trace s) + X + dev_objects (sys_dev s)" and ok: "pl_ok (sys_dev s)"
  shows "made (eff_trace s') = gone (eff_trace s') + X + dev_objects (sys_dev s') \<and> pl_ok (sys_dev s')
    \<and> sys_swapchains s' = sys_swapchains s"
proof -
  let ?Q = "\<lambda>_ (dev', sc', scs') own'. own' = dev_objects dev' \<and> pl_ok dev' \<and> scs' = sys_swapchains s"
  have all: "tracks (sys_all :: 'w sys \<Rightarrow> _) X (sys_dev s, sys_sc s, sys_swapchains s) ({#} + dev_objects (sys_dev s))
      (do { (res, handle) \<leftarrow> afmf_swapchain_create info;
        whenb (res = VK_SUCCESS) (afmf_swapchain_destroy handle); return res }) ?Q"
  proof (rule tracks_bind [OF create_tracks_all [OF ok]], goal_cases)
    case (1 a y own')
    obtain res h dev sc scs where e: "a = (res, h)" "y = (dev, sc, scs)" by (cases a; cases y)
    show ?case
    proof (cases "res = VK_SUCCESS")
      case True
      then have c: "scs = sc # sys_swapchains s" "sc_handle sc = h" "h \<noteq> 0" "sc_sized sc" "pl_ok dev"
        "own' = dev_objects dev + {#(OSwapchain, h)#} + sc_objects sc" using 1 by (simp_all add: e)
      show ?thesis
        unfolding e prod.case if_P [OF True] c(1,6)
        by (rule tracks_bind [OF destroy_tracks_all [OF c(2,3,4)]]) (use c(5) in \<open>auto intro!: tracks_return\<close>)
    qed (use 1 in \<open>auto simp: e intro!: tracking\<close>)
  qed
  have "balanced X s ({#} + dev_objects (sys_dev s))" using assms(2) made by (simp add: balanced_def)
  from tracksD [OF all _ this run] show ?thesis by (auto simp: sys_all_def balanced_def)
qed

text \<open>
  Destroying the device leaves no swapchain's resources behind. Forgetting the swapchains the
  application left alive frees everything the entries of the list own, once each, and empties it.
\<close>
theorem forgotten_swapchains_freed:
  fixes s :: "'w sys"
  assumes run: "run_state afmf_swapchain_forget_all s = (u, s')" and "sound s"
    and made: "made (eff_trace s) = gone (eff_trace s) + X + sum_list (map sc_objects (sys_swapchains s))"
    and sized: "\<forall>sc \<in> set (sys_swapchains s). sc_sized sc"
  shows "made (eff_trace s') = gone (eff_trace s') + X \<and> sys_swapchains s' = [] \<and> sys_dev s' = sys_dev s"
proof -
  let ?scs = "sys_swapchains s"
  have keeps: "keeps (\<lambda>s. sys_swapchains s = scs) (free_each xs)" for scs xs
  proof (induction xs)
    case (Cons x xs)
    have "keeps (\<lambda>s. sys_swapchains s = scs) afmf_sc_gen_teardown"
      using keeps_handle_teardown [of _ scs] unfolding keeps_def handle_in_def by blast
    then show ?case unfolding free_each.simps report_and_free_def using Cons by (intro keeps_bind) (simp_all add: keeps_def)
  qed (simp add: keeps_return)
  obtain s1 where s1: "run_state (free_each ?scs) s1 = (u, s')"
    "s1 = s\<lparr>sys_swapchains := [], eff_trace := eff_trace s @ [Locked DevLock, Unlocked DevLock]\<rparr>"
    using run by (simp add: afmf_swapchain_forget_all_def list_modify_def)
  have "balanced X s1 ({#} + sum_list (map sc_objects ?scs))" using assms(2) made by (simp add: s1(2) balanced_def sound_def)
  from tracksD [OF free_each_tracks [OF sized] _ this s1(1)]
  have "balanced X s' {#}" "sys_dev s' = sys_dev s" by (auto simp: sys_res_def s1(2))
  moreover have "sys_swapchains s' = []" using keeps_run [OF keeps _ s1(1)] by (simp add: s1(2))
  ultimately show ?thesis by (simp add: balanced_def)
qed

definition sample_info :: swapchain_create_info where
  "sample_info = \<lparr>ci_next = [], ci_surface = 4, ci_min_image_count = 3, ci_format = B8G8R8A8_UNORM,
     ci_extent = \<lparr>width = 1920, height = 1080\<rparr>, ci_array_layers = 1, ci_usage = {OTHER_USAGE 16},
     ci_sharing = SHARING_EXCLUSIVE, ci_families = [], ci_present_mode = PRESENT_MODE_FIFO\<rparr>"

text \<open>A surface with MAILBOX, room for eight images, the transfers and sampled usage, and a compute queue of the layer.\<close>

definition surface_device :: afmf_device where
  "surface_device = plain_device\<lparr>
     dev_surface_capabilities := Some (\<lambda>_. (VK_SUCCESS, \<lparr>caps_max_images = 8,
        caps_usage = {USAGE_TRANSFER_SRC, USAGE_TRANSFER_DST, USAGE_SAMPLED, OTHER_USAGE 16}\<rparr>)),
     dev_surface_present_modes := Some (\<lambda>_. (VK_SUCCESS, [PRESENT_MODE_FIFO, PRESENT_MODE_MAILBOX])),
     dev_surface_support := Some (\<lambda>_ _. (VK_SUCCESS, True)),
     dev_async_queue := 77, dev_async_family := 1, dev_app_families := [0]\<rparr>"

definition roomy_config :: afmf_config where
  "roomy_config = cfg_default\<lparr>cfg_extra_images := 2, cfg_passive := False, cfg_interpolate := False\<rparr>"


definition surface_sys :: "nat sys" where
  "surface_sys = (plain_sys sc_zero)\<lparr>sys_dev := surface_device, sys_cfg := roomy_config\<rparr>"

theorem swapchain_lifetime_witness:
  "\<exists>s'. run_state (do { (res, handle) \<leftarrow> afmf_swapchain_create sample_info;
      whenb (res = VK_SUCCESS) (afmf_swapchain_destroy handle); return res }) surface_sys = (VK_SUCCESS, s')
     \<and> made (eff_trace s') = gone (eff_trace s') + dev_objects (sys_dev s')"
proof -
  let ?m = "do { (res, handle) \<leftarrow> afmf_swapchain_create sample_info;
      whenb (res = VK_SUCCESS) (afmf_swapchain_destroy handle); return res } :: (nat sys, vk_result) state"
  obtain r s' where run: "run_state ?m surface_sys = (r, s')" by fastforce
  have "r = VK_SUCCESS"
    using run by (auto simp: afmf_swapchain_create_def run_vk_full surface_sys_def Let_def split: prod.splits)
  moreover have "made (eff_trace s') = gone (eff_trace s') + {#} + dev_objects (sys_dev s')"
    using swapchain_lifetime [OF run] by (simp add: surface_sys_def surface_device_def sound_def dev_objects_def pl_ok_def plain_device_def)
  ultimately show ?thesis using run by auto
qed

theorem forgotten_swapchains_witness:
  "\<exists>s'. run_state afmf_swapchain_forget_all ((plain_sys sc_zero)\<lparr>sys_swapchains := [sc_zero\<lparr>sc_pool := 5\<rparr>],
        eff_trace := [Called (CreateCommandPool 0) VK_SUCCESS 5]\<rparr>) = ((), s')
     \<and> made (eff_trace s') = gone (eff_trace s') \<and> sys_swapchains s' = []"
proof -
  let ?s = "(plain_sys sc_zero)\<lparr>sys_swapchains := [sc_zero\<lparr>sc_pool := 5\<rparr>], eff_trace := [Called (CreateCommandPool 0) VK_SUCCESS 5]\<rparr>"
  obtain u s' where run: "run_state afmf_swapchain_forget_all ?s = (u, s')" by (cases "run_state afmf_swapchain_forget_all ?s") auto
  have "sc_objects (sc_zero\<lparr>sc_pool := 5\<rparr>) = {#(OCommandPool, 5)#}"
    by (simp add: sc_objects_def) (simp add: sc_zero_def held_def)
  then have "made (eff_trace s') = gone (eff_trace s') + {#} \<and> sys_swapchains s' = [] \<and> sys_dev s' = sys_dev ?s"
    by (intro forgotten_swapchains_freed [OF run])
       (simp_all add: new_by_def gone_by_def sc_sized_def sound_def, simp_all add: sc_zero_def)
  then show ?thesis using run by simp
qed

end
