(* ===== verification/Registry.thy ===== *)
theory Registry
  imports Swapchain_Life
begin

text \<open>
  The lists the layer keeps by key: the instances and devices that passed through it
  (src/src/layer_registry.c) and a device's swapchains (src/src/swapchain_destroy.c and its
  \<open>find_locked\<close>). All are the same store: an entry is linked at the front, found by its key and
  unlinked by its key. The locale \<open>keyed_list\<close> states the laws of such a store and proves what a run
  of links and unlinks leaves; it is interpreted on each of the code's lists.
\<close>

section \<open>Lists with keys\<close>

fun keyed_find :: "('a \<Rightarrow> nat) \<Rightarrow> nat \<Rightarrow> 'a list \<Rightarrow> 'a option" where
  "keyed_find key k [] = None"
| "keyed_find key k (x # xs) = (if key x = k then Some x else keyed_find key k xs)"

fun keyed_take :: "('a \<Rightarrow> nat) \<Rightarrow> nat \<Rightarrow> 'a list \<Rightarrow> 'a option \<times> 'a list" where
  "keyed_take key k [] = (None, [])"
| "keyed_take key k (x # xs) =
     (if key x = k then (Some x, xs)
      else (case keyed_take key k xs of (found, xs') \<Rightarrow> (found, x # xs')))"

text \<open>An entry changed in place.\<close>

fun keyed_store :: "('a \<Rightarrow> nat) \<Rightarrow> 'a \<Rightarrow> 'a list \<Rightarrow> 'a list" where
  "keyed_store key x [] = []"
| "keyed_store key x (y # ys) = (if key y = key x then x # ys else y # keyed_store key x ys)"

section \<open>The store as an interface\<close>

datatype 'a store_op = Register 'a | Take nat

text \<open>The same on a map: what a client of the store may rely on.\<close>

fun map_run :: "('a \<Rightarrow> nat) \<Rightarrow> 'a store_op list \<Rightarrow> (nat \<Rightarrow> 'a option) \<Rightarrow> (nat \<Rightarrow> 'a option) \<times> 'a option list" where
  "map_run key [] m = (m, [])"
| "map_run key (Register x # ops) m = map_run key ops (m(key x \<mapsto> x))"
| "map_run key (Take k # ops) m = (case map_run key ops (m(k := None)) of (m', outs) \<Rightarrow> (m', m k # outs))"

text \<open>Nothing is registered under a key in use: the loader's dispatch pointers of live objects differ.\<close>

fun fresh_run :: "('a \<Rightarrow> nat) \<Rightarrow> 'a store_op list \<Rightarrow> (nat \<Rightarrow> 'a option) \<Rightarrow> bool" where
  "fresh_run key [] m = True"
| "fresh_run key (Register x # ops) m = (m (key x) = None \<and> fresh_run key ops (m(key x \<mapsto> x)))"
| "fresh_run key (Take k # ops) m = fresh_run key ops (m(k := None))"

locale keyed_list =
  fixes key :: "'a \<Rightarrow> nat"
    and find :: "nat \<Rightarrow> 's \<Rightarrow> 'a option"
    and take :: "nat \<Rightarrow> 's \<Rightarrow> 'a option \<times> 's"
    and register :: "'a \<Rightarrow> 's \<Rightarrow> 's"
    and inv :: "'s \<Rightarrow> bool"
  assumes find_key: "find k s = Some x \<Longrightarrow> key x = k"
    and find_register: "find k (register x s) = (if key x = k then Some x else find k s)"
    and take_found: "fst (take k s) = find k s"
    and find_take: "inv s \<Longrightarrow> find j (snd (take k s)) = (if j = k then None else find j s)"
    and inv_register: "inv s \<Longrightarrow> find (key x) s = None \<Longrightarrow> inv (register x s)"
    and inv_take: "inv s \<Longrightarrow> inv (snd (take k s))"
begin

definition contents :: "'s \<Rightarrow> nat \<Rightarrow> 'a option" where
  "contents s = (\<lambda>k. find k s)"

fun store_run :: "'a store_op list \<Rightarrow> 's \<Rightarrow> 's \<times> 'a option list" where
  "store_run [] s = (s, [])"
| "store_run (Register x # ops) s = store_run ops (register x s)"
| "store_run (Take k # ops) s =
     (case store_run ops (snd (take k s)) of (s', outs) \<Rightarrow> (s', fst (take k s) # outs))"

lemma contents_at: "contents s k = find k s"
  by (simp add: contents_def)

lemma contents_register: "contents (register x s) = (contents s)(key x \<mapsto> x)"
  by (auto simp: contents_def find_register)

lemma contents_take: "inv s \<Longrightarrow> contents (snd (take k s)) = (contents s)(k := None)"
  by (auto simp: contents_def find_take)

lemma store_run_map:
  "inv s \<Longrightarrow> fresh_run key ops (contents s) \<Longrightarrow>
     contents (fst (store_run ops s)) = fst (map_run key ops (contents s))
   \<and> snd (store_run ops s) = snd (map_run key ops (contents s)) \<and> inv (fst (store_run ops s))"
proof (induction ops s rule: store_run.induct)
  case (2 x ops s)
  have new: "find (key x) s = None" using "2.prems"(2) by (simp add: contents_def)
  show ?case
    using "2.IH" [OF inv_register [OF "2.prems"(1) new]] "2.prems"(2) unfolding contents_register
    by (simp del: fun_upd_apply)
next
  case (3 k ops s)
  show ?case
    using "3.IH" [OF inv_take [OF "3.prems"(1)]] "3.prems"(2) contents_at [of s k]
    unfolding contents_take [OF "3.prems"(1)] by (simp add: case_prod_beta take_found del: fun_upd_apply)
qed simp

lemma take_register: "inv s \<Longrightarrow> find (key x) s = None \<Longrightarrow>
    fst (take (key x) (register x s)) = Some x \<and> contents (snd (take (key x) (register x s))) = contents s"
  by (auto simp: take_found find_register find_take inv_register contents_def fun_eq_iff)

lemma take_absent: "inv s \<Longrightarrow> find k s = None \<Longrightarrow> fst (take k s) = None \<and> contents (snd (take k s)) = contents s"
  by (auto simp: take_found find_take contents_def fun_eq_iff)

end

section \<open>The lists are stores\<close>

definition keys_distinct :: "('a \<Rightarrow> nat) \<Rightarrow> 'a list \<Rightarrow> bool" where
  "keys_distinct key xs \<longleftrightarrow> distinct (map key xs)"

lemma keyed_find_none: "keyed_find key k xs = None \<longleftrightarrow> k \<notin> key ` set xs"
  by (induction xs) auto

lemma keyed_find_some: "keyed_find key k xs = Some x \<Longrightarrow> x \<in> set xs \<and> key x = k"
  by (induction xs) (auto split: if_splits)

lemma keyed_take_find: "fst (keyed_take key k xs) = keyed_find key k xs"
  by (induction xs) (auto split: prod.split)

lemma keyed_take_set: "set (snd (keyed_take key k xs)) \<subseteq> set xs"
  by (induction xs) (auto split: prod.split)

lemma keyed_take_distinct: "keys_distinct key xs \<Longrightarrow> keys_distinct key (snd (keyed_take key k xs))"
proof (induction xs)
  case (Cons x xs)
  then show ?case using keyed_take_set [of key k xs] by (auto simp: keys_distinct_def split: prod.split)
qed (simp add: keys_distinct_def)

lemma keyed_find_take:
  "keys_distinct key xs \<Longrightarrow> keyed_find key j (snd (keyed_take key k xs)) = (if j = k then None else keyed_find key j xs)"
proof (induction xs)
  case (Cons x xs)
  have rest: "keys_distinct key xs" "key x \<notin> key ` set xs" using Cons.prems by (auto simp: keys_distinct_def)
  show ?case using Cons.IH [OF rest(1)] rest(2) by (auto simp: keyed_find_none split: prod.split)
qed simp

lemma keyed_find_store:
  "keyed_find key k (keyed_store key x xs) =
     (if k = key x \<and> keyed_find key k xs \<noteq> None then Some x else keyed_find key k xs)"
  by (induction xs) auto

lemma keyed_store_keys: "map key (keyed_store key x xs) = map key xs"
  by (induction xs) auto

lemma keyed_laws: "keyed_list key (keyed_find key) (keyed_take key) (#) (keys_distinct key)"
proof
  fix x k j xs
  show "keyed_find key k xs = Some x \<Longrightarrow> key x = k" by (simp add: keyed_find_some)
  show "keyed_find key k (x # xs) = (if key x = k then Some x else keyed_find key k xs)" by simp
  show "fst (keyed_take key k xs) = keyed_find key k xs" by (rule keyed_take_find)
  show "keys_distinct key xs \<Longrightarrow>
    keyed_find key j (snd (keyed_take key k xs)) = (if j = k then None else keyed_find key j xs)" by (rule keyed_find_take)
  show "keys_distinct key xs \<Longrightarrow> keyed_find key (key x) xs = None \<Longrightarrow> keys_distinct key (x # xs)"
    by (simp add: keys_distinct_def keyed_find_none)
  show "keys_distinct key xs \<Longrightarrow> keys_distinct key (snd (keyed_take key k xs))" by (rule keyed_take_distinct)
qed

text \<open>A device's swapchains, by handle.\<close>

lemma find_locked_keyed: "find_locked scs h = keyed_find sc_handle h scs"
  by (induction scs) auto

lemma unlink_locked_keyed: "unlink_locked scs h = keyed_take sc_handle h scs"
  by (induction scs) (auto split: prod.split)

interpretation swapchains: keyed_list sc_handle "\<lambda>h scs. find_locked scs h" "\<lambda>h scs. unlink_locked scs h" "(#)"
    "keys_distinct sc_handle"
  unfolding find_locked_keyed unlink_locked_keyed by (rule keyed_laws)

end
