(* ===== verification/Queues.thy ===== *)
theory Queues
  imports System
begin

text \<open>
  The device's queues as the hooks use them: the application's present passed on
  (\<open>afmf_device_queue_present\<close>, src/src/layer_queue.c) and the queues the application was given, by
  family (src/src/layer_device_queues.c). Then the guard of the layer's own queue: \<open>guard_run q H es\<close>
  says that the events \<open>es\<close>, begun with the locks \<open>H\<close> held, use the queue \<open>q\<close> only while the lock
  that serialises it is held, and \<open>guards\<close> says it of whatever an action does.
\<close>

section \<open>The operations\<close>

definition shared_queue :: "afmf_device \<Rightarrow> handle \<Rightarrow> bool" where
  "shared_queue dev queue \<longleftrightarrow> dev_async_shared dev \<and> queue = dev_async_queue dev"

definition afmf_device_queue_present :: "handle \<Rightarrow> present_info \<Rightarrow> ('w sys, vk_result) state" where
  "afmf_device_queue_present queue info = do {
     dev \<leftarrow> dev_gets id;
     if \<not> shared_queue dev queue then vk (QueuePresent queue info)
     else do {
       lock_mutex AsyncLock;
       res \<leftarrow> vk (QueuePresent queue info);
       unlock_mutex AsyncLock;
       return res
     }
   }"

fun queue_lookup :: "afmf_queue list \<Rightarrow> handle \<Rightarrow> u32 option" where
  "queue_lookup [] queue = None"
| "queue_lookup (q # qs) queue = (if queue_handle q = queue then Some (queue_fam q) else queue_lookup qs queue)"

definition afmf_device_queue_family :: "handle \<Rightarrow> ('w sys, u32 option) state" where
  "afmf_device_queue_family queue = do {
     lock_mutex DevLock;
     found \<leftarrow> dev_gets (\<lambda>dev. queue_lookup (dev_queues dev) queue);
     unlock_mutex DevLock;
     return found
   }"

definition queue_recorded :: "handle \<Rightarrow> u32 \<Rightarrow> afmf_device \<Rightarrow> afmf_device" where
  "queue_recorded queue family dev =
     (if queue_lookup (dev_queues dev) queue \<noteq> None then dev
      else if length (dev_queues dev) < dev_queue_capacity dev
           then dev\<lparr>dev_queues := dev_queues dev @ [\<lparr>queue_handle = queue, queue_fam = family\<rparr>]\<rparr>
           else dev)"

definition afmf_device_record_queue :: "handle \<Rightarrow> u32 \<Rightarrow> ('w sys, unit) state" where
  "afmf_device_record_queue queue family =
     whenb (queue \<noteq> VK_NULL_HANDLE) (do {
       lock_mutex DevLock;
       modify (\<lambda>s. s\<lparr>sys_dev := queue_recorded queue family (sys_dev s)\<rparr>);
       unlock_mutex DevLock
     })"

section \<open>The queues the application was given\<close>

definition queues_ok :: "afmf_device \<Rightarrow> bool" where
  "queues_ok dev \<longleftrightarrow> distinct (map queue_handle (dev_queues dev)) \<and> length (dev_queues dev) \<le> dev_queue_capacity dev"

lemma queue_lookup_none: "queue_lookup qs queue = None \<longleftrightarrow> queue \<notin> queue_handle ` set qs"
  by (induction qs) auto

lemma queue_lookup_append:
  "queue_lookup (qs @ rs) queue = (case queue_lookup qs queue of None \<Rightarrow> queue_lookup rs queue | Some f \<Rightarrow> Some f)"
  by (induction qs) auto

lemma queue_recorded_ok: "queues_ok dev \<Longrightarrow> queues_ok (queue_recorded queue family dev)"
  by (auto simp: queues_ok_def queue_recorded_def queue_lookup_none image_iff)

lemma queue_recorded_lookup:
  "queue_lookup (dev_queues (queue_recorded queue family dev)) q =
     (if q = queue \<and> queue_lookup (dev_queues dev) q = None \<and> length (dev_queues dev) < dev_queue_capacity dev
      then Some family else queue_lookup (dev_queues dev) q)"
  by (auto simp: queue_recorded_def queue_lookup_append split: option.split)

section \<open>Locks and the device\<close>

lemma locks_device_queues:
  "locks [] (afmf_device_queue_present queue info) (\<lambda>_. [])" "locks [] (afmf_device_queue_family queue) (\<lambda>_. [])"
  "locks [] (afmf_device_record_queue queue family) (\<lambda>_. [])"
  unfolding afmf_device_queue_present_def afmf_device_queue_family_def afmf_device_record_queue_def
  by (intro locks_wp locks_wp_neutral [OF locks_modify]; simp)+

section \<open>The guard of the layer's queue\<close>

fun uses_queue :: "handle \<Rightarrow> vk_call \<Rightarrow> bool" where
  "uses_queue q (QueueSubmit q' si fence) \<longleftrightarrow> q' = q"
| "uses_queue q (QueuePresent q' info) \<longleftrightarrow> q' = q"
| "uses_queue q (QueueWaitIdle q') \<longleftrightarrow> q' = q"
| "uses_queue q (AppSubmit kind q' args) \<longleftrightarrow> q' = q"
| "uses_queue q DeviceWaitIdle \<longleftrightarrow> q \<noteq> VK_NULL_HANDLE"
| "uses_queue q _ \<longleftrightarrow> False"

fun guard_run :: "handle \<Rightarrow> lock list \<Rightarrow> event list \<Rightarrow> bool" where
  "guard_run q H [] = True"
| "guard_run q H (Locked l # es) = guard_run q (l # H) es"
| "guard_run q H (Unlocked l # es) = guard_run q (remove1 l H) es"
| "guard_run q H (Called c r out # es) = ((uses_queue q c \<longrightarrow> AsyncLock \<in> set H) \<and> guard_run q H es)"
| "guard_run q H (Recorded cb c # es) = guard_run q H es"

lemma guard_run_append: "lock_run H es = Some H' \<Longrightarrow> guard_run q H (es @ fs) \<longleftrightarrow> guard_run q H es \<and> guard_run q H' fs"
  by (induction H es rule: lock_run.induct) (auto split: if_splits)

lemma guard_run_recorded [simp]: "guard_run q H (map (Recorded cb) cs)"
  by (induction cs) auto

lemma guard_run_quiet: "list_all quiet es \<Longrightarrow> guard_run q H es"
proof (induction q H es rule: guard_run.induct)
  case (4 q H c r out es)
  then show ?case by (cases c) auto
qed auto

section \<open>Actions that leave the device and its list of swapchains as they are\<close>

definition same_dev :: "('w sys, 'a) state \<Rightarrow> bool" where
  "same_dev m \<longleftrightarrow> (\<forall>s. sys_dev (snd (run_state m s)) = sys_dev s \<and> sys_swapchains (snd (run_state m s)) = sys_swapchains s)"

named_theorems same_dev_intros

lemma same_dev_bind [same_dev_intros]:
  "same_dev m \<Longrightarrow> (\<And>a. same_dev (f a)) \<Longrightarrow> same_dev (State_Monad.bind m f)"
  by (simp add: same_dev_def case_prod_beta)

lemma same_dev_basic [same_dev_intros]:
  "same_dev (return a)" "same_dev (gets h)" "same_dev (sc_gets k)" "same_dev (cfg_gets c)" "same_dev (dev_gets d)"
  "same_dev (sc_modify f)" "same_dev (emit e)" "same_dev (vk_full call)" "same_dev (vk call)" "same_dev clock_gettime"
  "same_dev clock_checked" "same_dev (record_cmds cb cs)" "same_dev wsi_take" "same_dev wsi_give"
  "same_dev (array_of answer n)"
  by (simp_all add: same_dev_def run_effects array_of_def split: prod.split)

lemma same_dev_cases [same_dev_intros]:
  "(b \<Longrightarrow> same_dev m) \<Longrightarrow> (\<not> b \<Longrightarrow> same_dev n) \<Longrightarrow> same_dev (if b then m else n)"
  "(\<And>x y. p = (x, y) \<Longrightarrow> same_dev (f x y)) \<Longrightarrow> same_dev (case p of (x, y) \<Rightarrow> f x y)"
  "(q = None \<Longrightarrow> same_dev m) \<Longrightarrow> (\<And>z. q = Some z \<Longrightarrow> same_dev (k z)) \<Longrightarrow>
     same_dev (case q of None \<Rightarrow> m | Some z \<Rightarrow> k z)"
  by (auto split: prod.split option.split)

lemma same_dev_queues:
  "same_dev (afmf_device_queue_present queue info)" "same_dev (afmf_device_queue_family queue)"
  unfolding afmf_device_queue_present_def afmf_device_queue_family_def by (intro same_dev_intros)+

section \<open>Guarded actions\<close>

text \<open>
  From a state whose swapchain's \<open>async\<close> has \<open>A\<close> and whose device is \<open>d\<close>, neither of which \<open>m\<close>
  changes, and with the locks \<open>H\<close> held: the lock discipline of \<open>locks\<close>, and, where \<open>g\<close> asks for it, the guard
  of the device's layer queue.
\<close>

definition guards :: "(bool \<Rightarrow> bool) \<Rightarrow> afmf_device \<Rightarrow> bool \<Rightarrow> lock list \<Rightarrow> ('w sys, 'a) state \<Rightarrow> ('a \<Rightarrow> lock list) \<Rightarrow> bool" where
  "guards A d g H m F \<longleftrightarrow> (\<forall>s res s'. A (sc_async (sys_sc s)) \<longrightarrow> sys_dev s = d \<longrightarrow> run_state m s = (res, s') \<longrightarrow>
     A (sc_async (sys_sc s')) \<and> sys_dev s' = d
     \<and> (\<exists>tr. eff_trace s' = eff_trace s @ tr \<and> lock_run H tr = Some (F res) \<and> (g \<longrightarrow> guard_run (dev_async_queue d) H tr)))"

lemma guardsD:
  assumes "guards A d g H m F" "run_state m s = (res, s')" "A (sc_async (sys_sc s))" "sys_dev s = d"
  obtains tr where "eff_trace s' = eff_trace s @ tr" "lock_run H tr = Some (F res)" "g \<longrightarrow> guard_run (dev_async_queue d) H tr"
    "A (sc_async (sys_sc s'))" "sys_dev s' = d"
  using assms unfolding guards_def by blast

lemma guards_bind:
  assumes m: "guards A d g H m F" and f: "\<And>x. guards A d g (F x) (f x) G"
  shows "guards A d g H (State_Monad.bind m f) G"
  unfolding guards_def
proof (intro allI impI)
  fix s :: "'a sys" and res s'
  assume s: "A (sc_async (sys_sc s))" "sys_dev s = d" and run: "run_state (State_Monad.bind m f) s = (res, s')"
  from run obtain x s1 where r: "run_state m s = (x, s1)" "run_state (f x) s1 = (res, s')" by (rule run_bindE)
  obtain t where t: "eff_trace s1 = eff_trace s @ t" "lock_run H t = Some (F x)" "g \<longrightarrow> guard_run (dev_async_queue d) H t"
      "A (sc_async (sys_sc s1))" "sys_dev s1 = d"
    by (rule guardsD [OF m r(1) s])
  obtain u where u: "eff_trace s' = eff_trace s1 @ u" "lock_run (F x) u = Some (G res)"
      "g \<longrightarrow> guard_run (dev_async_queue d) (F x) u" "A (sc_async (sys_sc s'))" "sys_dev s' = d"
    by (rule guardsD [OF f r(2) t(4,5)])
  show "A (sc_async (sys_sc s')) \<and> sys_dev s' = d
     \<and> (\<exists>tr. eff_trace s' = eff_trace s @ tr \<and> lock_run H tr = Some (G res) \<and> (g \<longrightarrow> guard_run (dev_async_queue d) H tr))"
    using t u by (intro conjI exI [of _ "t @ u"]) (simp_all add: lock_run_append guard_run_append [OF t(2)])
qed

lemma guards_at: "guards A d g H0 m F \<Longrightarrow> H = H0 \<Longrightarrow> (\<And>x. F x = G x) \<Longrightarrow> guards A d g H m G"
  by (metis (no_types, lifting) ext)

lemma guards_any: "guards A d True H m F \<Longrightarrow> guards A d g H m F"
  unfolding guards_def by blast

text \<open>An action that submits and presents nothing needs only the lock discipline.\<close>

lemma guards_quiet:
  assumes "locks H m F" "emits quiet m" "frames sc_async m" "same_dev m"
  shows "guards A d g H m F"
  unfolding guards_def
proof (intro allI impI)
  fix s :: "'a sys" and res s'
  assume s: "A (sc_async (sys_sc s))" "sys_dev s = d" and run: "run_state m s = (res, s')"
  have kept: "A (sc_async (sys_sc s'))" "sys_dev s' = d"
    using assms(3,4) run s by (auto simp: frames_def same_dev_def dest: spec [of _ s])
  obtain tr where tr: "eff_trace s' = eff_trace s @ tr" "lock_run H tr = Some (F res)"
    using assms(1) run unfolding locks_def by (metis fst_conv snd_conv)
  moreover have "list_all quiet tr" using assms(2) run tr(1) by (auto simp: emits_def dest: spec [of _ s])
  ultimately show "A (sc_async (sys_sc s')) \<and> sys_dev s' = d
     \<and> (\<exists>tr. eff_trace s' = eff_trace s @ tr \<and> lock_run H tr = Some (F res) \<and> (g \<longrightarrow> guard_run (dev_async_queue d) H tr))"
    using kept guard_run_quiet by blast
qed

lemma guards_vk:
  assumes "g \<Longrightarrow> uses_queue (dev_async_queue d) c \<Longrightarrow> AsyncLock \<in> set H"
  shows "guards A d g H (vk c) (\<lambda>_. H)"
  unfolding guards_def
proof (intro allI impI)
  fix s :: "'a sys" and res s'
  assume s: "A (sc_async (sys_sc s))" "sys_dev s = d" and run: "run_state (vk c) s = (res, s')"
  obtain out w where r: "eff_driver s c (eff_world s) = ((res, out), w)" "s' = s\<lparr>eff_world := w, eff_trace := eff_trace s @ [Called c res out]\<rparr>"
    using run by (auto simp: run_vk split: prod.splits)
  show "A (sc_async (sys_sc s')) \<and> sys_dev s' = d
     \<and> (\<exists>tr. eff_trace s' = eff_trace s @ tr \<and> lock_run H tr = Some H \<and> (g \<longrightarrow> guard_run (dev_async_queue d) H tr))"
    using s assms unfolding r(2) by (intro conjI exI [of _ "[Called c res out]"]) simp_all
qed

lemma guards_step:
  assumes "\<And>s. A (sc_async (sys_sc s)) \<Longrightarrow> sys_dev s = d \<Longrightarrow> \<exists>m'. run_state m s = run_state m' s \<and> guards A d g H m' G"
  shows "guards A d g H m G"
  unfolding guards_def
proof (intro allI impI)
  fix s :: "'a sys" and res s'
  assume s: "A (sc_async (sys_sc s))" "sys_dev s = d" and run: "run_state m s = (res, s')"
  obtain m' where m': "run_state m s = run_state m' s" "guards A d g H m' G" using assms [OF s] by (elim exE conjE)
  show "A (sc_async (sys_sc s')) \<and> sys_dev s' = d
     \<and> (\<exists>tr. eff_trace s' = eff_trace s @ tr \<and> lock_run H tr = Some (G res) \<and> (g \<longrightarrow> guard_run (dev_async_queue d) H tr))"
    using m'(2) s run unfolding m'(1) guards_def by blast
qed

lemma guards_sc:
  assumes "\<And>sc. A (sc_async sc) \<Longrightarrow> guards A d g H (f sc) G"
  shows "guards A d g H (State_Monad.bind (sc_gets id) f) G"
proof (rule guards_step)
  fix s :: "'a sys" assume "A (sc_async (sys_sc s))"
  then show "\<exists>m'. run_state (State_Monad.bind (sc_gets id) f) s = run_state m' s \<and> guards A d g H m' G"
    using assms by (intro exI [of _ "f (sys_sc s)"]) simp
qed

lemma guards_dev:
  assumes "guards A d g H (f (h d)) G"
  shows "guards A d g H (State_Monad.bind (dev_gets h) f) G"
proof (rule guards_step)
  fix s :: "'a sys" assume "sys_dev s = d"
  then show "\<exists>m'. run_state (State_Monad.bind (dev_gets h) f) s = run_state m' s \<and> guards A d g H m' G"
    using assms by (intro exI [of _ "f (h d)"]) simp
qed

text \<open>The rules an operation is taken apart with.\<close>

named_theorems guards_wp

lemma guards_basic:
  "guards A d g H (sc_gets k) (\<lambda>_. H)" "guards A d g H (cfg_gets c) (\<lambda>_. H)" "guards A d g H clock_gettime (\<lambda>_. H)"
  "H = F x \<Longrightarrow> guards A d g H (return x) F" "guards A d g H (gets h) (\<lambda>_. H)"
  "list_all (\<lambda>h. rank h < rank l) H \<Longrightarrow> guards A d g H (lock_mutex l) (\<lambda>_. l # H)"
  "l \<in> set H \<Longrightarrow> guards A d g H (unlock_mutex l) (\<lambda>_. remove1 l H)"
  "list_all (\<lambda>h. rank h < 2) H \<Longrightarrow> guards A d g H wsi_take (\<lambda>_. WsiLock # H)"
  "WsiLock \<in> set H \<Longrightarrow> guards A d g H wsi_give (\<lambda>_. remove1 WsiLock H)"
  by (rule guards_quiet; (intro locks_intros emits_intros frames_rules same_dev_intros; simp)?)+

lemma guards_sc_modify: "(\<And>sc. sc_async (f sc) = sc_async sc) \<Longrightarrow> guards A d g H (sc_modify f) (\<lambda>_. H)"
  by (rule guards_quiet; intro locks_intros emits_intros frames_rules same_dev_intros)

lemma guards_cases [guards_wp]:
  "(b \<Longrightarrow> guards A d g H m F) \<Longrightarrow> (\<not> b \<Longrightarrow> guards A d g H n F) \<Longrightarrow> guards A d g H (if b then m else n) F"
  "(\<And>x y. p = (x, y) \<Longrightarrow> guards A d g H (f2 x y) F) \<Longrightarrow> guards A d g H (case p of (x, y) \<Rightarrow> f2 x y) F"
  "(q = None \<Longrightarrow> guards A d g H m F) \<Longrightarrow> (\<And>z. q = Some z \<Longrightarrow> guards A d g H (k z) F) \<Longrightarrow>
     guards A d g H (case q of None \<Rightarrow> m | Some z \<Rightarrow> k z) F"
  by (auto split: prod.split option.split)

lemma guards_bind_cases [guards_wp]:
  "(b \<Longrightarrow> guards A d g H (State_Monad.bind m f) F) \<Longrightarrow> (\<not> b \<Longrightarrow> guards A d g H (State_Monad.bind n f) F) \<Longrightarrow>
     guards A d g H (State_Monad.bind (if b then m else n) f) F"
  "guards A d g H (f3 x) F \<Longrightarrow> guards A d g H (State_Monad.bind (return x) f3) F"
  by (simp_all add: if_distrib)

lemma guards_assoc [guards_wp]:
  "guards A d g H (State_Monad.bind m (\<lambda>x. State_Monad.bind (f x) k)) G \<Longrightarrow>
     guards A d g H (State_Monad.bind (State_Monad.bind m f) k) G"
  by (simp add: State_Monad.bind_assoc)

lemmas guards_first [guards_wp] = guards_sc guards_dev
  guards_bind [OF guards_basic(1)] guards_bind [OF guards_basic(2)] guards_bind [OF guards_basic(3)]
  guards_bind [OF guards_basic(5)] guards_bind [OF guards_basic(6)] guards_bind [OF guards_basic(7)]
  guards_bind [OF guards_basic(8)] guards_bind [OF guards_basic(9)] guards_bind [OF guards_sc_modify]
  guards_bind [OF guards_vk]

lemmas guards_last [guards_wp] = guards_basic guards_vk guards_sc_modify

lemma guards_queue_present:
  "queue \<noteq> dev_async_queue d \<or> dev_async_shared d \<Longrightarrow>
     guards A d g [] (afmf_device_queue_present queue info) (\<lambda>_. [])"
  unfolding afmf_device_queue_present_def
  by (intro guards_wp; auto simp: shared_queue_def)

end
