(* ===== verification/Present.thy ===== *)
theory Present
  imports Hook Swapchain_Life Queues
begin

text \<open>
  The application's present (src/src/swapchain.c): \<open>afmf_swapchain_present\<close>, and
  \<open>afmf_sc_present_generated\<close> with its threaded path, composed of the segments of \<open>Hook\<close>, and its
  inline path. A present returns its result and what it wrote to \<open>pResults[0]\<close>, if anything
  (\<open>wants\<close>: the application passed \<open>pResults\<close>). The waits on condition variables are taken as over:
  \<open>Pipeline\<close> has them as guards of its steps.
\<close>

section \<open>The generated present\<close>

text \<open>What the application passed on this queue as it is, generation given up.\<close>

definition present_given_up :: "handle \<Rightarrow> present_info \<Rightarrow> ('w sys, vk_result \<times> vk_result option) state" where
  "present_given_up queue info = do {
     afmf_sc_gen_disable;
     res \<leftarrow> afmf_device_queue_present queue info;
     return (res, None)
   }"

text \<open>
  The threaded path, the slot taken; the threads run only for a swapchain with the layer's queue, so
  that is the queue \<open>hook_adapter\<close> submits to.
\<close>

definition present_threaded ::
  "handle \<Rightarrow> present_info \<Rightarrow> bool \<Rightarrow> nat \<Rightarrow> afmf_present_job \<Rightarrow> timespec \<Rightarrow> ('w sys, vk_result \<times> vk_result option) state" where
  "present_threaded queue info wants slot_index job t_start = do {
     hook_reserve;
     res \<leftarrow> hook_adapter (pi_waits info) slot_index;
     if res \<noteq> VK_SUCCESS then do {
       hook_cancel slot_index;
       present_given_up queue info
     } else do {
       hook_queue slot_index job;
       (res, failed) \<leftarrow> hook_results;
       whenb failed afmf_sc_gen_disable;
       t_end \<leftarrow> clock_gettime;
       sc_modify (\<lambda>sc. sc\<lparr>sc_hook_ms := sc_hook_ms sc + elapsed_ms t_start t_end\<rparr>);
       return (res, if wants then Some res else None)
     }
   }"

text \<open>The two presents of the inline path.\<close>

definition inline_companion :: "afmf_swapchain \<Rightarrow> nat \<Rightarrow> present_info" where
  "inline_companion sc j =
     \<lparr>pi_waits = [sc_sem_generated sc ! j], pi_swapchains = [sc_handle sc], pi_images = [j], pi_next = []\<rparr>"

definition inline_real :: "afmf_swapchain \<Rightarrow> nat \<Rightarrow> present_info \<Rightarrow> present_info" where
  "inline_real sc i info = info\<lparr>pi_waits := [sc_sem_real sc ! i], pi_next := inline_chain sc (pi_next info)\<rparr>"

definition inline_account :: "timespec \<Rightarrow> timespec \<Rightarrow> timespec \<Rightarrow> timespec \<Rightarrow> afmf_swapchain \<Rightarrow> afmf_swapchain" where
  "inline_account t_present t_companion t_real t_end sc =
     sc\<lparr>sc_present_ms := sc_present_ms sc + elapsed_ms t_present t_companion,
        sc_present_real_ms := sc_present_real_ms sc + elapsed_ms t_companion t_real,
        sc_refill_ms := sc_refill_ms sc + elapsed_ms t_real t_end\<rparr>"

text \<open>From the submission on: both presents, the queue's lock back, the next spare, the swapchain's lock back.\<close>

definition inline_presents :: "handle \<Rightarrow> present_info \<Rightarrow> nat \<Rightarrow> afmf_present_job \<Rightarrow> timespec \<Rightarrow> ('w sys, vk_result) state" where
  "inline_presents work_queue info i job t_start = do {
     sc \<leftarrow> sc_gets id;
     t_present \<leftarrow> clock_gettime;
     whenb (job_generate job) (do {
       _ \<leftarrow> vk (QueuePresent work_queue (inline_companion sc (job_companion_image job)));
       return ()
     });
     t_companion \<leftarrow> clock_gettime;
     res \<leftarrow> vk (QueuePresent work_queue (inline_real sc i info));
     whenb (sc_async sc) (unlock_mutex AsyncLock);
     t_real \<leftarrow> clock_gettime;
     afmf_sc_spare_refill 0;
     wsi_give;
     t_end \<leftarrow> clock_gettime;
     sc_modify (\<lambda>sc. sc\<lparr>sc_hook_ms := sc_hook_ms sc + elapsed_ms t_start t_end\<rparr>);
     lock_mutex JobLock;
     sc_modify (inline_account t_present t_companion t_real t_end);
     unlock_mutex JobLock;
     return res
   }"

definition present_inline ::
  "handle \<Rightarrow> handle \<Rightarrow> present_info \<Rightarrow> nat \<Rightarrow> afmf_present_job \<Rightarrow> timespec \<Rightarrow> ('w sys, vk_result \<times> vk_result option) state" where
  "present_inline queue work_queue info slot_index job t_start = do {
     (res, job) \<leftarrow> afmf_sc_frame_generate work_queue slot_index (pi_waits info) False job;
     if res \<noteq> VK_SUCCESS then do {
       sc_modify (\<lambda>sc. sc\<lparr>sc_slot_index := slot_index\<rparr>);
       present_given_up queue info
     } else do {
       res \<leftarrow> inline_presents work_queue info (pi_images info ! 0) job t_start;
       return (res, None)
     }
   }"

definition afmf_sc_present_generated ::
  "handle \<Rightarrow> u32 \<Rightarrow> present_info \<Rightarrow> bool \<Rightarrow> nat \<Rightarrow> ('w sys, vk_result \<times> vk_result option) state" where
  "afmf_sc_present_generated queue family info wants ordinal = do {
     dev \<leftarrow> dev_gets id;
     sc \<leftarrow> sc_gets id;
     let i = pi_images info ! 0;
     let work_queue = (if sc_async sc then dev_async_queue dev else queue);
     ok \<leftarrow> afmf_sc_ensure_pool (if sc_async sc then dev_async_family dev else family);
     if \<not> ok \<or> i \<ge> sc_image_count sc \<or> length (pi_waits info) > AFMF_MAX_APP_WAITS then
       present_given_up queue info
     else do {
       started \<leftarrow> afmf_sc_presenter_start;
       (threaded, job) \<leftarrow> (if started then sc_gets (\<lambda>sc. afmf_sc_job_from_chain sc (pi_next info) (job_init i ordinal))
                           else return (False, job_init i ordinal));
       whenb (\<not> threaded) afmf_sc_presenter_drain;
       t_start \<leftarrow> clock_gettime;
       slot_index \<leftarrow> hook_take_slot;
       (if threaded then present_threaded queue info wants slot_index (job\<lparr>job_arrival := t_start\<rparr>) t_start
        else present_inline queue work_queue info slot_index (job\<lparr>job_arrival := t_start\<rparr>) t_start)
     }
   }"

section \<open>The present\<close>

text \<open>
  An entry of the device's list is worked on as the state's swapchain and put back in its place.
\<close>

fun store_locked :: "afmf_swapchain \<Rightarrow> afmf_swapchain list \<Rightarrow> afmf_swapchain list" where
  "store_locked sc [] = []"
| "store_locked sc (e # es) = (if sc_handle e = sc_handle sc then sc # es else e # store_locked sc es)"

definition with_entry :: "afmf_swapchain \<Rightarrow> ('w sys, 'a) state \<Rightarrow> ('w sys, 'a) state" where
  "with_entry sc m = do {
     sc_modify (\<lambda>_. sc);
     a \<leftarrow> m;
     sc' \<leftarrow> sc_gets id;
     list_modify (store_locked sc');
     return a
   }"

text \<open>A present of several swapchains, or of one the layer does not know: only the cadences.\<close>

primrec cadence_each :: "handle list \<Rightarrow> ('w sys, unit) state" where
  "cadence_each [] = return ()"
| "cadence_each (h # hs) = do {
     each \<leftarrow> find_swapchain h;
     (case each of None \<Rightarrow> return () | Some sc \<Rightarrow> do { _ \<leftarrow> with_entry sc afmf_sc_update_cadence; return () });
     cadence_each hs
   }"

definition present_entry :: "handle \<Rightarrow> present_info \<Rightarrow> bool \<Rightarrow> ('w sys, vk_result \<times> vk_result option) state" where
  "present_entry queue info wants = do {
     ordinal \<leftarrow> afmf_sc_update_cadence;
     enabled \<leftarrow> sc_gets sc_gen_enabled;
     family \<leftarrow> (if enabled then afmf_device_queue_family queue else return None);
     (case family of
        None \<Rightarrow> do { res \<leftarrow> afmf_device_queue_present queue info; return (res, None) }
      | Some family \<Rightarrow> afmf_sc_present_generated queue family info wants ordinal)
   }"

definition find_single :: "handle list \<Rightarrow> ('w sys, afmf_swapchain option) state" where
  "find_single hs =
     (case hs of
        [h] \<Rightarrow> find_swapchain h
      | _ \<Rightarrow> do { lock_mutex DevLock; unlock_mutex DevLock; return None })"

definition afmf_swapchain_present :: "handle \<Rightarrow> present_info \<Rightarrow> bool \<Rightarrow> ('w sys, vk_result \<times> vk_result option) state" where
  "afmf_swapchain_present queue info wants = do {
     found \<leftarrow> find_single (pi_swapchains info);
     (case found of
        None \<Rightarrow> do {
          cadence_each (pi_swapchains info);
          res \<leftarrow> afmf_device_queue_present queue info;
          return (res, None)
        }
      | Some sc \<Rightarrow> with_entry sc (present_entry queue info wants))
   }"

section \<open>The lock discipline of a present\<close>

lemma guards_fixed:
  assumes "locks H m F" "emits quiet m" "frames sc_fixed m" "same_dev m"
  shows "guards A d g H m F"
  using assms(1,2) _ assms(4)
proof (rule guards_quiet)
  show "frames sc_async m" using assms(3) by (simp add: frames_def sc_fixed_def)
qed

lemma same_dev_with_fg: "same_dev (with_fg m)"
  by (simp add: same_dev_def with_fg_def Let_def split: option.split)

lemma same_dev_recording:
  "same_dev (image_barrier cmd img from to sa da ss ds)" "same_dev (copy_whole cmd src dst e)"
  by (simp_all add: image_barrier_def copy_whole_def same_dev_intros)

lemma same_dev_record_frame: "same_dev (afmf_sc_record_frame cmd slot i generate j)"
  unfolding afmf_sc_record_frame_def record_framegen_def record_companion_copy_def record_history_copy_def Let_def
  by (intro same_dev_intros same_dev_with_fg same_dev_recording)

lemma same_dev_spare_loop: "same_dev (spare_acquire_loop left)"
proof (induction left rule: spare_acquire_loop.induct)
  case (1 left)
  show ?case
    unfolding spare_acquire_loop.simps [of left] spare_try_def afmf_sc_spare_refill_def Let_def
    by (intro same_dev_intros) (auto intro: 1)
qed

lemma same_dev_frame:
  "same_dev afmf_sc_update_cadence" "same_dev (frame_wait_slot k)" "same_dev (frame_companion n)"
  "same_dev (frame_finish k threaded generate j job)" "same_dev (afmf_sc_spare_refill t)"
  unfolding afmf_sc_update_cadence_def reset_stats_def frame_wait_slot_def frame_companion_def governor_allows_def
    afmf_sc_spare_take_def frame_finish_def frame_dump_def frame_pacing_def afmf_sc_spare_refill_def Let_def
  by (intro same_dev_intros same_dev_spare_loop same_dev_with_fg)+

lemma same_dev_threads:
  "same_dev afmf_sc_presenter_start" "same_dev afmf_sc_presenter_drain" "same_dev afmf_sc_gen_disable"
  "same_dev hook_reserve" "same_dev (hook_cancel k)" "same_dev (hook_queue k job)" "same_dev hook_results"
  "same_dev hook_take_slot"
  unfolding afmf_sc_presenter_start_def afmf_sc_presenter_drain_def worker_drain_def afmf_sc_gen_disable_def
    afmf_sc_presenter_stop_def worker_stop_def worker_stop_request_def worker_stopped_def presenter_stop_request_def
    presenter_stopped_def hook_reserve_def hook_cancel_def hook_queue_def hook_results_def hook_take_slot_def
  by (intro same_dev_intros)+

lemma frames_async:
  "frames sc_async afmf_sc_presenter_start" "frames sc_async afmf_sc_presenter_drain" "frames sc_async afmf_sc_gen_disable"
  "frames sc_async hook_reserve" "frames sc_async (hook_cancel k)" "frames sc_async (hook_queue k job)"
  "frames sc_async hook_results" "frames sc_async hook_take_slot"
  unfolding afmf_sc_presenter_start_def afmf_sc_presenter_drain_def worker_drain_def afmf_sc_gen_disable_def
    afmf_sc_presenter_stop_def worker_stop_def worker_stop_request_def worker_stopped_def presenter_stop_request_def
    presenter_stopped_def hook_reserve_def hook_cancel_def hook_queue_def hook_results_def hook_take_slot_def work_push_def
  by (intro frames_rules; simp)+

lemma emits_hook:
  "emits quiet hook_reserve" "emits quiet (hook_cancel k)" "emits quiet (hook_queue k job)" "emits quiet hook_results"
  "emits quiet hook_take_slot" "emits quiet afmf_sc_gen_disable" "emits quiet afmf_sc_update_cadence"
  unfolding hook_reserve_def hook_cancel_def hook_queue_def hook_results_def hook_take_slot_def afmf_sc_gen_disable_def
    afmf_sc_update_cadence_def reset_stats_def Let_def
  by (intro emits_intros emits_threads; simp)+

text \<open>The command pool, with the frame generation's buffers.\<close>

lemma calm_loader_data:
  "locks H (set_loader_data_all cs) (\<lambda>_. H)" "emits quiet (set_loader_data_all cs)"
proof (induction cs)
  case (Cons c cs)
  case 1 show ?case by (simp, intro locks_wp Cons(1); simp)
  case 2 show ?case by (simp, intro emits_intros Cons(2); simp)
qed (simp_all add: locks_wp emits_intros)

lemma locks_array_of: "locks H (array_of answer n) (\<lambda>_. H)"
  by (simp add: array_of_def locks_wp)

lemma emits_array_of: "emits P (array_of answer n)"
  by (simp add: array_of_def emits_intros)

lemma calm_set_family:
  "locks H (afmf_framegen_set_family family) (\<lambda>_. H)" "emits quiet (afmf_framegen_set_family family)"
  unfolding afmf_framegen_set_family_def Let_def
  by (intro locks_wp locks_wp_neutral [OF locks_array_of] locks_wp_neutral [OF calm_loader_data(1)]; simp)
     (intro emits_intros emits_array_of emits_fgs calm_loader_data(2); simp)

lemma set_family_dev: "fgs_dev (snd (run_state (afmf_framegen_set_family family) s)) = fgs_dev s"
proof -
  have "keeps (on_dev ((=) (fgs_dev s))) (afmf_framegen_set_family family)"
    unfolding afmf_framegen_set_family_def array_of_def Let_def
    by (intro keeps_intros; simp)
  then show ?thesis by (auto simp: keeps_def on_dev_def)
qed

lemma run_fg_eff:
  assumes "run_state (run_fg m fg) s = (x, s')"
  obtains t where "t = snd (run_state m (fgs_of s fg))" "eff_trace s' = eff_trace t" "sys_dev s' = fgs_dev t" "sys_sc s' = sys_sc s"
    "sys_swapchains s' = sys_swapchains s"
  using assms by (auto simp: run_fg_def split: prod.splits)

lemma locks_run_fg:
  assumes "locks H m (\<lambda>_. H)"
  shows "locks H (run_fg m fg) (\<lambda>_. H)"
proof (rule locksI)
  fix s :: "'a sys"
  obtain x s' where run: "run_state (run_fg m fg) s = (x, s')" by fastforce
  obtain t where t: "t = snd (run_state m (fgs_of s fg))" "eff_trace s' = eff_trace t" by (rule run_fg_eff [OF run])
  obtain tr where "eff_trace t = eff_trace (fgs_of s fg) @ tr" "lock_run H tr = Some H"
    using assms unfolding locks_def t(1) by blast
  then show "\<exists>tr. eff_trace (snd (run_state (run_fg m fg) s)) = eff_trace s @ tr \<and> lock_run H tr = Some H"
    unfolding run snd_conv t(2) by (intro exI [of _ tr]) (simp add: fgs_of_def)
qed

lemma emits_run_fg:
  assumes "emits P m"
  shows "emits P (run_fg m fg)"
  unfolding emits_def
proof
  fix s :: "'a sys"
  obtain x s' where run: "run_state (run_fg m fg) s = (x, s')" by fastforce
  obtain t where t: "t = snd (run_state m (fgs_of s fg))" "eff_trace s' = eff_trace t" by (rule run_fg_eff [OF run])
  obtain tr where "eff_trace t = eff_trace (fgs_of s fg) @ tr" "list_all P tr"
    using assms unfolding emits_def t(1) by blast
  then show "\<exists>tr. eff_trace (snd (run_state (run_fg m fg) s)) = eff_trace s @ tr \<and> list_all P tr"
    unfolding run snd_conv t(2) by (intro exI [of _ tr]) (simp add: fgs_of_def)
qed

lemma frames_run_fg: "frames g (run_fg m fg)"
  by (auto simp: frames_def run_fg_def split: prod.splits)

lemma same_dev_set_family: "same_dev (run_fg (afmf_framegen_set_family family) fg)"
  unfolding same_dev_def
proof
  fix s :: "'a sys"
  obtain x s' where run: "run_state (run_fg (afmf_framegen_set_family family) fg) s = (x, s')" by fastforce
  show "sys_dev (snd (run_state (run_fg (afmf_framegen_set_family family) fg) s)) = sys_dev s
      \<and> sys_swapchains (snd (run_state (run_fg (afmf_framegen_set_family family) fg) s)) = sys_swapchains s"
    by (rule run_fg_eff [OF run]) (simp add: run set_family_dev, simp add: fgs_of_def)
qed

lemma frames_array_of: "frames g (array_of answer n)"
  by (simp add: frames_def array_of_def)

lemma calm_slot_cmds:
  "locks H (slot_cmds_create pool is) (\<lambda>_. H)" "emits quiet (slot_cmds_create pool is)"
  "frames (\<lambda>sc. (sc_async sc, sc_image_count sc, length (sc_slots sc))) (slot_cmds_create pool is)"
  "same_dev (slot_cmds_create pool is)"
proof (induction "is")
  case (Cons i "is")
  case 1 show ?case by (simp, intro locks_wp locks_wp_neutral [OF locks_array_of] Cons(1); simp)
  case 2 show ?case by (simp, intro emits_intros emits_array_of Cons(2); simp)
  case 3 show ?case by (simp, intro frames_rules frames_array_of Cons(3); simp)
  case 4 show ?case by (simp, intro same_dev_intros Cons(4))
qed (simp_all add: locks_wp emits_intros frames_intros same_dev_intros)

lemma calm_ensure_pool:
  "locks H (afmf_sc_ensure_pool family) (\<lambda>_. H)" "emits quiet (afmf_sc_ensure_pool family)"
  "frames (\<lambda>sc. (sc_async sc, sc_image_count sc, length (sc_slots sc))) (afmf_sc_ensure_pool family)"
  "same_dev (afmf_sc_ensure_pool family)"
proof -
  note unfolded = afmf_sc_ensure_pool_def
  show "locks H (afmf_sc_ensure_pool family) (\<lambda>_. H)" unfolding unfolded
    by (intro locks_wp locks_wp_neutral [OF calm_slot_cmds(1)] locks_wp_neutral [OF locks_run_fg [OF calm_set_family(1)]]; simp)
  show "emits quiet (afmf_sc_ensure_pool family)" unfolding unfolded
    by (intro emits_intros calm_slot_cmds(2) emits_run_fg calm_set_family(2); simp)
  show "frames (\<lambda>sc. (sc_async sc, sc_image_count sc, length (sc_slots sc))) (afmf_sc_ensure_pool family)" unfolding unfolded
    by (intro frames_rules calm_slot_cmds(3) frames_run_fg; simp)
  show "same_dev (afmf_sc_ensure_pool family)" unfolding unfolded
    by (intro same_dev_intros calm_slot_cmds(4) same_dev_set_family)
qed

text \<open>The two presents go out with the swapchain's lock and, for a swapchain with the layer's queue, that queue's held.\<close>

abbreviation (input) held_for :: "bool \<Rightarrow> lock list" where
  "held_for a \<equiv> (if a then [AsyncLock, WsiLock] else [WsiLock])"

lemma guards_submit_inline:
  assumes "q = (if a then dev_async_queue d else queue)" "queue \<noteq> dev_async_queue d \<or> a"
  shows "guards (\<lambda>x. x = a) d True [] (frame_submit q k waits False i generate j)
    (\<lambda>res. if res = VK_SUCCESS then held_for a else [])"
  unfolding frame_submit_def Let_def using assms
  by (intro guards_wp; auto)

lemma guards_refill: "guards A d g H (afmf_sc_spare_refill t) (\<lambda>_. H)"
  by (rule guards_fixed [OF locks_spare_refill emits_spare_refill frames_spare_refill same_dev_frame(5)])

lemma guards_inline_presents:
  assumes "q = (if a then dev_async_queue d else queue)" "queue \<noteq> dev_async_queue d \<or> a"
  shows "guards (\<lambda>x. x = a) d True (held_for a) (inline_presents q info i job t_start) (\<lambda>_. [])"
  unfolding inline_presents_def using assms
  by (cases a; intro guards_wp guards_bind [OF guards_refill]; auto simp: inline_account_def)

lemma locks_finish_inline: "locks H (frame_finish k False generate j job) (\<lambda>_. H)"
  unfolding frame_finish_def frame_pacing_def
  by (intro locks_wp locks_wp_neutral [OF locks_frame_dump]; simp)

lemma guards_generate_inline:
  assumes "q = (if a then dev_async_queue d else queue)" "queue \<noteq> dev_async_queue d \<or> a"
  shows "guards (\<lambda>x. x = a) d True [] (afmf_sc_frame_generate q k waits False job)
    (\<lambda>(res, _). if res = VK_SUCCESS then held_for a else [])"
proof -
  note quiet = guards_fixed [OF locks_wait_slot emits_wait_slot frames_wait_slot same_dev_frame(2)]
    guards_fixed [OF locks_companion emits_companion frames_companion same_dev_frame(3)]
    guards_fixed [OF locks_record_frame emits_record_frame frames_record_frame same_dev_record_frame]
    guards_fixed [OF locks_finish_inline emits_frame_finish frames_frame_finish same_dev_frame(4)]
  show ?thesis
    unfolding afmf_sc_frame_generate_def
    by (intro guards_wp guards_bind [OF quiet(1)] guards_bind [OF quiet(2)] guards_bind [OF quiet(3)]
        guards_bind [OF quiet(4)] guards_bind [OF guards_submit_inline [OF assms]])
       (auto simp: frame_account_def Let_def split: if_splits)
qed

lemma locks_gen_disable: "locks [] afmf_sc_gen_disable (\<lambda>_. [])"
  unfolding afmf_sc_gen_disable_def by (intro locks_wp locks_wp_at [OF locks_threads(2)]; simp)

lemma guards_disable: "guards A d g [] afmf_sc_gen_disable (\<lambda>_. [])"
  by (rule guards_quiet [OF locks_gen_disable emits_hook(6) frames_async(3) same_dev_threads(3)])

lemma guards_given_up:
  "queue \<noteq> dev_async_queue d \<or> dev_async_shared d \<Longrightarrow> guards A d g [] (present_given_up queue info) (\<lambda>_. [])"
  unfolding present_given_up_def
  by (intro guards_wp guards_bind [OF guards_disable] guards_bind [OF guards_queue_present]; simp)

lemma guards_hook_adapter: "guards A d g [] (hook_adapter waits k) (\<lambda>_. [])"
  unfolding hook_adapter_def by (intro guards_wp; simp)

lemmas guards_hook =
  guards_quiet [OF locks_hook(1) emits_hook(5) frames_async(8) same_dev_threads(8)]
  guards_quiet [OF locks_hook(2) emits_hook(1) frames_async(4) same_dev_threads(4)]
  guards_quiet [OF locks_hook(4) emits_hook(2) frames_async(5) same_dev_threads(5)]
  guards_quiet [OF locks_hook(5) emits_hook(3) frames_async(6) same_dev_threads(6)]
  guards_quiet [OF locks_hook(6) emits_hook(4) frames_async(7) same_dev_threads(7)]

lemma guards_threaded:
  assumes "queue \<noteq> dev_async_queue d \<or> dev_async_shared d"
  shows "guards A d g [] (present_threaded queue info wants k job t_start) (\<lambda>_. [])"
  unfolding present_threaded_def
  by (intro guards_wp guards_bind [OF guards_hook(2)] guards_bind [OF guards_hook_adapter]
      guards_bind [OF guards_hook(3)] guards_given_up [OF assms] guards_bind [OF guards_hook(4)]
      guards_bind [OF guards_hook(5)] guards_bind [OF guards_disable]; simp)

lemma guards_inline:
  assumes "q = (if a then dev_async_queue d else queue)" "queue \<noteq> dev_async_queue d \<or> dev_async_shared d \<and> a"
  shows "guards (\<lambda>x. x = a) d True [] (present_inline queue q info k job t_start) (\<lambda>_. [])"
proof -
  have queue: "queue \<noteq> dev_async_queue d \<or> a" "queue \<noteq> dev_async_queue d \<or> dev_async_shared d" using assms(2) by auto
  show ?thesis
    unfolding present_inline_def
    by (intro guards_wp guards_bind [OF guards_generate_inline [OF assms(1) queue(1)]] guards_given_up [OF queue(2)]
        guards_bind [OF guards_at [OF guards_inline_presents [OF assms(1) queue(1)]]])
       (simp_all add: guards_given_up [OF queue(2)])
qed

lemma guards_generated:
  assumes "queue \<noteq> dev_async_queue d \<or> dev_async_shared d \<and> a"
  shows "guards (\<lambda>x. x = a) d True [] (afmf_sc_present_generated queue family info wants ordinal) (\<lambda>_. [])"
proof -
  have queue: "queue \<noteq> dev_async_queue d \<or> dev_async_shared d" using assms by auto
  have pool: "guards (\<lambda>x. x = a) d True [] (afmf_sc_ensure_pool f) (\<lambda>_. [])" for f
    by (rule guards_quiet [OF calm_ensure_pool(1,2) _ calm_ensure_pool(4)])
       (use calm_ensure_pool(3) [of f] in \<open>auto simp: frames_def\<close>)
  note started = guards_quiet [OF locks_threads(3) emits_threads(3) frames_async(1) same_dev_threads(1)]
    guards_quiet [OF locks_threads(1) emits_threads(1) frames_async(2) same_dev_threads(2)]
  show ?thesis
    unfolding afmf_sc_present_generated_def Let_def
    by (intro guards_wp guards_bind [OF pool] guards_given_up [OF queue] guards_bind [OF started(1)]
        guards_bind [OF started(2)] guards_bind [OF guards_hook(1)] guards_threaded [OF queue] guards_inline [OF _ assms]; simp)
qed

lemma locks_update_cadence: "locks [] afmf_sc_update_cadence (\<lambda>_. [])"
  unfolding afmf_sc_update_cadence_def reset_stats_def Let_def by (intro locks_wp; simp)

lemma guards_entry:
  assumes "queue \<noteq> dev_async_queue d \<or> dev_async_shared d \<and> a"
  shows "guards (\<lambda>x. x = a) d True [] (present_entry queue info wants) (\<lambda>_. [])"
proof -
  have queue: "queue \<noteq> dev_async_queue d \<or> dev_async_shared d" using assms by auto
  have family: "guards A d True [] (afmf_device_queue_family queue) (\<lambda>_. [])" for A :: "bool \<Rightarrow> bool"
    by (rule guards_quiet [OF locks_device_queues(2) _ _ same_dev_queues(2)]; unfold afmf_device_queue_family_def)
       (intro emits_intros frames_rules; simp)+
  note cadence = guards_fixed [OF locks_update_cadence emits_hook(7) frames_update_cadence same_dev_frame(1)]
  show ?thesis
    unfolding present_entry_def
    by (intro guards_wp guards_bind [OF cadence] guards_bind [OF family] guards_bind [OF guards_queue_present [OF queue]]
        guards_generated [OF assms]; simp)
qed

text \<open>An entry of the list may have another \<open>async\<close> than the swapchain the state was left with.\<close>

lemma guards_with_entry:
  assumes "guards (\<lambda>x. x = sc_async sc) d g [] m (\<lambda>_. [])"
  shows "guards (\<lambda>_. True) d g [] (with_entry sc m) (\<lambda>_. [])"
  unfolding guards_def
proof (intro allI impI)
  fix s :: "'a sys" and res s'
  assume s: "sys_dev s = d" and run: "run_state (with_entry sc m) s = (res, s')"
  obtain s1 where r: "run_state m (s\<lparr>sys_sc := sc\<rparr>) = (res, s1)"
      "s' = s1\<lparr>sys_swapchains := store_locked (sys_sc s1) (sys_swapchains s1)\<rparr>"
    using run by (auto simp: with_entry_def list_modify_def split: prod.splits)
  obtain tr where "eff_trace s1 = eff_trace (s\<lparr>sys_sc := sc\<rparr>) @ tr" "lock_run [] tr = Some []"
      "g \<longrightarrow> guard_run (dev_async_queue d) [] tr" "sys_dev s1 = d"
    by (rule guardsD [OF assms r(1)]) (simp_all add: s)
  then show "True \<and> sys_dev s' = d
     \<and> (\<exists>tr. eff_trace s' = eff_trace s @ tr \<and> lock_run [] tr = Some [] \<and> (g \<longrightarrow> guard_run (dev_async_queue d) [] tr))"
    unfolding r(2) by (intro conjI exI [of _ tr]) simp_all
qed

lemma guards_find: "guards A d g [] (find_swapchain h) (\<lambda>_. [])"
  unfolding find_swapchain_def by (intro guards_wp; simp)

lemma guards_bind_option:
  "(q = None \<Longrightarrow> guards A d g H (State_Monad.bind m f) F) \<Longrightarrow>
     (\<And>z. q = Some z \<Longrightarrow> guards A d g H (State_Monad.bind (k z) f) F) \<Longrightarrow>
     guards A d g H (State_Monad.bind (case q of None \<Rightarrow> m | Some z \<Rightarrow> k z) f) F"
  by (cases q) simp_all

lemma guards_cadence_each: "guards (\<lambda>_. True) d g [] (cadence_each hs) (\<lambda>_. [])"
proof (induction hs)
  case (Cons h hs)
  note cadence = guards_fixed [OF locks_update_cadence emits_hook(7) frames_update_cadence same_dev_frame(1)]
  show ?case
    by (simp, intro guards_wp guards_bind_option guards_bind [OF guards_find] guards_bind [OF guards_with_entry [OF cadence]] Cons)
qed (simp add: guards_last)

lemma find_locked_in: "find_locked scs h = Some sc \<Longrightarrow> sc \<in> set scs \<and> sc_handle sc = h"
  by (induction scs) (auto split: if_splits)

lemma run_find_single:
  assumes "run_state (find_single hs) s = (found, s')"
  shows "s' = s\<lparr>eff_trace := eff_trace s @ [Locked DevLock, Unlocked DevLock]\<rparr>"
    and "found = (case hs of [h] \<Rightarrow> find_locked (sys_swapchains s) h | _ \<Rightarrow> None)"
  using assms by (auto simp: find_single_def find_swapchain_def split: list.splits)

lemma run_present_off:
  assumes "\<not> sc_gen_enabled (sys_sc s)"
  shows "run_state (present_entry queue info wants) s =
    run_state (do { _ \<leftarrow> afmf_sc_update_cadence; res \<leftarrow> afmf_device_queue_present queue info; return (res, None) }) s"
proof -
  obtain ordinal s1 where u: "run_state afmf_sc_update_cadence s = (ordinal, s1)" by fastforce
  have "\<not> sc_gen_enabled (sys_sc s1)" using frames_run [OF frames_update_cadence u] assms by (simp add: sc_fixed_def)
  then show ?thesis by (simp add: present_entry_def u)
qed

lemma guards_passing_entry:
  assumes "\<not> sc_gen_enabled sc" "queue \<noteq> dev_async_queue d \<or> dev_async_shared d"
  shows "guards (\<lambda>_. True) d True [] (with_entry sc (present_entry queue info wants)) (\<lambda>_. [])"
proof -
  let ?off = "do { _ \<leftarrow> afmf_sc_update_cadence; res \<leftarrow> afmf_device_queue_present queue info; return (res, None) }"
  note cadence = guards_fixed [OF locks_update_cadence emits_hook(7) frames_update_cadence same_dev_frame(1)]
  have "guards (\<lambda>x. x = sc_async sc) d True [] ?off (\<lambda>_. [])"
    by (intro guards_wp guards_bind [OF cadence] guards_bind [OF guards_queue_present [OF assms(2)]]; simp)
  moreover have "with_entry sc (present_entry queue info wants) = with_entry sc ?off"
    by (rule state_ext) (simp add: with_entry_def run_present_off assms(1) split: prod.split)
  ultimately show ?thesis using guards_with_entry by metis
qed

lemma guards_present_found:
  assumes "queue \<noteq> dev_async_queue d \<or> dev_async_shared d \<and> (\<forall>sc. found = Some sc \<longrightarrow> sc_gen_enabled sc \<longrightarrow> sc_async sc)"
  shows "guards (\<lambda>_. True) d True [] (case found of
        None \<Rightarrow> do {
          cadence_each (pi_swapchains info);
          res \<leftarrow> afmf_device_queue_present queue info;
          return (res, None)
        }
      | Some sc \<Rightarrow> with_entry sc (present_entry queue info wants)) (\<lambda>_. [])"
proof (cases found)
  case None
  have queue: "queue \<noteq> dev_async_queue d \<or> dev_async_shared d" using assms by auto
  show ?thesis
    unfolding None option.case
    by (intro guards_wp guards_bind [OF guards_cadence_each] guards_bind [OF guards_queue_present [OF queue]]) simp
next
  case (Some sc)
  show ?thesis unfolding Some option.case
  proof (cases "sc_gen_enabled sc")
    case True
    show "guards (\<lambda>_. True) d True [] (with_entry sc (present_entry queue info wants)) (\<lambda>_. [])"
      by (rule guards_with_entry [OF guards_entry]) (use assms Some True in auto)
  next
    case False
    show "guards (\<lambda>_. True) d True [] (with_entry sc (present_entry queue info wants)) (\<lambda>_. [])"
      by (rule guards_passing_entry [OF False]) (use assms in auto)
  qed
qed

text \<open>
  A whole present keeps the lock discipline. Whatever the application presents and the driver
  answers: the present takes every lock in the one rank order, waits for none while holding a later one,
  ends with none held, and uses the layer's own queue only while the lock that serialises it is held,
  also where that queue is one the application shares; the device is left as it is. When the
  application itself presents on the shared queue, the swapchains it generates for have to use it.
\<close>
theorem present_guarded:
  assumes run: "run_state (afmf_swapchain_present queue info wants) s = (out, s')"
    and shared: "queue = dev_async_queue (sys_dev s) \<Longrightarrow>
      dev_async_shared (sys_dev s) \<and> (\<forall>sc \<in> set (sys_swapchains s). sc_gen_enabled sc \<longrightarrow> sc_async sc)"
  shows "\<exists>tr. eff_trace s' = eff_trace s @ tr \<and> lock_run [] tr = Some []
    \<and> guard_run (dev_async_queue (sys_dev s)) [] tr \<and> sys_dev s' = sys_dev s"
proof -
  obtain found s1 where find: "run_state (find_single (pi_swapchains info)) s = (found, s1)"
    and rest: "run_state (case found of
        None \<Rightarrow> do {
          cadence_each (pi_swapchains info);
          res \<leftarrow> afmf_device_queue_present queue info;
          return (res, None)
        }
      | Some sc \<Rightarrow> with_entry sc (present_entry queue info wants)) s1 = (out, s')"
    using run unfolding afmf_swapchain_present_def by (rule run_bindE)
  have found: "found = Some sc \<Longrightarrow> sc \<in> set (sys_swapchains s)" for sc
    using find_locked_in unfolding run_find_single(2) [OF find] by (auto split: list.splits)
  have "queue \<noteq> dev_async_queue (sys_dev s) \<or> dev_async_shared (sys_dev s) \<and> (\<forall>sc. found = Some sc \<longrightarrow> sc_gen_enabled sc \<longrightarrow> sc_async sc)"
    using shared found by blast
  from guardsD [OF guards_present_found [OF this] rest] obtain tr where
    "eff_trace s' = eff_trace s1 @ tr" "lock_run [] tr = Some []" "guard_run (dev_async_queue (sys_dev s)) [] tr" "sys_dev s' = sys_dev s"
    unfolding run_find_single(1) [OF find] by auto
  then show ?thesis
    unfolding run_find_single(1) [OF find]
    by (intro exI [of _ "[Locked DevLock, Unlocked DevLock] @ tr"]) simp
qed

section \<open>What becomes of the frame\<close>

text \<open>The presents of a run with their queues and results.\<close>

fun presented :: "event list \<Rightarrow> (handle \<times> present_info \<times> vk_result) list" where
  "presented [] = []"
| "presented (Called (QueuePresent q info) res out # es) = (q, info, res) # presented es"
| "presented (e # es) = presented es"

lemma presented_append [simp]: "presented (es @ fs) = presented es @ presented fs"
  by (induction es rule: presented.induct) auto

lemma presented_none: "presents es = [] \<Longrightarrow> presented es = []"
  by (induction es rule: presented.induct) auto

text \<open>The successful submissions and the presents between two states.\<close>

definition issued :: "'w sys \<Rightarrow> 'w sys \<Rightarrow> (submit_info \<times> handle) list \<Rightarrow> (handle \<times> present_info \<times> vk_result) list \<Rightarrow> bool" where
  "issued s s' ss ps \<longleftrightarrow> (\<exists>tr. eff_trace s' = eff_trace s @ tr \<and> submits tr = ss \<and> presented tr = ps)"

lemma issued_trans:
  assumes "issued s s1 ss ps" "issued s1 s2 ss' ps'"
  shows "issued s s2 (ss @ ss') (ps @ ps')"
proof -
  obtain t u where "eff_trace s1 = eff_trace s @ t" "eff_trace s2 = eff_trace s1 @ u" "submits t = ss" "submits u = ss'"
      "presented t = ps" "presented u = ps'"
    using assms unfolding issued_def by blast
  then show ?thesis unfolding issued_def by (intro exI [of _ "t @ u"]) simp
qed

lemma issued_quiet: "emits quiet m \<Longrightarrow> run_state m s = (a, s') \<Longrightarrow> issued s s' [] []"
  unfolding issued_def using emits_silent [of m s a s'] presented_none by metis

lemma issued_quiet_trans: "emits quiet m \<Longrightarrow> run_state m s = (a, s1) \<Longrightarrow> issued s1 s' ss ps \<Longrightarrow> issued s s' ss ps"
  using issued_trans [OF issued_quiet] by fastforce

lemma issued_trace: "eff_trace s1 = eff_trace s \<Longrightarrow> issued s1 s' ss ps \<Longrightarrow> issued s s' ss ps"
  by (simp add: issued_def)

lemma issued_queue_present:
  assumes "run_state (afmf_device_queue_present queue info) s = (res, s')"
  shows "issued s s' [] [(queue, info, res)]" and "sys_sc s' = sys_sc s"
  using assms by (auto simp: afmf_device_queue_present_def run_vk issued_def split: prod.splits if_splits)

text \<open>What a present reads of the swapchain besides its slots' buffers.\<close>

definition present_view where
  "present_view (sc :: afmf_swapchain) =
     ((sc_async sc, sc_image_count sc, length (sc_slots sc)), (sc_sem_generated sc, sc_sem_real sc, sc_sem_app sc),
      (sc_handle sc, sc_fifo_to_mailbox sc, sc_allowed_modes sc),
      (sc_work sc, sc_work_head sc, sc_work_count sc), sc_slot_index sc, sc_deferred_result sc)"

lemma view_update_cadence: "frames present_view afmf_sc_update_cadence"
  unfolding afmf_sc_update_cadence_def reset_stats_def Let_def
  by (intro frames_rules; simp add: present_view_def)

lemma view_threads:
  "frames present_view afmf_sc_presenter_start" "frames present_view afmf_sc_presenter_drain"
  "frames present_view afmf_sc_gen_disable" "frames present_view hook_reserve" "frames present_view (hook_adapter waits k)"
  unfolding afmf_sc_presenter_start_def afmf_sc_presenter_drain_def worker_drain_def afmf_sc_gen_disable_def
    afmf_sc_presenter_stop_def worker_stop_def worker_stop_request_def worker_stopped_def presenter_stop_request_def
    presenter_stopped_def hook_reserve_def hook_adapter_def
  by (intro frames_rules; simp add: present_view_def)+

lemma view_slot_cmds: "frames present_view (slot_cmds_create pool is)"
proof (induction "is")
  case (Cons i "is")
  show ?case by (simp, intro frames_rules frames_array_of Cons) (simp add: present_view_def)
qed (simp add: frames_intros)

lemma view_ensure_pool: "frames present_view (afmf_sc_ensure_pool family)"
  unfolding afmf_sc_ensure_pool_def
  by (intro frames_rules view_slot_cmds frames_run_fg; simp add: present_view_def)

lemma run_inline_presents:
  assumes "run_state (inline_presents q info i job t_start) s = (res, s')"
  shows "\<exists>r. issued s s' [] ((if job_generate job then [(q, inline_companion (sys_sc s) (job_companion_image job), r)] else [])
    @ [(q, inline_real (sys_sc s) i info, res)])"
  using assms
  by (auto simp: inline_presents_def run_effects afmf_sc_spare_refill_def issued_def split: prod.splits if_splits)

lemma run_given_up:
  assumes "run_state (present_given_up queue info) s = (out, s')"
  shows "issued s s' [] [(queue, info, fst out)]" and "snd out = None"
proof -
  obtain s1 res where r: "run_state afmf_sc_gen_disable s = ((), s1)" "run_state (afmf_device_queue_present queue info) s1 = (res, s')"
      "out = (res, None)"
    using assms by (auto simp: present_given_up_def split: prod.splits)
  show "issued s s' [] [(queue, info, fst out)]" "snd out = None"
    using issued_quiet_trans [OF emits_hook(6) r(1) issued_queue_present(1) [OF r(2)]] by (simp_all add: r(3))
qed

lemma job_from_chain_cong:
  "present_view sc' = present_view sc \<Longrightarrow> afmf_sc_job_from_chain sc' chain job = afmf_sc_job_from_chain sc chain job"
  by (induction sc chain job rule: afmf_sc_job_from_chain.induct)
     (auto simp: present_view_def needs_mailbox_def cong: option.case_cong if_cong)

lemma job_from_chain_image:
  "job_real_image (snd (afmf_sc_job_from_chain sc chain job)) = job_real_image job"
  by (induction sc chain job rule: afmf_sc_job_from_chain.induct)
     (auto split: option.splits)

text \<open>
  The three ways a present can go: the application's own, passed on; the frame queued for the work
  thread, after a submission with nothing to run that takes over the application's semaphores; the
  frame's submission and the presents made in place, the application's last, on the semaphore that
  submission signals.
\<close>

definition passed_on :: "handle \<Rightarrow> present_info \<Rightarrow> vk_result \<times> vk_result option \<Rightarrow> 'w sys \<Rightarrow> 'w sys \<Rightarrow> bool" where
  "passed_on queue info out s s' \<longleftrightarrow> issued s s' [] [(queue, info, fst out)] \<and> snd out = None"

definition queued_once :: "afmf_swapchain \<Rightarrow> present_info \<Rightarrow> bool \<Rightarrow> vk_result \<times> vk_result option \<Rightarrow> 'w sys \<Rightarrow> 'w sys \<Rightarrow> bool" where
  "queued_once sc info wants out s s' \<longleftrightarrow>
     issued s s' [(\<lparr>si_waits = pi_waits info, si_cmds = [], si_signals = [sc_sem_app sc ! sc_slot_index sc]\<rparr>, VK_NULL_HANDLE)] []
   \<and> (\<exists>t ordinal. work_contents (sys_sc s') = work_contents sc @
        [\<lparr>frame_slot = sc_slot_index sc,
          frame_present = (snd (afmf_sc_job_from_chain sc (pi_next info) (job_init (pi_images info ! 0) ordinal)))\<lparr>job_arrival := t\<rparr>\<rparr>])
   \<and> out = (sc_deferred_result sc, if wants then Some (sc_deferred_result sc) else None)"

definition made_in_place :: "afmf_swapchain \<Rightarrow> handle \<Rightarrow> present_info \<Rightarrow> vk_result \<times> vk_result option \<Rightarrow> 'w sys \<Rightarrow> 'w sys \<Rightarrow> bool" where
  "made_in_place sc work_queue info out s s' \<longleftrightarrow>
     (\<exists>cmd fence generate j r.
        issued s s'
          [(\<lparr>si_waits = pi_waits info, si_cmds = [cmd],
             si_signals = sc_sem_real sc ! (pi_images info ! 0) # (if generate then [sc_sem_generated sc ! j] else [])\<rparr>, fence)]
          ((if generate then [(work_queue, inline_companion sc j, r)] else [])
            @ [(work_queue, inline_real sc (pi_images info ! 0) info, fst out)]))
   \<and> snd out = None"

lemma inline_cong:
  assumes "sc_sem_generated sc' = sc_sem_generated sc" "sc_sem_real sc' = sc_sem_real sc" "sc_handle sc' = sc_handle sc"
    "sc_fifo_to_mailbox sc' = sc_fifo_to_mailbox sc" "sc_allowed_modes sc' = sc_allowed_modes sc"
  shows "inline_companion sc' j = inline_companion sc j" "inline_real sc' i info = inline_real sc i info"
  by (auto simp: inline_companion_def inline_real_def inline_chain_def needs_mailbox_def assms
      split: list.split present_node.split option.split)

lemma inline_outcome:
  assumes run: "run_state (present_inline queue q info k job t_start) s = (out, s')"
    and k: "k < length (sc_slots (sys_sc s))" and i: "job_real_image job = pi_images info ! 0"
  shows "passed_on queue info out s s' \<or> made_in_place (sys_sc s) q info out s s'"
proof -
  obtain res job' s1 where g: "run_state (afmf_sc_frame_generate q k (pi_waits info) False job) s = ((res, job'), s1)"
    by (metis surj_pair)
  obtain tr generate j where tr: "eff_trace s1 = eff_trace s @ tr" "presents tr = []"
    and sig: "if res = VK_SUCCESS
       then submits tr = [frame_submission (sys_sc s) k (pi_waits info) (job_real_image job) generate j]
          \<and> finished generate False j (slot_fence (sc_slots (sys_sc s) ! k)) job job'
       else submits tr = [] \<and> job' = job"
    using generate_signals [OF g k] by blast
  show ?thesis
  proof (cases "res = VK_SUCCESS")
    case False
    then have first: "issued s s1 [] []" using tr sig presented_none by (auto simp: issued_def)
    have "run_state (present_given_up queue info) (s1\<lparr>sys_sc := (sys_sc s1)\<lparr>sc_slot_index := k\<rparr>\<rparr>) = (out, s')"
      using run False g by (simp add: present_inline_def)
    from run_given_up [OF this] have "issued s1 s' [] [(queue, info, fst out)]" "snd out = None"
      by (auto intro: issued_trace [rotated])
    then show ?thesis using issued_trans [OF first] by (auto simp: passed_on_def)
  next
    case True
    have first: "issued s s1 [frame_submission (sys_sc s) k (pi_waits info) (job_real_image job) generate j] []"
      using True tr sig presented_none by (auto simp: issued_def)
    have made: "job_generate job' = generate" "job_companion_image job' = j"
      using True sig by (auto simp: finished_def)
    obtain r where r: "run_state (inline_presents q info (pi_images info ! 0) job' t_start) s1 = (r, s')" "out = (r, None)"
      using run True g by (auto simp: present_inline_def split: prod.splits)
    have fixed: "sc_fixed (sys_sc s1) = sc_fixed (sys_sc s)" by (rule frames_run [OF frames_generate g])
    have same: "inline_companion (sys_sc s1) = inline_companion (sys_sc s)" "inline_real (sys_sc s1) = inline_real (sys_sc s)"
      using inline_cong [of "sys_sc s1" "sys_sc s"] fixed by (auto simp: sc_fixed_def fun_eq_iff)
    obtain r' where "issued s1 s' [] ((if generate then [(q, inline_companion (sys_sc s) j, r')] else [])
        @ [(q, inline_real (sys_sc s) (pi_images info ! 0) info, r)])"
      using run_inline_presents [OF r(1)] unfolding made same by blast
    from issued_trans [OF first this] have "made_in_place (sys_sc s) q info out s s'"
      unfolding made_in_place_def r(2) frame_submission_def i fst_conv snd_conv append_Nil append_Nil2
      by (intro conjI exI) (assumption, rule refl)
    then show ?thesis ..
  qed
qed

text \<open>The frame queued, and the result an earlier present left.\<close>

lemma view_work: "present_view sc' = present_view sc \<Longrightarrow> work_contents sc' = work_contents sc"
  by (simp add: present_view_def work_contents_def)

lemma queue_rest:
  assumes run: "run_state (do {
       hook_queue k job;
       (res, failed) \<leftarrow> hook_results;
       whenb failed afmf_sc_gen_disable;
       t_end \<leftarrow> clock_gettime;
       sc_modify (\<lambda>sc. sc\<lparr>sc_hook_ms := sc_hook_ms sc + elapsed_ms t_start t_end\<rparr>);
       return (res, if wants then Some res else None) }) s = (out, s')"
    and view: "present_view (sys_sc s) = present_view sc" and ring: "work_ok sc" "sc_work_count sc < 16"
  shows "work_contents (sys_sc s') = work_contents sc @ [\<lparr>frame_slot = k, frame_present = job\<rparr>] \<and>
      out = (sc_deferred_result sc, if wants then Some (sc_deferred_result sc) else None)"
proof -
  let ?frame = "\<lparr>frame_slot = k, frame_present = job\<rparr>"
  obtain s1 where q: "run_state (hook_queue k job) s = ((), s1)" by (metis surj_pair unit.exhaust)
  have s1: "sys_sc s1 = work_push ?frame (sys_sc s)" using q by (auto simp: hook_queue_def)
  obtain res failed s2 where h: "run_state hook_results s1 = ((res, failed), s2)" by (metis surj_pair)
  have s2: "res = sc_deferred_result (sys_sc s1)" "sys_sc s2 = (sys_sc s1)\<lparr>sc_deferred_result := VK_SUCCESS\<rparr>"
    using h by (auto simp: hook_results_def)
  obtain s3 where d: "run_state (whenb failed afmf_sc_gen_disable) s2 = ((), s3)" by (metis surj_pair unit.exhaust)
  have s3: "present_view (sys_sc s3) = present_view (sys_sc s2)"
    by (rule frames_run [OF _ d]) (intro frames_rules view_threads(3))
  have s': "work_contents (sys_sc s') = work_contents (sys_sc s3)" "out = (res, if wants then Some res else None)"
    using run q h d by (auto simp: run_clock work_contents_def split: prod.splits)
  have "work_contents (sys_sc s2) = work_contents (work_push ?frame (sys_sc s))"
    unfolding s2(2) s1 by (simp add: work_contents_def)
  moreover have "work_contents (work_push ?frame (sys_sc s)) = work_contents sc @ [?frame]"
    using work.push_contents [of "sys_sc s" ?frame] view ring view_work [OF view]
    by (simp add: work_ok_def present_view_def work_contents_def)
  moreover have "sc_deferred_result (sys_sc s1) = sc_deferred_result sc"
    using view unfolding s1 by (simp add: present_view_def work_push_def)
  ultimately show ?thesis using s' view_work [OF s3] s2(1) by simp
qed

lemma threaded_outcome:
  assumes run: "run_state (present_threaded queue info wants k job t_start) s = (out, s')"
    and ring: "work_ok (sys_sc s)" "sc_work_count (sys_sc s) < 16"
  shows "passed_on queue info out s s'
    \<or> issued s s' [(\<lparr>si_waits = pi_waits info, si_cmds = [], si_signals = [sc_sem_app (sys_sc s) ! k]\<rparr>, VK_NULL_HANDLE)] []
       \<and> work_contents (sys_sc s') = work_contents (sys_sc s) @ [\<lparr>frame_slot = k, frame_present = job\<rparr>]
       \<and> out = (sc_deferred_result (sys_sc s), if wants then Some (sc_deferred_result (sys_sc s)) else None)"
proof -
  obtain s1 where r1: "run_state hook_reserve s = ((), s1)" by (metis surj_pair unit.exhaust)
  obtain res s2 where r2: "run_state (hook_adapter (pi_waits info) k) s1 = (res, s2)" by fastforce
  have view1: "present_view (sys_sc s1) = present_view (sys_sc s)" by (rule frames_run [OF view_threads(4) r1])
  have view2: "present_view (sys_sc s2) = present_view (sys_sc s)" using frames_run [OF view_threads(5) r2] view1 by simp
  have sem: "sc_sem_app (sys_sc s1) = sc_sem_app (sys_sc s)" using view1 by (simp add: present_view_def)
  obtain tr where tr: "eff_trace s2 = eff_trace s1 @ tr" "presents tr = []"
      "submits tr = (if res = VK_SUCCESS
         then [(\<lparr>si_waits = pi_waits info, si_cmds = [], si_signals = [sc_sem_app (sys_sc s) ! k]\<rparr>, VK_NULL_HANDLE)] else [])"
    using hook_adapter_submits [OF r2] unfolding sem by blast
  have first: "issued s s2 (submits tr) []"
    by (rule issued_quiet_trans [OF emits_hook(1) r1]) (use tr presented_none in \<open>auto simp: issued_def\<close>)
  show ?thesis
  proof (cases "res = VK_SUCCESS")
    case False
    obtain s3 where r3: "run_state (hook_cancel k) s2 = ((), s3)" "run_state (present_given_up queue info) s3 = (out, s')"
      using run False r1 r2 by (auto simp: present_threaded_def split: prod.splits)
    have "issued s2 s' [] [(queue, info, fst out)]"
      by (rule issued_quiet_trans [OF emits_hook(2) r3(1) run_given_up(1) [OF r3(2)]])
    from issued_trans [OF first this] show ?thesis
      using False tr(3) run_given_up(2) [OF r3(2)] by (simp add: passed_on_def)
  next
    case True
    let ?rest = "do {
       hook_queue k job;
       (res, failed) \<leftarrow> hook_results;
       whenb failed afmf_sc_gen_disable;
       t_end \<leftarrow> clock_gettime;
       sc_modify (\<lambda>sc. sc\<lparr>sc_hook_ms := sc_hook_ms sc + elapsed_ms t_start t_end\<rparr>);
       return (res, if wants then Some res else None) }"
    have rest: "run_state ?rest s2 = (out, s')" using run True r1 r2 by (simp add: present_threaded_def)
    have quiet: "emits quiet ?rest" by (intro emits_intros emits_hook)
    have "issued s s' (submits tr) []" using issued_trans [OF first issued_quiet [OF quiet rest]] by simp
    moreover have "work_contents (sys_sc s') = work_contents (sys_sc s) @ [\<lparr>frame_slot = k, frame_present = job\<rparr>] \<and>
      out = (sc_deferred_result (sys_sc s), if wants then Some (sc_deferred_result (sys_sc s)) else None)"
      by (rule queue_rest [OF rest view2 ring])
    ultimately show ?thesis using True tr(3) by simp
  qed
qed

text \<open>What a present finds: its slot is one of the arrays', and there is room in the ring.\<close>

definition present_ready :: "afmf_swapchain \<Rightarrow> bool" where
  "present_ready sc \<longleftrightarrow> length (sc_slots sc) = sc_image_count sc \<and> sc_slot_index sc < sc_image_count sc
     \<and> work_ok sc \<and> sc_work_count sc < 16"

lemma view_ready: "present_view sc' = present_view sc \<Longrightarrow> present_ready sc' \<longleftrightarrow> present_ready sc"
  by (simp add: present_view_def present_ready_def work_ok_def)

lemma view_outcome:
  assumes "present_view sc' = present_view sc"
  shows "queued_once sc' info wants out s s' \<longleftrightarrow> queued_once sc info wants out s s'"
    and "made_in_place sc' q info out s s' \<longleftrightarrow> made_in_place sc q info out s s'"
proof -
  have eqs: "sc_sem_app sc' = sc_sem_app sc" "sc_slot_index sc' = sc_slot_index sc" "sc_deferred_result sc' = sc_deferred_result sc"
      "sc_sem_real sc' = sc_sem_real sc" "sc_sem_generated sc' = sc_sem_generated sc" "sc_handle sc' = sc_handle sc"
      "sc_fifo_to_mailbox sc' = sc_fifo_to_mailbox sc" "sc_allowed_modes sc' = sc_allowed_modes sc"
    using assms by (simp_all add: present_view_def)
  show "queued_once sc' info wants out s s' \<longleftrightarrow> queued_once sc info wants out s s'"
    unfolding queued_once_def eqs view_work [OF assms] job_from_chain_cong [OF assms] ..
  show "made_in_place sc' q info out s s' \<longleftrightarrow> made_in_place sc q info out s s'"
    unfolding made_in_place_def eqs using inline_cong [of sc' sc] eqs by simp
qed

text \<open>Quiet steps before a present that leave what it reads as it is do not change what becomes of it.\<close>

lemma outcome_after:
  assumes "issued s s1 [] []" "present_view (sys_sc s1) = present_view (sys_sc s)"
    and "passed_on queue info out s1 s' \<or> queued_once (sys_sc s1) info wants out s1 s' \<or> made_in_place (sys_sc s1) q info out s1 s'"
  shows "passed_on queue info out s s' \<or> queued_once (sys_sc s) info wants out s s' \<or> made_in_place (sys_sc s) q info out s s'"
proof -
  have "issued s1 s' ss ps \<Longrightarrow> issued s s' ss ps" for ss ps using issued_trans [OF assms(1)] by fastforce
  then show ?thesis
    using assms(3) unfolding view_outcome [OF assms(2)]
    unfolding passed_on_def queued_once_def made_in_place_def by blast
qed

lemma outcome_quiet:
  assumes "emits quiet m" "frames present_view m" "run_state m s = (a, s1)"
    and "passed_on queue info out s1 s' \<or> queued_once (sys_sc s1) info wants out s1 s' \<or> made_in_place (sys_sc s1) q info out s1 s'"
  shows "passed_on queue info out s s' \<or> queued_once (sys_sc s) info wants out s s' \<or> made_in_place (sys_sc s) q info out s s'"
  by (rule outcome_after [OF issued_quiet [OF assms(1,3)] frames_run [OF assms(2,3)] assms(4)])

text \<open>Once the slot is taken.\<close>

lemma started_outcome:
  assumes run: "run_state (do {
       t_start \<leftarrow> clock_gettime;
       slot_index \<leftarrow> hook_take_slot;
       (if threaded then present_threaded queue info wants slot_index (job\<lparr>job_arrival := t_start\<rparr>) t_start
        else present_inline queue q info slot_index (job\<lparr>job_arrival := t_start\<rparr>) t_start)
     }) s = (out, s')"
    and ready: "present_ready (sys_sc s)" and image: "job_real_image job = pi_images info ! 0"
    and job: "threaded \<Longrightarrow> job = snd (afmf_sc_job_from_chain (sys_sc s) (pi_next info) (job_init (pi_images info ! 0) ordinal))"
  shows "passed_on queue info out s s' \<or> queued_once (sys_sc s) info wants out s s' \<or> made_in_place (sys_sc s) q info out s s'"
proof -
  let ?k = "sc_slot_index (sys_sc s)"
  obtain t s1 where c: "run_state clock_gettime s = (t, s1)" by fastforce
  have s1: "eff_trace s1 = eff_trace s" "sys_sc s1 = sys_sc s" using c by (auto simp: run_clock split: prod.splits)
  let ?s2 = "s1\<lparr>sys_sc := (sys_sc s)\<lparr>sc_slot_index := (?k + 1) mod sc_image_count (sys_sc s)\<rparr>\<rparr>"
  have rest: "run_state (if threaded then present_threaded queue info wants ?k (job\<lparr>job_arrival := t\<rparr>) t
        else present_inline queue q info ?k (job\<lparr>job_arrival := t\<rparr>) t) ?s2 = (out, s')"
    using run c by (simp add: hook_take_slot_def s1 cong: if_cong)
  have behind: "issued ?s2 s' ss ps \<Longrightarrow> issued s s' ss ps" for ss ps by (simp add: issued_def s1)
  show ?thesis
  proof (cases threaded)
    case True
    have ring: "work_ok (sys_sc ?s2)" "sc_work_count (sys_sc ?s2) < 16"
      using ready by (simp_all add: present_ready_def work_ok_def)
    have same: "work_contents (sys_sc ?s2) = work_contents (sys_sc s)" by (simp add: work_contents_def)
    have threaded: "run_state (present_threaded queue info wants ?k (job\<lparr>job_arrival := t\<rparr>) t) ?s2 = (out, s')"
      using rest True by simp
    from threaded_outcome [OF this ring] consider
        "passed_on queue info out ?s2 s'"
      | "issued ?s2 s' [(\<lparr>si_waits = pi_waits info, si_cmds = [], si_signals = [sc_sem_app (sys_sc s) ! ?k]\<rparr>, VK_NULL_HANDLE)] []"
        "work_contents (sys_sc s') = work_contents (sys_sc s) @ [\<lparr>frame_slot = ?k, frame_present = job\<lparr>job_arrival := t\<rparr>\<rparr>]"
        "out = (sc_deferred_result (sys_sc s), if wants then Some (sc_deferred_result (sys_sc s)) else None)"
      unfolding same by auto
    then show ?thesis
    proof cases
      case 1
      then show ?thesis unfolding passed_on_def using behind by blast
    next
      case 2
      then show ?thesis unfolding queued_once_def job [OF True] using behind by blast
    qed
  next
    case False
    have k: "?k < length (sc_slots (sys_sc ?s2))" using ready by (simp add: present_ready_def)
    have inline: "run_state (present_inline queue q info ?k (job\<lparr>job_arrival := t\<rparr>) t) ?s2 = (out, s')"
      using rest False by simp
    have same: "made_in_place (sys_sc ?s2) q info out ?s2 s' \<longleftrightarrow> made_in_place (sys_sc s) q info out ?s2 s'"
      using inline_cong [of "sys_sc ?s2" "sys_sc s"] by (simp add: made_in_place_def)
    have "passed_on queue info out ?s2 s' \<or> made_in_place (sys_sc s) q info out ?s2 s'"
      using inline_outcome [OF inline k] image unfolding same by simp
    then show ?thesis unfolding passed_on_def made_in_place_def using behind by blast
  qed
qed

lemma generated_outcome:
  assumes run: "run_state (afmf_sc_present_generated queue family info wants ordinal) s = (out, s')"
    and ready: "present_ready (sys_sc s)"
  shows "passed_on queue info out s s' \<or> queued_once (sys_sc s) info wants out s s'
    \<or> made_in_place (sys_sc s) (if sc_async (sys_sc s) then dev_async_queue (sys_dev s) else queue) info out s s'"
proof -
  let ?sc = "sys_sc s" and ?i = "pi_images info ! 0"
  let ?q = "if sc_async ?sc then dev_async_queue (sys_dev s) else queue"
  let ?family = "if sc_async ?sc then dev_async_family (sys_dev s) else family"
  obtain ok s1 where pool: "run_state (afmf_sc_ensure_pool ?family) s = (ok, s1)" by fastforce
  have view1: "present_view (sys_sc s1) = present_view ?sc" by (rule frames_run [OF view_ensure_pool pool])
  show ?thesis
  proof (rule outcome_quiet [OF calm_ensure_pool(2) view_ensure_pool pool],
      cases "\<not> ok \<or> ?i \<ge> sc_image_count ?sc \<or> length (pi_waits info) > 8")
    case True
    have "run_state (present_given_up queue info) s1 = (out, s')"
      using run pool True by (auto simp: afmf_sc_present_generated_def Let_def)
    then show "passed_on queue info out s1 s' \<or> queued_once (sys_sc s1) info wants out s1 s' \<or> made_in_place (sys_sc s1) ?q info out s1 s'"
      using run_given_up unfolding passed_on_def by blast
  next
    case False
    obtain started s2 where start: "run_state afmf_sc_presenter_start s1 = (started, s2)" by fastforce
    have view2: "present_view (sys_sc s2) = present_view ?sc" using frames_run [OF view_threads(1) start] view1 by simp
    obtain threaded job where tj: "(if started then afmf_sc_job_from_chain (sys_sc s2) (pi_next info) (job_init ?i ordinal)
        else (False, job_init ?i ordinal)) = (threaded, job)" by (metis surj_pair)
    have image: "job_real_image job = ?i"
      using tj job_from_chain_image [of "sys_sc s2" "pi_next info" "job_init ?i ordinal"] by (auto simp: job_init_def split: if_splits)
    obtain s3 where drain: "run_state (whenb (\<not> threaded) afmf_sc_presenter_drain) s2 = ((), s3)" by (metis surj_pair unit.exhaust)
    have quiet: "emits quiet (whenb (\<not> threaded) afmf_sc_presenter_drain)" by (intro emits_intros emits_threads(1))
    have fixed: "frames present_view (whenb (\<not> threaded) afmf_sc_presenter_drain)" by (intro frames_rules view_threads(2))
    have view3: "present_view (sys_sc s3) = present_view ?sc" using frames_run [OF fixed drain] view2 by simp
    have job: "threaded \<Longrightarrow> job = snd (afmf_sc_job_from_chain (sys_sc s3) (pi_next info) (job_init ?i ordinal))"
      using tj view2 view3 job_from_chain_cong [of "sys_sc s2" "sys_sc s3"] by (auto split: if_splits)
    have pick: "run_state (if started then sc_gets (\<lambda>sc. afmf_sc_job_from_chain sc (pi_next info) (job_init ?i ordinal))
        else return (False, job_init ?i ordinal)) s2 = ((threaded, job), s2)"
      using tj by (auto split: if_splits)
    have rest: "run_state (do {
       t_start \<leftarrow> clock_gettime;
       slot_index \<leftarrow> hook_take_slot;
       (if threaded then present_threaded queue info wants slot_index (job\<lparr>job_arrival := t_start\<rparr>) t_start
        else present_inline queue ?q info slot_index (job\<lparr>job_arrival := t_start\<rparr>) t_start)
     }) s3 = (out, s')"
      using run
      unfolding afmf_sc_present_generated_def Let_def run_bind run_sys id_apply prod.case pool if_not_P [OF False] start pick drain .
    show "passed_on queue info out s1 s' \<or> queued_once (sys_sc s1) info wants out s1 s' \<or> made_in_place (sys_sc s1) ?q info out s1 s'"
      by (rule outcome_quiet [OF emits_threads(3) view_threads(1) start], rule outcome_quiet [OF quiet fixed drain],
          rule started_outcome [OF rest _ image job]) (simp add: view_ready [OF view3] ready)
  qed
qed

lemma entry_outcome:
  assumes run: "run_state (present_entry queue info wants) s = (out, s')"
    and ready: "sc_gen_enabled (sys_sc s) \<Longrightarrow> present_ready (sys_sc s)"
  shows "passed_on queue info out s s' \<or> queued_once (sys_sc s) info wants out s s'
    \<or> made_in_place (sys_sc s) (if sc_async (sys_sc s) then dev_async_queue (sys_dev s) else queue) info out s s'"
proof -
  let ?q = "if sc_async (sys_sc s) then dev_async_queue (sys_dev s) else queue"
  obtain ordinal s1 where cadence: "run_state afmf_sc_update_cadence s = (ordinal, s1)" by fastforce
  have view1: "present_view (sys_sc s1) = present_view (sys_sc s)" and enabled: "sc_gen_enabled (sys_sc s1) = sc_gen_enabled (sys_sc s)"
    using frames_run [OF view_update_cadence cadence] frames_run [OF frames_update_cadence cadence] by (simp_all add: sc_fixed_def)
  have dev: "sys_dev s1 = sys_dev s" using same_dev_frame(1) cadence by (auto simp: same_dev_def dest: spec [of _ s])
  let ?find = "if sc_gen_enabled (sys_sc s1) then afmf_device_queue_family queue else return None"
  obtain family s2 where find: "run_state ?find s1 = (family, s2)" by fastforce
  have s2: "sys_sc s2 = sys_sc s1" "sys_dev s2 = sys_dev s1" "issued s1 s2 [] []" "family \<noteq> None \<Longrightarrow> sc_gen_enabled (sys_sc s1)"
    using find by (auto simp: afmf_device_queue_family_def issued_def split: if_splits)
  have rest: "run_state (case family of
        None \<Rightarrow> do { res \<leftarrow> afmf_device_queue_present queue info; return (res, None) }
      | Some family \<Rightarrow> afmf_sc_present_generated queue family info wants ordinal) s2 = (out, s')"
    using run unfolding present_entry_def run_bind run_sys prod.case cadence find .
  have q: "(if sc_async (sys_sc s2) then dev_async_queue (sys_dev s2) else queue) = ?q"
    using view1 by (simp add: s2 dev present_view_def)
  show ?thesis
  proof (rule outcome_quiet [OF emits_hook(7) view_update_cadence cadence], rule outcome_after [OF s2(3)])
    show "present_view (sys_sc s2) = present_view (sys_sc s1)" by (simp add: s2)
    show "passed_on queue info out s2 s' \<or> queued_once (sys_sc s2) info wants out s2 s' \<or> made_in_place (sys_sc s2) ?q info out s2 s'"
    proof (cases family)
      case None
      then show ?thesis
        using rest issued_queue_present(1) by (auto simp: passed_on_def split: prod.splits)
    next
      case (Some f)
      have "present_ready (sys_sc s2)"
        using Some ready s2(4) enabled view_ready [OF view1] by (simp add: s2(1))
      then show ?thesis using generated_outcome [of queue f info wants ordinal s2 out s'] rest Some unfolding q by simp
    qed
  qed
qed

text \<open>
  C2: A present shows the application's frame exactly once. For a swapchain the layer knows, ready
  for generation where that is on, and whatever the driver answers, a present goes one of three ways.
  The application's own is passed on as it came, on its queue, and its result returned. Or nothing is
  presented yet: one submission with nothing to run waits on the application's semaphores and signals
  the slot's, the frame is queued last for the work thread with the application's image and what its
  chain carries, and the result an earlier present left is returned, to \<open>pResults\<close> too. Or the frame is
  made in place: one submission that waits on the application's semaphores, the companion's present if
  there is one, then the application's with its image on the semaphore that submission signals.
\<close>
theorem present_exactly_once:
  assumes run: "run_state (afmf_swapchain_present queue info wants) s = (out, s')"
    and entry: "pi_swapchains info = [h]" "find_locked (sys_swapchains s) h = Some sc"
    and ready: "sc_gen_enabled sc \<Longrightarrow> present_ready sc"
  shows "passed_on queue info out s s' \<or> queued_once sc info wants out s s'
    \<or> made_in_place sc (if sc_async sc then dev_async_queue (sys_dev s) else queue) info out s s'"
proof -
  let ?s1 = "s\<lparr>eff_trace := eff_trace s @ [Locked DevLock, Unlocked DevLock], sys_sc := sc\<rparr>"
  obtain s2 where entry_run: "run_state (present_entry queue info wants) ?s1 = (out, s2)"
    and s': "s' = s2\<lparr>sys_swapchains := store_locked (sys_sc s2) (sys_swapchains s2)\<rparr>"
    using run by (auto simp: afmf_swapchain_present_def find_single_def find_swapchain_def entry with_entry_def
        list_modify_def split: prod.splits)
  have ahead: "issued ?s1 s2 ss ps \<Longrightarrow> issued s s' ss ps" for ss ps
    unfolding s' issued_def by (elim exE conjE, rule_tac x = "[Locked DevLock, Unlocked DevLock] @ tr" in exI) simp
  have sc: "sys_sc s' = sys_sc s2" "sys_sc ?s1 = sc" "sys_dev ?s1 = sys_dev s" by (simp_all add: s')
  from entry_outcome [OF entry_run] ready have "passed_on queue info out ?s1 s2 \<or> queued_once sc info wants out ?s1 s2
    \<or> made_in_place sc (if sc_async sc then dev_async_queue (sys_dev s) else queue) info out ?s1 s2"
    unfolding sc by blast
  then show ?thesis
    unfolding passed_on_def queued_once_def made_in_place_def sc(1) using ahead by blast
qed

definition presenting_sc :: afmf_swapchain where
  "presenting_sc = worker_sc\<lparr>sc_handle := 5, sc_gen_enabled := True\<rparr>"

definition presenting_sys :: "nat sys" where
  "presenting_sys = (sample_sys sc_zero)\<lparr>sys_swapchains := [presenting_sc],
     sys_dev := dev_zero\<lparr>dev_async_queue := 7, dev_async_shared := True\<rparr>\<rparr>"

definition presenting_info :: present_info where
  "presenting_info = \<lparr>pi_waits = [30], pi_swapchains = [5], pi_images = [0], pi_next = []\<rparr>"

theorem present_guarded_witness:
  "\<exists>tr. eff_trace (snd (run_state (afmf_swapchain_present 7 presenting_info True) presenting_sys)) = tr
     \<and> lock_run [] tr = Some [] \<and> guard_run 7 [] tr"
proof -
  obtain out s' where run: "run_state (afmf_swapchain_present 7 presenting_info True) presenting_sys = (out, s')"
    by fastforce
  have "dev_async_shared (sys_dev presenting_sys) \<and> (\<forall>sc \<in> set (sys_swapchains presenting_sys). sc_gen_enabled sc \<longrightarrow> sc_async sc)"
    by (simp add: presenting_sys_def presenting_sc_def worker_sc_def)
  from present_guarded [OF run this] show ?thesis
    by (simp add: run) (simp add: presenting_sys_def)
qed

theorem present_exactly_once_witness:
  "\<exists>out s'. run_state (afmf_swapchain_present 7 presenting_info True) presenting_sys = (out, s')
     \<and> (passed_on 7 presenting_info out presenting_sys s' \<or> queued_once presenting_sc presenting_info True out presenting_sys s'
        \<or> made_in_place presenting_sc 7 presenting_info out presenting_sys s')"
proof -
  obtain out s' where run: "run_state (afmf_swapchain_present 7 presenting_info True) presenting_sys = (out, s')"
    by fastforce
  have entry: "pi_swapchains presenting_info = [5]" "find_locked (sys_swapchains presenting_sys) 5 = Some presenting_sc"
    by (simp_all add: presenting_info_def presenting_sys_def presenting_sc_def)
  have ready: "present_ready presenting_sc"
    by (simp add: present_ready_def presenting_sc_def worker_sc_def work_ok_def sc_zero_def)
  have "(if sc_async presenting_sc then dev_async_queue (sys_dev presenting_sys) else 7) = 7"
    by (simp add: presenting_sys_def)
  with present_exactly_once [OF run entry ready] show ?thesis using run by simp
qed

end
