(* ===== verification/Layer.thy ===== *)
theory Layer
  imports Registry Present
begin

text \<open>
  The layer as the loader sees it (src/src/layer.c, src/src/layer_queue.c,
  src/src/layer_registry.c, src/src/layer_device_fns.c): the instances and devices by dispatch key,
  the queue-level and swapchain hooks that find their device and run its operation, the proc-address
  routing, the version negotiation and the instances (src/src/layer_instance.c). A device runs its operations as the state \<open>sys\<close> of the other
  theories. The chain below is a parameter: the names it resolves (\<open>gipa\<close>, \<open>gdpa\<close>) and the dispatch
  pointer of a handle (\<open>lay_key\<close>), what a physical device answers (\<open>lay_physical\<close>) and the loader's
  chain links.
\<close>

section \<open>The state\<close>

record layer_device =
  ld_key :: nat
  ld_dev :: afmf_device
  ld_gdpa :: "string \<Rightarrow> bool"
  ld_fns :: "string \<Rightarrow> bool" \<comment> \<open>the entry points of \<open>struct afmf_device_fns\<close> that are not NULL\<close>
  ld_swapchains :: "afmf_swapchain list"

text \<open>What a physical device answers, through the instance's functions.\<close>

record physical_device =
  pd_api_version :: u32
  pd_timestamps :: bool
  pd_timestamp_period :: real
  pd_ubo_alignment :: u64
  pd_subgroup_compute :: bool
  pd_subgroup_ops :: "subgroup_op set"
  pd_memory_types :: "memory_property set list"
  pd_queue_families :: "queue_family list"
  pd_features :: device_features
  pd_extensions :: "vk_result \<times> string list"
  pd_surface_capabilities :: "handle \<Rightarrow> vk_result \<times> surface_caps"
  pd_surface_support :: "u32 \<Rightarrow> handle \<Rightarrow> vk_result \<times> bool"
  pd_surface_present_modes :: "handle \<Rightarrow> vk_result \<times> present_mode list"
  pd_surface_capabilities2 :: "handle \<Rightarrow> vk_result \<times> present_mode list"
  pd_format_properties :: "vk_format \<Rightarrow> format_feature set"

record afmf_instance =
  inst_key :: nat
  inst_handle :: handle
  inst_api_version :: u32
  inst_gipa :: "string \<Rightarrow> bool"
  inst_properties2 :: bool \<comment> \<open>\<open>get_properties2\<close> is not NULL\<close>

record 'w layer = "'w eff" +
  lay_cfg :: afmf_config
  lay_ticks :: "nat \<Rightarrow> u64 list"
  lay_key :: "handle \<Rightarrow> nat" \<comment> \<open>\<open>dispatch_key\<close>\<close>
  lay_physical :: "handle \<Rightarrow> physical_device"
  lay_link :: nat \<comment> \<open>the loader's \<open>pLayerInfo\<close>, advanced by every layer of a creation\<close>
  lay_link_next :: "nat \<Rightarrow> nat" \<comment> \<open>\<open>pNext\<close> of a link\<close>
  lay_link_after :: "nat \<Rightarrow> nat" \<comment> \<open>where the layers below leave a link\<close>
  lay_link_gipa :: "nat \<Rightarrow> string \<Rightarrow> bool"
  lay_link_gdpa :: "nat \<Rightarrow> string \<Rightarrow> bool"
  lay_instances :: "afmf_instance list"
  lay_devices :: "layer_device list"

section \<open>The registry\<close>

definition instances_modify :: "(afmf_instance list \<Rightarrow> afmf_instance list) \<Rightarrow> ('w layer, unit) state" where
  "instances_modify f = modify (\<lambda>s. s\<lparr>lay_instances := f (lay_instances s)\<rparr>)"

definition devices_modify :: "(layer_device list \<Rightarrow> layer_device list) \<Rightarrow> ('w layer, unit) state" where
  "devices_modify f = modify (\<lambda>s. s\<lparr>lay_devices := f (lay_devices s)\<rparr>)"

definition afmf_instance_find :: "nat \<Rightarrow> ('w layer, afmf_instance option) state" where
  "afmf_instance_find key = do {
     lock_mutex RegistryLock;
     inst \<leftarrow> gets (\<lambda>s. keyed_find inst_key key (lay_instances s));
     unlock_mutex RegistryLock;
     return inst
   }"

definition afmf_instance_take :: "nat \<Rightarrow> ('w layer, afmf_instance option) state" where
  "afmf_instance_take key = do {
     lock_mutex RegistryLock;
     (inst, rest) \<leftarrow> gets (\<lambda>s. keyed_take inst_key key (lay_instances s));
     instances_modify (\<lambda>_. rest);
     unlock_mutex RegistryLock;
     return inst
   }"

definition afmf_instance_register :: "afmf_instance \<Rightarrow> ('w layer, unit) state" where
  "afmf_instance_register inst = do {
     lock_mutex RegistryLock;
     instances_modify (\<lambda>insts. inst # insts);
     unlock_mutex RegistryLock
   }"

definition afmf_device_find :: "nat \<Rightarrow> ('w layer, layer_device option) state" where
  "afmf_device_find key = do {
     lock_mutex RegistryLock;
     dev \<leftarrow> gets (\<lambda>s. keyed_find ld_key key (lay_devices s));
     unlock_mutex RegistryLock;
     return dev
   }"

definition afmf_device_take :: "nat \<Rightarrow> ('w layer, layer_device option) state" where
  "afmf_device_take key = do {
     lock_mutex RegistryLock;
     (dev, rest) \<leftarrow> gets (\<lambda>s. keyed_take ld_key key (lay_devices s));
     devices_modify (\<lambda>_. rest);
     unlock_mutex RegistryLock;
     return dev
   }"

definition afmf_device_register :: "layer_device \<Rightarrow> ('w layer, unit) state" where
  "afmf_device_register dev = do {
     lock_mutex RegistryLock;
     devices_modify (\<lambda>devs. dev # devs);
     unlock_mutex RegistryLock
   }"

interpretation instances: keyed_list inst_key "keyed_find inst_key" "keyed_take inst_key" "(#)" "keys_distinct inst_key"
  by (rule keyed_laws)

interpretation devices: keyed_list ld_key "keyed_find ld_key" "keyed_take ld_key" "(#)" "keys_distinct ld_key"
  by (rule keyed_laws)

section \<open>A device's operations\<close>

definition device_sys :: "'w layer \<Rightarrow> layer_device \<Rightarrow> 'w sys" where
  "device_sys s d = \<lparr>eff_driver = eff_driver s, eff_clock = eff_clock s, eff_world = eff_world s, eff_trace = eff_trace s,
     eff_array = eff_array s, sys_cfg = lay_cfg s, sys_dev = ld_dev d, sys_ticks = lay_ticks s, sys_sc = sc_zero,
     sys_swapchains = ld_swapchains d\<rparr>"

text \<open>An operation of a device that has left the registry, and of one that is in it.\<close>

definition run_device :: "layer_device \<Rightarrow> ('w sys, 'a) state \<Rightarrow> ('w layer, 'a \<times> layer_device) state" where
  "run_device d m = State (\<lambda>s. case run_state m (device_sys s d) of (a, t) \<Rightarrow>
     ((a, d\<lparr>ld_dev := sys_dev t, ld_swapchains := sys_swapchains t\<rparr>),
      s\<lparr>eff_world := eff_world t, eff_trace := eff_trace t\<rparr>))"

definition with_device :: "layer_device \<Rightarrow> ('w sys, 'a) state \<Rightarrow> ('w layer, 'a) state" where
  "with_device d m = do {
     (a, d) \<leftarrow> run_device d m;
     devices_modify (keyed_store ld_key d);
     return a
   }"

definition device_of :: "handle \<Rightarrow> ('w layer, layer_device option) state" where
  "device_of h = do { key \<leftarrow> gets (\<lambda>s. lay_key s h); afmf_device_find key }"

text \<open>A hook: the device found and its entry points there, or the error of the hook.\<close>

definition hook_on :: "handle \<Rightarrow> string list \<Rightarrow> 'a \<Rightarrow> ('w sys, 'a) state \<Rightarrow> ('w layer, 'a) state" where
  "hook_on h fns err m = do {
     found \<leftarrow> device_of h;
     (case found of
        None \<Rightarrow> return err
      | Some d \<Rightarrow> if list_all (ld_fns d) fns then with_device d m else return err)
   }"

section \<open>Queue hooks\<close>

definition app_submit :: "submit_kind \<Rightarrow> handle \<Rightarrow> nat \<Rightarrow> ('w sys, vk_result) state" where
  "app_submit kind queue args = do {
     dev \<leftarrow> dev_gets id;
     if \<not> shared_queue dev queue then vk (AppSubmit kind queue args)
     else do {
       lock_mutex AsyncLock;
       res \<leftarrow> vk (AppSubmit kind queue args);
       unlock_mutex AsyncLock;
       return res
     }
   }"

definition afmf_QueueSubmit :: "handle \<Rightarrow> nat \<Rightarrow> ('w layer, vk_result) state" where
  "afmf_QueueSubmit queue args = hook_on queue [] VK_ERROR_DEVICE_LOST (app_submit Submit queue args)"

definition afmf_QueueSubmit2 :: "handle \<Rightarrow> nat \<Rightarrow> ('w layer, vk_result) state" where
  "afmf_QueueSubmit2 queue args =
     hook_on queue [''vkQueueSubmit2''] VK_ERROR_DEVICE_LOST (app_submit Submit2 queue args)"

definition afmf_QueueSubmit2KHR :: "handle \<Rightarrow> nat \<Rightarrow> ('w layer, vk_result) state" where
  "afmf_QueueSubmit2KHR queue args =
     hook_on queue [''vkQueueSubmit2KHR''] VK_ERROR_DEVICE_LOST (app_submit Submit2KHR queue args)"

definition afmf_QueueBindSparse :: "handle \<Rightarrow> nat \<Rightarrow> ('w layer, vk_result) state" where
  "afmf_QueueBindSparse queue args =
     hook_on queue [''vkQueueBindSparse''] VK_ERROR_DEVICE_LOST (app_submit BindSparse queue args)"

definition device_idle :: "('w sys, vk_result) state" where
  "device_idle = do {
     afmf_swapchain_drain_all;
     dev \<leftarrow> dev_gets id;
     if dev_async_queue dev = VK_NULL_HANDLE then vk DeviceWaitIdle
     else do {
       lock_mutex AsyncLock;
       res \<leftarrow> vk DeviceWaitIdle;
       unlock_mutex AsyncLock;
       return res
     }
   }"

definition afmf_DeviceWaitIdle :: "handle \<Rightarrow> ('w layer, vk_result) state" where
  "afmf_DeviceWaitIdle device = hook_on device [] VK_ERROR_DEVICE_LOST device_idle"

definition queue_idle :: "handle \<Rightarrow> ('w sys, vk_result) state" where
  "queue_idle queue = do {
     dev \<leftarrow> dev_gets id;
     if \<not> shared_queue dev queue then vk (QueueWaitIdle queue)
     else do {
       lock_mutex AsyncLock;
       res \<leftarrow> vk (QueueWaitIdle queue);
       unlock_mutex AsyncLock;
       return res
     }
   }"

definition afmf_QueueWaitIdle :: "handle \<Rightarrow> ('w layer, vk_result) state" where
  "afmf_QueueWaitIdle queue = hook_on queue [] VK_ERROR_DEVICE_LOST (queue_idle queue)"

text \<open>The pipelines are the device's, no swapchain's frame generation.\<close>

definition device_end :: "('w sys, unit) state" where
  "device_end = do {
     afmf_swapchain_forget_all;
     _ \<leftarrow> run_fg afmf_framegen_pipelines_destroy fg_zero;
     _ \<leftarrow> vk DestroyDevice;
     return ()
   }"

definition afmf_DestroyDevice :: "handle \<Rightarrow> ('w layer, unit) state" where
  "afmf_DestroyDevice device =
     whenb (device \<noteq> VK_NULL_HANDLE) (do {
       key \<leftarrow> gets (\<lambda>s. lay_key s device);
       taken \<leftarrow> afmf_device_take key;
       (case taken of
          None \<Rightarrow> return ()
        | Some d \<Rightarrow> do { _ \<leftarrow> run_device d device_end; return () })
     })"

definition get_queue :: "vk_call \<Rightarrow> u32 \<Rightarrow> ('w sys, handle) state" where
  "get_queue call family = do {
     (_, queue) \<leftarrow> vk_full call;
     afmf_device_record_queue queue family;
     return queue
   }"

definition afmf_GetDeviceQueue :: "handle \<Rightarrow> u32 \<Rightarrow> u32 \<Rightarrow> ('w layer, handle) state" where
  "afmf_GetDeviceQueue device family index =
     hook_on device [] VK_NULL_HANDLE (get_queue (GetDeviceQueue family index) family)"

definition afmf_GetDeviceQueue2 :: "handle \<Rightarrow> u32 \<Rightarrow> u32 \<Rightarrow> ('w layer, handle) state" where
  "afmf_GetDeviceQueue2 device family index =
     hook_on device [''vkGetDeviceQueue2''] VK_NULL_HANDLE (get_queue (GetDeviceQueue2 family index) family)"

section \<open>Swapchain hooks\<close>

text \<open>The result and the handle; without a driver call nothing is written to \<open>*out\<close>.\<close>

definition afmf_CreateSwapchainKHR :: "handle \<Rightarrow> swapchain_create_info \<Rightarrow> ('w layer, vk_result \<times> handle option) state" where
  "afmf_CreateSwapchainKHR device info =
     hook_on device [''vkCreateSwapchainKHR''] (VK_ERROR_EXTENSION_NOT_PRESENT, None)
       (do { (res, handle) \<leftarrow> afmf_swapchain_create info; return (res, Some handle) })"

definition afmf_DestroySwapchainKHR :: "handle \<Rightarrow> handle \<Rightarrow> ('w layer, unit) state" where
  "afmf_DestroySwapchainKHR device swapchain =
     hook_on device [''vkDestroySwapchainKHR''] () (afmf_swapchain_destroy swapchain)"

definition afmf_GetSwapchainImagesKHR :: "handle \<Rightarrow> handle \<Rightarrow> ('w layer, vk_result \<times> nat option) state" where
  "afmf_GetSwapchainImagesKHR device swapchain =
     hook_on device [''vkGetSwapchainImagesKHR''] (VK_ERROR_DEVICE_LOST, None)
       (do { (res, answer) \<leftarrow> afmf_swapchain_get_images swapchain; return (res, Some answer) })"

definition afmf_QueuePresentKHR :: "handle \<Rightarrow> present_info \<Rightarrow> bool \<Rightarrow> ('w layer, vk_result \<times> vk_result option) state" where
  "afmf_QueuePresentKHR queue info wants =
     hook_on queue [''vkQueuePresentKHR''] (VK_ERROR_DEVICE_LOST, None) (afmf_swapchain_present queue info wants)"

text \<open>The acquires may wait for ever: \<open>None\<close> when they do.\<close>

definition acquire_hook ::
  "handle \<Rightarrow> string \<Rightarrow> bool \<Rightarrow> handle \<Rightarrow> u64 \<Rightarrow> handle \<Rightarrow> handle \<Rightarrow> 'w layer \<Rightarrow> ((vk_result \<times> nat option) \<times> 'w layer) option" where
  "acquire_hook device fn v2 swapchain timeout semaphore fence s =
     (case run_state (device_of device) s of (found, s) \<Rightarrow>
        (case found of
           None \<Rightarrow> Some ((VK_ERROR_DEVICE_LOST, None), s)
         | Some d \<Rightarrow>
             if \<not> ld_fns d fn then Some ((VK_ERROR_DEVICE_LOST, None), s)
             else map_option (\<lambda>((res, image), t). ((res, Some image), s\<lparr>eff_world := eff_world t, eff_trace := eff_trace t\<rparr>))
                    (afmf_swapchain_acquire v2 swapchain timeout semaphore fence (device_sys s d))))"

definition afmf_AcquireNextImageKHR where
  "afmf_AcquireNextImageKHR device = acquire_hook device ''vkAcquireNextImageKHR'' False"

definition afmf_AcquireNextImage2KHR where
  "afmf_AcquireNextImage2KHR device = acquire_hook device ''vkAcquireNextImage2KHR'' True"

section \<open>Surfaces\<close>

definition instance_of :: "handle \<Rightarrow> ('w layer, afmf_instance option) state" where
  "instance_of h = do { key \<leftarrow> gets (\<lambda>s. lay_key s h); afmf_instance_find key }"

definition create_surface_logged :: "handle \<Rightarrow> string \<Rightarrow> ('w layer, vk_result \<times> handle option) state" where
  "create_surface_logged instance' fn_name = do {
     inst \<leftarrow> instance_of instance';
     (case inst of
        None \<Rightarrow> return (VK_ERROR_INITIALIZATION_FAILED, None)
      | Some inst \<Rightarrow>
          if \<not> inst_gipa inst fn_name then return (VK_ERROR_EXTENSION_NOT_PRESENT, None)
          else do { (res, surface) \<leftarrow> vk_full (CreateSurface fn_name); return (res, Some surface) })
   }"

section \<open>Proc addresses\<close>

text \<open>What a lookup hands out: a hook of the layer by its name, or what the chain below has under it.\<close>

datatype proc = Hook string | Below string

definition instance_hooks :: "string list" where
  "instance_hooks = [''vkGetInstanceProcAddr'', ''vkCreateInstance'', ''vkDestroyInstance'', ''vkCreateDevice'']"

definition surface_hooks :: "string list" where
  "surface_hooks = [''vkCreateWaylandSurfaceKHR'', ''vkCreateXcbSurfaceKHR'', ''vkCreateXlibSurfaceKHR'',
     ''vkCreateHeadlessSurfaceEXT'', ''vkCreateDisplayPlaneSurfaceKHR'']"

definition device_hooks :: "string list" where
  "device_hooks = [''vkGetDeviceProcAddr'', ''vkDestroyDevice'', ''vkGetDeviceQueue'', ''vkGetDeviceQueue2'',
     ''vkQueueSubmit'', ''vkQueueSubmit2'', ''vkQueueSubmit2KHR'', ''vkQueueBindSparse'',
     ''vkQueueWaitIdle'', ''vkDeviceWaitIdle'']"

definition swapchain_hooks :: "string list" where
  "swapchain_hooks = [''vkCreateSwapchainKHR'', ''vkDestroySwapchainKHR'', ''vkQueuePresentKHR'',
     ''vkAcquireNextImageKHR'', ''vkAcquireNextImage2KHR'', ''vkGetSwapchainImagesKHR'']"

fun lookup :: "string list \<Rightarrow> string \<Rightarrow> proc option" where
  "lookup [] name = None"
| "lookup (h # hs) name = (if h = name then Some (Hook h) else lookup hs name)"

definition below :: "(string \<Rightarrow> bool) \<Rightarrow> string \<Rightarrow> proc option" where
  "below chain name = (if chain name then Some (Below name) else None)"

text \<open>A hook only where the chain below has the command.\<close>

definition hook_if :: "(string \<Rightarrow> bool) \<Rightarrow> string \<Rightarrow> proc \<Rightarrow> proc option" where
  "hook_if chain name fn = (if chain name then Some fn else None)"

definition afmf_GetInstanceProcAddr :: "handle \<Rightarrow> string \<Rightarrow> ('w layer, proc option) state" where
  "afmf_GetInstanceProcAddr instance' name =
     (case lookup instance_hooks name of
        Some fn \<Rightarrow> return (Some fn)
      | None \<Rightarrow>
          if instance' = VK_NULL_HANDLE then return None
          else do {
            inst \<leftarrow> instance_of instance';
            return (case inst of
              None \<Rightarrow> None
            | Some inst \<Rightarrow>
                (let fn = lookup device_hooks name;
                     fn = (if fn = None then lookup swapchain_hooks name else fn);
                     fn = (if fn = None then lookup surface_hooks name else fn)
                 in case fn of Some fn \<Rightarrow> hook_if (inst_gipa inst) name fn | None \<Rightarrow> below (inst_gipa inst) name))
          })"

definition afmf_GetDeviceProcAddr :: "handle \<Rightarrow> string \<Rightarrow> ('w layer, proc option) state" where
  "afmf_GetDeviceProcAddr device name =
     (if device = VK_NULL_HANDLE then return None
      else do {
        dev \<leftarrow> device_of device;
        return (case dev of
          None \<Rightarrow> None
        | Some dev \<Rightarrow>
            (case lookup device_hooks name of
               Some fn \<Rightarrow> hook_if (ld_gdpa dev) name fn
             | None \<Rightarrow>
                 (case lookup swapchain_hooks name of
                    Some fn \<Rightarrow> hook_if (ld_gdpa dev) name fn
                  | None \<Rightarrow> below (ld_gdpa dev) name)))
      })"

section \<open>Version negotiation\<close>

record negotiate_layer_interface =
  ng_type_ok :: bool \<comment> \<open>\<open>sType\<close> is \<open>LAYER_NEGOTIATE_INTERFACE_STRUCT\<close>\<close>
  ng_version :: u32
  ng_instance_proc :: "proc option"
  ng_device_proc :: "proc option"
  ng_physical_device_proc :: "proc option"

definition vkNegotiateLoaderLayerInterfaceVersion ::
  "negotiate_layer_interface option \<Rightarrow> vk_result \<times> negotiate_layer_interface option" where
  "vkNegotiateLoaderLayerInterfaceVersion negotiate =
     (case negotiate of
        None \<Rightarrow> (VK_ERROR_INITIALIZATION_FAILED, None)
      | Some n \<Rightarrow>
          if \<not> ng_type_ok n then (VK_ERROR_INITIALIZATION_FAILED, Some n)
          else if ng_version n < 2 then (VK_ERROR_INITIALIZATION_FAILED, Some n)
          else (VK_SUCCESS, Some (n\<lparr>ng_version := 2, ng_instance_proc := Some (Hook ''vkGetInstanceProcAddr''),
                 ng_device_proc := Some (Hook ''vkGetDeviceProcAddr''), ng_physical_device_proc := None\<rparr>)))"

section \<open>The next layer's device entry points\<close>

definition swapchain_fns :: "string list" where
  "swapchain_fns = [''vkCreateSwapchainKHR'', ''vkDestroySwapchainKHR'', ''vkGetSwapchainImagesKHR'',
     ''vkAcquireNextImageKHR'', ''vkAcquireNextImage2KHR'', ''vkQueuePresentKHR'']"

definition optional_fns :: "string list" where
  "optional_fns = [''vkGetDeviceQueue2'', ''vkQueueSubmit2'', ''vkQueueSubmit2KHR'', ''vkQueueBindSparse'']"

definition core_fns :: "string list" where
  "core_fns = [
     ''vkDestroyDevice'', ''vkGetDeviceQueue'', ''vkCreateImage'', ''vkDestroyImage'', ''vkGetImageMemoryRequirements'',
     ''vkAllocateMemory'', ''vkFreeMemory'', ''vkBindImageMemory'', ''vkCreateSemaphore'', ''vkDestroySemaphore'',
     ''vkCreateFence'', ''vkDestroyFence'', ''vkWaitForFences'', ''vkResetFences'', ''vkCreateCommandPool'',
     ''vkDestroyCommandPool'', ''vkAllocateCommandBuffers'', ''vkBeginCommandBuffer'', ''vkEndCommandBuffer'',
     ''vkCmdPipelineBarrier'', ''vkCmdCopyImage'', ''vkQueueSubmit'', ''vkQueueWaitIdle'', ''vkDeviceWaitIdle'',
     ''vkCreateShaderModule'', ''vkDestroyShaderModule'', ''vkCreateDescriptorSetLayout'',
     ''vkDestroyDescriptorSetLayout'', ''vkCreatePipelineLayout'', ''vkDestroyPipelineLayout'',
     ''vkCreateComputePipelines'', ''vkDestroyPipeline'', ''vkCreateDescriptorPool'', ''vkDestroyDescriptorPool'',
     ''vkAllocateDescriptorSets'', ''vkUpdateDescriptorSets'', ''vkCreateImageView'', ''vkDestroyImageView'',
     ''vkCreateSampler'', ''vkDestroySampler'', ''vkCreateBuffer'', ''vkDestroyBuffer'',
     ''vkGetBufferMemoryRequirements'', ''vkBindBufferMemory'', ''vkMapMemory'', ''vkUnmapMemory'',
     ''vkCmdBindPipeline'', ''vkCmdBindDescriptorSets'', ''vkCmdDispatch'', ''vkCmdPushConstants'',
     ''vkCmdClearColorImage'', ''vkCmdCopyImageToBuffer'', ''vkCmdExecuteCommands'', ''vkCreateQueryPool'',
     ''vkDestroyQueryPool'', ''vkCmdResetQueryPool'', ''vkCmdWriteTimestamp'', ''vkGetQueryPoolResults'']"

text \<open>The entry points resolved, and whether none of the core ones is missing.\<close>

definition afmf_load_device_fns :: "(string \<Rightarrow> bool) \<Rightarrow> bool \<times> (string \<Rightarrow> bool)" where
  "afmf_load_device_fns gdpa =
     (list_all gdpa core_fns, \<lambda>name. name \<in> set (core_fns @ optional_fns @ swapchain_fns) \<and> gdpa name)"

section \<open>The registry is a map\<close>

primrec registry_ops :: "layer_device store_op list \<Rightarrow> ('w layer, layer_device option list) state" where
  "registry_ops [] = return []"
| "registry_ops (op # ops) =
     (case op of
        Register d \<Rightarrow> do { afmf_device_register d; registry_ops ops }
      | Take k \<Rightarrow> do { out \<leftarrow> afmf_device_take k; outs \<leftarrow> registry_ops ops; return (out # outs) })"

lemma run_registry [simp]:
  "run_state (afmf_device_find k) s =
     (keyed_find ld_key k (lay_devices s), s\<lparr>eff_trace := eff_trace s @ [Locked RegistryLock, Unlocked RegistryLock]\<rparr>)"
  "run_state (afmf_device_take k) s =
     (fst (keyed_take ld_key k (lay_devices s)),
      s\<lparr>eff_trace := eff_trace s @ [Locked RegistryLock, Unlocked RegistryLock], lay_devices := snd (keyed_take ld_key k (lay_devices s))\<rparr>)"
  "run_state (afmf_device_register d) s =
     ((), s\<lparr>eff_trace := eff_trace s @ [Locked RegistryLock, Unlocked RegistryLock], lay_devices := d # lay_devices s\<rparr>)"
  "run_state (afmf_instance_find k) s =
     (keyed_find inst_key k (lay_instances s), s\<lparr>eff_trace := eff_trace s @ [Locked RegistryLock, Unlocked RegistryLock]\<rparr>)"
  "run_state (afmf_instance_take k) s =
     (fst (keyed_take inst_key k (lay_instances s)),
      s\<lparr>eff_trace := eff_trace s @ [Locked RegistryLock, Unlocked RegistryLock], lay_instances := snd (keyed_take inst_key k (lay_instances s))\<rparr>)"
  "run_state (afmf_instance_register inst) s =
     ((), s\<lparr>eff_trace := eff_trace s @ [Locked RegistryLock, Unlocked RegistryLock], lay_instances := inst # lay_instances s\<rparr>)"
  by (simp_all add: afmf_device_find_def afmf_device_take_def afmf_device_register_def afmf_instance_find_def
      afmf_instance_take_def afmf_instance_register_def devices_modify_def instances_modify_def case_prod_beta)

lemma registry_ops_run:
  "fst (run_state (registry_ops ops) s) = snd (devices.store_run ops (lay_devices s))
   \<and> lay_devices (snd (run_state (registry_ops ops) s)) = fst (devices.store_run ops (lay_devices s))"
  by (induction ops arbitrary: s) (auto split: store_op.split prod.splits simp: case_prod_beta)

text \<open>
  C28: The registry of devices is a map from dispatch keys. After any run of registrations, none under
  a key in use, and removals: every removal has returned what its key was registered for and still
  there, or nothing, and a lookup of any key finds what it is registered for, as on a map.
\<close>
theorem devices_registered:
  assumes run: "run_state (registry_ops ops) s = (outs, s')"
    and distinct: "keys_distinct ld_key (lay_devices s)"
    and fresh: "fresh_run ld_key ops (\<lambda>k. keyed_find ld_key k (lay_devices s))"
  shows "(fst (map_run ld_key ops (\<lambda>k. keyed_find ld_key k (lay_devices s))),
          snd (map_run ld_key ops (\<lambda>k. keyed_find ld_key k (lay_devices s))))
       = (\<lambda>k. fst (run_state (afmf_device_find k) s'), outs) \<and> keys_distinct ld_key (lay_devices s')"
proof -
  have end': "outs = snd (devices.store_run ops (lay_devices s))" "lay_devices s' = fst (devices.store_run ops (lay_devices s))"
    using registry_ops_run [of ops s] run by simp_all
  show ?thesis
    using devices.store_run_map [OF distinct, of ops] fresh
    by (simp add: end' devices.contents_def)
qed

definition plain_physical :: physical_device where
  "plain_physical =
     \<lparr>pd_api_version = 4206592, pd_timestamps = False, pd_timestamp_period = 1, pd_ubo_alignment = 256, pd_subgroup_compute = True,
      pd_subgroup_ops = {}, pd_memory_types = [{DEVICE_LOCAL}],
      pd_queue_families = [\<lparr>qf_flags = {QUEUE_GRAPHICS, QUEUE_COMPUTE}, qf_count = 1\<rparr>, \<lparr>qf_flags = {QUEUE_COMPUTE}, qf_count = 2\<rparr>],
      pd_features = \<lparr>feat_storage_write_without_format = True, feat_shader_int16 = True, feat_rest = 0\<rparr>,
      pd_extensions = (VK_SUCCESS, [''VK_KHR_global_priority'']),
      pd_surface_capabilities = (\<lambda>_. (VK_SUCCESS, caps_zero)), pd_surface_support = (\<lambda>_ _. (VK_SUCCESS, True)),
      pd_surface_present_modes = (\<lambda>_. (VK_SUCCESS, [])), pd_surface_capabilities2 = (\<lambda>_. (VK_SUCCESS, [])),
      pd_format_properties = (\<lambda>_. {})\<rparr>"

definition sample_layer :: "nat layer" where
  "sample_layer = \<lparr>eff_driver = calm_driver 0, eff_clock = ms_clock, eff_world = 0, eff_trace = [], eff_array = (\<lambda>_ _. 0),
     lay_cfg = cfg_default, lay_ticks = (\<lambda>_. []), lay_key = id, lay_physical = (\<lambda>_. plain_physical), lay_link = 0,
     lay_link_next = Suc, lay_link_after = (\<lambda>_. 0), lay_link_gipa = (\<lambda>_ _. True), lay_link_gdpa = (\<lambda>_ _. True),
     lay_instances = [], lay_devices = []\<rparr>"

definition sample_device :: "nat \<Rightarrow> layer_device" where
  "sample_device k = \<lparr>ld_key = k, ld_dev = dev_zero\<lparr>dev_async_queue := k, dev_async_shared := True\<rparr>, ld_gdpa = (\<lambda>_. True),
     ld_fns = (\<lambda>_. True), ld_swapchains = []\<rparr>"

lemma sample_layer_simps [simp]:
  "lay_key sample_layer h = h" "lay_devices sample_layer = []" "ld_key (sample_device k) = k"
  "eff_trace sample_layer = []"
  by (simp_all add: sample_layer_def sample_device_def)

theorem devices_registered_witness:
  "let ops = [Register (sample_device 3), Register (sample_device 4), Take 3, Take 3]
   in fst (run_state (registry_ops ops) sample_layer) = [Some (sample_device 3), None]
    \<and> fst (run_state (afmf_device_find 4) (snd (run_state (registry_ops ops) sample_layer))) = Some (sample_device 4)"
proof -
  let ?ops = "[Register (sample_device 3), Register (sample_device 4), Take 3, Take 3]"
  obtain outs s' where run: "run_state (registry_ops ?ops) sample_layer = (outs, s')" by fastforce
  have fresh: "fresh_run ld_key ?ops (\<lambda>k. keyed_find ld_key k (lay_devices sample_layer))" by simp
  have distinct: "keys_distinct ld_key (lay_devices sample_layer)" by (simp add: keys_distinct_def)
  have "outs = [Some (sample_device 3), None]" "fst (run_state (afmf_device_find 4) s') = Some (sample_device 4)"
    using devices_registered [OF run distinct fresh] by (auto simp: fun_eq_iff dest: spec [of _ 4])
  then show ?thesis unfolding Let_def run fst_conv snd_conv by simp
qed

section \<open>The hooks keep the locks\<close>

text \<open>A run takes and releases its locks in order and uses the queue \<open>q\<close> only under its lock.\<close>

definition guarded_run :: "handle \<Rightarrow> ('w layer, 'a) state \<Rightarrow> 'w layer \<Rightarrow> bool" where
  "guarded_run q m s \<longleftrightarrow> (\<exists>tr. eff_trace (snd (run_state m s)) = eff_trace s @ tr \<and> lock_run [] tr = Some [] \<and> guard_run q [] tr)"

lemma guarded_hook:
  assumes device: "keyed_find ld_key (lay_key s h) (lay_devices s) = Some d"
    and guards: "\<And>t. sys_dev t = ld_dev d \<Longrightarrow> sys_swapchains t = ld_swapchains d \<Longrightarrow>
      \<exists>tr. eff_trace (snd (run_state m t)) = eff_trace t @ tr \<and> lock_run [] tr = Some [] \<and> guard_run (dev_async_queue (ld_dev d)) [] tr"
  shows "guarded_run (dev_async_queue (ld_dev d)) (hook_on h fns err m) s"
proof -
  let ?s1 = "s\<lparr>eff_trace := eff_trace s @ [Locked RegistryLock, Unlocked RegistryLock]\<rparr>"
  have found: "run_state (device_of h) s = (Some d, ?s1)" by (simp add: device_of_def device)
  obtain a t where t: "run_state m (device_sys ?s1 d) = (a, t)" by fastforce
  obtain tr where tr: "eff_trace t = eff_trace (device_sys ?s1 d) @ tr" "lock_run [] tr = Some []"
      "guard_run (dev_async_queue (ld_dev d)) [] tr"
    using guards [of "device_sys ?s1 d"] by (auto simp: t) (auto simp: device_sys_def)
  show ?thesis
  proof (cases "list_all (ld_fns d) fns")
    case True
    have "eff_trace (snd (run_state (hook_on h fns err m) s)) = eff_trace t"
      using True t by (simp add: hook_on_def found with_device_def run_device_def devices_modify_def)
    then show ?thesis
      using tr unfolding guarded_run_def
      by (intro exI [of _ "[Locked RegistryLock, Unlocked RegistryLock] @ tr"]) (simp add: device_sys_def)
  next
    case False
    then show ?thesis
      unfolding guarded_run_def
      by (intro exI [of _ "[Locked RegistryLock, Unlocked RegistryLock]"]) (simp add: hook_on_def found)
  qed
qed

lemma guards_runs:
  assumes "guards (\<lambda>_. True) d True [] m (\<lambda>_. [])" "sys_dev t = d"
  shows "\<exists>tr. eff_trace (snd (run_state m t)) = eff_trace t @ tr \<and> lock_run [] tr = Some [] \<and> guard_run (dev_async_queue d) [] tr"
proof -
  obtain a t' where run: "run_state m t = (a, t')" by fastforce
  show ?thesis by (rule guardsD [OF assms(1) run TrueI assms(2)]) (simp add: run)
qed

lemma guards_app_submit:
  "queue \<noteq> dev_async_queue d \<or> dev_async_shared d \<Longrightarrow> guards A d g [] (app_submit kind queue args) (\<lambda>_. [])"
  unfolding app_submit_def by (intro guards_wp; auto simp: shared_queue_def)

lemma guards_queue_idle:
  "queue \<noteq> dev_async_queue d \<or> dev_async_shared d \<Longrightarrow> guards A d g [] (queue_idle queue) (\<lambda>_. [])"
  unfolding queue_idle_def by (intro guards_wp; auto simp: shared_queue_def)

lemma locks_drain_under: "locks [DevLock] afmf_sc_presenter_drain (\<lambda>_. [DevLock])"
  unfolding afmf_sc_presenter_drain_def worker_drain_def by (intro locks_wp; simp)

lemma guards_list_modify: "guards A d g H (list_modify f) (\<lambda>_. H)"
  unfolding guards_def list_modify_def by (auto intro: exI [of _ "[]"])

lemma guards_set_sc: "guards (\<lambda>_. True) d g H (sc_modify f) (\<lambda>_. H)"
  by (rule guards_step) (rule exI, rule conjI [OF refl], simp add: guards_def)

lemma guards_drain_each: "guards (\<lambda>_. True) d g [DevLock] (drain_each scs) (\<lambda>_. [DevLock])"
proof (induction scs)
  case (Cons sc scs)
  note drain = guards_quiet [OF locks_drain_under emits_threads(1) frames_async(2) same_dev_threads(2)]
  show ?case by (simp, intro guards_wp guards_bind [OF guards_set_sc] guards_bind [OF drain] guards_bind [OF Cons]; simp)
qed (simp add: guards_last)

lemma guards_unlock_last: "guards A d g [l] (unlock_mutex l) (\<lambda>_. [])"
  using guards_basic(7) [of l "[l]"] by simp

lemma guards_drain_all: "guards (\<lambda>_. True) d g [] afmf_swapchain_drain_all (\<lambda>_. [])"
  unfolding afmf_swapchain_drain_all_def
  by (intro guards_wp guards_bind [OF guards_drain_each] guards_bind [OF guards_list_modify]
      guards_unlock_last; simp)

lemma guards_device_idle: "guards (\<lambda>_. True) d g [] device_idle (\<lambda>_. [])"
  unfolding device_idle_def by (intro guards_wp guards_bind [OF guards_drain_all]; simp)

lemma present_hook_guarded:
  fixes s :: "'w layer"
  assumes device: "keyed_find ld_key (lay_key s queue) (lay_devices s) = Some d"
    and shared: "queue = dev_async_queue (ld_dev d) \<Longrightarrow>
      dev_async_shared (ld_dev d) \<and> (\<forall>sc \<in> set (ld_swapchains d). sc_gen_enabled sc \<longrightarrow> sc_async sc)"
  shows "guarded_run (dev_async_queue (ld_dev d)) (hook_on queue fns err (afmf_swapchain_present queue info wants)) s"
proof (rule guarded_hook [OF device])
  fix t :: "'w sys" assume t: "sys_dev t = ld_dev d" "sys_swapchains t = ld_swapchains d"
  obtain out t' where run: "run_state (afmf_swapchain_present queue info wants) t = (out, t')" by fastforce
  show "\<exists>tr. eff_trace (snd (run_state (afmf_swapchain_present queue info wants) t)) = eff_trace t @ tr
    \<and> lock_run [] tr = Some [] \<and> guard_run (dev_async_queue (ld_dev d)) [] tr"
    using present_guarded [OF run] shared unfolding t run snd_conv by blast
qed



section \<open>Objects the layer does not know\<close>

lemma run_unknown_device:
  "keyed_find ld_key (lay_key s h) (lay_devices s) = None \<Longrightarrow>
     run_state (hook_on h fns err m) s = (err, s\<lparr>eff_trace := eff_trace s @ [Locked RegistryLock, Unlocked RegistryLock]\<rparr>)"
  by (simp add: hook_on_def device_of_def)

lemma run_missing_fn:
  "keyed_find ld_key (lay_key s h) (lay_devices s) = Some d \<Longrightarrow> \<not> list_all (ld_fns d) fns \<Longrightarrow>
     run_state (hook_on h fns err m) s = (err, s\<lparr>eff_trace := eff_trace s @ [Locked RegistryLock, Unlocked RegistryLock]\<rparr>)"
  by (simp add: hook_on_def device_of_def)

lemma keyed_take_absent: "keyed_find key k xs = None \<Longrightarrow> keyed_take key k xs = (None, xs)"
  by (induction xs) (auto split: if_splits prod.split)

text \<open>The device is unknown, or one of the entry points is not there; and the state once the registry was asked.\<close>

definition refuses :: "'w layer \<Rightarrow> handle \<Rightarrow> string list \<Rightarrow> bool" where
  "refuses s h fns \<longleftrightarrow>
     (case keyed_find ld_key (lay_key s h) (lay_devices s) of None \<Rightarrow> True | Some d \<Rightarrow> \<not> list_all (ld_fns d) fns)"

definition asked :: "'w layer \<Rightarrow> 'w layer" where
  "asked s = s\<lparr>eff_trace := eff_trace s @ [Locked RegistryLock, Unlocked RegistryLock]\<rparr>"

lemma hook_refuses: "refuses s h fns \<Longrightarrow> run_state (hook_on h fns err m) s = (err, asked s)"
  unfolding refuses_def asked_def using run_unknown_device run_missing_fn by (auto split: option.splits)

lemma destroy_refuses: "refuses s h [] \<Longrightarrow> h \<noteq> VK_NULL_HANDLE \<Longrightarrow> run_state (afmf_DestroyDevice h) s = ((), asked s)"
  by (auto simp: refuses_def asked_def afmf_DestroyDevice_def keyed_take_absent split: option.splits)

lemma acquire_refuses:
  "refuses s h [fn] \<Longrightarrow> acquire_hook h fn v2 swapchain timeout semaphore fence s = Some ((VK_ERROR_DEVICE_LOST, None), asked s)"
  by (auto simp: refuses_def asked_def acquire_hook_def device_of_def split: option.splits)

lemmas hook_defs = afmf_QueueSubmit_def afmf_QueueSubmit2_def afmf_QueueSubmit2KHR_def afmf_QueueBindSparse_def
  afmf_QueueWaitIdle_def afmf_DeviceWaitIdle_def afmf_GetDeviceQueue_def afmf_GetDeviceQueue2_def
  afmf_CreateSwapchainKHR_def afmf_DestroySwapchainKHR_def afmf_GetSwapchainImagesKHR_def afmf_QueuePresentKHR_def
  afmf_AcquireNextImageKHR_def afmf_AcquireNextImage2KHR_def

text \<open>
  C30: A hook called for a device the layer does not know, or whose chain lacks the command, says so
  and does nothing: besides taking and releasing the registry's lock the state is as before, nothing
  is written to the outputs and no call is made below. The submissions, waits, images and acquires say
  that the device is lost, the swapchain's creation that the extension is not there, the queue getters
  give no queue, and the destructions do nothing.
\<close>
theorem hooks_refuse:
  "(refuses s h [] \<longrightarrow> run_state (afmf_QueueSubmit h args) s = (VK_ERROR_DEVICE_LOST, asked s)
      \<and> run_state (afmf_QueueWaitIdle h) s = (VK_ERROR_DEVICE_LOST, asked s)
      \<and> run_state (afmf_DeviceWaitIdle h) s = (VK_ERROR_DEVICE_LOST, asked s)
      \<and> run_state (afmf_GetDeviceQueue h family index) s = (VK_NULL_HANDLE, asked s)
      \<and> (h \<noteq> VK_NULL_HANDLE \<longrightarrow> run_state (afmf_DestroyDevice h) s = ((), asked s)))
    \<and> (refuses s h [''vkQueueSubmit2''] \<longrightarrow> run_state (afmf_QueueSubmit2 h args) s = (VK_ERROR_DEVICE_LOST, asked s))
    \<and> (refuses s h [''vkQueueSubmit2KHR''] \<longrightarrow> run_state (afmf_QueueSubmit2KHR h args) s = (VK_ERROR_DEVICE_LOST, asked s))
    \<and> (refuses s h [''vkQueueBindSparse''] \<longrightarrow> run_state (afmf_QueueBindSparse h args) s = (VK_ERROR_DEVICE_LOST, asked s))
    \<and> (refuses s h [''vkGetDeviceQueue2''] \<longrightarrow> run_state (afmf_GetDeviceQueue2 h family index) s = (VK_NULL_HANDLE, asked s))
    \<and> (refuses s h [''vkCreateSwapchainKHR''] \<longrightarrow>
        run_state (afmf_CreateSwapchainKHR h info) s = ((VK_ERROR_EXTENSION_NOT_PRESENT, None), asked s))
    \<and> (refuses s h [''vkDestroySwapchainKHR''] \<longrightarrow> run_state (afmf_DestroySwapchainKHR h swapchain) s = ((), asked s))
    \<and> (refuses s h [''vkGetSwapchainImagesKHR''] \<longrightarrow>
        run_state (afmf_GetSwapchainImagesKHR h swapchain) s = ((VK_ERROR_DEVICE_LOST, None), asked s))
    \<and> (refuses s h [''vkQueuePresentKHR''] \<longrightarrow>
        run_state (afmf_QueuePresentKHR h present wants) s = ((VK_ERROR_DEVICE_LOST, None), asked s))
    \<and> (refuses s h [''vkAcquireNextImageKHR''] \<longrightarrow>
        afmf_AcquireNextImageKHR h swapchain timeout semaphore fence s = Some ((VK_ERROR_DEVICE_LOST, None), asked s))
    \<and> (refuses s h [''vkAcquireNextImage2KHR''] \<longrightarrow>
        afmf_AcquireNextImage2KHR h swapchain timeout semaphore fence s = Some ((VK_ERROR_DEVICE_LOST, None), asked s))"
  by (auto simp: hook_defs hook_refuses destroy_refuses acquire_refuses)

theorem hooks_refuse_witness:
  "refuses sample_layer 5 [] \<and> run_state (afmf_QueueSubmit 5 0) sample_layer = (VK_ERROR_DEVICE_LOST, asked sample_layer)
   \<and> refuses (sample_layer\<lparr>lay_devices := [sample_device 7\<lparr>ld_fns := (\<lambda>_. False)\<rparr>]\<rparr>) 7 [''vkQueuePresentKHR'']"
proof -
  have "refuses sample_layer 5 []" by (simp add: refuses_def)
  moreover from this have "run_state (afmf_QueueSubmit 5 0) sample_layer = (VK_ERROR_DEVICE_LOST, asked sample_layer)"
    using hooks_refuse [of sample_layer 5] by blast
  ultimately show ?thesis by (simp add: refuses_def)
qed

section \<open>Proc addresses\<close>

lemma lookup_hook: "lookup hooks name = (if name \<in> set hooks then Some (Hook name) else None)"
  by (induction hooks) auto

lemma instance_proc_known:
  assumes "name \<notin> set instance_hooks" "h \<noteq> VK_NULL_HANDLE" "keyed_find inst_key (lay_key s h) (lay_instances s) = Some inst"
  shows "fst (run_state (afmf_GetInstanceProcAddr h name) s) =
    (if \<not> inst_gipa inst name then None
     else if name \<in> set (device_hooks @ swapchain_hooks @ surface_hooks) then Some (Hook name) else Some (Below name))"
  using assms by (simp add: afmf_GetInstanceProcAddr_def lookup_hook instance_of_def hook_if_def below_def Let_def)

lemma hook_fns: "name \<in> set (device_hooks @ swapchain_hooks) \<Longrightarrow> name \<noteq> ''vkGetDeviceProcAddr'' \<Longrightarrow>
    name \<in> set (core_fns @ optional_fns @ swapchain_fns)"
  by (auto simp: device_hooks_def swapchain_hooks_def core_fns_def optional_fns_def swapchain_fns_def)

text \<open>
  C29: What the two proc-address routes hand out. A device lookup gives nothing for a null or unknown
  device or a command the chain below lacks, the layer's hook for each of its queue and swapchain
  commands, and the chain's own for any other. An instance lookup gives the four global hooks always,
  nothing else for a null or unknown instance, and otherwise the hooks for the device, swapchain and
  surface commands the chain has, and the chain's own for the rest. A device whose entry points were
  resolved from the same chain has the entry point of every hook handed out, so the hook has something
  to forward to. The interface negotiated is version two, with the two routes.
\<close>
theorem proc_addresses:
  "fst (run_state (afmf_GetDeviceProcAddr h name) s) =
     (if h = VK_NULL_HANDLE then None
      else case keyed_find ld_key (lay_key s h) (lay_devices s) of None \<Rightarrow> None
      | Some d \<Rightarrow> if \<not> ld_gdpa d name then None
          else if name \<in> set (device_hooks @ swapchain_hooks) then Some (Hook name) else Some (Below name))
   \<and> fst (run_state (afmf_GetInstanceProcAddr h name) s) =
     (if name \<in> set instance_hooks then Some (Hook name)
      else if h = VK_NULL_HANDLE then None
      else case keyed_find inst_key (lay_key s h) (lay_instances s) of None \<Rightarrow> None
      | Some inst \<Rightarrow> if \<not> inst_gipa inst name then None
          else if name \<in> set (device_hooks @ swapchain_hooks @ surface_hooks) then Some (Hook name) else Some (Below name))
   \<and> (gdpa name \<and> name \<in> set (device_hooks @ swapchain_hooks) \<and> name \<noteq> ''vkGetDeviceProcAddr'' \<longrightarrow>
        snd (afmf_load_device_fns gdpa) name)
   \<and> (fst (vkNegotiateLoaderLayerInterfaceVersion (Some n)) = VK_SUCCESS \<longleftrightarrow> ng_type_ok n \<and> 2 \<le> ng_version n)
   \<and> (ng_type_ok n \<and> 2 \<le> ng_version n \<longrightarrow>
        snd (vkNegotiateLoaderLayerInterfaceVersion (Some n)) = Some (n\<lparr>ng_version := 2,
          ng_instance_proc := Some (Hook ''vkGetInstanceProcAddr''), ng_device_proc := Some (Hook ''vkGetDeviceProcAddr''),
          ng_physical_device_proc := None\<rparr>))"
proof (intro conjI)
  show "fst (run_state (afmf_GetDeviceProcAddr h name) s) =
     (if h = VK_NULL_HANDLE then None
      else case keyed_find ld_key (lay_key s h) (lay_devices s) of None \<Rightarrow> None
      | Some d \<Rightarrow> if \<not> ld_gdpa d name then None
          else if name \<in> set (device_hooks @ swapchain_hooks) then Some (Hook name) else Some (Below name))"
    by (auto simp: afmf_GetDeviceProcAddr_def lookup_hook device_of_def hook_if_def below_def split: option.split)
  show "fst (run_state (afmf_GetInstanceProcAddr h name) s) =
     (if name \<in> set instance_hooks then Some (Hook name)
      else if h = VK_NULL_HANDLE then None
      else case keyed_find inst_key (lay_key s h) (lay_instances s) of None \<Rightarrow> None
      | Some inst \<Rightarrow> if \<not> inst_gipa inst name then None
          else if name \<in> set (device_hooks @ swapchain_hooks @ surface_hooks) then Some (Hook name) else Some (Below name))"
    using instance_proc_known [of name h s]
    by (auto simp: afmf_GetInstanceProcAddr_def lookup_hook instance_of_def split: option.split)
  show "gdpa name \<and> name \<in> set (device_hooks @ swapchain_hooks) \<and> name \<noteq> ''vkGetDeviceProcAddr'' \<longrightarrow>
      snd (afmf_load_device_fns gdpa) name"
    using hook_fns unfolding afmf_load_device_fns_def snd_conv by blast
qed (auto simp: vkNegotiateLoaderLayerInterfaceVersion_def not_less)

theorem proc_addresses_witness:
  "fst (run_state (afmf_GetDeviceProcAddr 7 ''vkQueueSubmit'') (sample_layer\<lparr>lay_devices := [sample_device 7]\<rparr>)) = Some (Hook ''vkQueueSubmit'')
   \<and> snd (afmf_load_device_fns (\<lambda>_. True)) ''vkQueueSubmit''"
proof -
  have q: "''vkQueueSubmit'' \<in> set device_hooks" by (simp add: device_hooks_def)
  have all: "ld_gdpa (sample_device 7) name" for name by (simp add: sample_device_def)
  note facts = proc_addresses [of 7 "''vkQueueSubmit''" "sample_layer\<lparr>lay_devices := [sample_device 7]\<rparr>" "\<lambda>_. True"
    "\<lparr>ng_type_ok = True, ng_version = 2, ng_instance_proc = None, ng_device_proc = None, ng_physical_device_proc = None\<rparr>"]
  have "snd (afmf_load_device_fns (\<lambda>_. True)) ''vkQueueSubmit''"
    using conjunct1 [OF conjunct2 [OF conjunct2 [OF facts]]] q by simp
  moreover have "fst (run_state (afmf_GetDeviceProcAddr 7 ''vkQueueSubmit'') (sample_layer\<lparr>lay_devices := [sample_device 7]\<rparr>))
      = Some (Hook ''vkQueueSubmit'')"
    using conjunct1 [OF facts] q by (simp add: all)
  ultimately show ?thesis by blast
qed

end
