(* ===== verification/Device_State.thy ===== *)
theory Device_State
  imports Layer
begin

text \<open>
  What a device's state keeps: its table of queues within its allocation, and every swapchain's rings,
  threads, slots and queue in agreement (\<open>device_ok\<close>, \<open>entry_ok\<close>). Every operation of
  src/src/swapchain_*.c and of the queue hooks keeps it, as does every turn of a swapchain's two threads;
  \<open>leads\<close> is a Hoare triple over the swapchain for the operations whose results matter.
\<close>

section \<open>Well-formed swapchains\<close>

text \<open>
  \<open>p\<close> says that the layer's queue can present to every surface: then a swapchain that generates uses it.
\<close>

definition entry_ok :: "bool \<Rightarrow> afmf_swapchain \<Rightarrow> bool" where
  "entry_ok p sc \<longleftrightarrow> threads_ok sc \<and> work_ok sc \<and> jobs_ok sc
     \<and> (sc_gen_enabled sc \<longrightarrow> length (sc_slots sc) = sc_image_count sc)
     \<and> (sc_image_count sc = 0 \<or> sc_slot_index sc < sc_image_count sc)
     \<and> (p \<and> sc_gen_enabled sc \<longrightarrow> sc_async sc)"

text \<open>The same with what an operation on an entry leaves: its handle, its images, the frames queued at most.\<close>

definition entry_at :: "bool \<Rightarrow> handle \<Rightarrow> nat \<Rightarrow> nat \<Rightarrow> afmf_swapchain \<Rightarrow> bool" where
  "entry_at p h n c sc \<longleftrightarrow> entry_ok p sc \<and> sc_handle sc = h \<and> sc_image_count sc = n \<and> sc_work_count sc \<le> c"

lemmas entry_defs = entry_at_def entry_ok_def threads_ok_def

lemma entry_fixed: "sc_fixed sc' = sc_fixed sc \<Longrightarrow> entry_at p h n c sc' = entry_at p h n c sc"
proof -
  assume f: "sc_fixed sc' = sc_fixed sc"
  then have "map slot_fence (sc_slots sc') = map slot_fence (sc_slots sc)" by (simp add: sc_fixed_def)
  then have "length (sc_slots sc') = length (sc_slots sc)" by (rule map_eq_imp_length_eq)
  with f show ?thesis by (simp add: entry_defs sc_fixed_def work_ok_def jobs_ok_def)
qed

lemma entry_fixed_keeps: "frames sc_fixed m \<Longrightarrow> keeps (on_sc (entry_at p h n c)) m"
  unfolding keeps_def on_sc_def frames_def using entry_fixed by metis

lemma entry_view_keeps:
  assumes "frames (\<lambda>sc. (sc_fixed (sc\<lparr>sc_slots := []\<rparr>), length (sc_slots sc))) m"
  shows "keeps (on_sc (entry_at p h n c)) m"
proof -
  have "entry_at p h n c sc' = entry_at p h n c sc"
    if "sc_fixed (sc'\<lparr>sc_slots := []\<rparr>) = sc_fixed (sc\<lparr>sc_slots := []\<rparr>)" "length (sc_slots sc') = length (sc_slots sc)" for sc' sc
    using that by (simp add: entry_defs sc_fixed_def work_ok_def jobs_ok_def)
  then show ?thesis using assms unfolding keeps_def on_sc_def frames_def by (metis prod.inject)
qed

text \<open>Hoare triples over the swapchain, for what depends on results.\<close>

definition leads :: "(afmf_swapchain \<Rightarrow> bool) \<Rightarrow> ('w sys, 'a) state \<Rightarrow> ('a \<Rightarrow> afmf_swapchain \<Rightarrow> bool) \<Rightarrow> bool" where
  "leads P m Q \<longleftrightarrow> (\<forall>s a s'. P (sys_sc s) \<longrightarrow> run_state m s = (a, s') \<longrightarrow> Q a (sys_sc s'))"

lemma leadsD: "leads P m Q \<Longrightarrow> P (sys_sc s) \<Longrightarrow> run_state m s = (a, s') \<Longrightarrow> Q a (sys_sc s')"
  unfolding leads_def by blast

lemma leads_bind:
  assumes "leads P m R" "\<And>a. leads (R a) (f a) Q"
  shows "leads P (State_Monad.bind m f) Q"
  unfolding leads_def
proof (intro allI impI)
  fix s a s' assume "P (sys_sc s)" "run_state (State_Monad.bind m f) s = (a, s')"
  then obtain b s1 where "R b (sys_sc s1)" "run_state (f b) s1 = (a, s')"
    using assms(1) unfolding leads_def by (elim run_bindE) blast
  then show "Q a (sys_sc s')" using assms(2) unfolding leads_def by blast
qed

lemma leads_keeps: "keeps (on_sc P) m \<Longrightarrow> leads P m (\<lambda>_. P)"
  unfolding leads_def keeps_def on_sc_def by (metis snd_conv)

lemma leads_bind_keeps: "keeps (on_sc P) m \<Longrightarrow> (\<And>a. leads P (f a) Q) \<Longrightarrow> leads P (State_Monad.bind m f) Q"
  by (rule leads_bind [OF leads_keeps])

lemma leads_return: "(\<And>sc. P sc \<Longrightarrow> Q a sc) \<Longrightarrow> leads P (return a) Q"
  by (simp add: leads_def)

lemma leads_if: "(b \<Longrightarrow> leads P m Q) \<Longrightarrow> (\<not> b \<Longrightarrow> leads P n Q) \<Longrightarrow> leads P (if b then m else n) Q"
  by simp

lemma leads_prod: "(\<And>x y. p = (x, y) \<Longrightarrow> leads P (f x y) Q) \<Longrightarrow> leads P (case p of (x, y) \<Rightarrow> f x y) Q"
  by (cases p) auto

lemma leads_weaken: "leads P m Q \<Longrightarrow> (\<And>sc. P' sc \<Longrightarrow> P sc) \<Longrightarrow> (\<And>a sc. Q a sc \<Longrightarrow> Q' a sc) \<Longrightarrow> leads P' m Q'"
  unfolding leads_def by blast

lemma leads_when: "(b \<Longrightarrow> leads P m Q) \<Longrightarrow> leads (\<lambda>sc. b \<and> P sc) m Q"
  unfolding leads_def by blast

lemma leads_bind_gets: "(\<And>x. \<exists>sc. P sc \<and> x = g sc \<Longrightarrow> leads P (f x) Q) \<Longrightarrow> leads P (State_Monad.bind (sc_gets g) f) Q"
  by (force simp: leads_def)

lemmas leads_rules = leads_prod leads_if leads_return

section \<open>Operations on an entry keep it well formed\<close>

lemma entry_update_cadence: "keeps (on_sc (entry_at p h n c)) afmf_sc_update_cadence"
  by (rule entry_fixed_keeps [OF frames_update_cadence])

lemma entry_start: "keeps (on_sc (entry_at p h n c)) afmf_sc_presenter_start"
  unfolding keeps_def on_sc_def afmf_sc_presenter_start_def
  by (auto simp: entry_defs work_ok_def jobs_ok_def run_effects split: prod.split)

lemma entry_drain: "keeps (on_sc (entry_at p h n c)) afmf_sc_presenter_drain"
  unfolding afmf_sc_presenter_drain_def worker_drain_def by (intro keeps_intros effect_free_on_sc)

lemma entry_stop: "keeps (on_sc (entry_at p h n c)) afmf_sc_presenter_stop"
  unfolding keeps_def on_sc_def afmf_sc_presenter_stop_def worker_stop_def worker_stop_request_def worker_stopped_def
    presenter_stop_request_def presenter_stopped_def
  by (auto simp: entry_defs work_ok_def jobs_ok_def run_effects split: prod.split)

lemma entry_disable: "keeps (on_sc (entry_at p h n c)) afmf_sc_gen_disable"
  unfolding afmf_sc_gen_disable_def
  by (intro keeps_intros entry_stop) (auto simp: entry_defs work_ok_def jobs_ok_def)

lemma entry_hook:
  "keeps (on_sc (entry_at p h n c)) hook_reserve" "keeps (on_sc (entry_at p h n c)) hook_results"
  "keeps (on_sc (entry_at p h n c)) (hook_adapter waits k)"
  "k < n \<Longrightarrow> keeps (on_sc (entry_at p h n c)) (hook_cancel k)"
  unfolding hook_reserve_def hook_results_def hook_adapter_def hook_cancel_def
  by (intro keeps_intros effect_free_on_sc; auto simp: entry_defs work_ok_def jobs_ok_def)+

lemma entry_take_slot: "0 < n \<Longrightarrow> leads (entry_at p h n c) hook_take_slot (\<lambda>k sc. k < n \<and> entry_at p h n c sc)"
  unfolding leads_def hook_take_slot_def by (auto simp: entry_defs work_ok_def jobs_ok_def)

lemma entry_queue: "leads (entry_at p h n 15) (hook_queue k job) (\<lambda>_. entry_at p h n 16)"
  unfolding leads_def hook_queue_def
  by (auto simp: entry_defs work_ok_def jobs_ok_def work_push_def run_effects split: prod.splits)

lemma entry_slot_cmds: "keeps (on_sc (entry_at p h n c)) (slot_cmds_create pool is)"
proof (induction "is")
  case (Cons i "is")
  show ?case
    by (simp, intro keeps_intros effect_free_on_sc keeps_array_of Cons) (auto simp: entry_defs work_ok_def jobs_ok_def)
qed (simp add: keeps_intros)

lemma entry_run_fg: "keeps (on_sc P) (run_fg m fg)"
  by (simp add: keeps_def on_sc_def run_fg_def split: prod.split)

lemma entry_ensure_pool: "keeps (on_sc (entry_at p h n c)) (afmf_sc_ensure_pool family)"
  unfolding afmf_sc_ensure_pool_def
  by (intro keeps_intros effect_free_on_sc entry_slot_cmds entry_run_fg; auto simp: entry_defs work_ok_def jobs_ok_def)

lemma entry_given_up: "keeps (on_sc (entry_at p h n c)) (present_given_up queue info)"
  unfolding present_given_up_def afmf_device_queue_present_def
  by (intro keeps_intros effect_free_on_sc entry_disable)

lemma entry_inline_presents: "keeps (on_sc (entry_at p h n c)) (inline_presents q info i job t)"
  unfolding inline_presents_def
  by (intro keeps_intros effect_free_on_sc entry_fixed_keeps [OF frames_spare_refill];
      auto simp: entry_defs work_ok_def jobs_ok_def inline_account_def)

lemma entry_kept:
  assumes "keeps (on_sc (entry_at p h n 15)) m"
  shows "leads (entry_at p h n 15) m (\<lambda>_. entry_at p h n 16)"
  using leads_keeps [OF assms] by (rule leads_weaken) (simp_all add: entry_at_def)

lemma entry_threaded:
  assumes "k < n"
  shows "leads (entry_at p h n 15) (present_threaded queue info wants k job t) (\<lambda>_. entry_at p h n 16)"
proof -
  have off: "leads (entry_at p h n 15) (do { hook_cancel k; present_given_up queue info }) (\<lambda>_. entry_at p h n 16)"
    by (intro entry_kept keeps_bind entry_hook assms entry_given_up)
  have on: "leads (entry_at p h n 16) (do {
       (res, failed) \<leftarrow> hook_results;
       whenb failed afmf_sc_gen_disable;
       t_end \<leftarrow> clock_gettime;
       sc_modify (\<lambda>sc. sc\<lparr>sc_hook_ms := sc_hook_ms sc + elapsed_ms t t_end\<rparr>);
       return (res, if wants then Some res else None)
     }) (\<lambda>_. entry_at p h n 16)"
    by (intro leads_keeps keeps_intros effect_free_on_sc entry_hook entry_disable) (auto simp: entry_defs work_ok_def jobs_ok_def)
  show ?thesis
    unfolding present_threaded_def
    by (intro leads_bind_keeps [OF entry_hook(1)] leads_bind_keeps [OF entry_hook(3)] leads_rules off
        leads_bind [OF entry_queue] on)
qed

lemma entry_inline:
  assumes "k < n"
  shows "keeps (on_sc (entry_at p h n c)) (present_inline queue q info k job t)"
  unfolding present_inline_def
  by (intro keeps_intros entry_fixed_keeps [OF frames_generate] entry_given_up entry_inline_presents)
     (use assms in \<open>auto simp: entry_defs work_ok_def jobs_ok_def\<close>)

lemma entry_generated: "leads (entry_at p h n 15) (afmf_sc_present_generated queue family info wants ordinal) (\<lambda>_. entry_at p h n 16)"
  unfolding afmf_sc_present_generated_def Let_def
  by (intro leads_bind_keeps [OF keeps_dev_gets] leads_bind_gets leads_bind_keeps [OF entry_ensure_pool] leads_rules
      entry_kept [OF entry_given_up] leads_bind_keeps [OF entry_start]
      leads_bind_keeps [OF keeps_if [OF keeps_sc_gets keeps_return]] leads_bind_keeps [OF keeps_if [OF entry_drain keeps_return]]
      leads_bind_keeps [OF keeps_clock] effect_free_on_sc leads_bind [OF entry_take_slot]
      leads_when entry_threaded entry_kept [OF entry_inline]) (auto simp: entry_at_def)

lemma entry_present: "leads (entry_at p h n 15) (present_entry queue info wants) (\<lambda>_. entry_at p h n 16)"
proof -
  have family: "keeps (on_sc (entry_at p h n 15)) (if b then afmf_device_queue_family queue else return None)" for b
    unfolding afmf_device_queue_family_def by (intro keeps_intros effect_free_on_sc)
  have off: "leads (entry_at p h n 15) (do { res \<leftarrow> afmf_device_queue_present queue info; return (res, None) }) (\<lambda>_. entry_at p h n 16)"
    unfolding afmf_device_queue_present_def
    by (intro entry_kept keeps_intros effect_free_on_sc)
  show ?thesis
    unfolding present_entry_def
  proof (intro leads_bind_keeps [OF entry_update_cadence] leads_bind_keeps [OF keeps_sc_gets] leads_bind_keeps [OF family])
    fix ordinal enabled and family' :: "u32 option"
    show "leads (entry_at p h n 15) (case family' of None \<Rightarrow> do { res \<leftarrow> afmf_device_queue_present queue info; return (res, None) }
        | Some family \<Rightarrow> afmf_sc_present_generated queue family info wants ordinal) (\<lambda>_. entry_at p h n 16)"
      using off entry_generated by (cases family') simp_all
  qed
qed

section \<open>Well-formed devices\<close>

definition presentable :: "afmf_device \<Rightarrow> bool" where
  "presentable dev \<longleftrightarrow> dev_async_queue dev \<noteq> VK_NULL_HANDLE
     \<and> (case dev_surface_support dev of
          None \<Rightarrow> False
        | Some get \<Rightarrow> \<forall>surface. get (dev_async_family dev) surface = (VK_SUCCESS, True))"

definition device_ok :: "afmf_device \<Rightarrow> afmf_swapchain list \<Rightarrow> bool" where
  "device_ok dev scs \<longleftrightarrow> queues_ok dev
     \<and> (dev_async_shared dev \<longrightarrow> dev_async_queue dev \<noteq> VK_NULL_HANDLE)
     \<and> distinct (map sc_handle scs) \<and> list_all (entry_ok (presentable dev)) scs"

definition sys_fine :: "'w sys \<Rightarrow> bool" where
  "sys_fine s \<longleftrightarrow> device_ok (sys_dev s) (sys_swapchains s)"

lemma fine_effect_free [simp, intro]: "effect_free sys_fine"
  by (simp add: effect_free_def sys_fine_def)

lemma fine_same_dev: "same_dev m \<Longrightarrow> keeps sys_fine m"
  by (simp add: keeps_def same_dev_def sys_fine_def)

lemma store_locked_handles [simp]: "map sc_handle (store_locked sc es) = map sc_handle es"
  by (induction es) auto

lemma store_locked_all: "list_all P es \<Longrightarrow> P sc \<Longrightarrow> list_all P (store_locked sc es)"
  by (induction es) auto

lemma entry_at_own: "entry_ok p sc \<Longrightarrow> sc_work_count sc \<le> c \<Longrightarrow> entry_at p (sc_handle sc) (sc_image_count sc) c sc"
  by (simp add: entry_at_def)

text \<open>An operation on an entry of the list, from what it does to the entry alone.\<close>

lemma fine_with_entry_at:
  assumes same: "same_dev m"
    and leads: "\<And>p h n. leads (\<lambda>x. x = sc \<and> entry_at p h n c x) m (\<lambda>_. entry_at p h n c')"
    and entry: "sc \<in> set (sys_swapchains s)" "sc_work_count sc \<le> c"
    and fine: "sys_fine s" and run: "run_state (with_entry sc m) s = (a, s')"
  shows "sys_fine s'"
proof -
  obtain s1 where m: "run_state m (s\<lparr>sys_sc := sc\<rparr>) = (a, s1)"
      and s': "s' = s1\<lparr>sys_swapchains := store_locked (sys_sc s1) (sys_swapchains s1)\<rparr>"
    using run by (auto simp: with_entry_def list_modify_def split: prod.splits)
  have dev: "sys_dev s1 = sys_dev s" "sys_swapchains s1 = sys_swapchains s"
    using same m by (auto simp: same_dev_def dest: spec [of _ "s\<lparr>sys_sc := sc\<rparr>"])
  have sc: "entry_ok (presentable (sys_dev s)) sc"
    using fine entry(1) by (simp add: sys_fine_def device_ok_def list_all_iff)
  have "entry_ok (presentable (sys_dev s)) (sys_sc s1)"
    using leadsD [OF leads _ m] entry_at_own [OF sc entry(2)] by (fastforce simp: entry_at_def)
  then show ?thesis
    using fine by (simp add: sys_fine_def device_ok_def s' dev store_locked_all)
qed

lemma fine_with_entry:
  assumes "same_dev m" "\<And>p h n. leads (entry_at p h n c) m (\<lambda>_. entry_at p h n c')"
    and "sc \<in> set (sys_swapchains s)" "sc_work_count sc \<le> c" "sys_fine s" "run_state (with_entry sc m) s = (a, s')"
  shows "sys_fine s'"
  using assms(1) leads_weaken [OF assms(2)] assms(3-) by (rule fine_with_entry_at) simp_all

section \<open>What the hooks leave\<close>

lemma same_dev_find: "same_dev (find_swapchain h)" "same_dev (find_single hs)"
proof -
  show find: "same_dev (find_swapchain h)" for h unfolding find_swapchain_def by (intro same_dev_intros)
  show "same_dev (find_single hs)"
    unfolding find_single_def by (auto split: list.split intro!: same_dev_intros find)
qed

lemma same_dev_hooks:
  "same_dev (app_submit kind queue args)" "same_dev (queue_idle queue)" "same_dev (afmf_swapchain_get_images h)"
  unfolding app_submit_def queue_idle_def afmf_swapchain_get_images_def
  by (intro same_dev_intros same_dev_find)+

lemma same_dev_generate: "same_dev (afmf_sc_frame_generate queue k waits threaded job)"
  unfolding afmf_sc_frame_generate_def frame_submit_def Let_def
  by (intro same_dev_intros same_dev_frame same_dev_record_frame)

lemma same_dev_present: "same_dev (present_entry queue info wants)"
  unfolding present_entry_def afmf_sc_present_generated_def present_threaded_def present_inline_def present_given_up_def
    inline_presents_def hook_adapter_def Let_def
  by (intro same_dev_intros same_dev_frame same_dev_threads same_dev_queues same_dev_generate calm_ensure_pool(4))

lemma run_find:
  "run_state (find_swapchain h) s =
     (find_locked (sys_swapchains s) h, s\<lparr>eff_trace := eff_trace s @ [Locked DevLock, Unlocked DevLock]\<rparr>)"
  by (simp add: find_swapchain_def)

lemma fine_found: "sys_fine s \<Longrightarrow> sc \<in> set (sys_swapchains s) \<Longrightarrow> sc_work_count sc \<le> 16"
  by (simp add: sys_fine_def device_ok_def list_all_iff entry_ok_def work_ok_def)

lemma fine_trace [simp]: "sys_fine (s\<lparr>eff_trace := tr\<rparr>) = sys_fine s"
  by (simp add: sys_fine_def)

lemma fine_cadence_one:
  "keeps (sys_fine :: 'w sys \<Rightarrow> bool) (do {
     each \<leftarrow> find_swapchain h;
     (case each of None \<Rightarrow> return () | Some sc \<Rightarrow> do { _ \<leftarrow> with_entry sc afmf_sc_update_cadence; return () }) })"
  (is "keeps _ ?m")
proof (rule keepsI)
  fix s :: "'w sys" assume fine: "sys_fine s"
  let ?s = "s\<lparr>eff_trace := eff_trace s @ [Locked DevLock, Unlocked DevLock]\<rparr>"
  show "sys_fine (snd (run_state ?m s))"
  proof (cases "find_locked (sys_swapchains s) h")
    case (Some sc)
    then have entry: "sc \<in> set (sys_swapchains ?s)" using find_locked_in by fastforce
    obtain u s1 where w: "run_state (with_entry sc afmf_sc_update_cadence) ?s = (u, s1)" by fastforce
    have "sys_fine s1"
      by (rule fine_with_entry [OF same_dev_frame(1) leads_keeps [OF entry_update_cadence] entry _ _ w])
         (use fine fine_found entry in auto)
    then show ?thesis using Some w by (simp add: run_find)
  qed (use fine in \<open>simp add: run_find\<close>)
qed

lemma fine_cadence_each: "keeps sys_fine (cadence_each hs)"
proof (induction hs)
  case (Cons h hs)
  have "cadence_each (h # hs) = do { _ \<leftarrow> do { each \<leftarrow> find_swapchain h;
      (case each of None \<Rightarrow> return () | Some sc \<Rightarrow> do { _ \<leftarrow> with_entry sc afmf_sc_update_cadence; return () }) };
      cadence_each hs }" by simp
  then show ?case using keeps_bind [OF fine_cadence_one Cons] by simp
qed (simp add: keeps_return)

text \<open>A present, once the work queue it may have to wait for has room.\<close>

lemma fine_present:
  assumes room: "\<And>h sc. pi_swapchains info = [h] \<Longrightarrow> find_locked (sys_swapchains s) h = Some sc \<Longrightarrow> sc_work_count sc \<noteq> AFMF_MAX_JOBS"
    and fine: "sys_fine s" and run: "run_state (afmf_swapchain_present queue info wants) s = (out, s')"
  shows "sys_fine s'"
proof -
  obtain found s1 where find: "run_state (find_single (pi_swapchains info)) s = (found, s1)" by fastforce
  note f = run_find_single [OF find]
  have fine1: "sys_fine s1" using fine by (simp add: f(1))
  show ?thesis
  proof (cases found)
    case None
    have kept: "keeps sys_fine (do { cadence_each (pi_swapchains info); res \<leftarrow> afmf_device_queue_present queue info; return (res, None) })"
      by (intro keeps_bind fine_cadence_each fine_same_dev same_dev_intros same_dev_queues)
    have passed: "run_state (do { cadence_each (pi_swapchains info); res \<leftarrow> afmf_device_queue_present queue info; return (res, None) }) s1
        = (out, s')" using run find None by (simp add: afmf_swapchain_present_def)
    show ?thesis by (rule keeps_run [OF kept fine1 passed])
  next
    case (Some sc)
    then obtain h where h: "pi_swapchains info = [h]" "find_locked (sys_swapchains s) h = Some sc"
      using f(2) by (auto split: list.splits)
    have sc: "sc \<in> set (sys_swapchains s1)" using find_locked_in [OF h(2)] by (simp add: f(1))
    have "sc_work_count sc \<le> 15" using room [OF h] fine_found [OF fine1 sc] by simp
    moreover have "run_state (with_entry sc (present_entry queue info wants)) s1 = (out, s')"
      using run find Some by (simp add: afmf_swapchain_present_def)
    ultimately show ?thesis by (rule fine_with_entry [OF same_dev_present entry_present sc _ fine1])
  qed
qed

lemma drain_each_entries:
  "run_state (drain_each scs) s = (scs', s') \<Longrightarrow> list_all (entry_ok p) scs \<Longrightarrow>
     map sc_handle scs' = map sc_handle scs \<and> list_all (entry_ok p) scs' \<and> sys_dev s' = sys_dev s"
proof (induction scs arbitrary: s scs' s')
  case (Cons sc scs)
  obtain u s1 where d: "run_state afmf_sc_presenter_drain (s\<lparr>sys_sc := sc\<rparr>) = (u, s1)" by (metis surj_pair)
  obtain rest s2 where r: "run_state (drain_each scs) s1 = (rest, s2)" by fastforce
  have out: "scs' = sys_sc s1 # rest" "s' = s2" using Cons.prems(1) d r by auto
  have "entry_at p (sc_handle sc) (sc_image_count sc) (sc_work_count sc) (sys_sc s1)"
    using leadsD [OF leads_keeps [OF entry_drain] _ d] Cons.prems(2) by (fastforce simp: entry_at_def)
  moreover have "sys_dev s1 = sys_dev s"
    using same_dev_threads(2) d by (auto simp: same_dev_def dest: spec [of _ "s\<lparr>sys_sc := sc\<rparr>"])
  ultimately show ?case using Cons.IH [OF r] Cons.prems(2) by (auto simp: out entry_at_def)
qed simp

lemma fine_drain_all: "keeps (sys_fine :: 'w sys \<Rightarrow> bool) afmf_swapchain_drain_all"
proof (rule keepsI)
  fix s :: "'w sys" assume fine: "sys_fine s"
  let ?s = "s\<lparr>eff_trace := eff_trace s @ [Locked DevLock]\<rparr>"
  obtain scs' s1 where d: "run_state (drain_each (sys_swapchains s)) ?s = (scs', s1)" by fastforce
  from drain_each_entries [OF d, of "presentable (sys_dev s)"] fine
  show "sys_fine (snd (run_state afmf_swapchain_drain_all s))"
    by (simp add: afmf_swapchain_drain_all_def d list_modify_def sys_fine_def device_ok_def)
qed

lemma fine_device_idle: "keeps sys_fine device_idle"
  unfolding device_idle_def by (intro keeps_bind fine_drain_all keeps_dev_gets keeps_if fine_same_dev same_dev_intros)

lemma fine_get_queue: "keeps sys_fine (get_queue call family)"
proof -
  have same: "presentable (queue_recorded queue family dev) = presentable dev"
      "dev_async_shared (queue_recorded queue family dev) = dev_async_shared dev"
      "dev_async_queue (queue_recorded queue family dev) = dev_async_queue dev" for queue dev
    by (simp_all add: queue_recorded_def presentable_def cong: option.case_cong)
  have "device_ok (queue_recorded queue family dev) scs" if "device_ok dev scs" for queue dev scs
    using that by (simp add: device_ok_def same queue_recorded_ok)
  then have noted: "keeps sys_fine (afmf_device_record_queue queue family)" for queue
    unfolding afmf_device_record_queue_def
    by (intro keeps_intros fine_effect_free keeps_modify) (simp add: sys_fine_def)
  show ?thesis unfolding get_queue_def by (intro keeps_intros fine_effect_free noted)
qed

section \<open>The life of a swapchain\<close>

lemma same_dev_do_all: "(\<And>m. m \<in> set ms \<Longrightarrow> same_dev m) \<Longrightarrow> same_dev (do_all ms)"
  by (induction ms) (auto intro!: same_dev_intros)

lemma same_dev_run_fg:
  assumes "\<And>Q. keeps (on_dev Q) m"
  shows "same_dev (run_fg m fg)"
  unfolding same_dev_def
proof
  fix s :: "'a sys"
  obtain x s' where run: "run_state (run_fg m fg) s = (x, s')" by fastforce
  have dev: "fgs_dev (snd (run_state m (fgs_of s fg))) = fgs_dev (fgs_of s fg)"
    using assms [of "\<lambda>d. d = fgs_dev (fgs_of s fg)"] by (simp add: keeps_def on_dev_def)
  show "sys_dev (snd (run_state (run_fg m fg) s)) = sys_dev s
      \<and> sys_swapchains (snd (run_state (run_fg m fg) s)) = sys_swapchains s"
    by (rule run_fg_eff [OF run]) (simp add: run dev, simp add: fgs_of_def)
qed

lemma same_dev_stop: "same_dev afmf_sc_presenter_stop"
  unfolding afmf_sc_presenter_stop_def worker_stop_def worker_stop_request_def worker_stopped_def
    presenter_stop_request_def presenter_stopped_def
  by (intro same_dev_intros)

lemma same_dev_destroy_if: "same_dev (destroy_if k h)"
  unfolding destroy_if_def by (intro same_dev_intros)

lemma same_dev_teardown: "same_dev afmf_sc_gen_teardown"
proof -
  have parts: "same_dev (slot_destroy slot)" "same_dev (sems_destroy sc i)" "same_dev spare_destroy" for slot sc i
    unfolding slot_destroy_def sems_destroy_def spare_destroy_def by (intro same_dev_intros same_dev_destroy_if)+
  show ?thesis
    unfolding afmf_sc_gen_teardown_def
    by (intro same_dev_intros same_dev_stop same_dev_do_all same_dev_destroy_if parts same_dev_run_fg keeps_dev_destroy)
       (auto intro: parts)
qed

lemma entry_teardown: "keeps (on_sc (entry_at p h n c)) afmf_sc_gen_teardown"
proof -
  have destroy: "keeps (on_sc P) (destroy_if k x)" for P k x
    unfolding destroy_if_def by (intro keeps_intros effect_free_on_sc)
  have parts: "keeps (on_sc (entry_at p h n c)) (slot_destroy slot)" "keeps (on_sc (entry_at p h n c)) (sems_destroy sc i)"
    "keeps (on_sc (entry_at p h n c)) spare_destroy" for slot sc i
    unfolding slot_destroy_def sems_destroy_def spare_destroy_def
    by (intro keeps_intros effect_free_on_sc destroy; auto simp: entry_defs work_ok_def jobs_ok_def)+
  show ?thesis
    unfolding afmf_sc_gen_teardown_def
    by (intro keeps_bind keeps_if keeps_option keeps_sc_gets keeps_dev_gets keeps_return keeps_emit keeps_vk entry_stop
        effect_free_on_sc keeps_do_map parts destroy entry_run_fg keeps_sc_modify)
       (auto simp: entry_defs work_ok_def jobs_ok_def sc_torn_down_def)
qed

lemma unlink_entries: "set (snd (unlink_locked scs h)) \<subseteq> set scs"
  by (induction scs) (auto split: prod.split)

lemma device_unlink: "device_ok dev scs \<Longrightarrow> device_ok dev (snd (unlink_locked scs h))"
  using swapchains.inv_take [of scs h] unlink_entries [of scs h] by (auto simp: device_ok_def keys_distinct_def list_all_iff)

lemma fine_destroy: "keeps (sys_fine :: 'w sys \<Rightarrow> bool) (afmf_swapchain_destroy h)"
proof -
  have free: "keeps sys_fine (do {
      unlock_mutex DevLock;
      (case found of None \<Rightarrow> return () | Some sc \<Rightarrow> do { sc_modify (\<lambda>_. sc); report_and_free }) })" for found
    unfolding report_and_free_def by (intro fine_same_dev same_dev_intros same_dev_teardown)
  have unlinked: "keeps (sys_fine :: 'w sys \<Rightarrow> bool) (do {
      (found, rest) \<leftarrow> gets (\<lambda>s. unlink_locked (sys_swapchains s) h);
      list_modify (\<lambda>_. rest);
      unlock_mutex DevLock;
      (case found of None \<Rightarrow> return () | Some sc \<Rightarrow> do { sc_modify (\<lambda>_. sc); report_and_free }) })" (is "keeps _ ?m")
  proof (rule keepsI)
    fix s :: "'w sys" assume fine: "sys_fine s"
    obtain found rest where u: "unlink_locked (sys_swapchains s) h = (found, rest)" by fastforce
    have "sys_fine (s\<lparr>sys_swapchains := rest\<rparr>)"
      using device_unlink [of "sys_dev s" "sys_swapchains s" h] fine u by (simp add: sys_fine_def)
    from keepsD [OF free this, of found] show "sys_fine (snd (run_state ?m s))"
      by (simp add: u list_modify_def)
  qed
  show ?thesis
    unfolding afmf_swapchain_destroy_def by (intro keeps_intros fine_effect_free unlinked)
qed

section \<open>The start of a swapchain\<close>

text \<open>The device but for its pipelines, and the list, through the start.\<close>

definition others :: "afmf_device \<Rightarrow> afmf_swapchain list \<Rightarrow> 'w sys \<Rightarrow> bool" where
  "others D scs s \<longleftrightarrow> pl_others (sys_dev s) = D \<and> sys_swapchains s = scs"

lemma others_effect_free [simp, intro]: "effect_free (others D scs)"
  by (simp add: effect_free_def others_def)

lemma others_same_dev: "same_dev m \<Longrightarrow> keeps (others D scs) m"
  by (simp add: keeps_def same_dev_def others_def)

lemma keeps_dev_modify: "(\<And>d. Q d \<Longrightarrow> Q (f d)) \<Longrightarrow> keeps (on_dev Q) (dev_modify f)"
  by (simp add: keeps_def on_dev_def)

lemma keeps_others_pipelines:
  "keeps (on_dev (\<lambda>d. pl_others d = D)) afmf_framegen_pipelines_get"
  "keeps (on_dev (\<lambda>d. pl_others d = D)) afmf_framegen_pipelines_prepare"
proof -
  let ?Q = "on_dev (\<lambda>d. pl_others d = D)"
  have pipeline: "keeps ?Q (create_compute_pipeline spirv layout special t)" for spirv layout special t
    unfolding create_compute_pipeline_def pl_store_def by (intro keeps_intros effect_free_on_dev keeps_dev_modify) simp
  have "keeps ?Q (run_pl_step st)" for st
    by (cases st) (auto simp: pass_create_def interpolate_create_def downsample_create_def ingest_create_def pl_store_def
        intro!: keeps_intros pipeline keeps_dev_modify split: prod.split)
  then have create: "keeps ?Q pipelines_create"
    unfolding pipelines_create_def by (intro keeps_intros keeps_dev_modify) auto
  have join: "keeps ?Q pipelines_join"
    unfolding pipelines_join_def pipelines_thread_main_def
    by (intro keeps_intros create effect_free_on_dev keeps_dev_modify; simp)
  have destroy: "keeps ?Q afmf_framegen_pipelines_destroy"
    unfolding afmf_framegen_pipelines_destroy_def
    by (intro keeps_intros join keeps_dev_modify) (auto intro: keeps_intros)
  show "keeps ?Q afmf_framegen_pipelines_get"
    unfolding afmf_framegen_pipelines_get_def by (intro keeps_intros join create destroy keeps_dev_modify; simp)
  show "keeps ?Q afmf_framegen_pipelines_prepare"
    unfolding afmf_framegen_pipelines_prepare_def by (intro keeps_intros effect_free_on_dev keeps_dev_modify; simp)
qed

lemma keeps_others_create:
  "keeps (on_dev (\<lambda>d. pl_others d = D)) (afmf_framegen_create format extent slots images output' ingest)"
proof -
  have "keeps (on_dev (\<lambda>d. pl_others d = D)) (blocker_for format extent half)" for half
    unfolding blocker_for_def by (intro keeps_intros keeps_others_pipelines)
  then show ?thesis
    unfolding afmf_framegen_create_def by (intro keeps_intros keeps_dev_build_all keeps_dev_destroy)
qed

lemma others_run_fg:
  assumes "keeps (on_dev (\<lambda>d. pl_others d = D)) m"
  shows "keeps (others D scs) (run_fg m fg)"
proof (rule keepsI)
  fix s :: "'a sys" assume s: "others D scs s"
  obtain x s' where run: "run_state (run_fg m fg) s = (x, s')" by fastforce
  have "pl_others (fgs_dev (snd (run_state m (fgs_of s fg)))) = D"
    using keepsD [OF assms, of "fgs_of s fg"] s by (simp add: on_dev_def others_def fgs_of_def)
  then show "others D scs (snd (run_state (run_fg m fg) s))"
    using s by (auto simp: others_def run intro: run_fg_eff [OF run])
qed

text \<open>A swapchain on its way, from \<open>calloc\<close> to its place in the list.\<close>

definition begun :: "bool \<Rightarrow> handle \<Rightarrow> afmf_swapchain \<Rightarrow> bool" where
  "begun p h sc \<longleftrightarrow> threads_ok sc \<and> work_ok sc \<and> jobs_ok sc \<and> sc_slot_index sc = 0
     \<and> length (sc_slots sc) = sc_image_count sc \<and> (p \<longrightarrow> sc_async sc) \<and> sc_handle sc = h"

lemmas begun_defs = begun_def threads_ok_def work_ok_def jobs_ok_def

lemma begun_ok: "begun p h sc \<Longrightarrow> entry_ok p sc \<and> sc_handle sc = h"
  by (auto simp: begun_def entry_ok_def)

lemma begun_place: "keeps (on_sc (begun p h)) (place_create t)"
  unfolding place_create_def by (cases t; intro keeps_intros effect_free_on_sc; simp add: begun_defs)

lemma begun_init: "keeps (on_sc (begun p h)) afmf_sc_gen_init"
proof -
  have ready: "keeps (on_sc (begun p h)) framegen_or_history"
    unfolding framegen_or_history_def create_history_def
    by (intro keeps_intros effect_free_on_sc entry_run_fg; simp add: begun_defs)
  show ?thesis
    unfolding afmf_sc_gen_init_def
    by (intro keeps_intros effect_free_on_sc keeps_array_of; auto simp: begun_defs sc_arrays_def intro: begun_place ready)
qed

lemma others_init: "keeps (others D scs) afmf_sc_gen_init"
proof -
  have place: "keeps (others D scs) (place_create t)" for t
    unfolding place_create_def by (intro others_same_dev same_dev_intros)
  have ready: "keeps (others D scs) framegen_or_history"
    unfolding framegen_or_history_def create_history_def
    by (intro keeps_intros others_effect_free others_run_fg keeps_others_create others_same_dev same_dev_intros)
  show ?thesis
    unfolding afmf_sc_gen_init_def
    by (intro keeps_intros others_effect_free keeps_array_of others_same_dev [OF same_dev_basic(6)]) (auto intro: place ready)
qed

lemma generation_started:
  assumes run: "run_state generation_start s = (u, s')"
    and s: "begun p h (sys_sc s)"
  shows "entry_ok p (sys_sc s') \<and> sc_handle (sys_sc s') = h"
    and "pl_others (sys_dev s') = pl_others (sys_dev s)" and "sys_swapchains s' = sys_swapchains s"
proof -
  let ?s = "s\<lparr>sys_sc := (sys_sc s)\<lparr>sc_gen_enabled := True\<rparr>\<rparr>"
  obtain gen s1 where init: "run_state afmf_sc_gen_init ?s = (gen, s1)" by fastforce
  have b: "begun p h (sys_sc ?s)" using s by (simp add: begun_defs)
  then have b1: "begun p h (sys_sc s1)" using keeps_run [OF begun_init _ init] by (simp add: on_sc_def)
  have o1: "others (pl_others (sys_dev s)) (sys_swapchains s) s1"
    using keeps_run [OF others_init _ init] by (simp add: others_def)
  have rest: "run_state (whenb (gen \<noteq> VK_SUCCESS) afmf_sc_gen_teardown) s1 = (u, s')"
    using run init by (simp add: generation_start_def)
  have "keeps (on_sc (entry_at p h n c)) (whenb (gen \<noteq> VK_SUCCESS) afmf_sc_gen_teardown)" for n c
    by (intro keeps_intros entry_teardown)
  from keeps_run [OF this _ rest, of "sc_image_count (sys_sc s1)" "sc_work_count (sys_sc s1)"] begun_ok [OF b1]
  show "entry_ok p (sys_sc s') \<and> sc_handle (sys_sc s') = h" by (simp add: on_sc_def entry_at_def)
  have "keeps (others D scs) (whenb (gen \<noteq> VK_SUCCESS) afmf_sc_gen_teardown)" for D scs
    by (intro keeps_intros others_same_dev [OF same_dev_teardown])
  from keeps_run [OF this o1 rest]
  show "pl_others (sys_dev s') = pl_others (sys_dev s)" "sys_swapchains s' = sys_swapchains s" by (simp_all add: others_def)
qed

text \<open>What an entry's well-formedness takes from the device.\<close>

lemma device_others: "pl_others dev' = pl_others dev \<Longrightarrow> device_ok dev' scs = device_ok dev scs"
proof -
  have of: "queues_ok (pl_others d) = queues_ok d" "presentable (pl_others d) = presentable d"
    "dev_async_shared (pl_others d) = dev_async_shared d" "dev_async_queue (pl_others d) = dev_async_queue d" for d
    by (simp_all add: pl_others_def queues_ok_def presentable_def cong: option.case_cong)
  have "device_ok (pl_others d) scs = device_ok d scs" for d by (simp add: device_ok_def of)
  then show "pl_others dev' = pl_others dev \<Longrightarrow> device_ok dev' scs = device_ok dev scs" by metis
qed

lemma created_begun:
  assumes "p \<Longrightarrow> plan_async plan"
  shows "begun p h (sc_created h info plan)"
  using assms by (simp add: begun_defs sc_created_def sc_zero_def)

lemma planned_async:
  assumes "presentable dev" "generation_blocker cfg dev info = (None, caps)"
  shows "plan_async (plan_generation cfg dev info caps)"
  using assms(1) by (auto simp: plan_generation_def share_with_layer_queue_def presentable_def Let_def split: option.splits)

lemma fine_create:
  assumes run: "run_state (afmf_swapchain_create info) s = ((res, handle), s')"
    and fresh: "res = VK_SUCCESS \<Longrightarrow> handle \<notin> sc_handle ` set (sys_swapchains s)"
    and fine: "sys_fine s"
  shows "sys_fine s'"
proof -
  let ?dev = "sys_dev s" and ?cfg = "sys_cfg s"
  obtain blocker caps where b: "generation_blocker ?cfg ?dev info = (blocker, caps)" by fastforce
  define plan where "plan = (if blocker = None then plan_generation ?cfg ?dev info caps else plan_none info)"
  obtain r h s1 where vk: "run_state (vk_full (CreateSwapchain (plan_info plan))) s = ((r, h), s1)" by (metis surj_pair)
  have s1: "sys_dev s1 = ?dev" "sys_swapchains s1 = sys_swapchains s" using vk by (auto simp: run_vk_full split: prod.splits)
  have rest: "run_state (if r \<noteq> VK_SUCCESS then return (r, h) else do {
      sc_modify (\<lambda>_. sc_created h info plan);
      whenb (blocker = None) generation_start;
      swapchain_link;
      return (VK_SUCCESS, h) }) s1 = ((res, handle), s')"
    using run vk b unfolding afmf_swapchain_create_def Let_def plan_def
    by (simp only: run_bind run_sys prod.case id_apply)
  show ?thesis
  proof (cases "r = VK_SUCCESS")
    case False
    then show ?thesis using rest fine s1 by (simp add: sys_fine_def)
  next
    case True
    let ?s1 = "s1\<lparr>sys_sc := sc_created h info plan\<rparr>"
    obtain u s2 where g: "run_state (whenb (blocker = None) generation_start) ?s1 = (u, s2)" by (metis surj_pair)
    have s': "res = VK_SUCCESS" "handle = h" "s' = s2\<lparr>eff_trace := eff_trace s2 @ [Locked DevLock, Unlocked DevLock],
        sys_swapchains := sys_sc s2 # sys_swapchains s2\<rparr>"
      using rest True g by (auto simp: swapchain_link_def list_modify_def)
    have "entry_ok (presentable ?dev) (sys_sc s2) \<and> sc_handle (sys_sc s2) = h
      \<and> pl_others (sys_dev s2) = pl_others ?dev \<and> sys_swapchains s2 = sys_swapchains s"
    proof (cases "blocker = None")
      case True
      have started: "run_state generation_start ?s1 = (u, s2)" using g True by simp
      have "begun (presentable ?dev) h (sys_sc ?s1)"
        using created_begun planned_async b True by (simp add: plan_def)
      from generation_started [OF started this] show ?thesis by (simp add: s1)
    next
      case False
      have "entry_ok p (sc_created h info plan) \<and> sc_handle (sc_created h info plan) = h" for p
        by (simp add: entry_ok_def threads_ok_def work_ok_def jobs_ok_def sc_created_def sc_zero_def)
      then show ?thesis using g False s1 by auto
    qed
    moreover from this have "device_ok (sys_dev s2) scs = device_ok ?dev scs" for scs by (intro device_others) simp
    ultimately show ?thesis
      using fine fresh s' by (simp add: sys_fine_def) (simp add: device_ok_def)
  qed
qed

section \<open>The threads\<close>

text \<open>What the two threads of a swapchain do next, where the code waits only once the wait is over.\<close>

datatype thread_part =
    TakeFrame | MakeFrame afmf_frame_job | HandOver afmf_present_job | DropFrame
  | CompanionOut afmf_present_job | HoldBack afmf_present_job bool | RealOut afmf_present_job | RefillSpare
  | FinishJob vk_result vk_result real

fun part_ready :: "thread_part \<Rightarrow> afmf_swapchain \<Rightarrow> bool" where
  "part_ready TakeFrame sc \<longleftrightarrow> sc_work_count sc \<noteq> 0"
| "part_ready (MakeFrame work) sc \<longleftrightarrow> sc_worker_busy sc"
| "part_ready (HandOver job) sc \<longleftrightarrow> sc_worker_busy sc \<and> sc_job_count sc \<noteq> AFMF_MAX_JOBS"
| "part_ready DropFrame sc \<longleftrightarrow> sc_worker_busy sc \<and> sc_work_count sc \<noteq> 0"
| "part_ready part sc \<longleftrightarrow> sc_job_count sc \<noteq> 0"

fun run_part :: "thread_part \<Rightarrow> ('w sys, unit) state" where
  "run_part TakeFrame = do { _ \<leftarrow> worker_take; return () }"
| "run_part (MakeFrame work) = do { _ \<leftarrow> worker_frame work; return () }"
| "run_part (HandOver job) = worker_hand job"
| "run_part DropFrame = worker_drop"
| "run_part (CompanionOut job) = do { _ \<leftarrow> presenter_companion job; return () }"
| "run_part (HoldBack job draining) = do { _ \<leftarrow> presenter_hold job draining; return () }"
| "run_part (RealOut job) = do { _ \<leftarrow> presenter_real job; return () }"
| "run_part RefillSpare = do { _ \<leftarrow> presenter_refill; return () }"
| "run_part (FinishJob first second ms) = sc_modify (presenter_finish first second ms)"

lemma turn_keeps_entry: "frames turn_kept m \<Longrightarrow> keeps (on_sc (entry_at p h n c)) m"
  by (rule entry_fixed_keeps) (simp add: frames_def turn_kept_def)

lemma same_dev_parts:
  "same_dev (worker_frame work)" "same_dev (presenter_companion job)" "same_dev (presenter_hold job draining)"
  "same_dev (presenter_real job)" "same_dev presenter_refill"
  unfolding worker_frame_def presenter_companion_def presenter_hold_def presenter_real_def presenter_refill_def present_one_def Let_def
  by (intro same_dev_intros same_dev_generate same_dev_frame)+

lemma entry_rings:
  assumes "entry_at p h n 16 sc"
  shows "entry_at p h n 16 (sc\<lparr>sc_worker_busy := b\<rparr>)"
    and "sc_job_count sc \<noteq> 16 \<Longrightarrow> entry_at p h n 16 (jobs_push job sc)"
    and "sc_work_count sc \<noteq> 0 \<Longrightarrow> entry_at p h n 16 ((work_pop sc)\<lparr>sc_worker_busy := b\<rparr>)"
    and "sc_job_count sc \<noteq> 0 \<Longrightarrow> entry_at p h n 16 (presenter_finish first second ms sc)"
  using assms
  by (auto simp: entry_defs work_ok_def jobs_ok_def jobs_push_def work_pop_def jobs_pop_def presenter_finish_def)

lemma part_entry:
  assumes "part_ready part sc"
  shows "leads (\<lambda>x. x = sc \<and> entry_at p h n 16 x) (run_part part) (\<lambda>_. entry_at p h n 16)"
proof -
  have kept: "leads (\<lambda>x. x = sc \<and> entry_at p h n 16 x) (do { _ \<leftarrow> m; return () }) (\<lambda>_. entry_at p h n 16)"
    if "keeps (on_sc (entry_at p h n 16)) m" for m :: "('w sys, 'b) state"
    by (rule leads_weaken [OF leads_keeps [OF keeps_bind [OF that keeps_return]]]) simp_all
  have modified: "leads (\<lambda>x. x = sc \<and> entry_at p h n 16 x) (sc_modify f) (\<lambda>_. entry_at p h n 16)"
    if "entry_at p h n 16 sc \<Longrightarrow> entry_at p h n 16 (f sc)" for f
    using that by (auto simp: leads_def)
  show ?thesis
  proof (cases part)
    case (MakeFrame work)
    then show ?thesis by (simp only: run_part.simps) (rule kept [OF entry_fixed_keeps [OF frames_worker]])
  next
    case (CompanionOut job)
    then show ?thesis by (simp only: run_part.simps) (rule kept [OF turn_keeps_entry [OF frames_presenter_companion]])
  next
    case (HoldBack job draining)
    then show ?thesis by (simp only: run_part.simps) (rule kept [OF turn_keeps_entry [OF frames_hold]])
  next
    case (RealOut job)
    then show ?thesis by (simp only: run_part.simps) (rule kept [OF turn_keeps_entry [OF frames_real]])
  next
    case RefillSpare
    then show ?thesis by (simp only: run_part.simps) (rule kept [OF turn_keeps_entry [OF frames_refill]])
  next
    case TakeFrame
    have "keeps (on_sc (entry_at p h n 16)) worker_take"
      unfolding worker_take_def by (intro keeps_intros entry_rings(1))
    then show ?thesis using TakeFrame by (simp only: run_part.simps) (rule kept)
  qed (use assms entry_rings in \<open>auto simp: worker_hand_def worker_drop_def intro!: modified\<close>)
qed

lemma same_dev_part: "same_dev (run_part part)"
  by (cases part) (auto simp: worker_take_def worker_hand_def worker_drop_def intro!: same_dev_intros same_dev_parts)

lemma fine_thread:
  assumes "part_ready part sc" and sc: "sc \<in> set (sys_swapchains s)" and fine: "sys_fine s"
    and run: "run_state (with_entry sc (run_part part)) s = (u, s')"
  shows "sys_fine s'"
  by (rule fine_with_entry_at [OF same_dev_part part_entry [OF assms(1)] sc fine_found [OF fine sc] fine run])

end
