(* ===== verification/Layer_Create.thy ===== *)
theory Layer_Create
  imports Layer
begin

text \<open>
  The creation of instances and devices: src/src/layer_instance.c, src/src/layer_device_queues.c,
  src/src/layer_device_probe.c and src/src/layer_device.c. A device's creation patches the
  application's request (\<open>shaderInt16\<close>, a compute queue, its priority), tries it, and falls back to
  less, at last to the request as it came. \<open>calloc\<close> is taken to succeed; \<open>UINT32_MAX\<close> for no family
  is \<open>None\<close>.
\<close>

section \<open>Instances\<close>

abbreviation (input) VK_API_VERSION_1_0 :: u32 where "VK_API_VERSION_1_0 \<equiv> 4194304"
abbreviation (input) VK_API_VERSION_1_1 :: u32 where "VK_API_VERSION_1_1 \<equiv> 4198400"

datatype instance_node =
    LoaderInstanceLink "nat option" \<comment> \<open>\<open>VK_LAYER_LINK_INFO\<close> with its \<open>pLayerInfo\<close>, \<open>None\<close> for NULL\<close>
  | OtherInstanceNode int

record instance_create_info =
  ii_next :: "instance_node list"
  ii_api_version :: "u32 option" \<comment> \<open>\<open>None\<close> without \<open>pApplicationInfo\<close>\<close>

fun instance_link_info :: "instance_node list \<Rightarrow> nat option" where
  "instance_link_info [] = None"
| "instance_link_info (LoaderInstanceLink link # ns) = link"
| "instance_link_info (OtherInstanceNode t # ns) = instance_link_info ns"

definition link_modify :: "(nat \<Rightarrow> nat) \<Rightarrow> ('w layer, unit) state" where
  "link_modify f = modify (\<lambda>s. s\<lparr>lay_link := f (lay_link s)\<rparr>)"

text \<open>A creation below: it starts from the link as it stands, and leaves it advanced.\<close>

definition next_create :: "(nat \<Rightarrow> vk_call) \<Rightarrow> ('w layer, vk_result \<times> handle) state" where
  "next_create call = do {
     link \<leftarrow> gets lay_link;
     out \<leftarrow> vk_full (call link);
     after \<leftarrow> gets lay_link_after;
     link_modify after;
     return out
   }"

definition instance_fns :: "string list" where
  "instance_fns = [''vkDestroyInstance'', ''vkGetPhysicalDeviceMemoryProperties'', ''vkGetPhysicalDeviceQueueFamilyProperties'',
     ''vkGetPhysicalDeviceProperties'', ''vkEnumerateDeviceExtensionProperties'', ''vkGetPhysicalDeviceFeatures'']"

definition instance_version :: "u32 option \<Rightarrow> u32" where
  "instance_version v = (case v of Some v \<Rightarrow> if v \<noteq> 0 then v else VK_API_VERSION_1_0 | None \<Rightarrow> VK_API_VERSION_1_0)"

definition afmf_CreateInstance :: "instance_create_info \<Rightarrow> ('w layer, vk_result \<times> handle option) state" where
  "afmf_CreateInstance info =
     (case instance_link_info (ii_next info) of
        None \<Rightarrow> return (VK_ERROR_INITIALIZATION_FAILED, None)
      | Some link \<Rightarrow> do {
          gipa \<leftarrow> gets (\<lambda>s. lay_link_gipa s link);
          if \<not> gipa ''vkCreateInstance'' then return (VK_ERROR_INITIALIZATION_FAILED, None)
          else do {
            next' \<leftarrow> gets (\<lambda>s. lay_link_next s link);
            link_modify (\<lambda>_. next');
            (res, handle) \<leftarrow> next_create CreateInstance;
            if res \<noteq> VK_SUCCESS then return (res, Some handle)
            else if \<not> list_all gipa instance_fns then do {
              whenb (gipa ''vkDestroyInstance'') (do { _ \<leftarrow> vk DestroyInstance; return () });
              return (VK_ERROR_INITIALIZATION_FAILED, Some VK_NULL_HANDLE)
            } else do {
              key \<leftarrow> gets (\<lambda>s. lay_key s handle);
              let version = instance_version (ii_api_version info);
              afmf_instance_register \<lparr>inst_key = key, inst_handle = handle, inst_api_version = version, inst_gipa = gipa,
                inst_properties2 = (version \<ge> VK_API_VERSION_1_1 \<and> gipa ''vkGetPhysicalDeviceProperties2'')\<rparr>;
              return (VK_SUCCESS, Some handle)
            }
          }
        })"

definition afmf_DestroyInstance :: "handle \<Rightarrow> ('w layer, unit) state" where
  "afmf_DestroyInstance instance' =
     whenb (instance' \<noteq> VK_NULL_HANDLE) (do {
       key \<leftarrow> gets (\<lambda>s. lay_key s instance');
       taken \<leftarrow> afmf_instance_take key;
       (case taken of
          None \<Rightarrow> return ()
        | Some inst \<Rightarrow> do { _ \<leftarrow> vk DestroyInstance; return () })
     })"

section \<open>The queue the layer works from\<close>

text \<open>What the application asks of a family: every request, and the unprotected ones.\<close>

definition requested :: "device_create_info \<Rightarrow> u32 \<Rightarrow> u32" where
  "requested info f = sum_list (map qc_count (filter (\<lambda>q. qc_family q = f) (di_queues info)))"

definition unprotected :: "device_create_info \<Rightarrow> u32 \<Rightarrow> u32" where
  "unprotected info f = sum_list (map qc_count (filter (\<lambda>q. qc_family q = f \<and> \<not> qc_protected q) (di_queues info)))"

definition family_computes :: "bool \<Rightarrow> queue_flag set \<Rightarrow> bool" where
  "family_computes compute_only flags \<longleftrightarrow> QUEUE_COMPUTE \<in> flags \<and> \<not> (compute_only \<and> QUEUE_GRAPHICS \<in> flags)"

fun spare_family :: "bool \<Rightarrow> device_create_info \<Rightarrow> queue_family list \<Rightarrow> u32 \<Rightarrow> (u32 \<times> u32) option" where
  "spare_family compute_only info [] f = None"
| "spare_family compute_only info (qf # qfs) f =
     (if family_computes compute_only (qf_flags qf) \<and> requested info f < qf_count qf then Some (f, unprotected info f)
      else spare_family compute_only info qfs (f + 1))"

text \<open>The family and the index within it.\<close>

definition afmf_choose_async_family :: "afmf_device \<Rightarrow> device_create_info \<Rightarrow> (u32 \<times> u32) option" where
  "afmf_choose_async_family dev info =
     (case spare_family True info (dev_queue_families dev) 0 of
        Some found \<Rightarrow> Some found
      | None \<Rightarrow> spare_family False info (dev_queue_families dev) 0)"

fun shared_family :: "bool \<Rightarrow> queue_family list \<Rightarrow> queue_create_info list \<Rightarrow> (u32 \<times> u32) option" where
  "shared_family compute_only qfs [] = None"
| "shared_family compute_only qfs (q # qs) =
     (if family_computes compute_only (qf_flags (qfs ! unat (qc_family q))) \<and> \<not> (qc_count q = 0 \<or> qc_protected q)
      then Some (qc_family q, qc_count q - 1)
      else shared_family compute_only qfs qs)"

definition afmf_choose_shared_family :: "afmf_device \<Rightarrow> device_create_info \<Rightarrow> (u32 \<times> u32) option" where
  "afmf_choose_shared_family dev info =
     (case shared_family True (dev_queue_families dev) (di_queues info) of
        Some found \<Rightarrow> Some found
      | None \<Rightarrow> shared_family False (dev_queue_families dev) (di_queues info))"

definition afmf_device_extension_available :: "physical_device \<Rightarrow> string \<Rightarrow> bool" where
  "afmf_device_extension_available pd name \<longleftrightarrow>
     (case pd_extensions pd of (res, names) \<Rightarrow> res = VK_SUCCESS \<and> names \<noteq> [] \<and> name \<in> set names)"

definition afmf_extensions_with :: "device_create_info \<Rightarrow> string \<Rightarrow> string list" where
  "afmf_extensions_with info name = di_extensions info @ (if name \<in> set (di_extensions info) then [] else [name])"

text \<open>One more queue for a family: in the family's first unprotected entry, or in an entry of its own.\<close>

fun queues_with_extra :: "queue_create_info list \<Rightarrow> u32 \<Rightarrow> queue_create_info list" where
  "queues_with_extra [] family =
     [\<lparr>qc_next = [], qc_family = family, qc_count = 1, qc_protected = False, qc_priorities = [1]\<rparr>]"
| "queues_with_extra (q # qs) family =
     (if qc_family q \<noteq> family \<or> qc_protected q then q # queues_with_extra qs family
      else q\<lparr>qc_count := qc_count q + 1, qc_priorities := take (unat (qc_count q)) (qc_priorities q) @ [1]\<rparr> # qs)"

definition afmf_queues_with_extra :: "device_create_info \<Rightarrow> u32 \<Rightarrow> queue_create_info list" where
  "afmf_queues_with_extra info family = queues_with_extra (di_queues info) family"

section \<open>What the creation knows of the physical device\<close>

fun app_families :: "queue_create_info list \<Rightarrow> u32 list \<Rightarrow> u32 list" where
  "app_families [] known = known"
| "app_families (q # qs) known = app_families qs (if qc_family q \<in> set known then known else known @ [qc_family q])"

text \<open>The last feature structure of the chain, and whether it is the chain's head.\<close>

fun features2_in :: "device_node list \<Rightarrow> device_features option" where
  "features2_in [] = None"
| "features2_in (PhysicalDeviceFeatures2 f # ns) = (case features2_in ns of Some g \<Rightarrow> Some g | None \<Rightarrow> Some f)"
| "features2_in (n # ns) = features2_in ns"

definition features2_heads :: "device_node list \<Rightarrow> bool" where
  "features2_heads ns = (case ns of PhysicalDeviceFeatures2 f # rest \<Rightarrow> features2_in rest = None | _ \<Rightarrow> False)"

definition feature_asked :: "(device_features \<Rightarrow> bool) \<Rightarrow> device_create_info \<Rightarrow> bool" where
  "feature_asked feature info =
     (case features2_in (di_next info) of
        Some f \<Rightarrow> feature f
      | None \<Rightarrow> (case di_features info of Some f \<Rightarrow> feature f | None \<Rightarrow> False))"

definition afmf_device_probe :: "afmf_instance \<Rightarrow> physical_device \<Rightarrow> device_create_info \<Rightarrow> afmf_device \<Rightarrow> afmf_device" where
  "afmf_device_probe inst pd info dev =
     (let version = (if pd_api_version pd < inst_api_version inst then pd_api_version pd else inst_api_version inst);
          subgroups = (inst_properties2 inst \<and> version \<ge> VK_API_VERSION_1_1)
      in dev\<lparr>dev_api_version := version, dev_timestamps := pd_timestamps pd, dev_timestamp_period := pd_timestamp_period pd,
             dev_ubo_alignment := pd_ubo_alignment pd,
             dev_subgroup_compute := subgroups \<and> pd_subgroup_compute pd,
             dev_subgroup_ops := (if subgroups then pd_subgroup_ops pd else {}),
             dev_memory_types := pd_memory_types pd, dev_queue_families := pd_queue_families pd,
             dev_queue_capacity := unat (sum_list (map qc_count (di_queues info))),
             dev_app_families := app_families (di_queues info) [],
             dev_storage_write_without_format := feature_asked feat_storage_write_without_format info,
             dev_shader_int16 := feature_asked feat_shader_int16 info\<rparr>)"

section \<open>Devices\<close>

fun device_link_info :: "device_node list \<Rightarrow> nat option" where
  "device_link_info [] = None"
| "device_link_info (LoaderLinkInfo link # ns) = link"
| "device_link_info (n # ns) = device_link_info ns"

fun device_loader_data :: "device_node list \<Rightarrow> bool" where
  "device_loader_data [] = False"
| "device_loader_data (LoaderDataCallback given # ns) = given"
| "device_loader_data (n # ns) = device_loader_data ns"

text \<open>The device as it is before anything is asked below: the instance's functions for it.\<close>

definition device_new :: "(string \<Rightarrow> bool) \<Rightarrow> physical_device \<Rightarrow> bool \<Rightarrow> afmf_device" where
  "device_new gipa pd loader_data = dev_zero\<lparr>
     dev_set_loader_data := loader_data,
     dev_surface_capabilities :=
       (if gipa ''vkGetPhysicalDeviceSurfaceCapabilitiesKHR'' then Some (pd_surface_capabilities pd) else None),
     dev_surface_support := (if gipa ''vkGetPhysicalDeviceSurfaceSupportKHR'' then Some (pd_surface_support pd) else None),
     dev_surface_present_modes :=
       (if gipa ''vkGetPhysicalDeviceSurfacePresentModesKHR'' then Some (pd_surface_present_modes pd) else None),
     dev_surface_capabilities2 :=
       (if gipa ''vkGetPhysicalDeviceSurfaceCapabilities2KHR'' then Some (pd_surface_capabilities2 pd) else None),
     dev_format_properties := (if gipa ''vkGetPhysicalDeviceFormatProperties'' then Some (pd_format_properties pd) else None)\<rparr>"

text \<open>
  What the creation asks for: the request, whether \<open>pEnabledFeatures\<close> or \<open>pNext\<close> was replaced, the
  layer's family and index, whether the high priority is asked for, and whether the search may use
  \<open>shaderInt16\<close>.
\<close>

record device_plan =
  dp_info :: device_create_info
  dp_features :: bool
  dp_next :: bool
  dp_async :: "(u32 \<times> u32) option"
  dp_high :: bool
  dp_int16 :: bool

definition features_zero :: device_features where
  "features_zero = \<lparr>feat_storage_write_without_format = False, feat_shader_int16 = False, feat_rest = 0\<rparr>"

definition plan_int16 :: "afmf_config \<Rightarrow> physical_device \<Rightarrow> device_create_info \<Rightarrow> bool \<Rightarrow> device_plan" where
  "plan_int16 cfg pd info app_int16 =
     (let plan = \<lparr>dp_info = info, dp_features = False, dp_next = False, dp_async = None, dp_high = False, dp_int16 = app_int16\<rparr>
      in if \<not> cfg_sad_int16 cfg then plan\<lparr>dp_int16 := False\<rparr>
         else if \<not> app_int16 \<and> feat_shader_int16 (pd_features pd) then
           (case features2_in (di_next info) of
              None \<Rightarrow>
                (let features = (case di_features info of Some f \<Rightarrow> f | None \<Rightarrow> features_zero)
                 in plan\<lparr>dp_info := info\<lparr>di_features := Some (features\<lparr>feat_shader_int16 := True\<rparr>)\<rparr>, dp_features := True,
                         dp_int16 := True\<rparr>)
            | Some f \<Rightarrow>
                if features2_heads (di_next info) then
                  plan\<lparr>dp_info := info\<lparr>di_next := PhysicalDeviceFeatures2 (f\<lparr>feat_shader_int16 := True\<rparr>) # tl (di_next info)\<rparr>,
                       dp_next := True, dp_int16 := True\<rparr>
                else plan)
         else plan)"

definition plan_queue :: "afmf_config \<Rightarrow> afmf_device \<Rightarrow> device_create_info \<Rightarrow> device_plan \<Rightarrow> device_plan" where
  "plan_queue cfg dev info plan =
     (case (if dev_set_loader_data dev \<and> cfg_async cfg then afmf_choose_async_family dev info else None) of
        None \<Rightarrow> plan
      | Some (family, index) \<Rightarrow>
          plan\<lparr>dp_async := Some (family, index),
               dp_info := (dp_info plan)\<lparr>di_queues := afmf_queues_with_extra info family\<rparr>\<rparr>)"

definition global_priority :: string where
  "global_priority = ''VK_KHR_global_priority''"

definition last_entry_high :: "queue_create_info list \<Rightarrow> queue_create_info list" where
  "last_entry_high qs = butlast qs @ [(last qs)\<lparr>qc_next := GlobalPriorityHigh # qc_next (last qs)\<rparr>]"

text \<open>The high priority, when the layer's queue is an entry of its own.\<close>

definition plan_priority :: "physical_device \<Rightarrow> device_create_info \<Rightarrow> device_plan \<Rightarrow> device_plan" where
  "plan_priority pd info plan =
     plan\<lparr>dp_high := dp_async plan \<noteq> None \<and> length (di_queues (dp_info plan)) = length (di_queues info) + 1
                    \<and> afmf_device_extension_available pd global_priority\<rparr>"

definition plan_device :: "afmf_config \<Rightarrow> physical_device \<Rightarrow> device_create_info \<Rightarrow> afmf_device \<Rightarrow> device_plan" where
  "plan_device cfg pd info dev =
     plan_priority pd info (plan_queue cfg dev info (plan_int16 cfg pd info (dev_shader_int16 dev)))"

text \<open>The request with and without the priority.\<close>

definition request_high :: "device_create_info \<Rightarrow> device_plan \<Rightarrow> device_create_info" where
  "request_high info plan = (dp_info plan)\<lparr>di_extensions := afmf_extensions_with info global_priority,
     di_queues := last_entry_high (di_queues (dp_info plan))\<rparr>"

text \<open>An attempt below, from where this layer left the chain link.\<close>

definition attempt :: "nat \<Rightarrow> device_create_info \<Rightarrow> ('w layer, vk_result \<times> handle) state" where
  "attempt next_link info = do { link_modify (\<lambda>_. next_link); next_create (CreateDevice info) }"

text \<open>The attempts in turn; the result, the handle and the plan that is left.\<close>

definition device_attempts ::
  "afmf_config \<Rightarrow> bool \<Rightarrow> nat \<Rightarrow> device_create_info \<Rightarrow> device_plan \<Rightarrow> ('w layer, vk_result \<times> handle \<times> device_plan) state" where
  "device_attempts cfg app_int16 next_link info plan = do {
     (res, out) \<leftarrow> attempt next_link (if dp_high plan then request_high info plan else dp_info plan);
     (res, out, plan) \<leftarrow> (if res \<noteq> VK_SUCCESS \<and> dp_high plan then do {
          (res, out) \<leftarrow> attempt next_link (dp_info plan);
          return (res, out, plan\<lparr>dp_high := False\<rparr>)
        } else return (res, out, plan));
     (if res \<noteq> VK_SUCCESS \<and> (dp_async plan \<noteq> None \<or> dp_features plan \<or> dp_next plan) then do {
        (res, out) \<leftarrow> attempt next_link info;
        return (res, out, plan\<lparr>dp_async := None, dp_int16 := cfg_sad_int16 cfg \<and> app_int16\<rparr>)
      } else return (res, out, plan))
   }"

text \<open>The layer's queue, once the device is there: fetched and stamped.\<close>

definition shared_choice :: "afmf_config \<Rightarrow> afmf_device \<Rightarrow> device_create_info \<Rightarrow> (u32 \<times> u32) option \<Rightarrow> (u32 \<times> u32) option \<times> bool" where
  "shared_choice cfg dev info async =
     (if async = None \<and> dev_set_loader_data dev \<and> cfg_async cfg
      then (let choice = afmf_choose_shared_family dev info in (choice, choice \<noteq> None))
      else (async, False))"

definition fetch_queue :: "afmf_device \<Rightarrow> (u32 \<times> u32) option \<Rightarrow> bool \<Rightarrow> ('w layer, afmf_device) state" where
  "fetch_queue dev async shared =
     (case async of
        None \<Rightarrow> return (dev\<lparr>dev_async_shared := shared\<rparr>)
      | Some (family, index) \<Rightarrow> do {
          (_, queue) \<leftarrow> vk_full (GetDeviceQueue family index);
          stamped \<leftarrow> (if queue \<noteq> VK_NULL_HANDLE then vk (SetLoaderData queue) else return VK_SUCCESS);
          let queue = (if stamped \<noteq> VK_SUCCESS then VK_NULL_HANDLE else queue);
          return (dev\<lparr>dev_async_queue := queue, dev_async_family := family,
                      dev_async_shared := shared \<and> queue \<noteq> VK_NULL_HANDLE\<rparr>)
        })"

text \<open>The end of the creation: the queue, the registration, and the shaders' compilation in the background.\<close>

definition device_finish :: "afmf_config \<Rightarrow> device_create_info \<Rightarrow> (string \<Rightarrow> bool) \<Rightarrow> (string \<Rightarrow> bool) \<Rightarrow> afmf_device \<Rightarrow> handle \<Rightarrow> device_plan
    \<Rightarrow> ('w layer, vk_result \<times> handle option) state" where
  "device_finish cfg info gdpa fns dev out plan = do {
     key \<leftarrow> gets (\<lambda>s. lay_key s out);
     let dev = dev\<lparr>dev_shader_int16 := dp_int16 plan, dev_async_high_priority := dp_high plan, dev_handle := out\<rparr>;
     let (async, shared) = shared_choice cfg dev info (dp_async plan);
     dev \<leftarrow> fetch_queue dev async shared;
     let d = \<lparr>ld_key = key, ld_dev = dev, ld_gdpa = gdpa, ld_fns = fns, ld_swapchains = []\<rparr>;
     afmf_device_register d;
     whenb (fns ''vkQueuePresentKHR'') (do {
       _ \<leftarrow> with_device d (run_fg afmf_framegen_pipelines_prepare fg_zero);
       return ()
     });
     return (VK_SUCCESS, Some out)
   }"

definition afmf_CreateDevice :: "handle \<Rightarrow> device_create_info \<Rightarrow> ('w layer, vk_result \<times> handle option) state" where
  "afmf_CreateDevice physical_device info = do {
     found \<leftarrow> instance_of physical_device;
     (case (found, device_link_info (di_next info)) of
        (Some inst, Some link) \<Rightarrow> do {
          gipa \<leftarrow> gets (\<lambda>s. lay_link_gipa s link);
          gdpa \<leftarrow> gets (\<lambda>s. lay_link_gdpa s link);
          cfg \<leftarrow> gets lay_cfg;
          pd \<leftarrow> gets (\<lambda>s. lay_physical s physical_device);
          if \<not> gipa ''vkCreateDevice'' then return (VK_ERROR_INITIALIZATION_FAILED, None)
          else do {
            let dev = afmf_device_probe inst pd info (device_new gipa pd (device_loader_data (di_next info)));
            next_link \<leftarrow> gets (\<lambda>s. lay_link_next s link);
            (res, out, plan) \<leftarrow> device_attempts cfg (dev_shader_int16 dev) next_link info (plan_device cfg pd info dev);
            if res \<noteq> VK_SUCCESS then return (res, Some out)
            else do {
              let (ok, fns) = afmf_load_device_fns gdpa;
              if \<not> ok then do {
                whenb (gdpa ''vkDestroyDevice'') (do { _ \<leftarrow> vk DestroyDevice; return () });
                return (VK_ERROR_INITIALIZATION_FAILED, Some VK_NULL_HANDLE)
              } else device_finish cfg info gdpa fns dev out plan
            }
          }
        }
      | _ \<Rightarrow> return (VK_ERROR_INITIALIZATION_FAILED, None))
   }"

section \<open>The layer's queue is one more\<close>

definition asked_of :: "(queue_create_info \<Rightarrow> bool) \<Rightarrow> queue_create_info list \<Rightarrow> nat" where
  "asked_of P qs = sum_list (map (\<lambda>q. unat (qc_count q)) (filter P qs))"

lemma asked_of_simps [simp]:
  "asked_of P [] = 0" "asked_of P (q # qs) = (if P q then unat (qc_count q) else 0) + asked_of P qs"
  by (simp_all add: asked_of_def)

lemma asked_of_mono: "(\<And>q. P q \<Longrightarrow> Q q) \<Longrightarrow> asked_of P qs \<le> asked_of Q qs"
  by (induction qs) auto

lemma unat_sum_counts:
  "asked_of P qs < 2 ^ 32 \<Longrightarrow> unat (sum_list (map qc_count (filter P qs))) = asked_of P qs"
proof (induction qs)
  case (Cons q qs)
  show ?case
  proof (cases "P q")
    case True
    have rest: "unat (sum_list (map qc_count (filter P qs))) = asked_of P qs" using Cons True by simp
    have "unat (qc_count q) + unat (sum_list (map qc_count (filter P qs))) < 2 ^ 32" using Cons.prems True unfolding rest by simp
    then have "unat (qc_count q + sum_list (map qc_count (filter P qs))) = unat (qc_count q) + asked_of P qs"
      unfolding rest [symmetric] by (simp add: unat_word_ariths)
    then show ?thesis using True by simp
  next
    case False
    then show ?thesis using Cons by simp
  qed
qed simp

lemma spare_family_found:
  "spare_family compute_only info qfs f = Some (family, index) \<Longrightarrow> unat f + length qfs \<le> 2 ^ 32 \<Longrightarrow>
     \<exists>k < length qfs. family = f + word_of_nat k \<and> QUEUE_COMPUTE \<in> qf_flags (qfs ! k)
       \<and> requested info family < qf_count (qfs ! k) \<and> index = unprotected info family"
proof (induction qfs arbitrary: f)
  case (Cons qf qfs)
  show ?case
  proof (cases "family_computes compute_only (qf_flags qf) \<and> requested info f < qf_count qf")
    case True
    then show ?thesis using Cons.prems(1) by (intro exI [of _ 0]) (auto simp: family_computes_def)
  next
    case False
    then have "spare_family compute_only info qfs (f + 1) = Some (family, index)" using Cons.prems(1) by auto
    show ?thesis
    proof (cases qfs)
      case Nil
      then show ?thesis using False Cons.prems(1) by auto
    next
      case (Cons _ _)
      then have "unat f + 1 < 2 ^ 32" using Cons.prems(2) by simp
      then have next': "unat (f + 1) = unat f + 1" by (simp add: unat_word_ariths)
      obtain k where "k < length qfs" "family = f + 1 + word_of_nat k" "QUEUE_COMPUTE \<in> qf_flags (qfs ! k)"
          "requested info family < qf_count (qfs ! k)" "index = unprotected info family"
        using Cons.IH [of "f + 1"] \<open>spare_family compute_only info qfs (f + 1) = Some (family, index)\<close> Cons.prems(2) next' by auto
      then show ?thesis by (intro exI [of _ "Suc k"]) (simp add: algebra_simps)
    qed
  qed
qed simp

lemma choose_async_found:
  assumes "afmf_choose_async_family dev info = Some (family, index)" "length (dev_queue_families dev) \<le> 2 ^ 32"
  shows "unat family < length (dev_queue_families dev)"
    and "QUEUE_COMPUTE \<in> qf_flags (dev_queue_families dev ! unat family)"
    and "requested info family < qf_count (dev_queue_families dev ! unat family)"
    and "index = unprotected info family"
proof -
  have "spare_family True info (dev_queue_families dev) 0 = Some (family, index)
      \<or> spare_family False info (dev_queue_families dev) 0 = Some (family, index)"
    using assms(1) by (auto simp: afmf_choose_async_family_def split: option.splits)
  then obtain k where k: "k < length (dev_queue_families dev)" "family = word_of_nat k"
      "QUEUE_COMPUTE \<in> qf_flags (dev_queue_families dev ! k)" "requested info family < qf_count (dev_queue_families dev ! k)"
      "index = unprotected info family"
    using spare_family_found [of _ info "dev_queue_families dev" 0 family index] assms(2) by auto
  have "unat family = k" using k(1,2) assms(2) by (simp add: unat_of_nat)
  then show "unat family < length (dev_queue_families dev)" "QUEUE_COMPUTE \<in> qf_flags (dev_queue_families dev ! unat family)"
      "requested info family < qf_count (dev_queue_families dev ! unat family)" "index = unprotected info family"
    using k by simp_all
qed

text \<open>The request with one more queue: the family's unprotected entries have one more, nothing else changes.\<close>

lemma extra_others:
  "(\<And>q. P q \<Longrightarrow> qc_family q \<noteq> family) \<Longrightarrow> filter P (queues_with_extra qs family) = filter P qs"
proof (induction qs)
  case Nil
  then show ?case by force
next
  case (Cons q qs)
  have "\<not> P (q\<lparr>qc_count := c, qc_priorities := ps\<rparr>)" if "qc_family q = family" for c ps
    using Cons.prems [of "q\<lparr>qc_count := c, qc_priorities := ps\<rparr>"] that by auto
  moreover have "\<not> P q" if "qc_family q = family" using Cons.prems [of q] that by auto
  ultimately show ?case using Cons by auto
qed

lemma extra_protected: "filter qc_protected (queues_with_extra qs family) = filter qc_protected qs"
  by (induction qs) auto

lemma extra_unprotected:
  assumes "asked_of (\<lambda>q. qc_family q = family) qs < 2 ^ 32 - 1"
  shows "asked_of (\<lambda>q. qc_family q = family \<and> \<not> qc_protected q) (queues_with_extra qs family)
    = asked_of (\<lambda>q. qc_family q = family \<and> \<not> qc_protected q) qs + 1"
  using assms
proof (induction qs)
  case (Cons q qs)
  have "unat (qc_count q + 1) = unat (qc_count q) + 1" if "qc_family q = family"
    using Cons.prems that by (simp add: unat_word_ariths)
  then show ?case using Cons by auto
qed simp

lemma extra_priorities:
  assumes "\<forall>q \<in> set qs. length (qc_priorities q) = unat (qc_count q)" "asked_of (\<lambda>q. qc_family q = family) qs < 2 ^ 32 - 1"
  shows "\<forall>q \<in> set (queues_with_extra qs family). length (qc_priorities q) = unat (qc_count q)"
  using assms
proof (induction qs)
  case (Cons q qs)
  have "unat (qc_count q + 1) = unat (qc_count q) + 1" if "qc_family q = family"
    using Cons.prems that by (simp add: unat_word_ariths)
  then show ?case using Cons by auto
qed simp

lemma asked_split: "asked_of (\<lambda>q. qc_family q = f) qs
    = asked_of (\<lambda>q. qc_family q = f \<and> qc_protected q) qs + asked_of (\<lambda>q. qc_family q = f \<and> \<not> qc_protected q) qs"
  by (induction qs) auto

lemma extra_protected_asked:
  "asked_of (\<lambda>q. qc_family q = f \<and> qc_protected q) (queues_with_extra qs family) = asked_of (\<lambda>q. qc_family q = f \<and> qc_protected q) qs"
  by (induction qs) auto

text \<open>
  C27: The layer's own queue is one more than the application asked for. When the creation finds a
  family, it is one of the device's, it computes, and with the extra queue the request stays within
  the queues the family has; the index the layer will fetch is the last of the unprotected queues
  asked for, which is not one of the application's; every other family's requests and every protected
  entry are the application's, and each entry carries a priority per queue.
\<close>
theorem layer_queue_fits:
  assumes chosen: "afmf_choose_async_family dev info = Some (family, index)"
    and families: "length (dev_queue_families dev) \<le> 2 ^ 32"
    and valid: "asked_of (\<lambda>q. qc_family q = family) (di_queues info) < 2 ^ 32"
      "\<forall>q \<in> set (di_queues info). length (qc_priorities q) = unat (qc_count q)"
  shows "unat family < length (dev_queue_families dev)
    \<and> QUEUE_COMPUTE \<in> qf_flags (dev_queue_families dev ! unat family)
    \<and> asked_of (\<lambda>q. qc_family q = family) (afmf_queues_with_extra info family) \<le> unat (qf_count (dev_queue_families dev ! unat family))
    \<and> asked_of (\<lambda>q. qc_family q = family \<and> \<not> qc_protected q) (afmf_queues_with_extra info family) = unat index + 1
    \<and> asked_of (\<lambda>q. qc_family q = family \<and> \<not> qc_protected q) (di_queues info) = unat index
    \<and> filter (\<lambda>q. qc_family q \<noteq> family) (afmf_queues_with_extra info family) = filter (\<lambda>q. qc_family q \<noteq> family) (di_queues info)
    \<and> filter qc_protected (afmf_queues_with_extra info family) = filter qc_protected (di_queues info)
    \<and> (\<forall>q \<in> set (afmf_queues_with_extra info family). length (qc_priorities q) = unat (qc_count q))"
proof -
  note found = choose_async_found [OF chosen families]
  let ?qs = "di_queues info" and ?cap = "qf_count (dev_queue_families dev ! unat family)"
  have requested: "unat (requested info family) = asked_of (\<lambda>q. qc_family q = family) ?qs"
    using unat_sum_counts [OF valid(1)] by (simp add: requested_def)
  have less: "asked_of (\<lambda>q. qc_family q = family) ?qs < unat ?cap"
    using found(3) unfolding requested [symmetric] word_less_nat_alt .
  moreover have "unat ?cap < 2 ^ 32" using unsigned_less [of ?cap] by simp
  ultimately have room: "asked_of (\<lambda>q. qc_family q = family) ?qs < 2 ^ 32 - 1" by linarith
  have "asked_of (\<lambda>q. qc_family q = family \<and> \<not> qc_protected q) ?qs \<le> asked_of (\<lambda>q. qc_family q = family) ?qs"
    by (rule asked_of_mono) simp
  then have "asked_of (\<lambda>q. qc_family q = family \<and> \<not> qc_protected q) ?qs < 2 ^ 32" using valid(1) by linarith
  from unat_sum_counts [OF this] have index: "unat index = asked_of (\<lambda>q. qc_family q = family \<and> \<not> qc_protected q) ?qs"
    unfolding found(4) unprotected_def .
  show ?thesis
    unfolding afmf_queues_with_extra_def
    using found(1,2) less index extra_unprotected [OF room] extra_others [of "\<lambda>q. qc_family q \<noteq> family" family ?qs]
      extra_protected [of ?qs family] extra_priorities [OF valid(2) room] extra_protected_asked [of family ?qs family]
      asked_split [of family ?qs] asked_split [of family "queues_with_extra ?qs family"] by auto
qed

definition game_request :: device_create_info where
  "game_request = \<lparr>di_next = [LoaderLinkInfo (Some 1), LoaderDataCallback True],
     di_queues = [\<lparr>qc_next = [], qc_family = 0, qc_count = 1, qc_protected = False, qc_priorities = [1]\<rparr>,
                  \<lparr>qc_next = [], qc_family = 1, qc_count = 1, qc_protected = False, qc_priorities = [1 / 2]\<rparr>],
     di_extensions = [''VK_KHR_swapchain''], di_features = None\<rparr>"

definition probed_device :: afmf_device where
  "probed_device = dev_zero\<lparr>dev_queue_families := pd_queue_families plain_physical, dev_set_loader_data := True\<rparr>"

lemma game_family: "afmf_choose_async_family probed_device game_request = Some (1, 1)"
  by (simp add: afmf_choose_async_family_def probed_device_def plain_physical_def game_request_def family_computes_def
      requested_def unprotected_def)

theorem layer_queue_fits_witness:
  "asked_of (\<lambda>q. qc_family q = 1 \<and> \<not> qc_protected q) (afmf_queues_with_extra game_request 1) = 2
   \<and> list_all (\<lambda>q. length (qc_priorities q) = unat (qc_count q)) (afmf_queues_with_extra game_request 1)"
proof -
  have families: "length (dev_queue_families probed_device) \<le> 2 ^ 32" by (simp add: probed_device_def plain_physical_def)
  have "asked_of (\<lambda>q. qc_family q = 1) (di_queues game_request) < 2 ^ 32"
    "\<forall>q \<in> set (di_queues game_request). length (qc_priorities q) = unat (qc_count q)"
    by (simp_all add: game_request_def)
  from layer_queue_fits [OF game_family families this] show ?thesis by (simp add: list_all_iff)
qed

section \<open>The attempts\<close>

fun creations :: "event list \<Rightarrow> (device_create_info \<times> nat \<times> vk_result) list" where
  "creations [] = []"
| "creations (Called (CreateDevice info link) res out # es) = (info, link, res) # creations es"
| "creations (e # es) = creations es"

lemma creations_append [simp]: "creations (es @ fs) = creations es @ creations fs"
  by (induction es rule: creations.induct) auto

text \<open>What the creations between two states asked for.\<close>

definition created :: "'w layer \<Rightarrow> 'w layer \<Rightarrow> (device_create_info \<times> nat \<times> vk_result) list \<Rightarrow> bool" where
  "created s s' cs \<longleftrightarrow> (\<exists>tr. eff_trace s' = eff_trace s @ tr \<and> creations tr = cs)"

lemma run_attempt:
  assumes "run_state (attempt link info) s = ((res, out), s')"
  shows "created s s' [(info, link, res)]" "lay_devices s' = lay_devices s"
  using assms by (auto simp: attempt_def next_create_def link_modify_def run_vk_full created_def split: prod.splits)

lemma created_trans: "created s s1 cs \<Longrightarrow> created s1 s2 ds \<Longrightarrow> created s s2 (cs @ ds)"
  by (auto simp: created_def)

text \<open>
  The requests in order: with the priority if it is asked for, without it, and the application's own
  if anything was patched; each only after the one before has failed.
\<close>

definition requests :: "device_create_info \<Rightarrow> device_plan \<Rightarrow> device_create_info list" where
  "requests info plan = (if dp_high plan then [request_high info plan] else []) @ [dp_info plan]
     @ (if dp_async plan \<noteq> None \<or> dp_features plan \<or> dp_next plan then [info] else [])"

text \<open>
  A list of requests with their results is what the creation tried: the first requests, failing up to
  the last, all of them if that fails too; and what the plan says of the request that was last.
\<close>

definition tried :: "bool \<Rightarrow> device_create_info \<Rightarrow> device_plan \<Rightarrow> vk_result \<Rightarrow> device_plan \<Rightarrow> (device_create_info \<times> vk_result) list \<Rightarrow> bool" where
  "tried own_int16 info plan res plan' cs \<longleftrightarrow>
    cs \<noteq> [] \<and> snd (last cs) = res
    \<and> (\<forall>(r, v) \<in> set (butlast cs). v \<noteq> VK_SUCCESS)
    \<and> map fst cs = take (length cs) (requests info plan) \<and> (res \<noteq> VK_SUCCESS \<longrightarrow> length cs = length (requests info plan))
    \<and> (dp_async plan' = None \<and> dp_int16 plan' = own_int16 \<and> fst (last cs) = info
       \<or> dp_async plan' = dp_async plan \<and> dp_int16 plan' = dp_int16 plan \<and> fst (last cs) \<in> {request_high info plan, dp_info plan})"

lemma attempts_run:
  assumes "run_state (device_attempts cfg app_int16 link info plan) s = ((res, out, plan'), s')"
  shows "\<exists>cs. created s s' (map (\<lambda>(r, v). (r, link, v)) cs) \<and> tried (cfg_sad_int16 cfg \<and> app_int16) info plan res plan' cs"
    and "lay_devices s' = lay_devices s"
proof -
  let ?patched = "dp_async plan \<noteq> None \<or> dp_features plan \<or> dp_next plan"
  let ?first = "if dp_high plan then request_high info plan else dp_info plan"
  obtain r1 o1 s1 where a1: "run_state (attempt link ?first) s = ((r1, o1), s1)" by (metis surj_pair)
  note c1 = run_attempt [OF a1]
  obtain r2 o2 s2 where a2: "run_state (attempt link (dp_info plan)) s1 = ((r2, o2), s2)" by (metis surj_pair)
  note c2 = run_attempt [OF a2]
  obtain r3 o3 s3 where a3: "run_state (attempt link info) s1 = ((r3, o3), s3)" by (metis surj_pair)
  note c3 = run_attempt [OF a3]
  obtain r4 o4 s4 where a4: "run_state (attempt link info) s2 = ((r4, o4), s4)" by (metis surj_pair)
  note c4 = run_attempt [OF a4]
  consider (first) "r1 = VK_SUCCESS \<or> \<not> dp_high plan \<and> \<not> ?patched" | (again) "r1 \<noteq> VK_SUCCESS" "dp_high plan" "r2 = VK_SUCCESS \<or> \<not> ?patched"
    | (again_own) "r1 \<noteq> VK_SUCCESS" "dp_high plan" "r2 \<noteq> VK_SUCCESS" ?patched
    | (own) "r1 \<noteq> VK_SUCCESS" "\<not> dp_high plan" ?patched by blast
  then have "(\<exists>cs. created s s' (map (\<lambda>(r, v). (r, link, v)) cs) \<and> tried (cfg_sad_int16 cfg \<and> app_int16) info plan res plan' cs)
    \<and> lay_devices s' = lay_devices s"
  proof cases
    case first
    then have "res = r1" "plan' = plan" "s' = s1"
      using assms a1 by (auto simp: device_attempts_def split: if_splits)
    then show ?thesis
      using c1 first by (intro conjI exI [of _ "[(?first, r1)]"]) (auto simp: requests_def tried_def)
  next
    case again
    then have "res = r2" "plan' = plan\<lparr>dp_high := False\<rparr>" "s' = s2"
      using assms a1 a2 by (auto simp: device_attempts_def split: if_splits)
    then show ?thesis
      using created_trans [OF c1(1) c2(1)] c1(2) c2(2) again
      by (intro conjI exI [of _ "[(?first, r1), (dp_info plan, r2)]"]) (auto simp: requests_def tried_def)
  next
    case again_own
    then have "res = r4" "plan' = plan\<lparr>dp_high := False, dp_async := None, dp_int16 := cfg_sad_int16 cfg \<and> app_int16\<rparr>" "s' = s4"
      using assms a1 a2 a4 by (auto simp: device_attempts_def split: if_splits)
    then show ?thesis
      using created_trans [OF created_trans [OF c1(1) c2(1)] c4(1)] c1(2) c2(2) c4(2) again_own
      by (intro conjI exI [of _ "[(?first, r1), (dp_info plan, r2), (info, r4)]"]) (auto simp: requests_def tried_def)
  next
    case own
    then have "res = r3" "plan' = plan\<lparr>dp_async := None, dp_int16 := cfg_sad_int16 cfg \<and> app_int16\<rparr>" "s' = s3"
      using assms a1 a3 by (auto simp: device_attempts_def split: if_splits)
    then show ?thesis
      using created_trans [OF c1(1) c3(1)] c1(2) c3(2) own
      by (intro conjI exI [of _ "[(?first, r1), (info, r3)]"]) (auto simp: requests_def tried_def)
  qed
  then show "\<exists>cs. created s s' (map (\<lambda>(r, v). (r, link, v)) cs) \<and> tried (cfg_sad_int16 cfg \<and> app_int16) info plan res plan' cs"
    and "lay_devices s' = lay_devices s" by simp_all
qed

text \<open>The requests of a plan: the last is the application's own, and the feature is on where the plan counts on it.\<close>

lemma features2_heads_asked:
  "features2_heads ns \<Longrightarrow> features2_in (PhysicalDeviceFeatures2 f # tl ns) = Some f"
  by (auto simp: features2_heads_def split: list.splits device_node.splits)

lemma plan_int16_asked:
  "dp_int16 (plan_int16 cfg pd info (feature_asked feat_shader_int16 info)) \<Longrightarrow>
     feature_asked feat_shader_int16 (dp_info (plan_int16 cfg pd info (feature_asked feat_shader_int16 info)))"
  using features2_heads_asked
  by (auto simp: plan_int16_def Let_def feature_asked_def split: if_splits option.splits)

lemma plan_queue_keeps:
  "di_next (dp_info (plan_queue cfg dev info plan)) = di_next (dp_info plan)"
  "di_features (dp_info (plan_queue cfg dev info plan)) = di_features (dp_info plan)"
  "dp_int16 (plan_queue cfg dev info plan) = dp_int16 plan"
  by (auto simp: plan_queue_def split: option.split)

lemma feature_asked_cong: "di_next r = di_next r' \<Longrightarrow> di_features r = di_features r' \<Longrightarrow> feature_asked f r = feature_asked f r'"
  by (simp add: feature_asked_def cong: option.case_cong)

lemma plan_device_asked:
  assumes "dev_shader_int16 dev = feature_asked feat_shader_int16 info" "dp_int16 (plan_device cfg pd info dev)"
    and "r \<in> {request_high info (plan_device cfg pd info dev), dp_info (plan_device cfg pd info dev)}"
  shows "feature_asked feat_shader_int16 r"
proof -
  let ?plan = "plan_int16 cfg pd info (feature_asked feat_shader_int16 info)"
  have same: "feature_asked feat_shader_int16 r = feature_asked feat_shader_int16 (dp_info ?plan)"
    by (rule feature_asked_cong)
       (use assms(1,3) in \<open>auto simp: request_high_def plan_device_def plan_priority_def plan_queue_keeps\<close>)
  show ?thesis
    unfolding same by (rule plan_int16_asked) (use assms(1,2) in \<open>simp add: plan_device_def plan_priority_def plan_queue_keeps\<close>)
qed

lemma plan_own_last: "last (requests info (plan_device cfg pd info dev)) = info"
proof -
  have "dp_info (plan_device cfg pd info dev) = info"
    if "dp_async (plan_device cfg pd info dev) = None" "\<not> dp_features (plan_device cfg pd info dev)"
      "\<not> dp_next (plan_device cfg pd info dev)"
    using that by (auto simp: plan_device_def plan_priority_def plan_queue_def plan_int16_def Let_def split: option.splits if_splits)
  then show ?thesis unfolding requests_def by (cases "dp_async (plan_device cfg pd info dev) = None") auto
qed

lemma plan_device_queues:
  assumes "dp_async (plan_device cfg pd info dev) = Some (family, index)"
    and "r \<in> {request_high info (plan_device cfg pd info dev), dp_info (plan_device cfg pd info dev)}"
  shows "di_queues r \<in> {afmf_queues_with_extra info family, last_entry_high (afmf_queues_with_extra info family)}"
    and "afmf_choose_async_family dev info = Some (family, index)"
  using assms
  by (auto simp: plan_device_def plan_priority_def plan_queue_def plan_int16_def Let_def request_high_def split: option.splits if_splits)

lemma tried_last:
  assumes "tried own info plan res plan' cs" "res \<noteq> VK_SUCCESS"
  shows "fst (last cs) = last (requests info plan)"
proof -
  have "map fst cs = requests info plan" using assms by (auto simp: tried_def)
  moreover have "cs \<noteq> []" using assms by (simp add: tried_def)
  ultimately show ?thesis by (metis last_map)
qed

text \<open>After the attempts: the queue fetched and the device registered, nothing created any more.\<close>

lemma run_fetch:
  assumes "run_state (fetch_queue dev async shared) s = (dev', s')" "shared \<Longrightarrow> async \<noteq> None" "dev_async_queue dev = 0"
  shows "created s s' []" "lay_devices s' = lay_devices s"
    and "\<exists>q f. dev' = dev\<lparr>dev_async_queue := q, dev_async_family := f, dev_async_shared := shared \<and> q \<noteq> VK_NULL_HANDLE\<rparr>
       \<and> (q \<noteq> VK_NULL_HANDLE \<longrightarrow> (\<exists>index. async = Some (f, index)))"
proof -
  show "created s s' []" "lay_devices s' = lay_devices s"
    using assms(1) by (auto simp: fetch_queue_def created_def run_vk_full run_vk split: option.splits prod.splits if_splits)
  show "\<exists>q f. dev' = dev\<lparr>dev_async_queue := q, dev_async_family := f, dev_async_shared := shared \<and> q \<noteq> VK_NULL_HANDLE\<rparr>
       \<and> (q \<noteq> VK_NULL_HANDLE \<longrightarrow> (\<exists>index. async = Some (f, index)))"
  proof (cases async)
    case None
    then have "dev' = dev\<lparr>dev_async_shared := False\<rparr>" using assms(1,2) by (cases shared) (auto simp: fetch_queue_def)
    then show ?thesis using assms(3) by (intro exI [of _ 0] exI [of _ "dev_async_family dev"]) simp
  next
    case (Some fi)
    obtain family index where fi: "fi = (family, index)" by fastforce
    obtain q where "dev' = dev\<lparr>dev_async_queue := q, dev_async_family := family, dev_async_shared := shared \<and> q \<noteq> VK_NULL_HANDLE\<rparr>"
      using assms(1) unfolding Some fi by (auto simp: fetch_queue_def Let_def split: prod.splits)
    then show ?thesis using Some fi by blast
  qed
qed

text \<open>The registered device, and the compilation started in the background.\<close>

lemma run_prepare_fg:
  "\<exists>b w fg tr. run_state (run_fg afmf_framegen_pipelines_prepare fg_zero) t =
     (((), fg), t\<lparr>eff_world := w, eff_trace := eff_trace t @ tr, sys_dev := (sys_dev t)\<lparr>dev_pipelines_thread_running := b\<rparr>\<rparr>)
     \<and> creations tr = []"
proof (cases "dev_framegen_pipelines (sys_dev t) \<noteq> None \<or> dev_pipelines_thread_running (sys_dev t)")
  case True
  have "(sys_dev t)\<lparr>dev_pipelines_thread_running := dev_pipelines_thread_running (sys_dev t)\<rparr> = sys_dev t" by simp
  then have "run_state (run_fg afmf_framegen_pipelines_prepare fg_zero) t = (((), fg_zero),
      t\<lparr>eff_world := eff_world t, eff_trace := eff_trace t @ [], sys_dev := (sys_dev t)\<lparr>dev_pipelines_thread_running :=
        dev_pipelines_thread_running (sys_dev t)\<rparr>\<rparr>)"
    using True by (simp add: run_fg_def afmf_framegen_pipelines_prepare_def fgs_of_def)
  then show ?thesis by (meson creations.simps(1))
next
  case False
  obtain res out w where answer: "eff_driver t PthreadCreate (eff_world t) = ((res, out), w)" by (metis surj_pair)
  have "run_state (run_fg afmf_framegen_pipelines_prepare fg_zero) t = (((), fg_zero),
      t\<lparr>eff_world := w, eff_trace := eff_trace t @ [Called PthreadCreate res out],
        sys_dev := (sys_dev t)\<lparr>dev_pipelines_thread_running := (res = 0)\<rparr>\<rparr>)"
    using False answer by (simp add: run_fg_def afmf_framegen_pipelines_prepare_def fgs_of_def run_vk dev_modify_def)
  then show ?thesis by (intro exI) (rule conjI, assumption, simp)
qed

lemma run_prepare:
  assumes "run_state (with_device d (run_fg afmf_framegen_pipelines_prepare fg_zero)) s = (x, s')"
    and "keyed_find ld_key (ld_key d) (lay_devices s) \<noteq> None"
  shows "created s s' []"
    and "\<exists>b. keyed_find ld_key (ld_key d) (lay_devices s') = Some (d\<lparr>ld_dev := (ld_dev d)\<lparr>dev_pipelines_thread_running := b\<rparr>\<rparr>)"
proof -
  obtain b w fg tr where run: "run_state (run_fg afmf_framegen_pipelines_prepare fg_zero) (device_sys s d) =
      (((), fg), (device_sys s d)\<lparr>eff_world := w, eff_trace := eff_trace (device_sys s d) @ tr,
         sys_dev := (sys_dev (device_sys s d))\<lparr>dev_pipelines_thread_running := b\<rparr>\<rparr>)" "creations tr = []"
    using run_prepare_fg [of "device_sys s d"] by blast
  let ?d = "d\<lparr>ld_dev := (ld_dev d)\<lparr>dev_pipelines_thread_running := b\<rparr>\<rparr>"
  have "eff_trace s' = eff_trace s @ tr" "lay_devices s' = keyed_store ld_key ?d (lay_devices s)"
    using assms(1) run by (auto simp: with_device_def run_device_def devices_modify_def device_sys_def)
  then show "created s s' []" "\<exists>b. keyed_find ld_key (ld_key d) (lay_devices s') =
      Some (d\<lparr>ld_dev := (ld_dev d)\<lparr>dev_pipelines_thread_running := b\<rparr>\<rparr>)"
    using assms(2) run(2) by (auto simp: created_def keyed_find_store)
qed

lemma attempts_key: "lay_key (snd (run_state (device_attempts cfg app_int16 link info plan) s)) = lay_key s"
  by (simp add: device_attempts_def attempt_def next_create_def link_modify_def run_vk_full split: prod.split)

text \<open>What a device that was created by the request \<open>r\<close> is registered as.\<close>

definition device_matches :: "device_create_info \<Rightarrow> device_create_info \<Rightarrow> layer_device \<Rightarrow> bool" where
  "device_matches info r d \<longleftrightarrow>
     (dev_shader_int16 (ld_dev d) \<longrightarrow> feature_asked feat_shader_int16 r)
   \<and> (dev_async_shared (ld_dev d) \<longrightarrow> dev_async_queue (ld_dev d) \<noteq> VK_NULL_HANDLE)
   \<and> (dev_async_queue (ld_dev d) \<noteq> VK_NULL_HANDLE \<and> \<not> dev_async_shared (ld_dev d) \<longrightarrow>
       di_queues r \<in> {afmf_queues_with_extra info (dev_async_family (ld_dev d)),
                      last_entry_high (afmf_queues_with_extra info (dev_async_family (ld_dev d)))})
   \<and> queues_ok (ld_dev d) \<and> ld_swapchains d = []"

lemma run_finish:
  assumes run: "run_state (device_finish cfg info gdpa fns dev out plan) s = (result, s')"
    and dev: "dev_async_queue dev = 0" "dev_queues dev = []"
    and int16: "dp_int16 plan \<Longrightarrow> feature_asked feat_shader_int16 r"
    and queues: "\<And>family index. dp_async plan = Some (family, index) \<Longrightarrow>
      di_queues r \<in> {afmf_queues_with_extra info family, last_entry_high (afmf_queues_with_extra info family)}"
  shows "created s s' []" and "result = (VK_SUCCESS, Some out)"
    and "\<exists>d. keyed_find ld_key (lay_key s out) (lay_devices s') = Some d \<and> device_matches info r d"
proof -
  let ?dev = "dev\<lparr>dev_shader_int16 := dp_int16 plan, dev_async_high_priority := dp_high plan, dev_handle := out\<rparr>"
  obtain async shared where choice: "shared_choice cfg ?dev info (dp_async plan) = (async, shared)" by fastforce
  have shared: "shared \<Longrightarrow> async \<noteq> None" "\<not> shared \<Longrightarrow> async \<noteq> None \<Longrightarrow> async = dp_async plan"
    using choice by (auto simp: shared_choice_def Let_def split: if_splits)
  obtain dev' s1 where fetch: "run_state (fetch_queue ?dev async shared) s = (dev', s1)" by fastforce
  have zero: "dev_async_queue ?dev = 0" using dev(1) by simp
  note f = run_fetch [OF fetch shared(1) zero]
  obtain q fam where dev': "dev' = ?dev\<lparr>dev_async_queue := q, dev_async_family := fam, dev_async_shared := shared \<and> q \<noteq> VK_NULL_HANDLE\<rparr>"
      "q \<noteq> VK_NULL_HANDLE \<Longrightarrow> \<exists>index. async = Some (fam, index)" using f(3) by blast
  let ?d = "\<lparr>ld_key = lay_key s out, ld_dev = dev', ld_gdpa = gdpa, ld_fns = fns, ld_swapchains = []\<rparr>"
  have matches: "device_matches info r (?d\<lparr>ld_dev := dev'\<lparr>dev_pipelines_thread_running := b\<rparr>\<rparr>)" "device_matches info r ?d" for b
    using dev'(2) dev(2) int16 queues shared(2)
    by (auto simp: device_matches_def dev'(1) queues_ok_def)
  let ?s2 = "s1\<lparr>eff_trace := eff_trace s1 @ [Locked RegistryLock, Unlocked RegistryLock], lay_devices := ?d # lay_devices s1\<rparr>"
  have s2: "created s ?s2 []" using f(1) by (auto simp: created_def)
  have rest: "run_state (do {
      whenb (fns ''vkQueuePresentKHR'')
        (do { _ \<leftarrow> with_device ?d (run_fg afmf_framegen_pipelines_prepare fg_zero); return () });
      return (VK_SUCCESS, Some out) }) ?s2 = (result, s')"
    using run choice fetch by (simp add: device_finish_def Let_def)
  then show "result = (VK_SUCCESS, Some out)" by (auto split: prod.splits if_splits)
  have "created ?s2 s' [] \<and> (\<exists>d. keyed_find ld_key (lay_key s out) (lay_devices s') = Some d \<and> device_matches info r d)"
  proof (cases "fns ''vkQueuePresentKHR''")
    case True
    obtain x s3 where p: "run_state (with_device ?d (run_fg afmf_framegen_pipelines_prepare fg_zero)) ?s2 = (x, s3)" by fastforce
    have "s' = s3" using rest True p by simp
    then show ?thesis
      using run_prepare [OF p] matches(1) by auto
  next
    case False
    then have "s' = ?s2" using rest by simp
    then show ?thesis using matches(2) by (auto simp: created_def)
  qed
  then show "created s s' []" "\<exists>d. keyed_find ld_key (lay_key s out) (lay_devices s') = Some d \<and> device_matches info r d"
    using created_trans [OF s2] by auto
qed

text \<open>The whole creation, for a known instance and a link below: the attempts, and the end.\<close>

definition device_start :: "afmf_instance \<Rightarrow> nat \<Rightarrow> handle \<Rightarrow> device_create_info \<Rightarrow> 'w layer \<Rightarrow> afmf_device" where
  "device_start inst link physical info s =
     afmf_device_probe inst (lay_physical s physical) info
       (device_new (lay_link_gipa s link) (lay_physical s physical) (device_loader_data (di_next info)))"

text \<open>What the last request of the attempts has of the plan that was left: the feature it counts on and the queue it added.\<close>

lemma tried_asks:
  assumes dev: "dev = device_start inst link physical info s"
    and tried: "tried (cfg_sad_int16 cfg \<and> dev_shader_int16 dev) info (plan_device cfg pd info dev) r plan cs"
    and r: "r = VK_SUCCESS"
  shows "dp_int16 plan \<Longrightarrow> feature_asked feat_shader_int16 (fst (last cs))"
    and "dp_async plan = Some (family, index) \<Longrightarrow>
      di_queues (fst (last cs)) \<in> {afmf_queues_with_extra info family, last_entry_high (afmf_queues_with_extra info family)}"
proof -
  have int16: "dev_shader_int16 dev = feature_asked feat_shader_int16 info"
    by (simp add: dev device_start_def afmf_device_probe_def Let_def)
  show "dp_int16 plan \<Longrightarrow> feature_asked feat_shader_int16 (fst (last cs))"
    using tried r plan_device_asked [OF int16] int16 by (auto simp: tried_def)
  assume some: "dp_async plan = Some (family, index)"
  then have "dp_async (plan_device cfg pd info dev) = Some (family, index)"
      "fst (last cs) \<in> {request_high info (plan_device cfg pd info dev), dp_info (plan_device cfg pd info dev)}"
    using tried r unfolding tried_def by (metis option.distinct(1))+
  then show "di_queues (fst (last cs)) \<in> {afmf_queues_with_extra info family, last_entry_high (afmf_queues_with_extra info family)}"
    by (rule plan_device_queues(1))
qed

lemma create_device_end:
  assumes run: "run_state (afmf_CreateDevice physical info) s = ((res, out), s')"
    and known: "keyed_find inst_key (lay_key s physical) (lay_instances s) = Some inst"
      "device_link_info (di_next info) = Some link" "lay_link_gipa s link ''vkCreateDevice''"
    and a: "run_state (device_attempts (lay_cfg s) (dev_shader_int16 (device_start inst link physical info s)) (lay_link_next s link) info
        (plan_device (lay_cfg s) (lay_physical s physical) info (device_start inst link physical info s)))
      (s\<lparr>eff_trace := eff_trace s @ [Locked RegistryLock, Unlocked RegistryLock]\<rparr>) = ((r, h, plan), s1)"
  shows "run_state (if r \<noteq> VK_SUCCESS then return (r, Some h)
      else if \<not> fst (afmf_load_device_fns (lay_link_gdpa s link)) then do {
        whenb (lay_link_gdpa s link ''vkDestroyDevice'') (do { _ \<leftarrow> vk DestroyDevice; return () });
        return (VK_ERROR_INITIALIZATION_FAILED, Some VK_NULL_HANDLE)
      } else device_finish (lay_cfg s) info (lay_link_gdpa s link) (snd (afmf_load_device_fns (lay_link_gdpa s link)))
               (device_start inst link physical info s) h plan) s1 = ((res, out), s')"
proof -
  let ?s0 = "s\<lparr>eff_trace := eff_trace s @ [Locked RegistryLock, Unlocked RegistryLock]\<rparr>"
  have inst: "run_state (instance_of physical) s = (Some inst, ?s0)" by (simp add: instance_of_def known(1))
  have same: "lay_link_gipa ?s0 = lay_link_gipa s" "lay_link_gdpa ?s0 = lay_link_gdpa s" "lay_cfg ?s0 = lay_cfg s"
    "lay_physical ?s0 = lay_physical s" "lay_link_next ?s0 = lay_link_next s" by simp_all
  show ?thesis
    using run a
    unfolding afmf_CreateDevice_def Let_def case_prod_beta device_start_def
    by (simp only: run_bind inst prod.case option.case fst_conv snd_conv run_gets same known(2,3) not_True_eq_False if_False)
qed


definition game_layer :: "nat layer" where
  "game_layer = sample_layer\<lparr>lay_instances :=
     [\<lparr>inst_key = 5, inst_handle = 5, inst_api_version = 4206592, inst_gipa = (\<lambda>_. True), inst_properties2 = True\<rparr>]\<rparr>"


end
