(* ===== verification/Layer_State.thy ===== *)
theory Layer_State
  imports Device_State Layer_Create
begin

text \<open>
  The layer as one state machine: the calls of the application and the turns of the layer's threads as
  steps on the state of src/src/layer_registry.c, each the operation of the other theories. A state is
  well formed when the two registries have distinct keys and every device is well formed; every step
  keeps it so.
\<close>

section \<open>The layer\<close>

definition layer_ok :: "'w layer \<Rightarrow> bool" where
  "layer_ok s \<longleftrightarrow> keys_distinct ld_key (lay_devices s) \<and> keys_distinct inst_key (lay_instances s)
     \<and> list_all (\<lambda>d. device_ok (ld_dev d) (ld_swapchains d)) (lay_devices s)"

lemma layer_effect_free [simp, intro]: "effect_free layer_ok"
  by (simp add: effect_free_def layer_ok_def)

lemma layer_ok_unchanged: "lay_devices s' = lay_devices s \<Longrightarrow> lay_instances s' = lay_instances s \<Longrightarrow> layer_ok s' = layer_ok s"
  by (simp add: layer_ok_def)

lemma fine_device_sys: "sys_fine (device_sys s d) = device_ok (ld_dev d) (ld_swapchains d)"
  by (simp add: sys_fine_def device_sys_def)

lemma keyed_store_all: "list_all P xs \<Longrightarrow> P x \<Longrightarrow> list_all P (keyed_store key x xs)"
  by (induction xs) auto

lemma layer_with_device:
  assumes ok: "layer_ok s"
    and m: "\<And>t. run_state m (device_sys s d) = (a, t) \<Longrightarrow> sys_fine t"
    and run: "run_state (with_device d m) s = (a, s')"
  shows "layer_ok s'"
proof -
  obtain t where t: "run_state m (device_sys s d) = (a, t)"
    using run by (auto simp: with_device_def run_device_def split: prod.splits)
  let ?d = "d\<lparr>ld_dev := sys_dev t, ld_swapchains := sys_swapchains t\<rparr>"
  have "lay_devices s' = keyed_store ld_key ?d (lay_devices s)" "lay_instances s' = lay_instances s"
    using run t by (auto simp: with_device_def run_device_def devices_modify_def)
  then show ?thesis
    using ok m [OF t] by (simp add: layer_ok_def keys_distinct_def keyed_store_keys keyed_store_all sys_fine_def)
qed

lemma layer_hook_on:
  assumes ok: "layer_ok s"
    and m: "\<And>d t t'. keyed_find ld_key (lay_key s h) (lay_devices s) = Some d \<Longrightarrow> sys_dev t = ld_dev d \<Longrightarrow>
      sys_swapchains t = ld_swapchains d \<Longrightarrow> sys_fine t \<Longrightarrow> run_state m t = (a, t') \<Longrightarrow> sys_fine t'"
    and run: "run_state (hook_on h fns err m) s = (a, s')"
  shows "layer_ok s'"
proof -
  let ?s = "s\<lparr>eff_trace := eff_trace s @ [Locked RegistryLock, Unlocked RegistryLock]\<rparr>"
  have ok': "layer_ok ?s" using ok by (simp add: layer_ok_def)
  show ?thesis
  proof (cases "keyed_find ld_key (lay_key s h) (lay_devices s)")
    case None
    then show ?thesis using run ok' by (simp add: hook_on_def device_of_def)
  next
    case (Some d)
    have "device_ok (ld_dev d) (ld_swapchains d)"
      using ok keyed_find_some [OF Some] by (simp add: layer_ok_def list_all_iff)
    then have fine: "sys_fine t'" if "run_state m (device_sys ?s d) = (a, t')" for t'
      using m [OF Some _ _ _ that] fine_device_sys [of ?s d] by (simp add: device_sys_def)
    show ?thesis
    proof (cases "list_all (ld_fns d) fns")
      case True
      then have stored: "run_state (with_device d m) ?s = (a, s')" using run Some by (simp add: hook_on_def device_of_def)
      show ?thesis by (rule layer_with_device [OF ok' fine stored])
    next
      case False
      then show ?thesis using run Some ok' by (simp add: hook_on_def device_of_def)
    qed
  qed
qed

lemma layer_hook_keeps:
  fixes m :: "('w sys, 'a) state"
  assumes "keeps sys_fine m"
  shows "keeps layer_ok (hook_on h fns err m)"
proof (rule keepsI)
  fix s :: "'w layer" assume ok: "layer_ok s"
  obtain a s' where run: "run_state (hook_on h fns err m) s = (a, s')" by fastforce
  have "layer_ok s'" by (rule layer_hook_on [OF ok _ run]) (rule keeps_run [OF assms])
  then show "layer_ok (snd (run_state (hook_on h fns err m) s))" by (simp add: run)
qed

lemma layer_simple_hooks:
  "keeps layer_ok (afmf_QueueSubmit q x)" "keeps layer_ok (afmf_QueueSubmit2 q x)" "keeps layer_ok (afmf_QueueSubmit2KHR q x)"
  "keeps layer_ok (afmf_QueueBindSparse q x)" "keeps layer_ok (afmf_QueueWaitIdle q)" "keeps layer_ok (afmf_DeviceWaitIdle q)"
  "keeps layer_ok (afmf_GetDeviceQueue h f i)" "keeps layer_ok (afmf_GetDeviceQueue2 h f i)"
  "keeps layer_ok (afmf_GetSwapchainImagesKHR h sc)" "keeps layer_ok (afmf_DestroySwapchainKHR h sc)"
  unfolding afmf_QueueSubmit_def afmf_QueueSubmit2_def afmf_QueueSubmit2KHR_def afmf_QueueBindSparse_def afmf_QueueWaitIdle_def
    afmf_DeviceWaitIdle_def afmf_GetDeviceQueue_def afmf_GetDeviceQueue2_def afmf_GetSwapchainImagesKHR_def afmf_DestroySwapchainKHR_def
  by (intro layer_hook_keeps fine_same_dev same_dev_hooks fine_device_idle fine_get_queue fine_destroy same_dev_intros)+

lemma layer_modify:
  "(\<And>s. lay_devices (f s) = lay_devices s \<and> lay_instances (f s) = lay_instances s) \<Longrightarrow> keeps layer_ok (modify f)"
  by (rule keeps_modify) (simp add: layer_ok_def)

lemma layer_lookups:
  "keeps layer_ok (instance_of h)" "keeps layer_ok (device_of h)"
  unfolding instance_of_def device_of_def afmf_instance_find_def afmf_device_find_def by (intro keeps_intros layer_effect_free)+

lemma layer_resolves:
  "keeps layer_ok (afmf_GetInstanceProcAddr h name)" "keeps layer_ok (afmf_GetDeviceProcAddr h name)"
  "keeps layer_ok (create_surface_logged h name)"
  unfolding afmf_GetInstanceProcAddr_def afmf_GetDeviceProcAddr_def create_surface_logged_def Let_def
  by (intro keeps_intros layer_effect_free layer_lookups)+

section \<open>Creations and destructions\<close>

lemma layer_take:
  "keeps layer_ok (afmf_instance_take key)" "keeps layer_ok (afmf_device_take key)"
proof -
  have taken: "list_all P xs \<Longrightarrow> list_all P (snd (keyed_take k key xs))" for P k xs
    using keyed_take_set [of k key xs] by (auto simp: list_all_iff)
  show "keeps layer_ok (afmf_instance_take key)" "keeps layer_ok (afmf_device_take key)"
    by (auto simp: keeps_def layer_ok_def keyed_take_distinct taken)
qed

lemma layer_run_device: "keeps layer_ok (run_device d m)"
  by (simp add: keeps_def run_device_def layer_ok_def split: prod.split)

lemma layer_destroys:
  "keeps layer_ok (afmf_DestroyDevice h)" "keeps layer_ok (afmf_DestroyInstance h)"
  unfolding afmf_DestroyDevice_def afmf_DestroyInstance_def
  by (intro keeps_intros layer_effect_free layer_take layer_run_device)+

text \<open>The registries through a creation, up to the registration.\<close>

definition registered :: "(handle \<Rightarrow> nat) \<Rightarrow> layer_device list \<Rightarrow> afmf_instance list \<Rightarrow> 'w layer \<Rightarrow> bool" where
  "registered key ds insts s \<longleftrightarrow> lay_key s = key \<and> lay_devices s = ds \<and> lay_instances s = insts"

lemma registered_effect_free [simp, intro]: "effect_free (registered key ds insts)"
  by (simp add: effect_free_def registered_def)

lemma registered_kept:
  "keeps (registered key ds insts) (next_create call)" "keeps (registered key ds insts) (link_modify f)"
  "keeps (registered key ds insts) (instance_of h)" "keeps (registered key ds insts) (attempt l info)"
  "keeps (registered key ds insts) (device_attempts cfg i16 l info plan)" "keeps (registered key ds insts) (fetch_queue dev async shared)"
proof -
  show link: "keeps (registered key ds insts) (link_modify f)" for f
    unfolding link_modify_def by (rule keeps_modify) (simp add: registered_def)
  show create: "keeps (registered key ds insts) (next_create call)" for call
    unfolding next_create_def by (intro keeps_intros registered_effect_free link)
  show attempt: "keeps (registered key ds insts) (attempt l info)" for info
    unfolding attempt_def by (intro keeps_intros link create)
  show "keeps (registered key ds insts) (instance_of h)"
    unfolding instance_of_def afmf_instance_find_def by (intro keeps_intros registered_effect_free)
  show "keeps (registered key ds insts) (device_attempts cfg i16 l info plan)"
    unfolding device_attempts_def by (intro keeps_intros attempt)
  show "keeps (registered key ds insts) (fetch_queue dev async shared)"
    unfolding fetch_queue_def Let_def by (intro keeps_intros registered_effect_free)
qed

lemma layer_device_finish:
  assumes run: "run_state (device_finish cfg info gdpa fns dev out plan) s = (result, s')"
    and dev: "dev_async_queue dev = 0" "dev_queues dev = []"
    and fresh: "keyed_find ld_key (lay_key s out) (lay_devices s) = None" and ok: "layer_ok s"
  shows "layer_ok s'"
proof -
  let ?dev = "dev\<lparr>dev_shader_int16 := dp_int16 plan, dev_async_high_priority := dp_high plan, dev_handle := out\<rparr>"
  obtain async shared where choice: "shared_choice cfg ?dev info (dp_async plan) = (async, shared)" by fastforce
  have some: "shared \<Longrightarrow> async \<noteq> None" using choice by (auto simp: shared_choice_def Let_def split: if_splits)
  obtain dev' s1 where fetch: "run_state (fetch_queue ?dev async shared) s = (dev', s1)" by fastforce
  obtain q fam where dev': "dev' = ?dev\<lparr>dev_async_queue := q, dev_async_family := fam, dev_async_shared := shared \<and> q \<noteq> VK_NULL_HANDLE\<rparr>"
    using run_fetch(3) [OF fetch some] dev(1) by auto
  have s1: "registered (lay_key s) (lay_devices s) (lay_instances s) s1"
    using keeps_run [OF registered_kept(6) _ fetch] by (simp add: registered_def)
  let ?d = "\<lparr>ld_key = lay_key s out, ld_dev = dev', ld_gdpa = gdpa, ld_fns = fns, ld_swapchains = []\<rparr>"
  let ?s2 = "s1\<lparr>eff_trace := eff_trace s1 @ [Locked RegistryLock, Unlocked RegistryLock], lay_devices := ?d # lay_devices s1\<rparr>"
  have new: "device_ok (ld_dev ?d) (ld_swapchains ?d)" using dev(2) by (simp add: device_ok_def queues_ok_def dev')
  have ok2: "layer_ok ?s2"
    using ok s1 new fresh by (simp add: layer_ok_def registered_def keys_distinct_def keyed_find_none)
  have rest: "run_state (do {
      whenb (fns ''vkQueuePresentKHR'')
        (do { _ \<leftarrow> with_device ?d (run_fg afmf_framegen_pipelines_prepare fg_zero); return () });
      return (VK_SUCCESS, Some out) }) ?s2 = (result, s')"
    using run choice fetch by (simp add: device_finish_def Let_def)
  have prepared: "sys_fine t" if "run_state (run_fg afmf_framegen_pipelines_prepare fg_zero) (device_sys ?s2 ?d) = (a, t)" for a t
  proof -
    have "others (pl_others dev') [] t"
      using keeps_run [OF others_run_fg [OF keeps_others_pipelines(2)] _ that] by (simp add: others_def device_sys_def)
    then have o: "pl_others (sys_dev t) = pl_others dev'" "sys_swapchains t = []" by (simp_all add: others_def)
    show ?thesis using new unfolding sys_fine_def o(2) device_others [OF o(1)] by simp
  qed
  show ?thesis
  proof (cases "fns ''vkQueuePresentKHR''")
    case True
    obtain x s3 where p: "run_state (with_device ?d (run_fg afmf_framegen_pipelines_prepare fg_zero)) ?s2 = (x, s3)" by fastforce
    have "layer_ok s3" by (rule layer_with_device [OF ok2 prepared p])
    then show ?thesis using rest True p by simp
  next
    case False
    then show ?thesis using rest ok2 by simp
  qed
qed

lemma layer_create_device:
  assumes run: "run_state (afmf_CreateDevice physical info) s = ((res, out), s')"
    and fresh: "\<And>h. res = VK_SUCCESS \<Longrightarrow> out = Some h \<Longrightarrow> keyed_find ld_key (lay_key s h) (lay_devices s) = None"
    and ok: "layer_ok s"
  shows "layer_ok s'"
proof -
  let ?R = "registered (lay_key s) (lay_devices s) (lay_instances s)"
  have same: "layer_ok t" if "?R t" for t
    using ok layer_ok_unchanged [of t s] that by (simp add: registered_def)
  obtain found s1 where f: "run_state (instance_of physical) s = (found, s1)" by fastforce
  have s1: "?R s1" using keeps_run [OF registered_kept(3) _ f] by (simp add: registered_def)
  show ?thesis
  proof (cases "found = None \<or> device_link_info (di_next info) = None")
    case True
    then have "s' = s1" using run f by (auto simp: afmf_CreateDevice_def split: option.splits)
    then show ?thesis using s1 same by simp
  next
    case False
    then obtain inst link where some: "found = Some inst" "device_link_info (di_next info) = Some link"
      by (cases found; cases "device_link_info (di_next info)") auto
    let ?cfg = "lay_cfg s1" and ?pd = "lay_physical s1 physical" and ?gdpa = "lay_link_gdpa s1 link"
    let ?dev = "afmf_device_probe inst ?pd info (device_new (lay_link_gipa s1 link) ?pd (device_loader_data (di_next info)))"
    obtain r h plan s2 where a: "run_state (device_attempts ?cfg (dev_shader_int16 ?dev) (lay_link_next s1 link) info
        (plan_device ?cfg ?pd info ?dev)) s1 = ((r, h, plan), s2)" by (metis surj_pair)
    have s2: "?R s2" using keeps_run [OF registered_kept(5) s1 a] .
    show ?thesis
    proof (cases "lay_link_gipa s1 link ''vkCreateDevice'' \<and> r = VK_SUCCESS \<and> fst (afmf_load_device_fns ?gdpa)")
      case True
      then have finish: "run_state (device_finish ?cfg info ?gdpa (snd (afmf_load_device_fns ?gdpa)) ?dev h plan) s2 = ((res, out), s')"
        using run f some a unfolding afmf_CreateDevice_def Let_def case_prod_beta by simp
      have dev: "dev_async_queue ?dev = 0" "dev_queues ?dev = []"
        by (simp_all add: afmf_device_probe_def device_new_def dev_zero_def Let_def)
      have "(res, out) = (VK_SUCCESS, Some h)"
        using finish by (auto simp: device_finish_def Let_def split: prod.splits if_splits)
      then have "keyed_find ld_key (lay_key s2 h) (lay_devices s2) = None" using fresh s2 by (simp add: registered_def)
      then show ?thesis by (rule layer_device_finish [OF finish dev _ same [OF s2]])
    next
      case False
      have "?R s'"
        using False run f some a s1 s2 unfolding afmf_CreateDevice_def Let_def case_prod_beta
        by (auto simp: registered_def run_vk split: if_splits prod.splits)
      then show ?thesis by (rule same)
    qed
  qed
qed

lemma layer_create_instance:
  assumes run: "run_state (afmf_CreateInstance info) s = ((res, out), s')"
    and fresh: "\<And>h. res = VK_SUCCESS \<Longrightarrow> out = Some h \<Longrightarrow> keyed_find inst_key (lay_key s h) (lay_instances s) = None"
    and ok: "layer_ok s"
  shows "layer_ok s'"
proof (cases "instance_link_info (ii_next info)")
  case None
  then show ?thesis using run ok by (simp add: afmf_CreateInstance_def)
next
  case (Some link)
  let ?R = "registered (lay_key s) (lay_devices s) (lay_instances s)"
  have same: "layer_ok t" if "?R t" for t
    using ok layer_ok_unchanged [of t s] that by (simp add: registered_def)
  let ?s = "s\<lparr>lay_link := lay_link_next s link\<rparr>"
  obtain r h s1 where c: "run_state (next_create CreateInstance) ?s = ((r, h), s1)" by (metis surj_pair)
  have s1: "?R s1" using keeps_run [OF registered_kept(1) _ c] by (simp add: registered_def)
  show ?thesis
  proof (cases "lay_link_gipa s link ''vkCreateInstance'' \<and> r = VK_SUCCESS \<and> list_all (lay_link_gipa s link) instance_fns")
    case True
    let ?version = "instance_version (ii_api_version info)" and ?gipa = "lay_link_gipa s link"
    let ?inst = "\<lparr>inst_key = lay_key s1 h, inst_handle = h, inst_api_version = ?version, inst_gipa = ?gipa,
      inst_properties2 = (?version \<ge> VK_API_VERSION_1_1 \<and> ?gipa ''vkGetPhysicalDeviceProperties2'')\<rparr>"
    have "res = VK_SUCCESS" "out = Some h"
        "s' = s1\<lparr>eff_trace := eff_trace s1 @ [Locked RegistryLock, Unlocked RegistryLock], lay_instances := ?inst # lay_instances s1\<rparr>"
      using run Some c True by (auto simp: afmf_CreateInstance_def Let_def link_modify_def)
    then show ?thesis
      using ok fresh s1 by (simp add: layer_ok_def registered_def keys_distinct_def keyed_find_none)
  next
    case False
    have "?R s'"
      using False run Some c s1 by (auto simp: afmf_CreateInstance_def link_modify_def registered_def run_vk split: if_splits prod.splits)
    then show ?thesis by (rule same)
  qed
qed

section \<open>The state machine\<close>

text \<open>
  One step of the layer: a call of the application on a queue, a device or an instance, or one turn of a
  thread of a swapchain. A present comes after its wait for room in the queue of frames
  (\<open>afmf_sc_present_generated\<close>), and a new handle is none that is in use, which is Vulkan's.
\<close>

definition queue_calls :: "handle \<Rightarrow> nat \<Rightarrow> ('w layer, vk_result) state list" where
  "queue_calls queue args = [afmf_QueueSubmit queue args, afmf_QueueSubmit2 queue args, afmf_QueueSubmit2KHR queue args,
     afmf_QueueBindSparse queue args, afmf_QueueWaitIdle queue, afmf_DeviceWaitIdle queue]"

definition present_room :: "handle \<Rightarrow> present_info \<Rightarrow> 'w layer \<Rightarrow> bool" where
  "present_room queue info s \<longleftrightarrow>
     (case (keyed_find ld_key (lay_key s queue) (lay_devices s), pi_swapchains info) of
        (Some d, [h]) \<Rightarrow> (case find_locked (ld_swapchains d) h of
                          Some sc \<Rightarrow> sc_work_count sc \<noteq> AFMF_MAX_JOBS | None \<Rightarrow> True)
      | _ \<Rightarrow> True)"

definition new_swapchain :: "handle \<Rightarrow> vk_result \<times> handle option \<Rightarrow> 'w layer \<Rightarrow> bool" where
  "new_swapchain device res s \<longleftrightarrow>
     (case (keyed_find ld_key (lay_key s device) (lay_devices s), snd res) of
        (Some d, Some h) \<Rightarrow> fst res = VK_SUCCESS \<longrightarrow> h \<notin> sc_handle ` set (ld_swapchains d)
      | _ \<Rightarrow> True)"

definition new_object :: "('b \<Rightarrow> nat) \<Rightarrow> 'b list \<Rightarrow> vk_result \<times> handle option \<Rightarrow> 'w layer \<Rightarrow> bool" where
  "new_object key objects res s \<longleftrightarrow>
     (case snd res of Some h \<Rightarrow> fst res = VK_SUCCESS \<longrightarrow> keyed_find key (lay_key s h) objects = None | None \<Rightarrow> True)"

inductive app_step :: "'w layer \<Rightarrow> 'w layer \<Rightarrow> bool" where
  queue_call: "m \<in> set (queue_calls queue args) \<Longrightarrow> run_state m s = (res, s') \<Longrightarrow> app_step s s'"
| gets_queue: "run_state (afmf_GetDeviceQueue device family index) s = (queue, s') \<Longrightarrow> app_step s s'"
| gets_queue2: "run_state (afmf_GetDeviceQueue2 device family index) s = (queue, s') \<Longrightarrow> app_step s s'"
| presents: "present_room queue info s \<Longrightarrow> run_state (afmf_QueuePresentKHR queue info wants) s = (res, s') \<Longrightarrow> app_step s s'"
| acquires: "acquire_hook device fn v2 swapchain timeout semaphore fence s = Some (res, s') \<Longrightarrow> app_step s s'"
| lists_images: "run_state (afmf_GetSwapchainImagesKHR device swapchain) s = (res, s') \<Longrightarrow> app_step s s'"
| creates_swapchain: "run_state (afmf_CreateSwapchainKHR device info) s = (res, s') \<Longrightarrow> new_swapchain device res s \<Longrightarrow> app_step s s'"
| destroys_swapchain: "run_state (afmf_DestroySwapchainKHR device swapchain) s = (u, s') \<Longrightarrow> app_step s s'"
| creates_device: "run_state (afmf_CreateDevice physical request) s = (res, s') \<Longrightarrow>
    new_object ld_key (lay_devices s) res s \<Longrightarrow> app_step s s'"
| destroys_device: "run_state (afmf_DestroyDevice device) s = (u, s') \<Longrightarrow> app_step s s'"
| creates_instance: "run_state (afmf_CreateInstance iinfo) s = (res, s') \<Longrightarrow>
    new_object inst_key (lay_instances s) res s \<Longrightarrow> app_step s s'"
| destroys_instance: "run_state (afmf_DestroyInstance instance') s = (u, s') \<Longrightarrow> app_step s s'"
| creates_surface: "run_state (create_surface_logged instance' fn) s = (res, s') \<Longrightarrow> app_step s s'"
| resolves_instance: "run_state (afmf_GetInstanceProcAddr instance' name) s = (entry, s') \<Longrightarrow> app_step s s'"
| resolves_device: "run_state (afmf_GetDeviceProcAddr device name) s = (entry, s') \<Longrightarrow> app_step s s'"
| thread: "d \<in> set (lay_devices s) \<Longrightarrow> sc \<in> set (ld_swapchains d) \<Longrightarrow> part_ready part sc \<Longrightarrow>
    run_state (with_device d (with_entry sc (run_part part))) s = (u, s') \<Longrightarrow> app_step s s'"

inductive_cases app_stepE: "app_step s s'"

lemma layer_present:
  assumes room: "present_room queue info s" and run: "run_state (afmf_QueuePresentKHR queue info wants) s = (res, s')" and ok: "layer_ok s"
  shows "layer_ok s'"
proof (rule layer_hook_on [OF ok _ run [unfolded afmf_QueuePresentKHR_def]])
  fix d and t t' :: "'a sys"
  assume d: "keyed_find ld_key (lay_key s queue) (lay_devices s) = Some d" "sys_swapchains t = ld_swapchains d"
    and t: "sys_fine t" "run_state (afmf_swapchain_present queue info wants) t = (res, t')"
  have free: "sc_work_count sc \<noteq> AFMF_MAX_JOBS"
    if "pi_swapchains info = [h]" "find_locked (sys_swapchains t) h = Some sc" for h sc
    using room that d by (simp add: present_room_def)
  show "sys_fine t'" by (rule fine_present [OF free t])
qed

lemma layer_create_swapchain:
  assumes run: "run_state (afmf_CreateSwapchainKHR device info) s = (res, s')" and new: "new_swapchain device res s" and ok: "layer_ok s"
  shows "layer_ok s'"
proof (rule layer_hook_on [OF ok _ run [unfolded afmf_CreateSwapchainKHR_def]])
  fix d and t t' :: "'a sys"
  assume d: "keyed_find ld_key (lay_key s device) (lay_devices s) = Some d" "sys_swapchains t = ld_swapchains d"
    and t: "sys_fine t" "run_state (do { (res, handle) \<leftarrow> afmf_swapchain_create info; return (res, Some handle) }) t = (res, t')"
  obtain r h where c: "run_state (afmf_swapchain_create info) t = ((r, h), t')" and res: "res = (r, Some h)"
    using t(2) by (auto split: prod.splits)
  have fresh: "r = VK_SUCCESS \<Longrightarrow> h \<notin> sc_handle ` set (sys_swapchains t)"
    using new d by (simp add: new_swapchain_def res)
  show "sys_fine t'" by (rule fine_create [OF c fresh t(1)])
qed

lemma layer_acquire:
  assumes "acquire_hook device fn v2 swapchain timeout semaphore fence s = Some (res, s')" "layer_ok s"
  shows "layer_ok s'"
  using assms by (auto simp: acquire_hook_def device_of_def layer_ok_def split: option.splits if_splits)

lemma layer_thread:
  assumes d: "d \<in> set (lay_devices s)" and sc: "sc \<in> set (ld_swapchains d)" and ready: "part_ready part sc"
    and run: "run_state (with_device d (with_entry sc (run_part part))) s = (u, s')" and ok: "layer_ok s"
  shows "layer_ok s'"
proof (rule layer_with_device [OF ok _ run])
  fix t assume t: "run_state (with_entry sc (run_part part)) (device_sys s d) = (u, t)"
  have fine: "sys_fine (device_sys s d)" using ok d by (simp add: fine_device_sys layer_ok_def list_all_iff)
  have entry: "sc \<in> set (sys_swapchains (device_sys s d))" using sc by (simp add: device_sys_def)
  show "sys_fine t" by (rule fine_thread [OF ready entry fine t])
qed

lemma layer_new:
  assumes "new_object key objects (res, out) s" "res = VK_SUCCESS" "out = Some h"
  shows "keyed_find key (lay_key s h) objects = None"
  using assms by (simp add: new_object_def)

lemmas layer_runs = layer_simple_hooks(7-10) [THEN keeps_run] layer_resolves [THEN keeps_run] layer_destroys [THEN keeps_run]

lemma layer_step: "app_step s s' \<Longrightarrow> layer_ok s \<Longrightarrow> layer_ok s'"
proof (induction rule: app_step.induct)
  case (queue_call m queue args s res s')
  then have "keeps layer_ok m" by (auto simp: queue_calls_def layer_simple_hooks)
  from keeps_run [OF this queue_call(3,2)] show ?case .
next
  case (creates_device physical request s res s')
  obtain r out where res: "res = (r, out)" by fastforce
  show ?case by (rule layer_create_device [OF creates_device(1) [unfolded res] layer_new [OF creates_device(2) [unfolded res]] creates_device(3)])
next
  case (creates_instance iinfo s res s')
  obtain r out where res: "res = (r, out)" by fastforce
  show ?case by (rule layer_create_instance [OF creates_instance(1) [unfolded res] layer_new [OF creates_instance(2) [unfolded res]] creates_instance(3)])
qed (erule (1) layer_runs layer_present layer_acquire layer_create_swapchain layer_thread; assumption)+

text \<open>
  C4: The layer's state stays well formed. From a well-formed state, in particular the empty one, any
  sequence of calls of the application and of turns of the swapchains' threads leaves the two registries
  without a key twice; every device's table of queues within its allocation and without a queue twice,
  its queue there when it is shared; no swapchain handle twice in a device's list; and of every
  swapchain the two rings of frames and jobs within their arrays, the threads started in order, a slot
  per image for a swapchain that generates and the next slot one of them. So on a device whose queue can
  present to every surface, the application's present on any queue, the shared one included, uses the
  layer's queue only under its lock, with no hypothesis on the swapchains.
\<close>
theorem layer_state_ok:
  fixes s :: "'w layer"
  assumes steps: "app_step\<^sup>*\<^sup>* s0 s" and start: "layer_ok s0"
  shows "layer_ok s
    \<and> (\<forall>queue d info wants. keyed_find ld_key (lay_key s queue) (lay_devices s) = Some d \<and> presentable (ld_dev d)
         \<and> (queue = dev_async_queue (ld_dev d) \<longrightarrow> dev_async_shared (ld_dev d))
         \<longrightarrow> guarded_run (dev_async_queue (ld_dev d)) (afmf_QueuePresentKHR queue info wants) s)"
proof -
  from steps have ok: "layer_ok s" by (induction rule: rtranclp_induct) (use start layer_step in auto)
  have "guarded_run (dev_async_queue (ld_dev d)) (afmf_QueuePresentKHR queue info wants) s"
    if d: "keyed_find ld_key (lay_key s queue) (lay_devices s) = Some d" "presentable (ld_dev d)"
      and shared: "queue = dev_async_queue (ld_dev d) \<longrightarrow> dev_async_shared (ld_dev d)" for queue d info wants
  proof -
    have "device_ok (ld_dev d) (ld_swapchains d)"
      using ok keyed_find_some [OF d(1)] by (simp add: layer_ok_def list_all_iff)
    then have "\<forall>sc \<in> set (ld_swapchains d). sc_gen_enabled sc \<longrightarrow> sc_async sc"
      using d(2) by (simp add: device_ok_def entry_ok_def list_all_iff)
    then show ?thesis
      unfolding afmf_QueuePresentKHR_def by (intro present_hook_guarded [OF d(1)]) (simp add: shared)
  qed
  then show ?thesis using ok by blast
qed

definition shared_device :: layer_device where
  "shared_device = (sample_device 7)\<lparr>ld_dev := (ld_dev (sample_device 7))\<lparr>dev_surface_support := Some (\<lambda>_ _. (VK_SUCCESS, True))\<rparr>\<rparr>"

definition shared_layer :: "nat layer" where
  "shared_layer = sample_layer\<lparr>lay_devices := [shared_device]\<rparr>"

theorem layer_state_witness:
  "layer_ok (snd (run_state (afmf_QueueSubmit 7 0) shared_layer))
   \<and> guarded_run 7 (afmf_QueuePresentKHR 7 presenting_info True) (snd (run_state (afmf_QueueSubmit 7 0) shared_layer))"
proof -
  obtain res s where run: "run_state (afmf_QueueSubmit 7 0) shared_layer = (res, s)" by fastforce
  have "app_step shared_layer s" by (rule queue_call [OF _ run, of 7 0]) (simp add: queue_calls_def)
  then have steps: "app_step\<^sup>*\<^sup>* shared_layer s" by blast
  have start: "layer_ok shared_layer"
    by (simp add: layer_ok_def keys_distinct_def shared_layer_def sample_layer_def shared_device_def sample_device_def device_ok_def queues_ok_def dev_zero_def)
  have q: "dev_async_queue (ld_dev shared_device) = 7" "dev_async_shared (ld_dev shared_device)" "presentable (ld_dev shared_device)"
    by (simp_all add: shared_device_def sample_device_def presentable_def)
  have "lay_devices s = [shared_device]" "lay_key s 7 = 7"
    using run by (auto simp: shared_layer_def afmf_QueueSubmit_def hook_on_def device_of_def with_device_def run_device_def
        devices_modify_def shared_device_def app_submit_def run_vk device_sys_def split: prod.splits if_splits)
  then have d: "keyed_find ld_key (lay_key s 7) (lay_devices s) = Some shared_device"
    by (simp add: shared_device_def)
  from layer_state_ok [OF steps start] d q show ?thesis unfolding run snd_conv by metis
qed

end
