(* ===== verification/Flow_Order.thy ===== *)
theory Flow_Order
  imports Fg_Descriptors
begin

text \<open>
  The order of the flow's passes against the images they pass on to each other. \<open>flow_groups\<close> are the
  descriptor sets of \<open>afmf_framegen_record_flow\<close> (src/src/framegen_record.c) in the order they are dispatched,
  those of one group with no barrier between them; \<open>set_images\<close> the images \<open>sets_write\<close>
  (src/src/framegen_descriptors.c) puts at their bindings. Which bindings a pass loads from and stores to is
  what its shader does: the \<open>FFX_OPTICALFLOW_BIND\<close> names of src/shaders/fidelityfx/passes and the Load
  and Store calls of src/shaders/fidelityfx/opticalflow, afmf\_interpolate.comp, afmf\_downsample.comp and
  afmf\_ingest.comp.
\<close>

section \<open>What is dispatched\<close>

definition level_refs :: "nat \<Rightarrow> set_ref list" where
  "level_refs k = [RSearch k, RFilter k] @ (if k > 0 then [RScale k] else [])"

definition levels_refs :: "nat \<Rightarrow> set_ref list" where
  "levels_refs n = concat (map level_refs (rev [0..<n]))"

definition flow_groups :: "afmf_framegen \<Rightarrow> nat \<Rightarrow> bool \<Rightarrow> set_ref list list" where
  "flow_groups fg levels companion =
     (if fg_ingest_direct fg then [] else [[RPrepare]]) @ [[RPyramid, RHistogram], [RDivergence]]
     @ map (\<lambda>r. [r]) (levels_refs (if companion then levels else 0))
     @ (if companion \<and> \<not> fg_direct fg then [[RInterpolate]] else [])"

text \<open>The pipeline and the set a dispatch runs with.\<close>

definition bound_of :: "fg_pipelines \<Rightarrow> afmf_framegen \<Rightarrow> nat \<Rightarrow> set_ref \<Rightarrow> handle \<times> handle" where
  "bound_of pl fg p r =
     (if r = RInterpolate then pl_interpolate pl (fg_variant fg) else pl_pipelines pl (pass_of r), set_of fg p r)"

text \<open>Read off the commands: the dispatches with what was bound for them, cut at the barriers.\<close>

fun dispatches :: "handle \<Rightarrow> handle \<Rightarrow> (handle \<times> handle) list \<Rightarrow> vk_cmd list \<Rightarrow> (handle \<times> handle) list list" where
  "dispatches pipe ds acc [] = (if acc = [] then [] else [acc])"
| "dispatches pipe ds acc (CmdBindPipeline pipe' # cs) = dispatches pipe' ds acc cs"
| "dispatches pipe ds acc (CmdBindDescriptorSet layout ds' os # cs) = dispatches pipe ds' acc cs"
| "dispatches pipe ds acc (CmdDispatch x y z # cs) = dispatches pipe ds (acc @ [(pipe, ds)]) cs"
| "dispatches pipe ds acc (CmdMemoryBarrier a b c d # cs) =
     (if CmdMemoryBarrier a b c d = sync_compute_cmd then acc # dispatches pipe ds [] cs else dispatches pipe ds acc cs)"
| "dispatches pipe ds acc (c # cs) = dispatches pipe ds acc cs"

section \<open>What is bound\<close>

definition set_images :: "afmf_framegen \<Rightarrow> nat \<Rightarrow> set_ref \<Rightarrow> nat \<Rightarrow> fg_target option" where
  "set_images fg p r b =
     (let q = 1 - p; a = afmf_flow_parity_a p in
      case r of
        RPrepare \<Rightarrow> if b = 0 then Some (if fg_flow_scale fg > 1 \<and> \<not> fg_ingest_direct fg then ColorHalf else Color p)
                    else if b = 1 then Some (Luma p 0) else None
      | RPyramid \<Rightarrow> if b < AFMF_LEVELS then Some (Luma p b) else None
      | RHistogram \<Rightarrow> if b = 0 then Some (Luma p 0) else if b = 1 then Some (Scd 0) else None
      | RDivergence \<Rightarrow> if b < 4 then Some (Scd b) else None
      | RSearch k \<Rightarrow> if b = 0 then Some (Luma p k) else if b = 1 then Some (Luma q k)
                     else if b = 2 then Some (Flow (a k) k) else if b = 3 then Some (Scd 3) else None
      | RFilter k \<Rightarrow> if b = 0 then Some (Flow (a k) k)
                     else if b = 1 then Some (if k = 0 then FlowOut else Flow (1 - a k) k) else None
      | RScale k \<Rightarrow> if b = 0 then Some (Luma p k) else if b = 1 then Some (Luma q k)
                    else if b = 2 then Some (Flow (1 - a k) k) else if b = 3 then Some (Flow (1 - a k) (k - 1))
                    else if b = 4 then Some (Scd 3) else None
      | RInterpolate \<Rightarrow> if b = 0 then Some (Color q) else if b = 1 then Some (Color p) else if b = 2 then Some FlowOut
                        else if b = 3 then Some (Scd 3) else if b = 4 then Some Output else None
      | RDirect j \<Rightarrow> if b = 0 then Some (Color q) else if b = 1 then Some (Color p) else if b = 2 then Some FlowOut
                     else if b = 3 then Some (Scd 3) else None
      | RDownsample \<Rightarrow> if b = 0 then Some (Color p) else if b = 1 then Some ColorHalf else None
      | RIngest j \<Rightarrow> if b = 1 then Some (Color p) else if b = 2 then Some (Luma p 0) else None)"

text \<open>The bindings a pass's shader loads from; the search at the coarsest level drops what it finds in the flow.\<close>

definition shader_loads :: "fg_pass \<Rightarrow> bool \<Rightarrow> nat list" where
  "shader_loads pass coarsest =
     (case pass of
        PASS_PREPARE_LUMA \<Rightarrow> [0] | PASS_PYRAMID \<Rightarrow> [0] | PASS_SCD_HISTOGRAM \<Rightarrow> [0, 1] | PASS_SCD_DIVERGENCE \<Rightarrow> [0, 1, 2, 3]
      | PASS_SEARCH \<Rightarrow> [0, 1, 3] @ (if coarsest then [] else [2]) | PASS_FILTER \<Rightarrow> [0] | PASS_SCALE \<Rightarrow> [0, 1, 2, 4]
      | PASS_INTERPOLATE \<Rightarrow> [0, 1, 2, 3] | PASS_DOWNSAMPLE \<Rightarrow> [0] | PASS_INGEST \<Rightarrow> [0])"

definition shader_stores :: "fg_pass \<Rightarrow> nat list" where
  "shader_stores pass =
     (case pass of
        PASS_PREPARE_LUMA \<Rightarrow> [1] | PASS_PYRAMID \<Rightarrow> [1, 2, 3, 4, 5, 6] | PASS_SCD_HISTOGRAM \<Rightarrow> [1]
      | PASS_SCD_DIVERGENCE \<Rightarrow> [0, 1, 2, 3] | PASS_SEARCH \<Rightarrow> [2] | PASS_FILTER \<Rightarrow> [1] | PASS_SCALE \<Rightarrow> [3]
      | PASS_INTERPOLATE \<Rightarrow> [4] | PASS_DOWNSAMPLE \<Rightarrow> [1] | PASS_INGEST \<Rightarrow> [1, 2])"

definition loads :: "afmf_framegen \<Rightarrow> nat \<Rightarrow> nat \<Rightarrow> set_ref \<Rightarrow> fg_target list" where
  "loads fg p levels r = concat (map (\<lambda>b. case set_images fg p r b of Some t \<Rightarrow> [t] | None \<Rightarrow> [])
     (shader_loads (pass_of r) (r = RSearch (levels - 1))))"

definition stores :: "afmf_framegen \<Rightarrow> nat \<Rightarrow> set_ref \<Rightarrow> fg_target list" where
  "stores fg p r = concat (map (\<lambda>b. case set_images fg p r b of Some t \<Rightarrow> [t] | None \<Rightarrow> []) (shader_stores (pass_of r)))"

section \<open>What should be\<close>

text \<open>Passes that may run at the same time: none stores what another loads or stores.\<close>

fun apart :: "afmf_framegen \<Rightarrow> nat \<Rightarrow> nat \<Rightarrow> set_ref list \<Rightarrow> bool" where
  "apart fg p levels [] = True"
| "apart fg p levels (r # rs) =
     (list_all (\<lambda>r'. set (stores fg p r) \<inter> set (loads fg p levels r' @ stores fg p r') = {}
                   \<and> set (loads fg p levels r) \<inter> set (stores fg p r') = {}) rs
      \<and> apart fg p levels rs)"

text \<open>Where what a pass loads comes from: a pass of the same frame, or from before it (\<open>None\<close>).\<close>

fun source_of :: "afmf_framegen \<Rightarrow> nat \<Rightarrow> set_ref \<Rightarrow> fg_target \<Rightarrow> set_ref option" where
  "source_of fg p r (Luma p' k) =
     (if p' \<noteq> p then None else if k > 0 then Some RPyramid else if fg_ingest_direct fg then None else Some RPrepare)"
| "source_of fg p r (Scd i) =
     (if r = RDivergence then (if i = 0 then Some RHistogram else None) else if i = 3 then Some RDivergence else None)"
| "source_of fg p (RSearch k) (Flow a k') = Some (RScale (Suc k))"
| "source_of fg p (RFilter k) (Flow a k') = Some (RSearch k)"
| "source_of fg p (RScale k) (Flow a k') = Some (RFilter k)"
| "source_of fg p r FlowOut = Some (RFilter 0)"
| "source_of fg p r t = None"

definition last_store :: "afmf_framegen \<Rightarrow> nat \<Rightarrow> fg_target \<Rightarrow> set_ref list \<Rightarrow> set_ref option" where
  "last_store fg p t before = find (\<lambda>r. t \<in> set (stores fg p r)) before"

text \<open>Every pass finds in each image it loads what was meant for it; \<open>before\<close> are the passes so far, the last one first.\<close>

fun fed :: "afmf_framegen \<Rightarrow> nat \<Rightarrow> nat \<Rightarrow> set_ref list \<Rightarrow> set_ref list \<Rightarrow> bool" where
  "fed fg p levels before [] = True"
| "fed fg p levels before (r # rs) =
     (list_all (\<lambda>t. last_store fg p t before = source_of fg p r t) (loads fg p levels r) \<and> fed fg p levels (r # before) rs)"

section \<open>The commands are these dispatches\<close>

lemma dispatches_pass [simp]:
  "dispatches pipe ds acc (pass_cmds pl ps set' os groups @ cs) =
     dispatches (pl_pipelines pl ps) set' (acc @ [(pl_pipelines pl ps, set')]) cs"
  by (cases groups) (simp add: pass_cmds_def)

lemma dispatches_sync [simp]: "dispatches pipe ds acc (sync_compute_cmd # cs) = acc # dispatches pipe ds [] cs"
  by (simp add: sync_compute_cmd_def)

lemma dispatches_nothing [simp]: "dispatches pipe ds [] [] = []"
  by simp

text \<open>Commands that begin and end at a barrier.\<close>

definition whole :: "vk_cmd list \<Rightarrow> (handle \<times> handle) list list \<Rightarrow> bool" where
  "whole cs gs \<longleftrightarrow> (\<forall>pipe ds rest. \<exists>pipe' ds'. dispatches pipe ds [] (cs @ rest) = gs @ dispatches pipe' ds' [] rest)"

lemma whole_append: "whole cs gs \<Longrightarrow> whole ds hs \<Longrightarrow> whole (cs @ ds) (gs @ hs)"
  unfolding whole_def by (metis append.assoc)

lemma whole_Nil: "whole [] []"
  by (auto simp: whole_def)

lemma whole_concat: "(\<And>x. x \<in> set xs \<Longrightarrow> whole (f x) (g x)) \<Longrightarrow> whole (concat (map f xs)) (concat (map g xs))"
  by (induction xs) (auto intro: whole_append whole_Nil)

lemma whole_pass: "whole (pass_cmds pl ps ds os groups @ [sync_compute_cmd]) [[(pl_pipelines pl ps, ds)]]"
  by (auto simp: whole_def)

lemma whole_level:
  "whole (level_cmds pl fg slot p k) (map (\<lambda>r. [bound_of pl fg p r]) (level_refs k))"
proof -
  have bound: "bound_of pl fg p (RSearch k) = (pl_pipelines pl PASS_SEARCH, fg_sets fg ! p ! (SET_SEARCH + k))"
    "bound_of pl fg p (RFilter k) = (pl_pipelines pl PASS_FILTER, fg_sets fg ! p ! (SET_FILTER + k))"
    "bound_of pl fg p (RScale k) = (pl_pipelines pl PASS_SCALE, fg_sets fg ! p ! (SET_SCALE + k - 1))" for k
    by (simp_all add: bound_of_def set_of_def pass_of_def)
  show ?thesis
    by (cases "k = 0") (auto simp: whole_def level_cmds_def level_refs_def Let_def bound)
qed

lemma whole_interpolate:
  "whole (interpolate_cmds cfg pl fg ds v) [[(pl_interpolate pl v, ds)]]"
  by (auto simp: whole_def interpolate_cmds_def)

lemma whole_head:
  "whole (pass_cmds pl PASS_PYRAMID (set_of fg p RPyramid) os1 g1 @ pass_cmds pl PASS_SCD_HISTOGRAM (set_of fg p RHistogram) os2 g2
      @ [sync_compute_cmd] @ pass_cmds pl PASS_SCD_DIVERGENCE (set_of fg p RDivergence) os3 g3 @ [sync_compute_cmd])
    (map (map (bound_of pl fg p)) [[RPyramid, RHistogram], [RDivergence]])"
  by (auto simp: whole_def bound_of_def pass_of_def)

lemma flow_dispatches:
  "dispatches 0 0 [] (flow_cmds cfg pl fg slot p levels companion) = map (map (bound_of pl fg p)) (flow_groups fg levels companion)"
proof -
  have ingest: "whole (if fg_ingest_direct fg then [] else pass_cmds pl PASS_PREPARE_LUMA (set_of fg p RPrepare) os g @ [sync_compute_cmd])
      (map (map (bound_of pl fg p)) (if fg_ingest_direct fg then [] else [[RPrepare]]))" for os g
    using whole_pass whole_Nil by (auto simp: bound_of_def pass_of_def)
  have levels: "whole (concat (map (level_cmds pl fg slot p) (rev [0..<n]))) (map (map (bound_of pl fg p)) (map (\<lambda>r. [r]) (levels_refs n)))" for n
    using whole_concat [of "rev [0..<n]" "level_cmds pl fg slot p" "\<lambda>k. map (\<lambda>r. [bound_of pl fg p r]) (level_refs k)", OF whole_level]
    by (simp add: levels_refs_def map_concat o_def)
  have last: "whole (if companion \<and> \<not> fg_direct fg then interpolate_cmds cfg pl fg (set_of fg p RInterpolate) (fg_variant fg) else [])
      (map (map (bound_of pl fg p)) (if companion \<and> \<not> fg_direct fg then [[RInterpolate]] else []))"
    using whole_interpolate whole_Nil by (auto simp: bound_of_def)
  have "whole (flow_cmds cfg pl fg slot p levels companion) (map (map (bound_of pl fg p)) (flow_groups fg levels companion))"
    using whole_append [OF ingest whole_append [OF whole_head whole_append [OF levels last]]]
    unfolding flow_cmds_def flow_groups_def Let_def map_append append_assoc set_of_def set_ref.case
    by (simp only: append_assoc)
  then show ?thesis unfolding whole_def by (metis append_Nil2 dispatches_nothing)
qed

section \<open>The sets hold these images\<close>

lemma pyramid_images:
  "writer_set (fold (\<lambda>f. f) (map (\<lambda>k. writer_image k type (v k) sampler) ks) w) = writer_set w
   \<and> writer_writes (fold (\<lambda>f. f) (map (\<lambda>k. writer_image k type (v k) sampler) ks) w)
       = writer_writes w @ map (\<lambda>k. Write (writer_set w) k type (v k) sampler) ks"
  by (induction ks arbitrary: w) (simp_all add: writer_image_def)

lemma images_written:
  assumes "set_images fg p r b = Some t"
  shows "\<exists>type sampler. Write (set_of fg p r) b type (img_view (target_get t fg)) sampler \<in> set (writer_writes (written_set fg p r))"
proof (cases r)
  case RPyramid
  have "writer_writes (written_set fg p RPyramid) = map (\<lambda>k. Write (set_of fg p RPyramid) k STORAGE (img_view (target_get (Luma p k) fg)) VK_NULL_HANDLE) [0..<7]
      @ [Write (set_of fg p RPyramid) 7 UBO (fg_cb fg) VK_NULL_HANDLE, Write (set_of fg p RPyramid) 8 UBO (fg_cb fg) VK_NULL_HANDLE]"
    by (simp add: written_set_def set_writes_def Let_def pyramid_images writer_begin_def writer_ubo_def del: upt.simps)
  then show ?thesis
    using assms RPyramid by (intro exI [of _ STORAGE] exI [of _ VK_NULL_HANDLE]) (auto simp: set_images_def split: if_splits)
next
  case RDivergence
  have t: "t = Scd b" "b < 4" using assms RDivergence by (simp_all add: set_images_def split: if_splits)
  from t(2) consider "b = 0" | "b = 1" | "b = 2" | "b = 3" by linarith
  then show ?thesis unfolding t RDivergence by cases (simp_all add: writer_defs Let_def)
qed (use assms in \<open>auto simp: set_images_def writer_defs Let_def split: if_splits\<close>)

section \<open>Every pass is fed\<close>

lemmas flow_defs = loads_def stores_def set_images_def pass_of_def shader_loads_def shader_stores_def Let_def

lemma stores_simps [simp]:
  "stores fg p RPrepare = [Luma p 0]" "stores fg p RPyramid = map (\<lambda>k. Luma p k) [1, 2, 3, 4, 5, 6]"
  "stores fg p RHistogram = [Scd 0]" "stores fg p RDivergence = [Scd 0, Scd 1, Scd 2, Scd 3]"
  "stores fg p (RSearch k) = [Flow (afmf_flow_parity_a p k) k]"
  "stores fg p (RFilter k) = [if k = 0 then FlowOut else Flow (1 - afmf_flow_parity_a p k) k]"
  "stores fg p (RScale k) = [Flow (1 - afmf_flow_parity_a p k) (k - 1)]" "stores fg p RInterpolate = [Output]"
  by (simp_all add: flow_defs)

lemma loads_simps [simp]:
  "loads fg p n RPyramid = [Luma p 0]" "loads fg p n RHistogram = [Luma p 0, Scd 0]"
  "loads fg p n RPrepare = [if fg_flow_scale fg > 1 \<and> \<not> fg_ingest_direct fg then ColorHalf else Color p]"
  "loads fg p n RDivergence = [Scd 0, Scd 1, Scd 2, Scd 3]"
  "loads fg p n (RSearch k) = [Luma p k, Luma (1 - p) k, Scd 3] @ (if k = n - 1 then [] else [Flow (afmf_flow_parity_a p k) k])"
  "loads fg p n (RFilter k) = [Flow (afmf_flow_parity_a p k) k]"
  "loads fg p n (RScale k) = [Luma p k, Luma (1 - p) k, Flow (1 - afmf_flow_parity_a p k) k, Scd 3]"
  "loads fg p n RInterpolate = [Color (1 - p), Color p, FlowOut, Scd 3]"
  by (simp_all add: flow_defs)

lemma last_store_simps [simp]:
  "last_store fg p t [] = None"
  "last_store fg p t (r # rs) = (if t \<in> set (stores fg p r) then Some r else last_store fg p t rs)"
  by (simp_all add: last_store_def)

lemma fed_append: "fed fg p n before (rs @ qs) \<longleftrightarrow> fed fg p n before rs \<and> fed fg p n (rev rs @ before) qs"
  by (induction rs arbitrary: before) auto

text \<open>What the levels find: the frame's luma and the detector's verdict, kept, and the coarser level's flow.\<close>

definition ready_for :: "afmf_framegen \<Rightarrow> nat \<Rightarrow> nat \<Rightarrow> nat \<Rightarrow> set_ref list \<Rightarrow> bool" where
  "ready_for fg p levels k before \<longleftrightarrow>
     (\<forall>j < AFMF_LEVELS. last_store fg p (Luma p j) before =
        (if j > 0 then Some RPyramid else if fg_ingest_direct fg then None else Some RPrepare))
   \<and> (\<forall>j. last_store fg p (Luma (1 - p) j) before = None)
   \<and> last_store fg p (Scd 3) before = Some RDivergence \<and> (\<forall>j. last_store fg p (Color j) before = None)
   \<and> (k < levels \<and> k > 0 \<longrightarrow> last_store fg p (Flow (afmf_flow_parity_a p (k - 1)) (k - 1)) before = Some (RScale k))
   \<and> (k < levels \<and> k = 0 \<longrightarrow> last_store fg p FlowOut before = Some (RFilter 0))"

lemma parity_step: "p < 2 \<Longrightarrow> k > 0 \<Longrightarrow> 1 - afmf_flow_parity_a p k = afmf_flow_parity_a p (k - 1)"
  by (cases k) (auto simp: afmf_flow_parity_a_def less_2_cases_iff mod_Suc)

lemma level_fed:
  assumes ready: "ready_for fg p levels (Suc k) before" and p: "p < 2" and k: "k < levels" "levels \<le> AFMF_LEVELS"
  shows "fed fg p levels before (level_refs k)" "ready_for fg p levels k (rev (level_refs k) @ before)"
proof -
  have ne: "afmf_flow_parity_a p k \<noteq> 1 - afmf_flow_parity_a p k" by (simp add: afmf_flow_parity_a_def)
  have q: "1 - p \<noteq> p" using p by presburger
  have luma: "last_store fg p (Luma p k) before = (if k > 0 then Some RPyramid else if fg_ingest_direct fg then None else Some RPrepare)"
      "last_store fg p (Luma (1 - p) k) before = None" "last_store fg p (Scd 3) before = Some RDivergence"
    using ready k by (simp_all add: ready_for_def)
  have flow: "k \<noteq> levels - 1 \<Longrightarrow> last_store fg p (Flow (afmf_flow_parity_a p k) k) before = Some (RScale (Suc k))"
    using ready k by (simp add: ready_for_def)
  show "fed fg p levels before (level_refs k)"
    using luma flow q ne parity_step [OF p, of k] by (cases "k = 0") (simp_all add: level_refs_def)
  show "ready_for fg p levels k (rev (level_refs k) @ before)"
    using ready k q ne parity_step [OF p, of k]
    by (auto simp: ready_for_def level_refs_def)
qed

lemma levels_fed:
  assumes "ready_for fg p levels n before" "p < 2" "n \<le> levels" "levels \<le> AFMF_LEVELS"
  shows "fed fg p levels before (levels_refs n) \<and> ready_for fg p levels 0 (rev (levels_refs n) @ before)"
  using assms(1,3)
proof (induction n arbitrary: before)
  case (Suc k)
  have step: "levels_refs (Suc k) = level_refs k @ levels_refs k" by (simp add: levels_refs_def)
  have k: "k < levels" using Suc.prems(2) by simp
  note level = level_fed [OF Suc.prems(1) assms(2) k assms(4)]
  show ?case using Suc.IH [OF level(2)] level(1) k unfolding step fed_append by simp
qed (simp add: levels_refs_def)

lemma head_fed:
  fixes fg :: afmf_framegen
  assumes "p < 2"
  defines "hd' \<equiv> (if fg_ingest_direct fg then [] else [RPrepare]) @ [RPyramid, RHistogram, RDivergence]"
  shows "fed fg p levels [] hd'" "ready_for fg p levels levels (rev hd')"
proof -
  have q: "1 - p \<noteq> p" using assms(1) by presburger
  have up: "j < 7 \<Longrightarrow> j = 0 \<or> j = 1 \<or> j = 2 \<or> j = 3 \<or> j = 4 \<or> j = 5 \<or> j = 6" for j :: nat by presburger
  show "fed fg p levels [] hd'" by (auto simp: hd'_def)
  show "ready_for fg p levels levels (rev hd')"
    using q up by (auto simp: hd'_def ready_for_def not_le)
qed

lemma flow_fed:
  assumes p: "p < 2" and levels: "0 < levels" "levels \<le> AFMF_LEVELS"
  shows "fed fg p levels [] (concat (flow_groups fg levels companion))"
proof -
  let ?head = "(if fg_ingest_direct fg then [] else [RPrepare]) @ [RPyramid, RHistogram, RDivergence]"
  let ?last = "if companion \<and> \<not> fg_direct fg then [RInterpolate] else []"
  have flow: "concat (flow_groups fg levels companion) = ?head @ levels_refs (if companion then levels else 0) @ ?last"
    by (simp add: flow_groups_def)
  note head = head_fed [OF p, of fg levels]
  show ?thesis
  proof (cases companion)
    case True
    have l: "fed fg p levels (rev ?head) (levels_refs levels)" "ready_for fg p levels 0 (rev (levels_refs levels) @ rev ?head)"
      using levels_fed [OF head(2) p order_refl levels(2)] by simp_all
    have "fed fg p levels (rev (levels_refs levels) @ rev ?head) ?last"
      using l(2) levels(1) by (auto simp: ready_for_def)
    then show ?thesis using True head(1) l(1) unfolding flow fed_append by simp
  next
    case False
    then show ?thesis using head(1) unfolding flow by (simp add: levels_refs_def)
  qed
qed

lemma flow_apart: "list_all (apart fg p levels) (flow_groups fg levels companion)"
  by (auto simp: flow_groups_def list_all_iff)

text \<open>
  C20: The flow's passes run in the order their data needs. Whatever the frame generation, the parity,
  the levels the governor chose and with or without a companion: the commands recorded are the dispatches
  of \<open>flow_groups\<close>, each with its own pipeline and set, barriers exactly between the groups; every image of
  the layer a set is said to hold was written into it at that binding; two passes without a barrier
  between them never store what the other loads or stores; and every pass finds in every image it loads
  what was meant for it: its own level's luma of this frame, the verdict of this frame's detector, and the
  flow of the pass right before it in the coarse-to-fine search, which the two flow textures of a level pass on
  without overwriting it; only the coarsest search starts from nothing.
\<close>
theorem flow_order:
  assumes off: "not_profiling (fgs_fg s)" and p: "p < 2" and levels: "0 < levels" "levels \<le> AFMF_LEVELS"
  defines "fg \<equiv> fgs_fg s"
  shows "(\<exists>cs. run_state (afmf_framegen_record_flow cmd slot p levels companion) s = ((), recorded cmd cs s)
           \<and> dispatches 0 0 [] cs = map (map (bound_of (fgs_pl s) fg p)) (flow_groups fg levels companion))
    \<and> (\<forall>r b t. set_images fg p r b = Some t \<longrightarrow>
         (\<exists>type sampler. Write (set_of fg p r) b type (img_view (target_get t fg)) sampler \<in> set (writer_writes (written_set fg p r))))
    \<and> list_all (apart fg p levels) (flow_groups fg levels companion)
    \<and> fed fg p levels [] (concat (flow_groups fg levels companion))"
  using record_flow_commands [OF off, of cmd slot p levels companion] flow_dispatches images_written flow_apart flow_fed [OF p levels]
  unfolding fg_def by blast

theorem flow_order_witness:
  "let s = sample_fgs fg_zero; groups = flow_groups fg_zero 5 True
   in (\<exists>cs. run_state (afmf_framegen_record_flow 9 0 1 5 True) s = ((), recorded 9 cs s)
        \<and> dispatches 0 0 [] cs = map (map (bound_of pl_zero fg_zero 1)) groups)
      \<and> list_all (apart fg_zero 1 5) groups \<and> fed fg_zero 1 5 [] (concat groups) \<and> length (concat groups) = 19"
proof -
  have length': "length (concat (flow_groups fg_zero 5 True)) = 19" by code_simp
  have off: "not_profiling (fgs_fg (sample_fgs fg_zero))"
    by (simp add: not_profiling_def sample_fgs_def) (simp add: fg_zero_def prof_zero_def)
  have same: "fgs_fg (sample_fgs fg_zero) = fg_zero" "fgs_pl (sample_fgs fg_zero) = pl_zero" by (simp_all add: sample_fgs_def fgs_pl_def)
  from flow_order [OF off, of 1 5 9 0 True] show ?thesis unfolding Let_def same length' by simp
qed

end
