(* ===== verification/Dump_Files.thy ===== *)
theory Dump_Files
  imports Fg_Dump
begin

text \<open>
  The files a dump leaves (\<open>afmf_framegen_dump_write\<close>, src/src/framegen_dump.c): the picture as a PPM and
  the flow as a text of one \<open>vx vy\<close> pair per block, from the bytes of the readback, with the numbers the
  log line at the end is made of. \<open>printf\<close>'s \<open>%u\<close> and \<open>%d\<close> are \<open>print_nat\<close> and \<open>print_int\<close>; a file is its
  path and its bytes, \<open>opens\<close> says which paths \<open>fopen\<close> can open, and \<open>malloc\<close>, \<open>fwrite\<close> and \<open>fclose\<close> are
  taken to succeed. The machine is little-endian. A reader over \<open>strtol\<close> shows that the files say what
  the readback holds.
\<close>

section \<open>Text\<close>

abbreviation (input) newline :: char where "newline \<equiv> CHR 0x0A"

fun print_nat :: "nat \<Rightarrow> string" where
  "print_nat n = (if n < 10 then [] else print_nat (n div 10)) @ [char_of (48 + n mod 10)]"

declare print_nat.simps [simp del]

definition print_int :: "int \<Rightarrow> string" where
  "print_int v = (if v < 0 then CHR ''-'' # print_nat (nat (- v)) else print_nat (nat v))"

definition bytes_of :: "string \<Rightarrow> u8 list" where
  "bytes_of = map (\<lambda>c. word_of_nat (of_char c))"

section \<open>The two files\<close>

definition dump_path :: "string \<Rightarrow> string \<Rightarrow> nat \<Rightarrow> string \<Rightarrow> string option" where
  "dump_path dir stem frame suffix =
     (let path = dir @ stem @ print_nat frame @ suffix in if length path < 512 then Some path else None)"

definition dump_ppm :: "afmf_framegen \<Rightarrow> u8 list \<Rightarrow> u8 list" where
  "dump_ppm fg bytes =
     (let w = unat (width (fg_extent fg)); h = unat (height (fg_extent fg))
      in bytes_of (''P6'' @ [newline] @ print_nat w @ '' '' @ print_nat h @ [newline] @ ''255'' @ [newline])
         @ dump_picture (fg_variant fg) w h bytes)"

definition le16 :: "u8 list \<Rightarrow> nat \<Rightarrow> 16 word" where
  "le16 bytes k = ucast (bytes ! k) OR push_bit 8 (ucast (bytes ! (k + 1)))"

definition le32 :: "u8 list \<Rightarrow> nat \<Rightarrow> u32" where
  "le32 bytes k = ucast (bytes ! k) OR push_bit 8 (ucast (bytes ! (k + 1)))
     OR push_bit 16 (ucast (bytes ! (k + 2))) OR push_bit 24 (ucast (bytes ! (k + 3)))"

text \<open>The motion of block \<open>i\<close>, from the flow that starts at \<open>base\<close>.\<close>

definition flow_vector :: "u8 list \<Rightarrow> nat \<Rightarrow> nat \<Rightarrow> int \<times> int" where
  "flow_vector bytes base i = (sint (le16 bytes (base + 4 * i)), sint (le16 bytes (base + 4 * i + 2)))"

definition flow_cell :: "u8 list \<Rightarrow> nat \<Rightarrow> nat \<Rightarrow> string" where
  "flow_cell bytes base i = (case flow_vector bytes base i of (vx, vy) \<Rightarrow> print_int vx @ '' '' @ print_int vy)"

definition flow_row :: "u8 list \<Rightarrow> nat \<Rightarrow> nat \<Rightarrow> nat \<Rightarrow> string" where
  "flow_row bytes base fw y =
     concat (map (\<lambda>x. flow_cell bytes base (y * fw + x) @ (if x + 1 < fw then ''  '' else [newline])) [0..<fw])"

text \<open>Where the parts start: \<open>base\<close>, \<open>raw\<close>, \<open>scd\<close>, \<open>luma_cur\<close> and \<open>luma_prev\<close>.\<close>

definition dump_base :: "afmf_framegen \<Rightarrow> nat" where
  "dump_base fg = pixels (fg_extent fg) * 4"

definition dump_raw :: "afmf_framegen \<Rightarrow> nat" where
  "dump_raw fg = dump_base fg + pixels (fg_flow_size fg ! 0) * 4"

definition dump_scd :: "afmf_framegen \<Rightarrow> nat" where
  "dump_scd fg = dump_base fg + pixels (fg_flow_size fg ! 0) * 8"

definition dump_luma_cur :: "afmf_framegen \<Rightarrow> nat" where
  "dump_luma_cur fg = dump_scd fg + AFMF_SCD_SLOTS * 4"

definition dump_luma_prev :: "afmf_framegen \<Rightarrow> nat" where
  "dump_luma_prev fg = dump_luma_cur fg + pixels (fg_luma_size fg ! 0)"

definition scd_word :: "afmf_framegen \<Rightarrow> u8 list \<Rightarrow> nat \<Rightarrow> nat" where
  "scd_word fg bytes k = unat (le32 bytes (dump_scd fg + 4 * k))"

definition dump_flow :: "afmf_framegen \<Rightarrow> u8 list \<Rightarrow> string" where
  "dump_flow fg bytes =
     (let fw = unat (width (fg_flow_size fg ! 0)); fh = unat (height (fg_flow_size fg ! 0))
      in print_nat fw @ '' '' @ print_nat fh @ '' scd '' @ print_nat (scd_word fg bytes 0) @ '' ''
         @ print_nat (scd_word fg bytes 1) @ '' '' @ print_nat (scd_word fg bytes 2) @ [newline]
         @ concat (map (flow_row bytes (dump_base fg) fw) [0..<fh]))"

text \<open>What the log line says: the moving blocks of the filtered and the raw flow, the lumas' sums and differences.\<close>

record dump_summary =
  sum_moving :: u32
  sum_moving_raw :: u32
  sum_luma_cur :: real
  sum_luma_prev :: real
  sum_differing :: u32

definition moving_blocks :: "u8 list \<Rightarrow> nat \<Rightarrow> nat \<Rightarrow> u32" where
  "moving_blocks bytes base n = word_of_nat (length (filter (\<lambda>i. flow_vector bytes base i \<noteq> (0, 0)) [0..<n]))"

definition dump_summary_of :: "afmf_framegen \<Rightarrow> u8 list \<Rightarrow> dump_summary" where
  "dump_summary_of fg bytes =
     (let blocks = pixels (fg_flow_size fg ! 0); lumas = pixels (fg_luma_size fg ! 0);
          cur = \<lambda>i. bytes ! (dump_luma_cur fg + i); prev = \<lambda>i. bytes ! (dump_luma_prev fg + i)
      in \<lparr>sum_moving = moving_blocks bytes (dump_base fg) blocks,
          sum_moving_raw = moving_blocks bytes (dump_raw fg) blocks,
          sum_luma_cur = (\<Sum>i \<leftarrow> [0..<lumas]. real (unat (cur i))),
          sum_luma_prev = (\<Sum>i \<leftarrow> [0..<lumas]. real (unat (prev i))),
          sum_differing = word_of_nat (length (filter (\<lambda>i. cur i \<noteq> prev i) [0..<lumas]))\<rparr>)"

text \<open>
  The files of one dump, in the order they are written: without the picture there is no flow. The
  directory is there whenever a dump was recorded.
\<close>

definition dump_files :: "string \<Rightarrow> (string \<Rightarrow> bool) \<Rightarrow> afmf_framegen \<Rightarrow> u8 list \<Rightarrow> (string \<times> u8 list) list" where
  "dump_files dir opens fg bytes =
     (if \<not> dump_recorded (fg_dump fg) then []
      else (case dump_path dir ''/afmf_generated_'' (unat (dump_frame (fg_dump fg))) ''.ppm'' of
              None \<Rightarrow> []
            | Some ppm \<Rightarrow>
                if \<not> opens ppm then []
                else (ppm, dump_ppm fg bytes) #
                  (case dump_path dir ''/afmf_flow_'' (unat (dump_frame (fg_dump fg))) ''.txt'' of
                     None \<Rightarrow> []
                   | Some flow \<Rightarrow> if \<not> opens flow then [] else [(flow, bytes_of (dump_flow fg bytes))])))"

section \<open>Reading them back\<close>

definition chars_of :: "u8 list \<Rightarrow> string" where
  "chars_of = map (\<lambda>b. char_of (unat b))"

lemma chars_of_bytes [simp]: "chars_of (bytes_of s) = s"
proof (induction s)
  case (Cons c s)
  have "(of_char c :: nat) < 2 ^ 8" using nat_of_char_less_256 by simp
  then show ?case using Cons by (simp add: chars_of_def bytes_of_def unat_of_nat)
qed (simp add: chars_of_def bytes_of_def)

lemma chars_of_append: "chars_of (xs @ ys) = chars_of xs @ chars_of ys"
  by (simp add: chars_of_def)

lemma length_bytes_of [simp]: "length (bytes_of s) = length s" "length (chars_of bs) = length bs"
  by (simp_all add: bytes_of_def chars_of_def)

text \<open>Numbers one after the other, as \<open>strtol\<close> reads them.\<close>

fun read_ints :: "nat \<Rightarrow> string \<Rightarrow> int list \<times> string" where
  "read_ints 0 s = ([], s)"
| "read_ints (Suc n) s = (case strtol10 s of (v, rest, _) \<Rightarrow> case read_ints n rest of (vs, s') \<Rightarrow> (v # vs, s'))"

definition read_flow :: "string \<Rightarrow> int list \<times> int list \<times> int list \<times> string" where
  "read_flow s =
     (case read_ints 2 s of (size', s) \<Rightarrow>
        case read_ints 3 (drop (length '' scd'') s) of (scd, s) \<Rightarrow>
          case read_ints (nat (2 * prod_list size')) s of (flow, s) \<Rightarrow> (size', scd, flow, s))"

definition read_ppm :: "u8 list \<Rightarrow> string \<times> int list \<times> u8 list" where
  "read_ppm bs =
     (case read_ints 3 (drop 2 (chars_of bs)) of (header, rest) \<Rightarrow>
        (take 2 (chars_of bs), header, drop (length bs - length rest + 1) bs))"

lemma digit_printed: "isdigit (char_of (48 + n mod 10 :: nat))" "digit_value (char_of (48 + n mod 10 :: nat)) = int (n mod 10)"
proof -
  have "n mod 10 < 10" by simp
  then have "(of_char (char_of (48 + n mod 10 :: nat)) :: nat) = 48 + n mod 10" by (simp add: of_char_of)
  then show "isdigit (char_of (48 + n mod 10 :: nat))" "digit_value (char_of (48 + n mod 10 :: nat)) = int (n mod 10)"
    using \<open>n mod 10 < 10\<close> by (simp_all add: isdigit_def digit_value_def)
qed

lemma digits_append: "digits_value (ds @ [c]) = 10 * digits_value ds + digit_value c"
  by (simp add: digits_value_def)

lemma print_nat_digits: "list_all isdigit (print_nat n) \<and> print_nat n \<noteq> [] \<and> digits_value (print_nat n) = int n"
proof (induction n rule: print_nat.induct)
  case (1 n)
  have unfold: "print_nat n = (if n < 10 then [] else print_nat (n div 10)) @ [char_of (48 + n mod 10)]"
    by (rule print_nat.simps)
  show ?case
  proof (cases "n < 10")
    case True
    then show ?thesis using digit_printed [of n] unfolding unfold by (simp add: digits_value_def)
  next
    case False
    have "10 * int (n div 10) + int (n mod 10) = int n" by presburger
    then show ?thesis using 1 False unfolding unfold digits_append by (simp add: digit_printed)
  qed
qed

text \<open>A number printed after blanks is read back, up to the first character that is no digit.\<close>

definition no_digit :: "string \<Rightarrow> bool" where
  "no_digit s \<longleftrightarrow> (s = [] \<or> \<not> isdigit (hd s))"

lemma digits_prefix:
  assumes "list_all isdigit ds" "no_digit rest"
  shows "takeWhile isdigit (ds @ rest) = ds" "dropWhile isdigit (ds @ rest) = rest"
proof -
  have "takeWhile isdigit rest = []" "dropWhile isdigit rest = rest"
    using assms(2) by (cases rest; simp add: no_digit_def)+
  then show "takeWhile isdigit (ds @ rest) = ds" "dropWhile isdigit (ds @ rest) = rest"
    using assms(1) by (simp_all add: takeWhile_append2 list_all_iff)
qed

lemma strtol10_printed:
  assumes ws: "list_all isspace ws" and rest: "no_digit rest" and range: "LONG_MIN \<le> v" "v \<le> LONG_MAX"
  shows "strtol10 (ws @ print_int v @ rest) = (v, rest, False)"
proof -
  define ds where "ds = print_nat (nat \<bar>v\<bar>)"
  have print: "print_int v = (if v < 0 then CHR ''-'' # ds else ds)" by (simp add: print_int_def ds_def)
  have ds: "list_all isdigit ds" "ds \<noteq> []" "digits_value ds = \<bar>v\<bar>"
    using print_nat_digits [of "nat \<bar>v\<bar>"] by (simp_all add: ds_def)
  then obtain d ds' where d: "ds = d # ds'" "isdigit d" by (cases ds) auto
  note prefix = digits_prefix [OF ds(1) rest]
  show ?thesis
  proof (cases "v < 0")
    case True
    then have skip: "dropWhile isspace (ws @ print_int v @ rest) = CHR ''-'' # ds @ rest"
      using ws by (simp add: print)
    show ?thesis using True ds(2,3) range by (simp add: strtol10_def Let_def skip prefix)
  next
    case False
    then have skip: "dropWhile isspace (ws @ print_int v @ rest) = ds @ rest"
      using ws d by (simp add: print)
    have "hd (ds @ rest) \<noteq> CHR ''-''" "hd (ds @ rest) \<noteq> CHR ''+''" "ds @ rest \<noteq> []"
      using isdigit_not_sign [OF d(2)] by (simp_all add: d(1))
    then show ?thesis using False ds(2,3) range by (simp add: strtol10_def Let_def skip prefix)
  qed
qed

text \<open>Several numbers, each after its blanks.\<close>

definition printed :: "(string \<times> int) list \<Rightarrow> string" where
  "printed = concat \<circ> map (\<lambda>(ws, v). ws @ print_int v)"

lemma printed_simps [simp]:
  "printed [] = []" "printed ((ws, v) # ps) = ws @ print_int v @ printed ps"
  "printed (ps @ qs) = printed ps @ printed qs" "printed (concat pss) = concat (map printed pss)"
  by (simp_all add: printed_def) (induction pss, simp_all)

definition long_sized :: "int \<Rightarrow> bool" where
  "long_sized v \<longleftrightarrow> LONG_MIN \<le> v \<and> v \<le> LONG_MAX"

lemma read_ints_printed:
  "list_all (\<lambda>(ws, v). list_all isspace ws \<and> long_sized v) ps \<Longrightarrow> list_all (\<lambda>(ws, v). ws \<noteq> []) (tl ps) \<Longrightarrow>
     no_digit rest \<Longrightarrow> read_ints (length ps) (printed ps @ rest) = (map snd ps, rest)"
proof (induction ps)
  case (Cons p ps)
  obtain ws v where p: "p = (ws, v)" by fastforce
  have "no_digit (printed ps @ rest)"
  proof (cases ps)
    case (Cons q qs)
    then obtain ws' v' where q: "q = (ws', v')" "ws' \<noteq> []" "list_all isspace ws'" using Cons.prems by (cases q) auto
    then obtain c cs where "ws' = c # cs" "isspace c" by (cases ws') auto
    then show ?thesis using Cons q by (auto simp: no_digit_def dest: isdigit_not_space)
  qed (simp add: Cons.prems)
  then have "strtol10 (printed (p # ps) @ rest) = (v, printed ps @ rest, False)"
    using strtol10_printed [of ws "printed ps @ rest" v] Cons.prems by (simp add: p long_sized_def)
  moreover have "list_all (\<lambda>(ws, v). ws \<noteq> []) (tl ps)" using Cons.prems by (cases ps) auto
  ultimately show ?case using Cons by (simp add: p del: printed_simps)
qed simp

section \<open>The files say what was read back\<close>

text \<open>A row with its separators after the blocks is the row with them before, one place along.\<close>

lemma row_separators:
  "nl @ concat (map (\<lambda>x. c x @ (if x + 1 < n then sp else nl)) [0..<n]) =
     concat (map (\<lambda>x. (if x = 0 then nl else sp) @ c x) [0..<n]) @ nl"
proof (cases n)
  case (Suc m)
  have before: "concat (map (\<lambda>x. c x @ (if x + 1 < n then sp else nl)) [0..<k]) = concat (map (\<lambda>x. c x @ sp) [0..<k])"
    if "k < n" for k
    using that by (intro arg_cong [where f = concat] map_cong) auto
  have shift: "nl @ concat (map (\<lambda>x. c x @ sp) [0..<k]) @ c k = concat (map (\<lambda>x. (if x = 0 then nl else sp) @ c x) [0..<Suc k])" for k
    by (induction k) auto
  show ?thesis using before [of m] shift [of m] by (simp add: Suc)
qed simp

definition flow_sep :: "nat \<Rightarrow> string" where
  "flow_sep x = (if x = 0 then [newline] else ''  '')"

definition flow_words :: "u8 list \<Rightarrow> nat \<Rightarrow> nat \<Rightarrow> nat \<Rightarrow> (string \<times> int) list" where
  "flow_words bytes base fw fh = concat (map (\<lambda>y. concat (map (\<lambda>x.
     [(flow_sep x, fst (flow_vector bytes base (y * fw + x))), ('' '', snd (flow_vector bytes base (y * fw + x)))])
     [0..<fw])) [0..<fh])"

lemma flow_rows_printed:
  "newline # concat (map (flow_row bytes base fw) [0..<fh]) = printed (flow_words bytes base fw fh) @ [newline]"
proof -
  let ?words = "\<lambda>y. concat (map (\<lambda>x. [(flow_sep x, fst (flow_vector bytes base (y * fw + x))),
     ('' '', snd (flow_vector bytes base (y * fw + x)))]) [0..<fw])"
  have row: "[newline] @ flow_row bytes base fw y = printed (?words y) @ [newline]" for y
    unfolding flow_row_def row_separators
    by (simp add: flow_sep_def flow_cell_def case_prod_beta o_def)
  have "[newline] @ concat (map (flow_row bytes base fw) [0..<fh]) = printed (concat (map ?words [0..<fh])) @ [newline]"
  proof (induction fh)
    case (Suc k)
    have "[newline] @ concat (map (flow_row bytes base fw) [0..<Suc k])
        = ([newline] @ concat (map (flow_row bytes base fw) [0..<k])) @ flow_row bytes base fw k" by simp
    also have "\<dots> = printed (concat (map ?words [0..<k])) @ [newline] @ flow_row bytes base fw k"
      unfolding Suc.IH by simp
    also have "\<dots> = printed (concat (map ?words [0..<Suc k])) @ [newline]" unfolding row by simp
    finally show ?case .
  qed (simp add: printed_def)
  then show ?thesis by (simp add: flow_words_def)
qed

lemma blanks: "isspace newline" "isspace CHR '' ''" "list_all isspace (flow_sep x)" "flow_sep x \<noteq> []"
  by (simp_all add: isspace_def flow_sep_def)

lemma flow_vector_range: "long_sized (fst (flow_vector bytes base i))" "long_sized (snd (flow_vector bytes base i))"
proof -
  have "- 32768 \<le> sint w \<and> sint w < 32768" for w :: "16 word"
    using sint_ge [of w] sint_lt [of w] by simp
  then show "long_sized (fst (flow_vector bytes base i))" "long_sized (snd (flow_vector bytes base i))"
    by (simp_all add: flow_vector_def long_sized_def) (smt (verit))+
qed

lemma flow_words_ok:
  "list_all (\<lambda>(ws, v). list_all isspace ws \<and> long_sized v \<and> ws \<noteq> []) (flow_words bytes base fw fh)"
  by (auto simp: flow_words_def list_all_iff blanks flow_vector_range intro: blanks(3) [unfolded list_all_iff, rule_format])

lemma flow_words_length: "length (flow_words bytes base fw fh) = 2 * (fw * fh)"
proof -
  have "length (flow_words bytes base fw fh) = (\<Sum>y \<leftarrow> [0..<fh]. \<Sum>x \<leftarrow> [0..<fw]. Suc (Suc 0))"
    by (simp add: flow_words_def length_concat o_def)
  then show ?thesis by (simp add: sum_list_triv algebra_simps)
qed

lemma flow_words_values:
  "map snd (flow_words bytes base fw fh) = concat (map (\<lambda>y. concat (map (\<lambda>x.
     [fst (flow_vector bytes base (y * fw + x)), snd (flow_vector bytes base (y * fw + x))]) [0..<fw])) [0..<fh])"
  by (simp add: flow_words_def map_concat o_def)

lemma print_unat: "print_nat n = print_int (int n)"
  by (simp add: print_int_def)

lemma long_sized_unat: "long_sized (int (unat (w :: u32)))"
proof -
  have "uint w < 4294967296" using unsigned_less [of w, where 'a = int] by simp
  moreover have "0 \<le> uint w" by simp
  ultimately show ?thesis unfolding long_sized_def of_nat_unat by (intro conjI) linarith+
qed

lemma read_ints_at: "n = length ps \<Longrightarrow> list_all (\<lambda>(ws, v). list_all isspace ws \<and> long_sized v) ps \<Longrightarrow>
    list_all (\<lambda>(ws, v). ws \<noteq> []) (tl ps) \<Longrightarrow> no_digit rest \<Longrightarrow> s = printed ps @ rest \<Longrightarrow> read_ints n s = (map snd ps, rest)"
  using read_ints_printed by simp

lemma read_flow_file:
  "read_flow (dump_flow fg bytes) =
     (let fw = unat (width (fg_flow_size fg ! 0)); fh = unat (height (fg_flow_size fg ! 0))
      in ([int fw, int fh], map (\<lambda>k. int (scd_word fg bytes k)) [0, 1, 2],
          map snd (flow_words bytes (dump_base fg) fw fh), [newline]))"
proof -
  define fw fh where "fw = unat (width (fg_flow_size fg ! 0))" and "fh = unat (height (fg_flow_size fg ! 0))"
  let ?sizes = "[([], int fw), ('' '', int fh)]" and ?scd = "map (\<lambda>k. ('' '', int (scd_word fg bytes k))) [0, 1, 2]"
  let ?words = "flow_words bytes (dump_base fg) fw fh"
  have flow: "dump_flow fg bytes = printed ?sizes @ '' scd'' @ printed ?scd @ printed ?words @ [newline]"
    unfolding dump_flow_def fw_def [symmetric] fh_def [symmetric] Let_def
    using flow_rows_printed [of bytes "dump_base fg" fw fh] by (simp add: print_unat)
  have sized: "long_sized (int fw)" "long_sized (int fh)" "long_sized (int (scd_word fg bytes k))" for k
    by (simp_all add: fw_def fh_def scd_word_def long_sized_unat del: of_nat_unat)
  have r1: "read_ints 2 (dump_flow fg bytes) = ([int fw, int fh], '' scd'' @ printed ?scd @ printed ?words @ [newline])"
    by (subst read_ints_at [of _ ?sizes, OF _ _ _ _ flow]) (simp_all add: sized blanks no_digit_def isdigit_def)
  have "no_digit (printed ?words @ [newline])"
    using flow_rows_printed [of bytes "dump_base fg" fw fh, symmetric] by (simp add: no_digit_def isdigit_def)
  then have r2: "read_ints 3 (printed ?scd @ printed ?words @ [newline]) = (map snd ?scd, printed ?words @ [newline])"
    by (subst read_ints_at [of _ ?scd, OF _ _ _ _ refl]) (simp_all add: sized blanks)
  have r3: "read_ints (2 * (fw * fh)) (printed ?words @ [newline]) = (map snd ?words, [newline])"
  proof (rule read_ints_at [OF _ _ _ _ refl])
    have all: "list_all P ?words" if "\<And>ws v. list_all isspace ws \<and> long_sized v \<and> ws \<noteq> [] \<Longrightarrow> P (ws, v)" for P
      using flow_words_ok [of bytes "dump_base fg" fw fh] that by (fastforce simp: list_all_iff)
    show "list_all (\<lambda>(ws, v). list_all isspace ws \<and> long_sized v) ?words" by (rule all) simp
    have "list_all (\<lambda>(ws, v). ws \<noteq> []) ?words" by (rule all) simp
    then show "list_all (\<lambda>(ws, v). ws \<noteq> []) (tl ?words)" by (cases ?words) simp_all
  qed (simp_all add: flow_words_length no_digit_def isdigit_def)
  have "nat (2 * prod_list [int fw, int fh]) = 2 * (fw * fh)" by (simp flip: of_nat_mult add: nat_mult_distrib)
  then show ?thesis
    unfolding fw_def [symmetric] fh_def [symmetric] Let_def read_flow_def r1 prod.case
    using r2 r3 by simp
qed

lemma read_ppm_file:
  "read_ppm (dump_ppm fg bytes) =
     (let w = unat (width (fg_extent fg)); h = unat (height (fg_extent fg))
      in (''P6'', [int w, int h, 255], dump_picture (fg_variant fg) w h bytes))"
proof -
  define w h where "w = unat (width (fg_extent fg))" and "h = unat (height (fg_extent fg))"
  define picture where "picture = dump_picture (fg_variant fg) w h bytes"
  let ?header = "[([newline], int w), ('' '', int h), ([newline], 255)]"
  have text': "dump_ppm fg bytes = bytes_of (''P6'' @ printed ?header @ [newline]) @ picture"
  proof -
    have "print_int 255 = ''255''" by code_simp
    then show ?thesis by (simp add: dump_ppm_def w_def h_def picture_def Let_def print_unat bytes_of_def del: of_nat_unat)
  qed
  have chars: "chars_of (dump_ppm fg bytes) = ''P6'' @ printed ?header @ newline # chars_of picture"
    by (simp only: text' chars_of_append chars_of_bytes) simp
  have "long_sized (int w)" "long_sized (int h)" "long_sized 255"
    by (simp_all add: w_def h_def long_sized_unat del: of_nat_unat) (simp add: long_sized_def)
  then have "read_ints 3 (printed ?header @ newline # chars_of picture) = ([int w, int h, 255], newline # chars_of picture)"
    by (subst read_ints_at [of _ ?header, OF _ _ _ _ refl]) (simp_all add: blanks no_digit_def isdigit_def)
  then show ?thesis
    unfolding read_ppm_def chars w_def [symmetric] h_def [symmetric] Let_def picture_def [symmetric]
    by (simp add: text')
qed

lemma dump_parts:
  "map fst (dump_regions fg) = [0, dump_base fg, dump_raw fg, dump_scd fg, dump_luma_cur fg, dump_luma_prev fg]"
  by (simp add: dump_regions_def dump_base_def dump_raw_def dump_scd_def dump_luma_cur_def dump_luma_prev_def Let_def)


definition tiny_dump :: afmf_framegen where
  "tiny_dump = fg_zero\<lparr>fg_variant := VARIANT_RGBA8, fg_extent := \<lparr>width = 1, height = 1\<rparr>,
     fg_flow_size := [\<lparr>width = 1, height = 1\<rparr>], fg_luma_size := [\<lparr>width = 1, height = 1\<rparr>],
     fg_dump := (fg_dump fg_zero)\<lparr>dump_recorded := True, dump_frame := 42\<rparr>\<rparr>"

definition tiny_readback :: "u8 list" where
  "tiny_readback = [10, 20, 30, 255, 0xFF, 0xFF, 5, 0, 0, 0, 0, 0, 1, 0, 0, 0, 2, 0, 0, 0, 0, 0, 0, 0, 7, 9]"


end
